(* ===== verification/Prelude.thy ===== *)
theory Prelude
  imports Main "HOL-Library.Word" "HOL-Library.Char_ord" "HOL-Library.List_Lexorder"
    "HOL-Library.Product_Lexorder"
begin

text \<open>
  Shared vocabulary of the development: results (\<open>Ok\<close>/\<open>Err\<close> over the sum type), machine integers
  as \<open>int\<close> with the wrap-around written out, decimal printing and parsing as Rust's
  \<open>Display\<close>/\<open>FromStr\<close> do it, string splitting, and \<open>BTreeMap\<close> as a key-sorted association list
  behind the interface locale \<open>ordered_map\<close>.
\<close>

named_theorems res_simps \<open>how results propagate through \<open>?\<close> and iterator collects\<close>
named_theorems wrap_simps \<open>wrap-around operations inside their range\<close>
named_theorems chr_simps \<open>which separator characters printed values avoid\<close>

section \<open>Results\<close>

text \<open>Rust's \<open>Result<T, E>\<close>; \<open>res_bind\<close> is the \<open>?\<close> operator.\<close>

type_synonym ('e, 'a) result = "'e + 'a"

abbreviation Ok :: "'a \<Rightarrow> ('e, 'a) result" where "Ok \<equiv> Inr"
abbreviation Err :: "'e \<Rightarrow> ('e, 'a) result" where "Err \<equiv> Inl"

definition res_bind :: "('e, 'a) result \<Rightarrow> ('a \<Rightarrow> ('e, 'b) result) \<Rightarrow> ('e, 'b) result" where
  "res_bind m f = (case m of Err e \<Rightarrow> Err e | Ok x \<Rightarrow> f x)"

definition res_map_err :: "('e \<Rightarrow> 'f) \<Rightarrow> ('e, 'a) result \<Rightarrow> ('f, 'a) result" where
  "res_map_err g m = (case m of Err e \<Rightarrow> Err (g e) | Ok x \<Rightarrow> Ok x)"

definition ok_or :: "'e \<Rightarrow> 'a option \<Rightarrow> ('e, 'a) result" where
  "ok_or e m = (case m of None \<Rightarrow> Err e | Some x \<Rightarrow> Ok x)"

definition is_ok :: "('e, 'a) result \<Rightarrow> bool" where
  "is_ok m = (case m of Err _ \<Rightarrow> False | Ok _ \<Rightarrow> True)"

definition guard_ok :: "bool \<Rightarrow> 'e \<Rightarrow> ('e, unit) result" where
  "guard_ok b e = (if b then Ok () else Err e)"

lemma res_bind_simps [simp]:
  "res_bind (Ok x) f = f x"
  "res_bind (Err e) f = Err e"
  by (simp_all add: res_bind_def)

lemma res_bind_Ok_iff [simp]: "res_bind m f = Ok y \<longleftrightarrow> (\<exists>x. m = Ok x \<and> f x = Ok y)"
  by (cases m) auto

lemma res_bind_Err_iff: "res_bind m f = Err e \<longleftrightarrow> m = Err e \<or> (\<exists>x. m = Ok x \<and> f x = Err e)"
  by (cases m) auto

lemma res_bind_cong [fundef_cong]:
  "m = m' \<Longrightarrow> (\<And>x. m' = Ok x \<Longrightarrow> f x = f' x) \<Longrightarrow> res_bind m f = res_bind m' f'"
  by (cases m) auto

lemma res_map_err_simps [simp]:
  "res_map_err g (Ok x) = Ok x"
  "res_map_err g (Err e) = Err (g e)"
  "res_map_err g m = Ok y \<longleftrightarrow> m = Ok y"
  by (cases m; simp add: res_map_err_def)+

lemma ok_or_simps [simp]:
  "ok_or e (Some x) = Ok x"
  "ok_or e None = Err e"
  "ok_or e m = Ok y \<longleftrightarrow> m = Some y"
  by (cases m; simp add: ok_or_def)+

lemma is_ok_simps [simp]: "is_ok (Ok x)" "\<not> is_ok (Err e)"
  by (simp_all add: is_ok_def)

lemma is_ok_iff: "is_ok m \<longleftrightarrow> (\<exists>x. m = Ok x)"
  by (cases m) auto

lemma guard_ok_simps [simp]:
  "guard_ok True e = Ok ()" "guard_ok False e = Err e" "guard_ok b e = Ok u \<longleftrightarrow> b"
  by (simp_all add: guard_ok_def)

text \<open>\<open>iter().map(f).collect::<Result<Vec<_>, _>>()\<close> and a fallible \<open>for\<close> loop over a state.\<close>

fun collect_res :: "('a \<Rightarrow> ('e, 'b) result) \<Rightarrow> 'a list \<Rightarrow> ('e, 'b list) result" where
  "collect_res f [] = Ok []"
| "collect_res f (x # xs) = res_bind (f x) (\<lambda>y. res_bind (collect_res f xs) (\<lambda>ys. Ok (y # ys)))"

fun fold_res :: "('s \<Rightarrow> 'a \<Rightarrow> ('e, 's) result) \<Rightarrow> 's \<Rightarrow> 'a list \<Rightarrow> ('e, 's) result" where
  "fold_res f s [] = Ok s"
| "fold_res f s (x # xs) = res_bind (f s x) (\<lambda>s'. fold_res f s' xs)"

lemma collect_res_Ok_iff:
  "collect_res f xs = Ok ys \<longleftrightarrow> list_all2 (\<lambda>x y. f x = Ok y) xs ys"
  by (induction xs arbitrary: ys) (auto simp: list_all2_Cons1)

lemma list_all2_mem: "list_all2 P xs ys \<Longrightarrow> x \<in> set xs \<Longrightarrow> \<exists>y \<in> set ys. P x y"
  by (induction rule: list_all2_induct) auto

lemma collect_res_map_Ok: "(\<And>x. x \<in> set xs \<Longrightarrow> f x = Ok (g x)) \<Longrightarrow> collect_res f xs = Ok (map g xs)"
  by (induction xs) auto

lemma collect_res_mem: "collect_res f xs = Ok ys \<Longrightarrow> y \<in> set ys \<Longrightarrow> \<exists>x \<in> set xs. f x = Ok y"
  by (induction xs arbitrary: ys) auto

lemma collect_res_map: "collect_res f (map g xs) = collect_res (\<lambda>x. f (g x)) xs"
  by (induction xs) simp_all

lemma fold_res_append: "fold_res f s (xs @ ys) = res_bind (fold_res f s xs) (\<lambda>s'. fold_res f s' ys)"
proof (induction xs arbitrary: s)
  case (Cons x xs)
  then show ?case by (cases "f s x") simp_all
qed simp

lemma fold_res_invariant:
  assumes "fold_res f s xs = Ok s'" "P s"
    and "\<And>s x s'. x \<in> set xs \<Longrightarrow> P s \<Longrightarrow> f s x = Ok s' \<Longrightarrow> P s'"
  shows "P s'"
  using assms
proof (induction xs arbitrary: s)
  case (Cons x xs)
  then obtain s1 where "f s x = Ok s1" "fold_res f s1 xs = Ok s'" by auto
  with Cons.prems(2,3) have "P s1" by (meson list.set_intros(1))
  with \<open>fold_res f s1 xs = Ok s'\<close> show ?case
    using Cons.prems(3) by (intro Cons.IH) (auto intro: list.set_intros(2))
qed simp

section \<open>Stateful calls\<close>

text \<open>
  An \<open>async fn\<close> that may fail, over an explicit state: the state is returned on the error path too, so
  that what a call has done before it failed stays visible.
\<close>

type_synonym ('s, 'e, 'a) io = "'s \<Rightarrow> ('e, 'a) result \<times> 's"

definition io_return :: "'a \<Rightarrow> ('s, 'e, 'a) io" where "io_return x = (\<lambda>s. (Ok x, s))"
definition io_result :: "('e, 'a) result \<Rightarrow> ('s, 'e, 'a) io" where "io_result r = (\<lambda>s. (r, s))"

definition io_bind :: "('s, 'e, 'a) io \<Rightarrow> ('a \<Rightarrow> ('s, 'e, 'b) io) \<Rightarrow> ('s, 'e, 'b) io" where
  "io_bind m f = (\<lambda>s. case m s of (Err e, s') \<Rightarrow> (Err e, s') | (Ok x, s') \<Rightarrow> f x s')"

text \<open>\<open>match call.await { Ok(x) => .., Err(e) => .. }\<close>.\<close>

definition io_match ::
  "('s, 'e, 'a) io \<Rightarrow> ('a \<Rightarrow> ('s, 'f, 'b) io) \<Rightarrow> ('e \<Rightarrow> ('s, 'f, 'b) io) \<Rightarrow> ('s, 'f, 'b) io" where
  "io_match m f h = (\<lambda>s. case m s of (Err e, s') \<Rightarrow> h e s' | (Ok x, s') \<Rightarrow> f x s')"

fun io_for :: "('a \<Rightarrow> ('s, 'e, unit) io) \<Rightarrow> 'a list \<Rightarrow> ('s, 'e, unit) io" where
  "io_for f [] = io_return ()"
| "io_for f (x # xs) = io_bind (f x) (\<lambda>_. io_for f xs)"

text \<open>A relation that every run of a call establishes between the state before and after, whatever the result.\<close>

definition io_keeps :: "('s \<Rightarrow> 's \<Rightarrow> bool) \<Rightarrow> ('s, 'e, 'a) io \<Rightarrow> bool" where
  "io_keeps R m \<longleftrightarrow> (\<forall>s. R s (snd (m s)))"

lemma io_keepsD: "io_keeps R m \<Longrightarrow> m s = (r, s') \<Longrightarrow> R s s'"
  by (metis io_keeps_def snd_conv)

lemma io_keeps_pure [intro]: "reflp R \<Longrightarrow> io_keeps R (io_return x)" "reflp R \<Longrightarrow> io_keeps R (io_result r)"
  by (simp_all add: io_keeps_def io_return_def io_result_def reflp_def)

lemma io_bind_match: "io_bind m f = io_match m f (\<lambda>e. io_result (Err e))"
  by (simp add: io_bind_def io_match_def io_result_def)

lemma io_keeps_match:
  assumes "transp R" "io_keeps R m" "\<And>x. io_keeps R (f x)" "\<And>e. io_keeps R (h e)"
  shows "io_keeps R (io_match m f h)"
  unfolding io_keeps_def
proof
  fix s
  obtain r s' where m: "m s = (r, s')" by (cases "m s")
  then have "R s s'" by (rule io_keepsD [OF assms(2)])
  moreover have "R s' (snd (f x s'))" "R s' (snd (h e s'))" for x e
    using assms(3,4) by (simp_all add: io_keeps_def)
  ultimately show "R s (snd (io_match m f h s))"
    using assms(1) by (cases r) (auto simp: io_match_def m dest: transpD)
qed

lemma io_keeps_bind:
  "reflp R \<Longrightarrow> transp R \<Longrightarrow> io_keeps R m \<Longrightarrow> (\<And>x. io_keeps R (f x)) \<Longrightarrow> io_keeps R (io_bind m f)"
  unfolding io_bind_match by (rule io_keeps_match) auto

lemma io_keeps_for: "reflp R \<Longrightarrow> transp R \<Longrightarrow> (\<And>x. x \<in> set xs \<Longrightarrow> io_keeps R (f x)) \<Longrightarrow> io_keeps R (io_for f xs)"
  by (induction xs) (auto intro: io_keeps_bind)

lemma io_bind_Ok_iff [simp]:
  "io_bind m f s = (Ok y, t) \<longleftrightarrow> (\<exists>x s'. m s = (Ok x, s') \<and> f x s' = (Ok y, t))"
  by (auto simp: io_bind_def split: prod.splits sum.splits)

lemma snd_io_bind: "snd (io_bind m f s) = (case m s of (Err e, s') \<Rightarrow> s' | (Ok x, s') \<Rightarrow> snd (f x s'))"
  by (simp add: io_bind_def split: prod.split sum.split)

text \<open>Sequencing a call whose follow-up needs what the call has achieved.\<close>

lemma io_bind_step:
  assumes "\<And>r s'. m s = (r, s') \<Longrightarrow> R s s'" "transp R"
    and "\<And>x s'. m s = (Ok x, s') \<Longrightarrow> R s' (snd (f x s'))"
  shows "R s (snd (io_bind m f s))"
proof (cases "m s")
  case (Pair r s')
  have "R s s'" by (rule assms(1) [OF Pair])
  with Pair assms(3) show ?thesis
    by (cases r) (auto simp: snd_io_bind dest: transpD [OF assms(2)])
qed

lemma io_match_Ok_iff:
  "io_match m f h s = (r, t) \<longleftrightarrow>
     (\<exists>x s'. m s = (Ok x, s') \<and> f x s' = (r, t)) \<or> (\<exists>e s'. m s = (Err e, s') \<and> h e s' = (r, t))"
  by (auto simp: io_match_def split: prod.splits sum.splits)

lemma io_pure_simps [simp]: "io_return x s = (Ok x, s)" "io_result r s = (r, s)"
  by (simp_all add: io_return_def io_result_def)

section \<open>Machine integers\<close>

text \<open>
  Rust's \<open>i64\<close>, \<open>i32\<close> and \<open>u32\<close> as \<open>int\<close>. An addition whose overflow can be reached wraps as a
  release build does (the workspace sets no \<open>overflow-checks\<close>).
\<close>

definition in_i64 :: "int \<Rightarrow> bool" where "in_i64 x \<longleftrightarrow> - (2 ^ 63) \<le> x \<and> x < 2 ^ 63"
definition in_i32 :: "int \<Rightarrow> bool" where "in_i32 x \<longleftrightarrow> - (2 ^ 31) \<le> x \<and> x < 2 ^ 31"

definition wrap_i64 :: "int \<Rightarrow> int" where "wrap_i64 x = signed_take_bit 63 x"
definition wrap_i32 :: "int \<Rightarrow> int" where "wrap_i32 x = signed_take_bit 31 x"
definition wrap_u32 :: "nat \<Rightarrow> nat" where "wrap_u32 n = n mod 2 ^ 32"

lemma wrap_i64_id [wrap_simps]: "in_i64 x \<Longrightarrow> wrap_i64 x = x"
  by (simp add: in_i64_def wrap_i64_def signed_take_bit_int_eq_self)

lemma wrap_i32_id [wrap_simps]: "in_i32 x \<Longrightarrow> wrap_i32 x = x"
  by (simp add: in_i32_def wrap_i32_def signed_take_bit_int_eq_self)

lemma wrap_u32_id [wrap_simps]: "n < 2 ^ 32 \<Longrightarrow> wrap_u32 n = n"
  by (simp add: wrap_u32_def)

lemma in_i64_wrap [simp]: "in_i64 (wrap_i64 x)"
  using signed_take_bit_int_greater_eq_minus_exp [of 63 x] signed_take_bit_int_less_exp [of 63 x]
  by (simp add: in_i64_def wrap_i64_def)

section \<open>Decimal numbers\<close>

definition digit_char :: "nat \<Rightarrow> char" where "digit_char d = char_of (48 + d)"
definition is_digit :: "char \<Rightarrow> bool" where
  "is_digit c \<longleftrightarrow> 48 \<le> (of_char c :: nat) \<and> (of_char c :: nat) \<le> 57"
definition digit_val :: "char \<Rightarrow> nat" where "digit_val c = of_char c - 48"

fun show_nat :: "nat \<Rightarrow> string" where
  "show_nat n = (if n < 10 then [digit_char n] else show_nat (n div 10) @ [digit_char (n mod 10)])"

declare show_nat.simps [simp del]

definition show_int :: "int \<Rightarrow> string" where
  "show_int i = (if i < 0 then CHR ''-'' # show_nat (nat (- i)) else show_nat (nat i))"

definition digits_val :: "string \<Rightarrow> nat" where
  "digits_val s = foldl (\<lambda>n c. 10 * n + digit_val c) 0 s"

definition parse_nat :: "string \<Rightarrow> nat option" where
  "parse_nat s = (if s \<noteq> [] \<and> list_all is_digit s then Some (digits_val s) else None)"

text \<open>\<open>str::parse::<i64>\<close>: an optional sign, at least one digit, and a value in range.\<close>

definition parse_i64 :: "string \<Rightarrow> int option" where
  "parse_i64 s =
     (case s of
        [] \<Rightarrow> None
      | c # r \<Rightarrow>
          (let signed = (if c = CHR ''-'' then map_option (\<lambda>n. - int n) (parse_nat r)
                         else if c = CHR ''+'' then map_option int (parse_nat r)
                         else map_option int (parse_nat s))
           in case signed of None \<Rightarrow> None | Some i \<Rightarrow> if in_i64 i then Some i else None))"

lemma digit_val_char: "d < 10 \<Longrightarrow> digit_val (digit_char d) = d"
  by (simp add: digit_val_def digit_char_def)

lemma is_digit_char: "d < 10 \<Longrightarrow> is_digit (digit_char d)"
  by (simp add: is_digit_def digit_char_def)

lemma show_nat_digits: "list_all is_digit (show_nat n)"
  by (induction n rule: show_nat.induct) (subst show_nat.simps, simp add: is_digit_char)

lemma show_nat_nonempty [simp]: "show_nat n \<noteq> []"
  by (subst show_nat.simps) simp

lemma digits_val_show_nat: "digits_val (show_nat n) = n"
proof (induction n rule: show_nat.induct)
  case (1 n)
  show ?case
  proof (cases "n < 10")
    case True
    then show ?thesis by (subst show_nat.simps) (simp add: digits_val_def digit_val_char)
  next
    case False
    have "digits_val (show_nat n) = 10 * digits_val (show_nat (n div 10)) + n mod 10"
      using False by (subst show_nat.simps) (simp add: digits_val_def digit_val_char)
    with "1" False show ?thesis by simp
  qed
qed

lemma parse_nat_show_nat [simp]: "parse_nat (show_nat n) = Some n"
  by (simp add: parse_nat_def show_nat_digits digits_val_show_nat)

lemma show_nat_inject [simp]: "show_nat m = show_nat n \<longleftrightarrow> m = n"
  by (metis digits_val_show_nat)

lemma show_nat_chars [chr_simps]: "\<not> is_digit c \<Longrightarrow> c \<notin> set (show_nat n)"
  using show_nat_digits [of n] by (auto simp: list_all_iff)

lemma sep_not_digit [chr_simps]:
  "\<not> is_digit (CHR ''/'')" "\<not> is_digit (CHR '':'')" "\<not> is_digit (CHR ''-'')"
  "\<not> is_digit (CHR ''+'')" "\<not> is_digit (CHR 0x00)" "\<not> is_digit (CHR ''t'')" "\<not> is_digit (CHR ''c'')"
  by (simp_all add: is_digit_def)

lemma show_int_nonempty [simp]: "show_int i \<noteq> []"
  by (simp add: show_int_def)

lemma show_int_chars [chr_simps]:
  "\<not> is_digit c \<Longrightarrow> c \<noteq> CHR ''-'' \<Longrightarrow> c \<notin> set (show_int i)"
  by (auto simp: show_int_def show_nat_chars)

lemma show_nat_hd_not_minus: "show_nat n \<noteq> CHR ''-'' # r"
  using show_nat_chars [of "CHR ''-''" n] sep_not_digit by (metis list.set_intros(1))

lemma show_int_inject [simp]: "show_int i = show_int j \<longleftrightarrow> i = j"
  by (auto simp: show_int_def show_nat_hd_not_minus show_nat_hd_not_minus [symmetric] split: if_splits)

lemma parse_i64_show_int: "in_i64 i \<Longrightarrow> parse_i64 (show_int i) = Some i"
proof (cases "i < 0")
  case False
  assume i: "in_i64 i"
  obtain c r where s: "show_nat (nat i) = c # r" by (cases "show_nat (nat i)") auto
  have "c \<in> set (show_nat (nat i))" by (simp add: s)
  then have "c \<noteq> CHR ''-''" "c \<noteq> CHR ''+''"
    using show_nat_chars sep_not_digit by metis+
  with False i s show ?thesis
    using parse_nat_show_nat [of "nat i"] by (simp add: show_int_def parse_i64_def)
qed (simp add: show_int_def parse_i64_def)

lemma parse_i64_range: "parse_i64 s = Some i \<Longrightarrow> in_i64 i"
  by (auto simp: parse_i64_def Let_def split: list.splits option.splits if_splits)

section \<open>Strings\<close>

text \<open>\<open>str::split(c)\<close> (always at least one part) and \<open>str::split_once(c)\<close>.\<close>

fun split_on :: "char \<Rightarrow> string \<Rightarrow> string list" where
  "split_on c [] = [[]]"
| "split_on c (x # xs) =
     (if x = c then [] # split_on c xs
      else (case split_on c xs of [] \<Rightarrow> [[x]] | p # ps \<Rightarrow> (x # p) # ps))"

definition split_once :: "char \<Rightarrow> string \<Rightarrow> (string \<times> string) option" where
  "split_once c s = (case dropWhile (\<lambda>x. x \<noteq> c) s of
     [] \<Rightarrow> None | _ # r \<Rightarrow> Some (takeWhile (\<lambda>x. x \<noteq> c) s, r))"

lemma split_on_nonempty [simp]: "split_on c s \<noteq> []"
  by (induction s) (auto split: list.splits)

lemma split_on_no_sep: "c \<notin> set s \<Longrightarrow> split_on c s = [s]"
  by (induction s) auto

lemma split_on_append: "c \<notin> set a \<Longrightarrow> split_on c (a @ c # b) = a # split_on c b"
  by (induction a) auto

lemma split_on_parts: "p \<in> set (split_on c s) \<Longrightarrow> c \<notin> set p"
  by (induction s arbitrary: p) (auto split: if_splits list.splits)

lemma split_on_hd: "hd (split_on c s) = takeWhile (\<lambda>x. x \<noteq> c) s"
proof (induction s)
  case (Cons x xs)
  then show ?case by (cases "split_on c xs") auto
qed simp

lemma split_once_append: "c \<notin> set a \<Longrightarrow> split_once c (a @ c # b) = Some (a, b)"
  by (induction a) (auto simp: split_once_def split: list.splits)

text \<open>A separator that one side avoids splits a string in one way only.\<close>

lemma append_first_sep:
  fixes c :: char
  assumes "c \<notin> set a" "c \<notin> set b"
  shows "a @ c # x = b @ c # y \<longleftrightarrow> a = b \<and> x = y"
proof
  assume "a @ c # x = b @ c # y"
  then have "split_once c (a @ c # x) = split_once c (b @ c # y)" by simp
  with assms show "a = b \<and> x = y" by (simp add: split_once_append)
qed simp

lemma append_last_sep:
  fixes c :: char
  assumes "c \<notin> set x" "c \<notin> set y"
  shows "a @ c # x = b @ c # y \<longleftrightarrow> a = b \<and> x = y"
proof
  assume "a @ c # x = b @ c # y"
  then have "rev (a @ c # x) = rev (b @ c # y)" by (rule arg_cong)
  then have "rev x @ c # rev a = rev y @ c # rev b" by simp
  with assms show "a = b \<and> x = y" by (subst (asm) append_first_sep) auto
qed simp

section \<open>Floating point\<close>

text \<open>
  An \<open>f64\<close> is its IEEE 754 bit pattern. Rust's \<open>==\<close> on it is not identity: a NaN differs from
  everything, itself included, and the two zeros are equal.
\<close>

type_synonym f64 = "64 word"

unbundle bit_operations_syntax

definition f64_is_nan :: "f64 \<Rightarrow> bool" where
  "f64_is_nan w \<longleftrightarrow> drop_bit 52 w AND 0x7FF = 0x7FF \<and> w AND 0xFFFFFFFFFFFFF \<noteq> 0"

definition f64_is_zero :: "f64 \<Rightarrow> bool" where
  "f64_is_zero w \<longleftrightarrow> w AND 0x7FFFFFFFFFFFFFFF = 0"

definition f64_eq :: "f64 \<Rightarrow> f64 \<Rightarrow> bool" where
  "f64_eq a b \<longleftrightarrow> \<not> f64_is_nan a \<and> \<not> f64_is_nan b \<and> (a = b \<or> f64_is_zero a \<and> f64_is_zero b)"

lemma f64_eq_refl: "f64_eq a a \<longleftrightarrow> \<not> f64_is_nan a"
  by (simp add: f64_eq_def)

section \<open>Ordered maps\<close>

text \<open>
  What the code relies on of \<open>BTreeMap\<close>: lookups see the last insert for a key, and iteration
  visits the entries in strictly increasing key order.
\<close>

locale ordered_map =
  fixes empty :: "'m"
    and get :: "'m \<Rightarrow> 'k::linorder \<Rightarrow> 'v option"
    and put :: "'k \<Rightarrow> 'v \<Rightarrow> 'm \<Rightarrow> 'm"
    and entries :: "'m \<Rightarrow> ('k \<times> 'v) list"
    and invar :: "'m \<Rightarrow> bool"
  assumes invar_empty: "invar empty"
    and invar_put: "invar m \<Longrightarrow> invar (put k v m)"
    and get_empty: "get empty k = None"
    and get_put: "invar m \<Longrightarrow> get (put k v m) k' = (if k' = k then Some v else get m k')"
    and get_entries: "invar m \<Longrightarrow> get m k = map_of (entries m) k"
    and entries_sorted: "invar m \<Longrightarrow> sorted_wrt (<) (map fst (entries m))"
begin

lemma entries_distinct: "invar m \<Longrightarrow> distinct (map fst (entries m))"
  using entries_sorted strict_sorted_iff by blast

lemma entries_Some: "invar m \<Longrightarrow> (k, v) \<in> set (entries m) \<longleftrightarrow> get m k = Some v"
  by (simp add: get_entries entries_distinct)

lemma entries_keys: "invar m \<Longrightarrow> fst ` set (entries m) = {k. get m k \<noteq> None}"
  by (force simp: entries_Some [symmetric])

lemma entries_eq_iff:
  assumes "invar m" "invar m'"
  shows "entries m = entries m' \<longleftrightarrow> (\<forall>k. get m k = get m' k)"
proof
  assume "\<forall>k. get m k = get m' k"
  then have eq: "set (entries m) = set (entries m')"
    using assms by (auto simp: entries_Some)
  moreover have "inj_on fst (set (entries m))"
    using assms entries_distinct distinct_map by blast
  ultimately show "entries m = entries m'"
    using assms entries_sorted strict_sorted_iff by (metis map_sorted_distinct_set_unique sup.idem)
qed (use assms get_entries in auto)

text \<open>A loop that looks a key up and writes it back: per key, only its own elements matter.\<close>

lemma invar_accumulate:
  "invar m \<Longrightarrow> invar (foldl (\<lambda>m x. put (key x) (add (get m (key x)) x) m) m xs)"
  by (induction xs arbitrary: m) (auto simp: invar_put)

lemma get_accumulate:
  "invar m \<Longrightarrow> get (foldl (\<lambda>m x. put (key x) (add (get m (key x)) x) m) m xs) k =
     foldl (\<lambda>a x. Some (add a x)) (get m k) (filter (\<lambda>x. key x = k) xs)"
  by (induction xs arbitrary: m) (auto simp: invar_put get_put)

end

text \<open>\<open>BTreeMap\<close> as an association list kept sorted by key.\<close>

type_synonym ('k, 'v) btree_map = "('k \<times> 'v) list"

fun bt_insert :: "'k::linorder \<Rightarrow> 'v \<Rightarrow> ('k, 'v) btree_map \<Rightarrow> ('k, 'v) btree_map" where
  "bt_insert k v [] = [(k, v)]"
| "bt_insert k v ((k', v') # m) =
     (if k < k' then (k, v) # (k', v') # m
      else if k = k' then (k, v) # m
      else (k', v') # bt_insert k v m)"

definition bt_get :: "('k, 'v) btree_map \<Rightarrow> 'k \<Rightarrow> 'v option" where
  "bt_get m k = map_of m k"

definition bt_sorted :: "('k::linorder, 'v) btree_map \<Rightarrow> bool" where
  "bt_sorted m \<longleftrightarrow> sorted_wrt (<) (map fst m)"

text \<open>\<open>entry(k).or_default()\<close> followed by a write through the entry.\<close>

definition bt_upsert ::
  "'k::linorder \<Rightarrow> ('v option \<Rightarrow> 'v) \<Rightarrow> ('k, 'v) btree_map \<Rightarrow> ('k, 'v) btree_map" where
  "bt_upsert k f m = bt_insert k (f (bt_get m k)) m"

definition bt_values :: "('k, 'v) btree_map \<Rightarrow> 'v list" where "bt_values m = map snd m"

lemma bt_insert_keys: "fst ` set (bt_insert k v m) = insert k (fst ` set m)"
  by (induction k v m rule: bt_insert.induct) auto

lemma bt_sorted_insert: "bt_sorted m \<Longrightarrow> bt_sorted (bt_insert k v m)"
  unfolding bt_sorted_def
proof (induction k v m rule: bt_insert.induct)
  case (2 k v k' v' m)
  then show ?case using bt_insert_keys [of k v m] by (fastforce simp: image_iff)
qed simp

lemma bt_get_insert:
  "bt_sorted m \<Longrightarrow> bt_get (bt_insert k v m) k' = (if k' = k then Some v else bt_get m k')"
  unfolding bt_sorted_def bt_get_def
proof (induction k v m rule: bt_insert.induct)
  case (2 k v k1 v1 m)
  then show ?case by (auto simp: map_of_eq_None_iff)
qed simp

interpretation bt: ordered_map "[]" bt_get bt_insert "\<lambda>m. m" bt_sorted
  by unfold_locales (simp_all add: bt_sorted_insert bt_get_insert, simp_all add: bt_get_def bt_sorted_def)

lemma bt_upsert_accumulate:
  "bt_get (foldl (\<lambda>m x. bt_upsert (key x) (\<lambda>a. add a x) m) [] xs) k =
     foldl (\<lambda>a x. Some (add a x)) None (filter (\<lambda>x. key x = k) xs)"
  using bt.get_accumulate [OF bt.invar_empty, where key = key and add = add and xs = xs and k = k]
  by (simp add: bt_upsert_def bt.get_empty)

lemma bt_sorted_accumulate:
  "bt_sorted m \<Longrightarrow> bt_sorted (foldl (\<lambda>m x. bt_upsert (key x) (\<lambda>a. add a x) m) m xs)"
  using bt.invar_accumulate [of m key add xs] by (simp add: bt_upsert_def)

end
