(* ===== verification/Datagen_Id.thy ===== *)
theory Datagen_Id
  imports Prelude
begin

text \<open>
  The enumerations of the datagen checkpoint log and the item identities
  (\<open>crates/lance-context-core/src/datagen.rs\<close>): event types, step kinds, terminal outcomes and
  statuses with their column spellings, and \<open>DatagenItemId\<close>, a path of fan-out hops stored as a
  string. The lemmas are the round trips between the typed values and the stored strings.
\<close>

section \<open>Enumerations\<close>

datatype event_type =
  ItemCreated | StepStarted | FieldSet | FieldAppend | StepCompleted | Failed | Terminal

datatype step_kind =
  Root | Leaf | Sequence | Loop | MapReduce | Branch | SubPipeline | Conditional | Router

datatype terminal = TermCompleted | TermFiltered

datatype item_status = Running | Completed | Filtered | StatusFailed

text \<open>One constructor per error message of \<open>datagen.rs\<close> and \<open>datagen_store.rs\<close>.\<close>

datatype datagen_error =
    UnsupportedEventType string
  | UnsupportedStepKind string
  | UnsupportedStatus string
  | EmptyItemId string
  | MalformedSegment string string
  | NonIntegerBranch string string
  | MustNotBeEmpty string
  | NegativeItemSeq
  | NegativeAttempt
  | NonPositiveSchemaVersion
  | FieldEventRequires string
  | Requires string string
  | TerminalRequiresStatus
  | EventIdReused string
  | NotOneItem
  | ConflictingItemSeq string int
  | ForeignEvent string string string
  | KindChanges string string string
  | MixesSetAppend string
  | StepEventMissing string
  | TerminalMissingStatus
  | DuplicateItemSeq string int
  | BlobWithoutBytes string
  | BlobSizeMismatch string int nat
  | EmptyCheckpoint
  | CheckpointNotShared
  | CheckpointForeignType
  | CheckpointCompletions nat
  | CheckpointStepMismatch
  | NullColumn string
  | InvalidJson string string
  | UnsupportedValueKind string string
  | InvalidTimestamp string int

fun event_type_as_str :: "event_type \<Rightarrow> string" where
  "event_type_as_str ItemCreated = ''ITEM_CREATED''"
| "event_type_as_str StepStarted = ''STEP_STARTED''"
| "event_type_as_str FieldSet = ''FIELD_SET''"
| "event_type_as_str FieldAppend = ''FIELD_APPEND''"
| "event_type_as_str StepCompleted = ''STEP_COMPLETED''"
| "event_type_as_str Failed = ''FAILED''"
| "event_type_as_str Terminal = ''TERMINAL''"

definition event_type_parse :: "string \<Rightarrow> (datagen_error, event_type) result" where
  "event_type_parse v =
     (if v = ''ITEM_CREATED'' then Ok ItemCreated
      else if v = ''STEP_STARTED'' then Ok StepStarted
      else if v = ''FIELD_SET'' then Ok FieldSet
      else if v = ''FIELD_APPEND'' then Ok FieldAppend
      else if v = ''STEP_COMPLETED'' then Ok StepCompleted
      else if v = ''FAILED'' then Ok Failed
      else if v = ''TERMINAL'' then Ok Terminal
      else Err (UnsupportedEventType v))"

fun step_kind_as_str :: "step_kind \<Rightarrow> string" where
  "step_kind_as_str Root = ''root''"
| "step_kind_as_str Leaf = ''leaf''"
| "step_kind_as_str Sequence = ''sequence''"
| "step_kind_as_str Loop = ''loop''"
| "step_kind_as_str MapReduce = ''map_reduce''"
| "step_kind_as_str Branch = ''branch''"
| "step_kind_as_str SubPipeline = ''sub_pipeline''"
| "step_kind_as_str Conditional = ''conditional''"
| "step_kind_as_str Router = ''router''"

definition step_kind_parse :: "string \<Rightarrow> (datagen_error, step_kind) result" where
  "step_kind_parse v =
     (if v = ''root'' then Ok Root
      else if v = ''leaf'' then Ok Leaf
      else if v = ''sequence'' then Ok Sequence
      else if v = ''loop'' then Ok Loop
      else if v = ''map_reduce'' then Ok MapReduce
      else if v = ''branch'' then Ok Branch
      else if v = ''sub_pipeline'' then Ok SubPipeline
      else if v = ''conditional'' then Ok Conditional
      else if v = ''router'' then Ok Router
      else Err (UnsupportedStepKind v))"

definition is_driver :: "step_kind \<Rightarrow> bool" where
  "is_driver k \<longleftrightarrow> (case k of Sequence \<Rightarrow> True | Loop \<Rightarrow> True | _ \<Rightarrow> False)"

fun terminal_as_str :: "terminal \<Rightarrow> string" where
  "terminal_as_str TermCompleted = ''completed''"
| "terminal_as_str TermFiltered = ''filtered''"

fun item_status_as_str :: "item_status \<Rightarrow> string" where
  "item_status_as_str Running = ''running''"
| "item_status_as_str Completed = ''completed''"
| "item_status_as_str Filtered = ''filtered''"
| "item_status_as_str StatusFailed = ''failed''"

definition item_status_parse :: "string \<Rightarrow> (datagen_error, item_status) result" where
  "item_status_parse v =
     (if v = ''running'' then Ok Running
      else if v = ''completed'' then Ok Completed
      else if v = ''filtered'' then Ok Filtered
      else if v = ''failed'' then Ok StatusFailed
      else Err (UnsupportedStatus v))"

lemma event_type_parse_as_str [simp]: "event_type_parse (event_type_as_str t) = Ok t"
  by (cases t) (simp_all add: event_type_parse_def)

lemma event_type_parse_Ok [simp]: "event_type_parse v = Ok t \<longleftrightarrow> v = event_type_as_str t"
  using event_type_parse_as_str [of t] by (auto simp: event_type_parse_def split: if_splits)

lemma step_kind_parse_as_str [simp]: "step_kind_parse (step_kind_as_str k) = Ok k"
  by (cases k) (simp_all add: step_kind_parse_def)

lemma item_status_parse_as_str [simp]: "item_status_parse (item_status_as_str s) = Ok s"
  by (cases s) (simp_all add: item_status_parse_def)

section \<open>Item identities\<close>

text \<open>\<open>DatagenItemId\<close>: the source key of the root and one \<open>(origin_step, branch_idx)\<close> per hop.\<close>

datatype item_id = ItemId (root_key: string) (segments: "(string \<times> int) list")

text \<open>The derived \<open>Ord\<close>: root key first, then the segments lexicographically.\<close>

instantiation item_id :: linorder
begin

definition less_eq_item_id :: "item_id \<Rightarrow> item_id \<Rightarrow> bool" where
  "less_eq_item_id a b \<longleftrightarrow> (root_key a, segments a) \<le> (root_key b, segments b)"

definition less_item_id :: "item_id \<Rightarrow> item_id \<Rightarrow> bool" where
  "less_item_id a b \<longleftrightarrow> (root_key a, segments a) < (root_key b, segments b)"

instance
  by intro_classes
    (auto simp: less_eq_item_id_def less_item_id_def less_le_not_le intro: item_id.expand)

end

definition from_source_key :: "string \<Rightarrow> item_id" where
  "from_source_key k = ItemId k []"

definition child :: "item_id \<Rightarrow> string \<Rightarrow> int \<Rightarrow> item_id" where
  "child i step idx = ItemId (root_key i) (segments i @ [(step, idx)])"

definition parent :: "item_id \<Rightarrow> item_id option" where
  "parent i = (if segments i = [] then None else Some (ItemId (root_key i) (butlast (segments i))))"

definition root :: "item_id \<Rightarrow> item_id" where
  "root i = ItemId (root_key i) []"

definition origin_step :: "item_id \<Rightarrow> string option" where
  "origin_step i = (if segments i = [] then None else Some (fst (last (segments i))))"

definition branch_idx :: "item_id \<Rightarrow> int option" where
  "branch_idx i = (if segments i = [] then None else Some (snd (last (segments i))))"

definition is_root :: "item_id \<Rightarrow> bool" where
  "is_root i \<longleftrightarrow> segments i = []"

definition show_segment :: "string \<times> int \<Rightarrow> string" where
  "show_segment sg = fst sg @ CHR '':'' # show_int (snd sg)"

definition item_id_to_string :: "item_id \<Rightarrow> string" where
  "item_id_to_string i = root_key i @ concat (map (\<lambda>sg. CHR ''/'' # show_segment sg) (segments i))"

definition parse_segment :: "string \<Rightarrow> string \<Rightarrow> (datagen_error, string \<times> int) result" where
  "parse_segment path part =
     res_bind (ok_or (MalformedSegment part path) (split_once (CHR '':'') part)) (\<lambda>(step, idx).
     res_bind (ok_or (NonIntegerBranch idx path) (parse_i64 idx)) (\<lambda>i. Ok (step, i)))"

definition item_id_parse :: "string \<Rightarrow> (datagen_error, item_id) result" where
  "item_id_parse path =
     (case split_on (CHR ''/'') path of
        [] \<Rightarrow> Err (EmptyItemId path)
      | key # parts \<Rightarrow>
          if key = [] then Err (EmptyItemId path)
          else res_bind (collect_res (parse_segment path) parts) (\<lambda>sgs. Ok (ItemId key sgs)))"

text \<open>The ids that survive storage: separators only where the format puts them.\<close>

definition plain_key :: "string \<Rightarrow> bool" where
  "plain_key k \<longleftrightarrow> k \<noteq> [] \<and> CHR ''/'' \<notin> set k"

definition plain_segment :: "string \<times> int \<Rightarrow> bool" where
  "plain_segment sg \<longleftrightarrow> CHR ''/'' \<notin> set (fst sg) \<and> CHR '':'' \<notin> set (fst sg) \<and> in_i64 (snd sg)"

definition plain_item_id :: "item_id \<Rightarrow> bool" where
  "plain_item_id i \<longleftrightarrow> plain_key (root_key i) \<and> list_all plain_segment (segments i)"

lemma segment_no_slash: "plain_segment sg \<Longrightarrow> CHR ''/'' \<notin> set (show_segment sg)"
  by (simp add: plain_segment_def show_segment_def chr_simps)

lemma parse_show_segment: "plain_segment sg \<Longrightarrow> parse_segment path (show_segment sg) = Ok sg"
  by (simp add: plain_segment_def show_segment_def parse_segment_def split_once_append
      parse_i64_show_int)

lemma split_item_string:
  assumes "CHR ''/'' \<notin> set k" "list_all plain_segment sgs"
  shows "split_on (CHR ''/'') (k @ concat (map (\<lambda>sg. CHR ''/'' # show_segment sg) sgs)) =
    k # map show_segment sgs"
  using assms
proof (induction sgs arbitrary: k)
  case Nil
  then show ?case by (simp add: split_on_no_sep)
next
  case (Cons sg sgs)
  then show ?case by (simp add: split_on_append segment_no_slash)
qed

lemma item_id_parse_to_string:
  assumes "plain_item_id i"
  shows "item_id_parse (item_id_to_string i) = Ok i"
proof -
  have "collect_res (parse_segment p) (map show_segment (segments i)) = Ok (segments i)" for p
    using assms by (auto simp: plain_item_id_def collect_res_Ok_iff list_all2_conv_all_nth
        list_all_length parse_show_segment)
  with assms show ?thesis
    by (simp add: plain_item_id_def plain_key_def item_id_parse_def item_id_to_string_def
        split_item_string)
qed

lemma item_id_to_string_inj:
  "plain_item_id i \<Longrightarrow> plain_item_id j \<Longrightarrow> item_id_to_string i = item_id_to_string j \<longleftrightarrow> i = j"
  by (metis item_id_parse_to_string sum.inject(2))

lemma parse_segment_plain:
  assumes "parse_segment path part = Ok sg" "CHR ''/'' \<notin> set part"
  shows "plain_segment sg"
proof -
  from assms(1) obtain step idx i where sp: "split_once (CHR '':'') part = Some (step, idx)"
    and i: "parse_i64 idx = Some i" and sg: "sg = (step, i)"
    by (auto simp: parse_segment_def)
  have "step = takeWhile (\<lambda>x. x \<noteq> CHR '':'') part"
    using sp by (auto simp: split_once_def split: list.splits)
  then have "CHR '':'' \<notin> set step" "set step \<subseteq> set part"
    by (auto dest: set_takeWhileD)
  with assms(2) i sg parse_i64_range show ?thesis by (auto simp: plain_segment_def)
qed

lemma item_id_parse_plain:
  assumes "item_id_parse s = Ok i"
  shows "plain_item_id i"
proof -
  obtain key parts where sp: "split_on (CHR ''/'') s = key # parts"
    by (cases "split_on (CHR ''/'') s") auto
  with assms obtain sgs where "key \<noteq> []" "collect_res (parse_segment s) parts = Ok sgs"
    and i: "i = ItemId key sgs"
    by (auto simp: item_id_parse_def split: if_splits)
  moreover have "\<forall>p \<in> set (key # parts). CHR ''/'' \<notin> set p"
    using sp split_on_parts by metis
  ultimately have "key \<noteq> []" "CHR ''/'' \<notin> set key" "\<forall>n < length sgs. plain_segment (sgs ! n)"
    by (auto simp: collect_res_Ok_iff list_all2_conv_all_nth) (metis nth_mem parse_segment_plain)
  with i show ?thesis by (simp add: plain_item_id_def plain_key_def list_all_length)
qed

lemma root_idem [simp]: "root (root i) = root i" "root (child i s n) = root i"
  by (simp_all add: root_def child_def)

lemma parent_child [simp]: "parent (child i s n) = Some i"
  by (simp add: parent_def child_def)

lemma plain_child:
  "plain_item_id i \<Longrightarrow> plain_segment (s, n) \<Longrightarrow> plain_item_id (child i s n)"
  by (simp add: plain_item_id_def child_def)

lemma plain_root: "plain_item_id i \<Longrightarrow> plain_item_id (root i)"
  by (simp add: plain_item_id_def root_def)

end
