(* ===== verification/Datagen_Event.thy ===== *)
theory Datagen_Event
  imports Datagen_Id
begin

text \<open>
  The rows of the append-only checkpoint log (\<open>DatagenEvent\<close> of
  \<open>crates/lance-context-core/src/datagen.rs\<close>), their values, the step positions they carry and the
  validation every event passes on the way in and on the way out. \<open>serde_json::Value\<close> is the type
  parameter \<open>'j\<close>, taken up to its own equality; instants are nanoseconds since the epoch.
\<close>

section \<open>Values\<close>

record blob_value =
  blob_bytes :: "8 word list option"
  blob_size :: int
  blob_checksum :: "string option"

datatype 'j datagen_value =
  VInt int | VFloat f64 | VBool bool | VStr string | VJson 'j | VBlob blob_value

fun kind :: "'j datagen_value \<Rightarrow> string" where
  "kind (VInt _) = ''int''"
| "kind (VFloat _) = ''float''"
| "kind (VBool _) = ''bool''"
| "kind (VStr _) = ''str''"
| "kind (VJson _) = ''json''"
| "kind (VBlob _) = ''blob''"

fun is_blob :: "'j datagen_value \<Rightarrow> bool" where
  "is_blob (VBlob _) = True"
| "is_blob _ = False"

text \<open>The derived \<open>PartialEq\<close>: as equality, but for floats.\<close>

fun value_eq :: "'j datagen_value \<Rightarrow> 'j datagen_value \<Rightarrow> bool" where
  "value_eq (VFloat a) (VFloat b) = f64_eq a b"
| "value_eq a b = (a = b)"

fun value_nan :: "'j datagen_value \<Rightarrow> bool" where
  "value_nan (VFloat f) = f64_is_nan f"
| "value_nan _ = False"

lemma value_eq_refl: "value_eq v v \<longleftrightarrow> \<not> value_nan v"
  by (cases v) (simp_all add: f64_eq_refl)

lemma value_eq_nan: "value_eq a b \<Longrightarrow> \<not> value_nan b"
  by (induction a b rule: value_eq.induct) (auto simp: f64_eq_def)

lemma kind_blob_iff: "kind v = ''blob'' \<longleftrightarrow> is_blob v"
  by (cases v) simp_all

section \<open>Positions\<close>

record step_id =
  sid_name :: string
  sid_kind :: step_kind

record stream_position =
  pos_step :: step_id
  pos_index :: int
  pos_enclosing :: "string option"
  pos_selector :: "string option"

record step_cursor =
  cur_position :: stream_position
  cur_item_seq :: int

section \<open>Events\<close>

record 'j event =
  event_id :: string
  item_id :: string
  root_item_id :: string
  parent_item_id :: "string option"
  item_seq :: int
  checkpoint_id :: string
  event_type :: event_type
  step_name :: "string option"
  step_kind :: "step_kind option"
  step_index :: "int option"
  enclosing_step :: "string option"
  selector_step :: "string option"
  attempt :: int
  run_id :: string
  writer_epoch :: string
  field_name :: "string option"
  field_type :: "string option"
  codec_version :: "int option"
  ev_value :: "'j datagen_value option"
  query_tags :: "'j option"
  status :: "item_status option"
  error_type :: "string option"
  error_dump :: "string option"
  traceback :: "string option"
  event_ts :: int
  schema_version :: int

definition DATAGEN_SCHEMA_VERSION :: int where "DATAGEN_SCHEMA_VERSION = 2"

fun opt_value_eq :: "'j datagen_value option \<Rightarrow> 'j datagen_value option \<Rightarrow> bool" where
  "opt_value_eq (Some a) (Some b) = value_eq a b"
| "opt_value_eq a b = (a = None \<and> b = None)"

text \<open>\<open>DatagenEvent: PartialEq\<close>, the comparison behind "reused with different content".\<close>

definition event_eq :: "'j event \<Rightarrow> 'j event \<Rightarrow> bool" where
  "event_eq a b \<longleftrightarrow>
     a\<lparr>ev_value := None\<rparr> = b\<lparr>ev_value := None\<rparr> \<and> opt_value_eq (ev_value a) (ev_value b)"

definition event_nan :: "'j event \<Rightarrow> bool" where
  "event_nan e \<longleftrightarrow> (case ev_value e of Some v \<Rightarrow> value_nan v | None \<Rightarrow> False)"

lemma event_eq_refl: "event_eq e e \<longleftrightarrow> \<not> event_nan e"
  by (cases "ev_value e") (simp_all add: event_eq_def event_nan_def value_eq_refl)

lemma event_eq_nan: "event_eq a b \<Longrightarrow> \<not> event_nan b"
  by (auto simp: event_eq_def event_nan_def elim!: opt_value_eq.elims dest: value_eq_nan split: option.splits)

definition none_or_empty :: "string option \<Rightarrow> bool" where
  "none_or_empty s \<longleftrightarrow> (case s of None \<Rightarrow> True | Some x \<Rightarrow> x = [])"

fun check_nonempty :: "(string \<times> string) list \<Rightarrow> (datagen_error, unit) result" where
  "check_nonempty [] = Ok ()"
| "check_nonempty ((name, v) # rest) =
     (if v = [] then Err (MustNotBeEmpty name) else check_nonempty rest)"

definition require_step_provenance :: "'j event \<Rightarrow> string \<Rightarrow> (datagen_error, unit) result" where
  "require_step_provenance e ctx =
     (if none_or_empty (step_name e) then Err (Requires ctx ''step_name'')
      else if step_kind e = None then Err (Requires ctx ''step_kind'')
      else if step_index e = None then Err (Requires ctx ''step_index'')
      else Ok ())"

definition validate_field :: "'j event \<Rightarrow> (datagen_error, unit) result" where
  "validate_field e =
     (if none_or_empty (field_name e) then Err (FieldEventRequires ''field_name'')
      else if none_or_empty (field_type e) then Err (FieldEventRequires ''field_type'')
      else if codec_version e = None then Err (FieldEventRequires ''codec_version'')
      else if ev_value e = None then Err (FieldEventRequires ''value'')
      else require_step_provenance e ''field events'')"

definition validate_type :: "'j event \<Rightarrow> (datagen_error, unit) result" where
  "validate_type e =
     (case event_type e of
        FieldSet \<Rightarrow> validate_field e
      | FieldAppend \<Rightarrow> validate_field e
      | StepStarted \<Rightarrow> require_step_provenance e (event_type_as_str (event_type e))
      | StepCompleted \<Rightarrow> require_step_provenance e (event_type_as_str (event_type e))
      | Failed \<Rightarrow>
          if none_or_empty (error_type e) then Err (Requires ''FAILED'' ''error_type'')
          else require_step_provenance e ''FAILED''
      | Terminal \<Rightarrow>
          (case status e of
             Some Completed \<Rightarrow> Ok () | Some Filtered \<Rightarrow> Ok () | _ \<Rightarrow> Err TerminalRequiresStatus)
      | ItemCreated \<Rightarrow> Ok ())"

definition validate :: "'j event \<Rightarrow> (datagen_error, unit) result" where
  "validate e =
     res_bind (check_nonempty
       [(''event_id'', event_id e), (''item_id'', item_id e), (''root_item_id'', root_item_id e),
        (''checkpoint_id'', checkpoint_id e), (''run_id'', run_id e),
        (''writer_epoch'', writer_epoch e)]) (\<lambda>_.
     if item_seq e < 0 then Err NegativeItemSeq
     else if attempt e < 0 then Err NegativeAttempt
     else if schema_version e \<le> 0 then Err NonPositiveSchemaVersion
     else validate_type e)"

abbreviation valid :: "'j event \<Rightarrow> bool" where "valid e \<equiv> validate e = Ok ()"

text \<open>What a valid event is, without the order of the checks.\<close>

definition has_step :: "'j event \<Rightarrow> bool" where
  "has_step e \<longleftrightarrow> \<not> none_or_empty (step_name e) \<and> step_kind e \<noteq> None \<and> step_index e \<noteq> None"

definition has_field :: "'j event \<Rightarrow> bool" where
  "has_field e \<longleftrightarrow> \<not> none_or_empty (field_name e) \<and> \<not> none_or_empty (field_type e) \<and>
     codec_version e \<noteq> None \<and> ev_value e \<noteq> None"

definition ids_present :: "'j event \<Rightarrow> bool" where
  "ids_present e \<longleftrightarrow> event_id e \<noteq> [] \<and> item_id e \<noteq> [] \<and> root_item_id e \<noteq> [] \<and>
     checkpoint_id e \<noteq> [] \<and> run_id e \<noteq> [] \<and> writer_epoch e \<noteq> []"

definition type_payload :: "'j event \<Rightarrow> bool" where
  "type_payload e \<longleftrightarrow>
     (case event_type e of
        FieldSet \<Rightarrow> has_field e \<and> has_step e
      | FieldAppend \<Rightarrow> has_field e \<and> has_step e
      | StepStarted \<Rightarrow> has_step e
      | StepCompleted \<Rightarrow> has_step e
      | Failed \<Rightarrow> \<not> none_or_empty (error_type e) \<and> has_step e
      | Terminal \<Rightarrow> status e \<in> {Some Completed, Some Filtered}
      | ItemCreated \<Rightarrow> True)"

lemma require_step_provenance_Ok [simp]: "require_step_provenance e ctx = Ok u \<longleftrightarrow> has_step e"
  by (auto simp: require_step_provenance_def has_step_def)

lemma validate_field_Ok [simp]: "validate_field e = Ok u \<longleftrightarrow> has_field e \<and> has_step e"
  by (simp add: validate_field_def has_field_def)

lemma validate_type_Ok [simp]: "validate_type e = Ok u \<longleftrightarrow> type_payload e"
  by (auto simp: validate_type_def type_payload_def split: event_type.split option.splits item_status.splits)

lemma validate_Ok_iff:
  "validate e = Ok u \<longleftrightarrow>
     ids_present e \<and> 0 \<le> item_seq e \<and> 0 \<le> attempt e \<and> 0 < schema_version e \<and> type_payload e"
  by (auto simp: validate_def ids_present_def)

text \<open>\<open>datagen_event_id\<close>; \<open>uuid\<close> is \<open>Uuid::new_v5(NAMESPACE_OID, _)\<close> printed.\<close>

definition nul :: char where "nul = CHR 0x00"

definition datagen_event_id :: "(string \<Rightarrow> string) \<Rightarrow> string \<Rightarrow> string \<Rightarrow> nat \<Rightarrow> string" where
  "datagen_event_id uuid item ck ordinal = uuid (item @ nul # ck @ nul # show_nat ordinal)"

definition stream_position :: "'j event \<Rightarrow> (datagen_error, stream_position) result" where
  "stream_position e =
     res_bind (ok_or (StepEventMissing ''step_name'') (step_name e)) (\<lambda>name.
     res_bind (ok_or (StepEventMissing ''step_kind'') (step_kind e)) (\<lambda>k.
     res_bind (ok_or (StepEventMissing ''step_index'') (step_index e)) (\<lambda>i.
     Ok \<lparr>pos_step = \<lparr>sid_name = name, sid_kind = k\<rparr>, pos_index = i,
         pos_enclosing = enclosing_step e, pos_selector = selector_step e\<rparr>)))"

text \<open>The position an event with step provenance carries.\<close>

definition position_of :: "'j event \<Rightarrow> stream_position" where
  "position_of e =
     \<lparr>pos_step = \<lparr>sid_name = the (step_name e), sid_kind = the (step_kind e)\<rparr>,
      pos_index = the (step_index e), pos_enclosing = enclosing_step e,
      pos_selector = selector_step e\<rparr>"

lemma stream_position_Ok: "has_step e \<Longrightarrow> stream_position e = Ok (position_of e)"
  by (auto simp: has_step_def stream_position_def position_of_def none_or_empty_def split: option.splits)

end
