(* ===== verification/Datagen_Writer.thy ===== *)
theory Datagen_Writer
  imports Datagen_Event
begin

text \<open>
  \<open>DatagenStreamWriter\<close> (\<open>crates/lance-context-core/src/datagen.rs\<close>): the per-stream write handle
  that stamps sequence numbers, attempts, checkpoint ids and event ids onto the events it emits.
  Every operation is a state transformer that returns the events and the advanced writer. The UUID
  function is the parameter \<open>uuid\<close>; the wall clock is \<open>clock\<close>, giving the reading taken while the
  event with a given sequence number is built.
\<close>

section \<open>State\<close>

record write_context =
  ctx_run_id :: string
  ctx_writer_epoch :: string

record 'j new_stream =
  ns_item_id :: item_id
  ns_parent_item_id :: "item_id option"
  ns_query_tags :: "'j option"

datatype field_op = OpSet | OpAppend

record 'j field_change =
  fc_name :: string
  fc_field_type :: string
  fc_codec_version :: int
  fc_op :: field_op
  fc_value :: "'j datagen_value"

record error_info =
  ei_error_type :: string
  ei_error_dump :: "string option"
  ei_traceback :: "string option"

record writer =
  w_item_id :: item_id
  w_root_item_id :: item_id
  w_parent_item_id :: "item_id option"
  w_context :: write_context
  w_next_seq :: int
  w_attempt :: int
  w_checkpoint_ordinal :: nat

type_synonym clock = "int \<Rightarrow> int"
type_synonym uuid_fun = "string \<Rightarrow> string"

section \<open>Operations\<close>

definition writer_resume ::
  "item_id \<Rightarrow> item_id \<Rightarrow> item_id option \<Rightarrow> write_context \<Rightarrow> int \<Rightarrow> int \<Rightarrow> writer" where
  "writer_resume i r p ctx seq att =
     \<lparr>w_item_id = i, w_root_item_id = r, w_parent_item_id = p, w_context = ctx,
      w_next_seq = seq, w_attempt = att, w_checkpoint_ordinal = 0\<rparr>"

definition checkpoint_string :: "item_id \<Rightarrow> int \<Rightarrow> stream_position \<Rightarrow> nat \<Rightarrow> string" where
  "checkpoint_string i att pos ordinal =
     item_id_to_string i @ nul # show_int att @ nul # sid_name (pos_step pos) @
     nul # show_int (pos_index pos) @ nul # show_nat ordinal"

definition compose_checkpoint_id :: "writer \<Rightarrow> stream_position \<Rightarrow> string \<times> writer" where
  "compose_checkpoint_id w pos =
     (checkpoint_string (w_item_id w) (w_attempt w) pos (w_checkpoint_ordinal w),
      w\<lparr>w_checkpoint_ordinal := wrap_u32 (w_checkpoint_ordinal w + 1)\<rparr>)"

definition take_seq :: "writer \<Rightarrow> int \<times> writer" where
  "take_seq w = (w_next_seq w, w\<lparr>w_next_seq := wrap_i64 (w_next_seq w + 1)\<rparr>)"

definition base_event ::
  "clock \<Rightarrow> writer \<Rightarrow> string \<Rightarrow> int \<Rightarrow> string \<Rightarrow> event_type \<Rightarrow> 'j event" where
  "base_event clock w eid seq ck ty =
     \<lparr>event_id = eid, item_id = item_id_to_string (w_item_id w),
      root_item_id = item_id_to_string (w_root_item_id w),
      parent_item_id = map_option item_id_to_string (w_parent_item_id w),
      item_seq = seq, checkpoint_id = ck, event_type = ty,
      step_name = None, step_kind = None, step_index = None,
      enclosing_step = None, selector_step = None,
      attempt = w_attempt w, run_id = ctx_run_id (w_context w),
      writer_epoch = ctx_writer_epoch (w_context w),
      field_name = None, field_type = None, codec_version = None,
      ev_value = None, query_tags = None, status = None,
      error_type = None, error_dump = None, traceback = None,
      event_ts = clock seq, schema_version = DATAGEN_SCHEMA_VERSION\<rparr>"

definition stamp_position :: "'j event \<Rightarrow> stream_position \<Rightarrow> 'j event" where
  "stamp_position e pos =
     e\<lparr>step_name := Some (sid_name (pos_step pos)), step_kind := Some (sid_kind (pos_step pos)),
       step_index := Some (pos_index pos), enclosing_step := pos_enclosing pos,
       selector_step := pos_selector pos\<rparr>"

definition step_started ::
  "uuid_fun \<Rightarrow> clock \<Rightarrow> writer \<Rightarrow> stream_position \<Rightarrow> 'j event \<times> writer" where
  "step_started uuid clock w pos =
     (let (seq, w1) = take_seq w;
          (ck, w2) = compose_checkpoint_id w1 pos;
          eid = datagen_event_id uuid (item_id_to_string (w_item_id w2)) ck 0
      in (stamp_position (base_event clock w2 eid seq ck StepStarted) pos, w2))"

definition field_event ::
  "uuid_fun \<Rightarrow> clock \<Rightarrow> writer \<Rightarrow> string \<Rightarrow> stream_position \<Rightarrow> int \<Rightarrow> nat \<Rightarrow> 'j field_change \<Rightarrow> 'j event"
where
  "field_event uuid clock w ck pos seq ordinal c =
     (stamp_position
       (base_event clock w
         (datagen_event_id uuid (item_id_to_string (w_item_id w)) ck (wrap_u32 (wrap_u32 ordinal + 1)))
         seq ck (case fc_op c of OpSet \<Rightarrow> FieldSet | OpAppend \<Rightarrow> FieldAppend)) pos)
     \<lparr>field_name := Some (fc_name c), field_type := Some (fc_field_type c),
      codec_version := Some (fc_codec_version c), ev_value := Some (fc_value c)\<rparr>"

text \<open>The loop of \<open>step_completed\<close> over \<open>fields.iter().enumerate()\<close>.\<close>

fun emit_fields ::
  "uuid_fun \<Rightarrow> clock \<Rightarrow> string \<Rightarrow> stream_position \<Rightarrow> nat \<Rightarrow> 'j field_change list \<Rightarrow> writer \<Rightarrow>
   'j event list \<times> writer" where
  "emit_fields uuid clock ck pos ordinal [] w = ([], w)"
| "emit_fields uuid clock ck pos ordinal (c # cs) w =
     (let (seq, w1) = take_seq w;
          e = field_event uuid clock w1 ck pos seq ordinal c;
          (es, w2) = emit_fields uuid clock ck pos (Suc ordinal) cs w1
      in (e # es, w2))"

definition step_completed ::
  "uuid_fun \<Rightarrow> clock \<Rightarrow> writer \<Rightarrow> stream_position \<Rightarrow> 'j field_change list \<Rightarrow> 'j event list \<times> writer"
where
  "step_completed uuid clock w pos fs =
     (let (ck, w1) = compose_checkpoint_id w pos;
          item = item_id_to_string (w_item_id w1);
          (es, w2) = emit_fields uuid clock ck pos 0 fs w1;
          (seq, w3) = take_seq w2;
          eid = datagen_event_id uuid item ck 0
      in (es @ [stamp_position (base_event clock w3 eid seq ck StepCompleted) pos], w3))"

definition terminal_status :: "terminal \<Rightarrow> item_status" where
  "terminal_status t = (case t of TermCompleted \<Rightarrow> Completed | TermFiltered \<Rightarrow> Filtered)"

definition item_terminal :: "uuid_fun \<Rightarrow> clock \<Rightarrow> writer \<Rightarrow> terminal \<Rightarrow> 'j event \<times> writer" where
  "item_terminal uuid clock w t =
     (let (seq, w1) = take_seq w;
          ck = item_id_to_string (w_item_id w1) @ nul # ''terminal'' @ nul # show_int seq;
          eid = datagen_event_id uuid (item_id_to_string (w_item_id w1)) ck 0
      in ((base_event clock w1 eid seq ck Terminal)\<lparr>status := Some (terminal_status t)\<rparr>, w1))"

definition item_failed ::
  "uuid_fun \<Rightarrow> clock \<Rightarrow> writer \<Rightarrow> stream_position \<Rightarrow> error_info \<Rightarrow> 'j event \<times> writer" where
  "item_failed uuid clock w pos err =
     (let (seq, w1) = take_seq w;
          (ck, w2) = compose_checkpoint_id w1 pos;
          eid = datagen_event_id uuid (item_id_to_string (w_item_id w2)) ck 0
      in ((stamp_position (base_event clock w2 eid seq ck Failed) pos)
            \<lparr>status := Some StatusFailed, error_type := Some (ei_error_type err),
             error_dump := ei_error_dump err, traceback := ei_traceback err\<rparr>, w2))"

definition open_stream_events ::
  "uuid_fun \<Rightarrow> clock \<Rightarrow> 'j new_stream \<Rightarrow> write_context \<Rightarrow> 'j event \<times> writer" where
  "open_stream_events uuid clock st ctx =
     (let w0 = \<lparr>w_item_id = ns_item_id st, w_root_item_id = root (ns_item_id st),
                w_parent_item_id = ns_parent_item_id st, w_context = ctx,
                w_next_seq = 1, w_attempt = 0, w_checkpoint_ordinal = 0\<rparr>;
          (seq, w1) = take_seq w0;
          ck = item_id_to_string (ns_item_id st) @ nul # ''created'';
          eid = datagen_event_id uuid (item_id_to_string (ns_item_id st)) ck 0
      in ((base_event clock w1 eid seq ck ItemCreated)
            \<lparr>status := Some Running, query_tags := ns_query_tags st\<rparr>, w1))"

section \<open>Sessions\<close>

text \<open>A writer is driven by a sequence of calls; the store appends what each returns.\<close>

datatype 'j writer_op =
    OpStarted stream_position
  | OpCompleted stream_position "'j field_change list"
  | OpFailed stream_position error_info
  | OpTerminal terminal

fun run_op :: "uuid_fun \<Rightarrow> clock \<Rightarrow> writer \<Rightarrow> 'j writer_op \<Rightarrow> 'j event list \<times> writer" where
  "run_op uuid clock w (OpStarted pos) = (let (e, w') = step_started uuid clock w pos in ([e], w'))"
| "run_op uuid clock w (OpCompleted pos fs) = step_completed uuid clock w pos fs"
| "run_op uuid clock w (OpFailed pos err) = (let (e, w') = item_failed uuid clock w pos err in ([e], w'))"
| "run_op uuid clock w (OpTerminal t) = (let (e, w') = item_terminal uuid clock w t in ([e], w'))"

fun run_ops :: "uuid_fun \<Rightarrow> clock \<Rightarrow> writer \<Rightarrow> 'j writer_op list \<Rightarrow> 'j event list \<times> writer" where
  "run_ops uuid clock w [] = ([], w)"
| "run_ops uuid clock w (x # xs) =
     (let (es, w1) = run_op uuid clock w x; (fs, w2) = run_ops uuid clock w1 xs in (es @ fs, w2))"

text \<open>How many sequence numbers a call consumes, and how many checkpoint ordinals.\<close>

fun op_events :: "'j writer_op \<Rightarrow> nat" where
  "op_events (OpCompleted _ fs) = Suc (length fs)"
| "op_events _ = 1"

fun op_ordinals :: "'j writer_op \<Rightarrow> nat" where
  "op_ordinals (OpTerminal _) = 0"
| "op_ordinals _ = 1"

definition ops_events :: "'j writer_op list \<Rightarrow> nat" where "ops_events xs = sum_list (map op_events xs)"
definition ops_ordinals :: "'j writer_op list \<Rightarrow> nat" where "ops_ordinals xs = sum_list (map op_ordinals xs)"

section \<open>Lemmas: one call\<close>

definition writer_advance :: "writer \<Rightarrow> nat \<Rightarrow> nat \<Rightarrow> writer" where
  "writer_advance w n m = w\<lparr>w_next_seq := w_next_seq w + int n,
     w_checkpoint_ordinal := w_checkpoint_ordinal w + m\<rparr>"

text \<open>Room for \<open>n\<close> more sequence numbers and \<open>m\<close> more checkpoints before a counter wraps.\<close>

definition room :: "writer \<Rightarrow> nat \<Rightarrow> nat \<Rightarrow> bool" where
  "room w n m \<longleftrightarrow> 0 \<le> w_next_seq w \<and> w_next_seq w + int n < 2 ^ 63 \<and>
     w_checkpoint_ordinal w + m < 2 ^ 32"

lemma writer_advance_simps [simp]:
  "w_item_id (writer_advance w n m) = w_item_id w"
  "w_root_item_id (writer_advance w n m) = w_root_item_id w"
  "w_parent_item_id (writer_advance w n m) = w_parent_item_id w"
  "w_context (writer_advance w n m) = w_context w"
  "w_attempt (writer_advance w n m) = w_attempt w"
  "w_next_seq (writer_advance w n m) = w_next_seq w + int n"
  "w_checkpoint_ordinal (writer_advance w n m) = w_checkpoint_ordinal w + m"
  "writer_advance (writer_advance w n m) n' m' = writer_advance w (n + n') (m + m')"
  "writer_advance w 0 0 = w"
  by (simp_all add: writer_advance_def)

lemma room_advance [simp]: "room w (n + n') (m + m') \<Longrightarrow> room (writer_advance w n m) n' m'"
  by (simp add: room_def)

lemma room_mono: "room w n m \<Longrightarrow> n' \<le> n \<Longrightarrow> m' \<le> m \<Longrightarrow> room w n' m'"
  by (auto simp: room_def)

lemma take_seq_room: "room w 1 0 \<Longrightarrow> take_seq w = (w_next_seq w, writer_advance w 1 0)"
  by (simp add: take_seq_def writer_advance_def room_def wrap_simps in_i64_def)

lemma compose_room:
  "room w 0 1 \<Longrightarrow> compose_checkpoint_id w pos =
     (checkpoint_string (w_item_id w) (w_attempt w) pos (w_checkpoint_ordinal w), writer_advance w 0 1)"
  by (simp add: compose_checkpoint_id_def writer_advance_def room_def wrap_simps)

lemma base_event_advance [simp]: "base_event clock (writer_advance w n m) = base_event clock w"
  by (simp add: base_event_def fun_eq_iff)

lemma field_event_advance [simp]: "field_event uuid clock (writer_advance w n m) = field_event uuid clock w"
  by (simp add: field_event_def fun_eq_iff)

lemma emit_fields_room:
  assumes "room w (length cs) 0"
  shows "emit_fields uuid clock ck pos k cs w =
    (map (\<lambda>j. field_event uuid clock w ck pos (w_next_seq w + int j) (k + j) (cs ! j)) [0..<length cs],
     writer_advance w (length cs) 0)"
  using assms
proof (induction cs arbitrary: w k)
  case (Cons c cs)
  from Cons.prems have r: "room w 1 0" "room (writer_advance w 1 0) (length cs) 0"
    by (auto simp: room_def)
  have shift: "map f [0..<Suc n] = f 0 # map (\<lambda>j. f (Suc j)) [0..<n]" for f :: "nat \<Rightarrow> 'b" and n
    by (rule map_upt_Suc)
  show ?case
    using Cons.IH [OF r(2)] by (simp add: take_seq_room [OF r(1)] shift algebra_simps del: upt_Suc)
qed simp

text \<open>The closed forms of the calls, away from the counters' limits.\<close>

definition step_ck :: "writer \<Rightarrow> stream_position \<Rightarrow> string" where
  "step_ck w pos = checkpoint_string (w_item_id w) (w_attempt w) pos (w_checkpoint_ordinal w)"

definition term_ck :: "writer \<Rightarrow> string" where
  "term_ck w = item_id_to_string (w_item_id w) @ nul # ''terminal'' @ nul # show_int (w_next_seq w)"

abbreviation eid_of :: "uuid_fun \<Rightarrow> writer \<Rightarrow> string \<Rightarrow> nat \<Rightarrow> string" where
  "eid_of uuid w ck j \<equiv> datagen_event_id uuid (item_id_to_string (w_item_id w)) ck j"

lemma step_completed_room:
  assumes "room w (Suc (length fs)) 1"
  shows "step_completed uuid clock w pos fs =
    (map (\<lambda>j. field_event uuid clock w (step_ck w pos) pos (w_next_seq w + int j) j (fs ! j)) [0..<length fs]
     @ [stamp_position (base_event clock w (eid_of uuid w (step_ck w pos) 0)
          (w_next_seq w + int (length fs)) (step_ck w pos) StepCompleted) pos],
     writer_advance w (Suc (length fs)) 1)"
proof -
  from assms have r: "room w 0 1" "room (writer_advance w 0 1) (length fs) 0"
    "room (writer_advance w (length fs) 1) 1 0"
    by (auto simp: room_def)
  then show ?thesis
    by (simp add: step_completed_def compose_room emit_fields_room take_seq_room step_ck_def)
qed

lemma step_started_room:
  "room w 1 1 \<Longrightarrow> step_started uuid clock w pos =
     (stamp_position (base_event clock w (eid_of uuid w (step_ck w pos) 0) (w_next_seq w)
        (step_ck w pos) StepStarted) pos, writer_advance w 1 1)"
  using room_advance [of w 1 0 0 1]
  by (simp add: step_started_def take_seq_room room_mono compose_room step_ck_def)

lemma item_failed_room:
  "room w 1 1 \<Longrightarrow> item_failed uuid clock w pos err =
     ((stamp_position (base_event clock w (eid_of uuid w (step_ck w pos) 0) (w_next_seq w)
         (step_ck w pos) Failed) pos)
        \<lparr>status := Some StatusFailed, error_type := Some (ei_error_type err),
         error_dump := ei_error_dump err, traceback := ei_traceback err\<rparr>, writer_advance w 1 1)"
  using room_advance [of w 1 0 0 1]
  by (simp add: item_failed_def take_seq_room room_mono compose_room step_ck_def)

lemma item_terminal_room:
  "room w 1 0 \<Longrightarrow> item_terminal uuid clock w t =
     ((base_event clock w (eid_of uuid w (term_ck w) 0) (w_next_seq w) (term_ck w) Terminal)
        \<lparr>status := Some (terminal_status t)\<rparr>, writer_advance w 1 0)"
  by (simp add: item_terminal_def take_seq_room term_ck_def Let_def)

lemmas call_room = step_completed_room step_started_room item_failed_room item_terminal_room

section \<open>Lemmas: what every emitted event looks like\<close>

text \<open>Well-formed inputs: everything \<open>validate\<close> will look at is present.\<close>

definition writer_ok :: "writer \<Rightarrow> bool" where
  "writer_ok w \<longleftrightarrow> plain_item_id (w_item_id w) \<and> plain_item_id (w_root_item_id w) \<and>
     (\<forall>p. w_parent_item_id w = Some p \<longrightarrow> plain_item_id p) \<and>
     ctx_run_id (w_context w) \<noteq> [] \<and> ctx_writer_epoch (w_context w) \<noteq> [] \<and> 0 \<le> w_attempt w"

definition change_ok :: "'j field_change \<Rightarrow> bool" where
  "change_ok c \<longleftrightarrow> fc_name c \<noteq> [] \<and> fc_field_type c \<noteq> []"

fun op_ok :: "'j writer_op \<Rightarrow> bool" where
  "op_ok (OpStarted pos) = (sid_name (pos_step pos) \<noteq> [])"
| "op_ok (OpCompleted pos fs) = (sid_name (pos_step pos) \<noteq> [] \<and> list_all change_ok fs \<and> length fs < 2 ^ 32 - 1)"
| "op_ok (OpFailed pos err) = (sid_name (pos_step pos) \<noteq> [] \<and> ei_error_type err \<noteq> [])"
| "op_ok (OpTerminal t) = True"

definition stamped :: "writer \<Rightarrow> 'j event \<Rightarrow> bool" where
  "stamped w e \<longleftrightarrow> item_id e = item_id_to_string (w_item_id w) \<and>
     root_item_id e = item_id_to_string (w_root_item_id w) \<and>
     parent_item_id e = map_option item_id_to_string (w_parent_item_id w) \<and>
     attempt e = w_attempt w \<and> run_id e = ctx_run_id (w_context w) \<and>
     writer_epoch e = ctx_writer_epoch (w_context w) \<and> schema_version e = DATAGEN_SCHEMA_VERSION"

lemma item_id_to_string_nonempty: "plain_item_id i \<Longrightarrow> item_id_to_string i \<noteq> []"
  by (simp add: plain_item_id_def plain_key_def item_id_to_string_def)

lemma stamp_position_simps [simp]:
  "event_id (stamp_position e p) = event_id e" "item_id (stamp_position e p) = item_id e"
  "root_item_id (stamp_position e p) = root_item_id e"
  "parent_item_id (stamp_position e p) = parent_item_id e"
  "item_seq (stamp_position e p) = item_seq e" "checkpoint_id (stamp_position e p) = checkpoint_id e"
  "event_type (stamp_position e p) = event_type e" "attempt (stamp_position e p) = attempt e"
  "run_id (stamp_position e p) = run_id e" "writer_epoch (stamp_position e p) = writer_epoch e"
  "schema_version (stamp_position e p) = schema_version e" "event_ts (stamp_position e p) = event_ts e"
  "ev_value (stamp_position e p) = ev_value e"
  "step_name (stamp_position e p) = Some (sid_name (pos_step p))"
  "step_kind (stamp_position e p) = Some (sid_kind (pos_step p))"
  "step_index (stamp_position e p) = Some (pos_index p)"
  "enclosing_step (stamp_position e p) = pos_enclosing p"
  "selector_step (stamp_position e p) = pos_selector p"
  by (simp_all add: stamp_position_def)

lemma base_event_simps [simp]:
  "event_id (base_event c w i s k t) = i" "item_seq (base_event c w i s k t) = s"
  "checkpoint_id (base_event c w i s k t) = k" "event_type (base_event c w i s k t) = t"
  "ev_value (base_event c w i s k t) = None"
  "item_id (base_event c w i s k t) = item_id_to_string (w_item_id w)"
  "attempt (base_event c w i s k t) = w_attempt w"
  by (simp_all add: base_event_def)

lemma stamped_base [simp]: "stamped w (base_event c w i s k t)"
  by (simp add: stamped_def base_event_def)

lemma stamped_updates [simp]:
  "stamped w (stamp_position e p) = stamped w e"
  "stamped w (e\<lparr>status := st\<rparr>) = stamped w e"
  "stamped w (e\<lparr>query_tags := q\<rparr>) = stamped w e"
  "stamped w (e\<lparr>status := st, error_type := et, error_dump := ed, traceback := tb\<rparr>) = stamped w e"
  "stamped w (e\<lparr>field_name := fn, field_type := ft, codec_version := cv, ev_value := v\<rparr>) = stamped w e"
  by (simp_all add: stamped_def)

lemma field_event_simps [simp]:
  "item_seq (field_event u c w ck p s k ch) = s" "checkpoint_id (field_event u c w ck p s k ch) = ck"
  "event_id (field_event u c w ck p s k ch) = eid_of u w ck (wrap_u32 (wrap_u32 k + 1))"
  "event_type (field_event u c w ck p s k ch) = (case fc_op ch of OpSet \<Rightarrow> FieldSet | OpAppend \<Rightarrow> FieldAppend)"
  "stamped w (field_event u c w ck p s k ch)"
  "field_name (field_event u c w ck p s k ch) = Some (fc_name ch)"
  "ev_value (field_event u c w ck p s k ch) = Some (fc_value ch)"
  by (simp_all add: field_event_def)

lemma run_op_writer:
  "room w (op_events x) (op_ordinals x) \<Longrightarrow>
     snd (run_op uuid clock w x) = writer_advance w (op_events x) (op_ordinals x)"
  by (cases x) (simp_all add: call_room)

lemma run_op_stamped:
  "room w (op_events x) (op_ordinals x) \<Longrightarrow>
     e \<in> set (fst (run_op uuid clock w x)) \<Longrightarrow> stamped w e"
  by (cases x) (auto simp: call_room)

lemma run_op_seqs:
  "room w (op_events x) (op_ordinals x) \<Longrightarrow>
     map item_seq (fst (run_op uuid clock w x)) = map (\<lambda>k. w_next_seq w + int k) [0..<op_events x]"
  by (cases x) (simp_all add: call_room comp_def)

text \<open>The event ids of a session are told apart by the checkpoint ordinal, or the terminal's sequence number.\<close>

definition step_tag :: "uuid_fun \<Rightarrow> writer \<Rightarrow> nat \<Rightarrow> nat \<Rightarrow> 'j event \<Rightarrow> bool" where
  "step_tag uuid w lo hi e \<longleftrightarrow>
     (\<exists>pos ord j. lo \<le> ord \<and> ord < hi \<and>
        checkpoint_id e = checkpoint_string (w_item_id w) (w_attempt w) pos ord \<and>
        event_id e = eid_of uuid w (checkpoint_id e) j)"

definition term_tag :: "uuid_fun \<Rightarrow> writer \<Rightarrow> int \<Rightarrow> int \<Rightarrow> 'j event \<Rightarrow> bool" where
  "term_tag uuid w lo hi e \<longleftrightarrow>
     (\<exists>seq. lo \<le> seq \<and> seq < hi \<and>
        checkpoint_id e = item_id_to_string (w_item_id w) @ nul # ''terminal'' @ nul # show_int seq \<and>
        event_id e = eid_of uuid w (checkpoint_id e) 0)"

definition tagged :: "uuid_fun \<Rightarrow> writer \<Rightarrow> nat \<Rightarrow> nat \<Rightarrow> 'j event \<Rightarrow> bool" where
  "tagged uuid w n m e \<longleftrightarrow>
     step_tag uuid w (w_checkpoint_ordinal w) (w_checkpoint_ordinal w + m) e \<or>
     term_tag uuid w (w_next_seq w) (w_next_seq w + int n) e"

lemma tag_advance [simp]:
  "step_tag uuid (writer_advance w n m) = step_tag uuid w"
  "term_tag uuid (writer_advance w n m) = term_tag uuid w"
  by (simp_all add: fun_eq_iff step_tag_def term_tag_def)

lemma tag_mono:
  "step_tag uuid w lo hi e \<Longrightarrow> lo' \<le> lo \<Longrightarrow> hi \<le> hi' \<Longrightarrow> step_tag uuid w lo' hi' e"
  "term_tag uuid w slo shi e \<Longrightarrow> slo' \<le> slo \<Longrightarrow> shi \<le> shi' \<Longrightarrow> term_tag uuid w slo' shi' e"
  unfolding step_tag_def term_tag_def by (meson le_trans less_le_trans order_trans)+

lemma tagged_stepI:
  "checkpoint_id e = step_ck w pos \<Longrightarrow> event_id e = eid_of uuid w (step_ck w pos) j \<Longrightarrow> 0 < m \<Longrightarrow>
     tagged uuid w n m e"
  unfolding tagged_def step_tag_def step_ck_def
  by (intro disjI1 exI [of _ pos] exI [of _ "w_checkpoint_ordinal w"] exI [of _ j] conjI) simp_all

lemma tagged_termI:
  "checkpoint_id e = term_ck w \<Longrightarrow> event_id e = eid_of uuid w (term_ck w) 0 \<Longrightarrow> 0 < n \<Longrightarrow>
     tagged uuid w n m e"
  unfolding tagged_def term_tag_def term_ck_def
  by (intro disjI2 exI [of _ "w_next_seq w"] conjI) simp_all

lemma tagged_mono: "tagged uuid w n m e \<Longrightarrow> n \<le> n' \<Longrightarrow> m \<le> m' \<Longrightarrow> tagged uuid w n' m' e"
  unfolding tagged_def tag_advance writer_advance_simps
  by (erule disjE, rule disjI1, erule tag_mono, simp, simp, rule disjI2, erule tag_mono, simp, simp)

lemma tagged_advance: "tagged uuid (writer_advance w n m) n' m' e \<Longrightarrow> tagged uuid w (n + n') (m + m') e"
  unfolding tagged_def tag_advance writer_advance_simps
  by (erule disjE, rule disjI1, erule tag_mono, simp, simp, rule disjI2, erule tag_mono, simp, simp)

lemma run_op_tagged:
  assumes "room w (op_events x) (op_ordinals x)" "e \<in> set (fst (run_op uuid clock w x))"
  shows "tagged uuid w (op_events x) (op_ordinals x) e"
  using assms by (cases x) (auto simp: call_room intro: tagged_stepI tagged_termI)

lemma checkpoint_string_inject:
  assumes "checkpoint_string i a pos ord = checkpoint_string i a' pos' ord'"
  shows "a = a' \<and> ord = ord'"
proof -
  let ?mid = "\<lambda>a p. item_id_to_string i @ nul # show_int a @ nul # sid_name (pos_step p) @
    nul # show_int (pos_index p)"
  have n: "nul \<notin> set (show_nat k)" "nul \<notin> set (show_int z)" for k z
    by (simp_all add: nul_def chr_simps)
  have "?mid a pos @ nul # show_nat ord = ?mid a' pos' @ nul # show_nat ord'"
    using assms by (simp add: checkpoint_string_def)
  then have "?mid a pos = ?mid a' pos' \<and> show_nat ord = show_nat ord'"
    by (subst (asm) append_last_sep) (simp_all add: n)
  moreover from this have "show_int a = show_int a'"
    using append_first_sep [OF n(2) n(2)] by auto
  ultimately show ?thesis by simp
qed

lemma eid_of_inject:
  assumes "inj uuid"
  shows "eid_of uuid w ck j = eid_of uuid w ck' j' \<longleftrightarrow> ck = ck' \<and> j = j'"
proof -
  have "nul \<notin> set (show_nat k)" for k by (simp add: nul_def chr_simps)
  then show ?thesis
    using assms by (simp add: datagen_event_id_def inj_eq append_last_sep)
qed

lemma terminal_not_checkpoint:
  "item_id_to_string i @ nul # ''terminal'' @ nul # s \<noteq> checkpoint_string i a pos ord"
proof
  assume "item_id_to_string i @ nul # ''terminal'' @ nul # s = checkpoint_string i a pos ord"
  then have "''terminal'' @ nul # s = show_int a @ nul # (sid_name (pos_step pos) @
      nul # show_int (pos_index pos) @ nul # show_nat ord)"
    by (simp add: checkpoint_string_def)
  moreover have "nul \<notin> set ''terminal''" "nul \<notin> set (show_int a)"
    by (simp_all add: nul_def chr_simps)
  ultimately have "''terminal'' = show_int a"
    by (subst (asm) append_first_sep) simp_all
  then have "CHR ''t'' \<in> set (show_int a)" by (metis list.set_intros(1))
  then show False by (simp add: chr_simps)
qed

text \<open>Events of disjoint stretches of one attempt have different ids.\<close>

lemma step_tag_disjoint:
  assumes "inj uuid" "step_tag uuid w lo mid e" "step_tag uuid w mid hi f"
  shows "event_id e \<noteq> event_id f"
  using assms(2,3) eid_of_inject [OF assms(1)] checkpoint_string_inject
  unfolding step_tag_def by (metis not_le)

lemma term_tag_disjoint:
  assumes "inj uuid" "term_tag uuid w lo mid e" "term_tag uuid w mid hi f"
  shows "event_id e \<noteq> event_id f"
  using assms(2,3) eid_of_inject [OF assms(1)]
  unfolding term_tag_def by (elim exE conjE) (simp, linarith?)

lemma step_term_disjoint:
  assumes "inj uuid" "step_tag uuid w lo mid e" "term_tag uuid w slo shi f"
  shows "event_id e \<noteq> event_id f"
  using assms(2,3) eid_of_inject [OF assms(1)] terminal_not_checkpoint
  unfolding step_tag_def term_tag_def by metis

lemma tagged_disjoint:
  assumes "inj uuid" "tagged uuid w n m e" "tagged uuid (writer_advance w n m) n' m' f"
  shows "event_id e \<noteq> event_id f"
  using assms(2,3) unfolding tagged_def tag_advance writer_advance_simps
  by (elim disjE) (metis step_tag_disjoint [OF assms(1)] term_tag_disjoint [OF assms(1)]
      step_term_disjoint [OF assms(1)])+

lemma run_op_distinct:
  assumes "inj uuid" "op_ok x" "room w (op_events x) (op_ordinals x)"
  shows "distinct (map event_id (fst (run_op uuid clock w x)))"
proof (cases x)
  case (OpCompleted pos fs)
  have ord: "wrap_u32 (wrap_u32 j + 1) = Suc j" if "j < length fs" for j
    using that assms(2) OpCompleted by (simp add: wrap_u32_def)
  then have "map event_id (fst (run_op uuid clock w x)) =
      map (\<lambda>j. eid_of uuid w (step_ck w pos) (Suc j)) [0..<length fs] @ [eid_of uuid w (step_ck w pos) 0]"
    using OpCompleted assms(3) by (simp add: step_completed_room)
  then show ?thesis
    by (auto simp: distinct_map inj_on_def eid_of_inject [OF assms(1)])
qed (use assms in \<open>simp_all add: call_room\<close>)

lemma run_op_valid:
  assumes "writer_ok w" "op_ok x" "room w (op_events x) (op_ordinals x)" "\<And>s. uuid s \<noteq> []"
    and "e \<in> set (fst (run_op uuid clock w x))"
  shows "valid e"
proof -
  have st: "stamped w e" using run_op_stamped assms(3,5) by blast
  have "tagged uuid w (op_events x) (op_ordinals x) e" using run_op_tagged assms(3,5) by blast
  then have "event_id e \<noteq> []" "checkpoint_id e \<noteq> []"
    using assms(4) by (auto simp: tagged_def step_tag_def term_tag_def datagen_event_id_def checkpoint_string_def)
  then have ids: "ids_present e"
    using st assms(1) by (auto simp: ids_present_def stamped_def writer_ok_def item_id_to_string_nonempty)
  have "item_seq e \<in> set (map item_seq (fst (run_op uuid clock w x)))" using assms(5) by simp
  then have "0 \<le> item_seq e"
    unfolding run_op_seqs [OF assms(3)] using assms(3) by (auto simp: room_def)
  moreover have "type_payload e"
    using assms(2,3,5)
    by (cases x) (auto simp: call_room type_payload_def has_step_def has_field_def none_or_empty_def
        field_event_def list_all_length change_ok_def terminal_status_def split: field_op.splits terminal.splits)
  ultimately show ?thesis
    using st ids assms(1) by (simp add: validate_Ok_iff stamped_def writer_ok_def DATAGEN_SCHEMA_VERSION_def)
qed

section \<open>Lemmas: a whole session\<close>

lemma ops_simps [simp]:
  "ops_events [] = 0" "ops_events (x # xs) = op_events x + ops_events xs"
  "ops_ordinals [] = 0" "ops_ordinals (x # xs) = op_ordinals x + ops_ordinals xs"
  by (simp_all add: ops_events_def ops_ordinals_def)

lemma run_ops_Cons:
  assumes "room w (ops_events (x # xs)) (ops_ordinals (x # xs))"
  shows "run_ops uuid clock w (x # xs) =
    (fst (run_op uuid clock w x) @
       fst (run_ops uuid clock (writer_advance w (op_events x) (op_ordinals x)) xs),
     snd (run_ops uuid clock (writer_advance w (op_events x) (op_ordinals x)) xs))"
  and "room w (op_events x) (op_ordinals x)"
  and "room (writer_advance w (op_events x) (op_ordinals x)) (ops_events xs) (ops_ordinals xs)"
proof -
  show r: "room w (op_events x) (op_ordinals x)"
    using assms by (auto elim: room_mono)
  show "run_ops uuid clock w (x # xs) =
    (fst (run_op uuid clock w x) @
       fst (run_ops uuid clock (writer_advance w (op_events x) (op_ordinals x)) xs),
     snd (run_ops uuid clock (writer_advance w (op_events x) (op_ordinals x)) xs))"
    using run_op_writer [OF r, of uuid clock]
    by (cases "run_op uuid clock w x") (simp add: case_prod_unfold Let_def)
qed (use assms in simp)

lemma run_ops_memE:
  assumes "room w (ops_events (x # xs)) (ops_ordinals (x # xs))"
    and "e \<in> set (fst (run_ops uuid clock w (x # xs)))"
  obtains "e \<in> set (fst (run_op uuid clock w x))"
    | "e \<in> set (fst (run_ops uuid clock (writer_advance w (op_events x) (op_ordinals x)) xs))"
  using assms(2) unfolding run_ops_Cons(1) [OF assms(1)] by auto

lemma stamped_advance [simp]: "stamped (writer_advance w n m) = stamped w"
  by (simp add: stamped_def fun_eq_iff)

lemma run_ops_writer:
  "room w (ops_events xs) (ops_ordinals xs) \<Longrightarrow>
     snd (run_ops uuid clock w xs) = writer_advance w (ops_events xs) (ops_ordinals xs)"
proof (induction xs arbitrary: w)
  case (Cons x xs)
  then show ?case using run_ops_Cons [OF Cons.prems] by simp
qed simp

lemma run_ops_stamped:
  "room w (ops_events xs) (ops_ordinals xs) \<Longrightarrow> e \<in> set (fst (run_ops uuid clock w xs)) \<Longrightarrow> stamped w e"
proof (induction xs arbitrary: w)
  case (Cons x xs)
  note r = run_ops_Cons(2,3) [OF Cons.prems(1)]
  from Cons.prems show ?case
    by (rule run_ops_memE) (use run_op_stamped [OF r(1)] Cons.IH [OF r(2)] in simp_all)
qed simp

lemma run_ops_seqs:
  "room w (ops_events xs) (ops_ordinals xs) \<Longrightarrow>
     map item_seq (fst (run_ops uuid clock w xs)) = map (\<lambda>k. w_next_seq w + int k) [0..<ops_events xs]"
proof (induction xs arbitrary: w)
  case (Cons x xs)
  have "map (\<lambda>k. w_next_seq w + int (op_events x) + int k) [0..<ops_events xs] =
      map (\<lambda>k. w_next_seq w + int k) [op_events x..<op_events x + ops_events xs]"
    by (rule nth_equalityI) simp_all
  with Cons.IH run_ops_Cons [OF Cons.prems] run_op_seqs show ?case
    by (simp add: upt_add_eq_append [of 0 "op_events x"])
qed simp

lemma run_ops_tagged:
  "room w (ops_events xs) (ops_ordinals xs) \<Longrightarrow> e \<in> set (fst (run_ops uuid clock w xs)) \<Longrightarrow>
     tagged uuid w (ops_events xs) (ops_ordinals xs) e"
proof (induction xs arbitrary: w)
  case (Cons x xs)
  note r = run_ops_Cons(2,3) [OF Cons.prems(1)]
  from Cons.prems show ?case
    by (rule run_ops_memE)
      (use tagged_mono [OF run_op_tagged [OF r(1)]] tagged_advance [OF Cons.IH [OF r(2)]] in simp_all)
qed simp

lemma run_ops_distinct:
  "inj uuid \<Longrightarrow> list_all op_ok xs \<Longrightarrow> room w (ops_events xs) (ops_ordinals xs) \<Longrightarrow>
     distinct (map event_id (fst (run_ops uuid clock w xs)))"
proof (induction xs arbitrary: w)
  case (Cons x xs)
  let ?w = "writer_advance w (op_events x) (op_ordinals x)"
  note r = run_ops_Cons [OF Cons.prems(3)]
  have "event_id e \<noteq> event_id f"
    if "e \<in> set (fst (run_op uuid clock w x))" "f \<in> set (fst (run_ops uuid clock ?w xs))" for e f
    using that r(2,3) Cons.prems(1) tagged_disjoint run_op_tagged run_ops_tagged by blast
  with Cons.IH [of ?w] Cons.prems r(2,3) run_op_distinct show ?case
    unfolding r(1) by fastforce
qed simp

lemma run_ops_valid:
  "writer_ok w \<Longrightarrow> list_all op_ok xs \<Longrightarrow> room w (ops_events xs) (ops_ordinals xs) \<Longrightarrow>
     (\<And>s. uuid s \<noteq> []) \<Longrightarrow> e \<in> set (fst (run_ops uuid clock w xs)) \<Longrightarrow> valid e"
proof (induction xs arbitrary: w)
  case (Cons x xs)
  have "writer_ok (writer_advance w (op_events x) (op_ordinals x))"
    using Cons.prems(1) by (simp add: writer_ok_def)
  note ih = Cons.IH [OF this]
  from Cons.prems(3,5) show ?case
    by (rule run_ops_memE)
      (use Cons.prems(2) run_ops_Cons(3) [OF Cons.prems(3)] Cons.prems(4) ih
         run_op_valid [OF Cons.prems(1) _ run_ops_Cons(2) [OF Cons.prems(3)] Cons.prems(4)] in auto)
qed simp

end
