(* ===== verification/Datagen_Fold.thy ===== *)
theory Datagen_Fold
  imports Datagen_Writer "HOL-Library.Multiset" "HOL-Library.AList"
begin

text \<open>
  The fold of an item's events into its latest state (\<open>normalize_events\<close>, \<open>initial_item\<close>,
  \<open>apply_event\<close>, \<open>fold_datagen_events_with\<close> and the trajectory and failure lenses of
  \<open>crates/lance-context-core/src/datagen.rs\<close>). A \<open>HashSet\<close> is a set, a \<open>BTreeMap\<close> the sorted
  association list of the prelude.
\<close>

section \<open>State\<close>

datatype 'j field_state = FSet "'j datagen_value" | FAppended "'j datagen_value list"

record trajectory =
  tr_ordered :: "step_cursor list"
  tr_completed :: "stream_position set"
  tr_started :: "stream_position set"

record 'j folded_item =
  fi_item_id :: item_id
  fi_root_item_id :: item_id
  fi_parent_item_id :: "item_id option"
  fi_status :: item_status
  fi_last_item_seq :: int
  fi_last_attempt :: int
  fi_fields :: "(string, 'j field_state) btree_map"
  fi_trajectory :: trajectory
  fi_query_tags :: "'j option"
  fi_blob_event_ids :: "(string, string) btree_map"

record failure =
  fl_at :: step_cursor
  fl_run_id :: string
  fl_attempt :: int
  fl_error :: error_info

datatype blob_projection = Lazy | Eager

definition resuming_writer :: "'j folded_item \<Rightarrow> write_context \<Rightarrow> writer" where
  "resuming_writer it ctx =
     writer_resume (fi_item_id it) (fi_root_item_id it) (fi_parent_item_id it) ctx
       (wrap_i64 (fi_last_item_seq it + 1)) (wrap_i32 (fi_last_attempt it + 1))"

section \<open>Normalisation\<close>

text \<open>
  The \<open>HashMap\<close> of the source, keyed by event id, is an association list here; what the loop
  leaves in it does not depend on the order of its entries, since the values are sorted next.
\<close>

fun index_events ::
  "(string \<times> 'j event) list \<Rightarrow> 'j event list \<Rightarrow> (datagen_error, (string \<times> 'j event) list) result" where
  "index_events by_id [] = Ok by_id"
| "index_events by_id (e # es) =
     res_bind (validate e) (\<lambda>_.
       (let by_id' = AList.update (event_id e) e by_id in
        case map_of by_id (event_id e) of
          Some previous \<Rightarrow>
            if \<not> event_eq previous e then Err (EventIdReused (event_id e)) else index_events by_id' es
        | None \<Rightarrow> index_events by_id' es))"

fun check_windows :: "'j event list \<Rightarrow> (datagen_error, unit) result" where
  "check_windows (a # b # es) =
     (if item_id a \<noteq> item_id b then Err NotOneItem
      else if item_seq a = item_seq b then Err (ConflictingItemSeq (item_id a) (item_seq a))
      else check_windows (b # es))"
| "check_windows _ = Ok ()"

definition seq_key :: "'j event \<Rightarrow> int \<times> string" where
  "seq_key e = (item_seq e, event_id e)"

definition normalize_events :: "'j event list \<Rightarrow> (datagen_error, 'j event list) result" where
  "normalize_events es =
     res_bind (index_events [] es) (\<lambda>by_id.
       (let ordered = sort_key seq_key (map snd by_id) in
        res_bind (check_windows ordered) (\<lambda>_. Ok ordered)))"

section \<open>Applying events\<close>

definition initial_item :: "'j event \<Rightarrow> (datagen_error, 'j folded_item) result" where
  "initial_item e =
     res_bind (case parent_item_id e of
         Some p \<Rightarrow> res_bind (item_id_parse p) (\<lambda>i. Ok (Some i)) | None \<Rightarrow> Ok None) (\<lambda>par.
     res_bind (item_id_parse (item_id e)) (\<lambda>iid.
     res_bind (item_id_parse (root_item_id e)) (\<lambda>rid.
     Ok \<lparr>fi_item_id = iid, fi_root_item_id = rid, fi_parent_item_id = par, fi_status = Running,
         fi_last_item_seq = item_seq e, fi_last_attempt = attempt e, fi_fields = [],
         fi_trajectory = \<lparr>tr_ordered = [], tr_completed = {}, tr_started = {}\<rparr>,
         fi_query_tags = None, fi_blob_event_ids = []\<rparr>)))"

definition record_blob_event_id ::
  "'j folded_item \<Rightarrow> string \<Rightarrow> 'j datagen_value \<Rightarrow> string \<Rightarrow> 'j folded_item" where
  "record_blob_event_id it name v eid =
     (if is_blob v then it\<lparr>fi_blob_event_ids := bt_insert name eid (fi_blob_event_ids it)\<rparr> else it)"

text \<open>\<open>field_name\<close> and \<open>value\<close> are unwrapped: \<open>normalize_events\<close> has validated the event.\<close>

definition apply_field_set :: "'j folded_item \<Rightarrow> 'j event \<Rightarrow> (datagen_error, 'j folded_item) result" where
  "apply_field_set it e =
     (let name = the (field_name e); v = the (ev_value e) in
      case bt_get (fi_fields it) name of
        Some (FSet old) \<Rightarrow>
          if kind old \<noteq> kind v then Err (KindChanges name (kind old) (kind v))
          else (let it' = record_blob_event_id it name v (event_id e)
                in Ok (it'\<lparr>fi_fields := bt_insert name (FSet v) (fi_fields it')\<rparr>))
      | _ \<Rightarrow> (let it' = record_blob_event_id it name v (event_id e)
              in Ok (it'\<lparr>fi_fields := bt_insert name (FSet v) (fi_fields it')\<rparr>)))"

definition apply_field_append :: "'j folded_item \<Rightarrow> 'j event \<Rightarrow> (datagen_error, 'j folded_item) result" where
  "apply_field_append it e =
     (let name = the (field_name e); v = the (ev_value e);
          it' = record_blob_event_id it name v (event_id e) in
      case bt_get (fi_fields it') name of
        None \<Rightarrow> Ok (it'\<lparr>fi_fields := bt_insert name (FAppended [v]) (fi_fields it')\<rparr>)
      | Some (FAppended vs) \<Rightarrow>
          (case vs of
             old # _ \<Rightarrow>
               if kind old \<noteq> kind v then Err (KindChanges name (kind old) (kind v))
               else Ok (it'\<lparr>fi_fields := bt_insert name (FAppended (vs @ [v])) (fi_fields it')\<rparr>)
           | [] \<Rightarrow> Ok (it'\<lparr>fi_fields := bt_insert name (FAppended (vs @ [v])) (fi_fields it')\<rparr>))
      | Some (FSet _) \<Rightarrow> Err (MixesSetAppend name))"

definition apply_event :: "'j folded_item \<Rightarrow> 'j event \<Rightarrow> (datagen_error, 'j folded_item) result" where
  "apply_event it0 e =
     res_bind (item_id_parse (item_id e)) (\<lambda>iid.
     if iid \<noteq> fi_item_id it0
     then Err (ForeignEvent (event_id e) (item_id e) (item_id_to_string (fi_item_id it0)))
     else
       (let it = it0\<lparr>fi_last_item_seq := max (fi_last_item_seq it0) (item_seq e),
                    fi_last_attempt := max (fi_last_attempt it0) (attempt e)\<rparr> in
        case event_type e of
          ItemCreated \<Rightarrow>
            Ok (it\<lparr>fi_status := Running,
                  fi_query_tags := (if query_tags e \<noteq> None then query_tags e else fi_query_tags it)\<rparr>)
        | StepStarted \<Rightarrow>
            res_bind (stream_position e) (\<lambda>pos.
            Ok (it\<lparr>fi_trajectory := (fi_trajectory it)
                    \<lparr>tr_started := insert pos (tr_started (fi_trajectory it))\<rparr>\<rparr>))
        | FieldSet \<Rightarrow> apply_field_set it e
        | FieldAppend \<Rightarrow> apply_field_append it e
        | StepCompleted \<Rightarrow>
            res_bind (stream_position e) (\<lambda>pos.
            Ok (it\<lparr>fi_trajectory := (fi_trajectory it)
                    \<lparr>tr_completed := insert pos (tr_completed (fi_trajectory it)),
                     tr_ordered := tr_ordered (fi_trajectory it) @
                       [\<lparr>cur_position = pos, cur_item_seq = item_seq e\<rparr>]\<rparr>\<rparr>))
        | Failed \<Rightarrow> Ok it
        | Terminal \<Rightarrow>
            (case status e of
               Some Completed \<Rightarrow> Ok (it\<lparr>fi_status := Completed\<rparr>)
             | Some Filtered \<Rightarrow> Ok (it\<lparr>fi_status := Filtered\<rparr>)
             | _ \<Rightarrow> Err TerminalMissingStatus)))"

fun strip_value :: "'j datagen_value \<Rightarrow> 'j datagen_value" where
  "strip_value (VBlob b) = VBlob (b\<lparr>blob_bytes := None\<rparr>)"
| "strip_value v = v"

fun strip_state :: "'j field_state \<Rightarrow> 'j field_state" where
  "strip_state (FSet v) = FSet (strip_value v)"
| "strip_state (FAppended vs) = FAppended (map strip_value vs)"

definition drop_blob_bytes :: "'j folded_item \<Rightarrow> 'j folded_item" where
  "drop_blob_bytes it = it\<lparr>fi_fields := map (\<lambda>(k, s). (k, strip_state s)) (fi_fields it)\<rparr>"

definition fold_datagen_events_with ::
  "'j event list \<Rightarrow> blob_projection \<Rightarrow> (datagen_error, 'j folded_item option) result" where
  "fold_datagen_events_with es blobs =
     res_bind (normalize_events es) (\<lambda>ordered.
       case ordered of
         [] \<Rightarrow> Ok None
       | first # _ \<Rightarrow>
           if event_type first \<noteq> ItemCreated then Ok None
           else res_bind (initial_item first) (\<lambda>it0.
                res_bind (fold_res apply_event it0 ordered) (\<lambda>it.
                Ok (Some (if blobs = Lazy then drop_blob_bytes it else it)))))"

definition fold_datagen_events :: "'j event list \<Rightarrow> (datagen_error, 'j folded_item option) result" where
  "fold_datagen_events es = fold_datagen_events_with es Lazy"

definition datagen_trajectory :: "'j event list \<Rightarrow> (datagen_error, step_cursor list) result" where
  "datagen_trajectory es =
     res_bind (fold_datagen_events es) (\<lambda>it.
       Ok (case it of Some i \<Rightarrow> tr_ordered (fi_trajectory i) | None \<Rightarrow> []))"

definition failure_of :: "'j event \<Rightarrow> (datagen_error, failure) result" where
  "failure_of e =
     res_bind (stream_position e) (\<lambda>pos.
     Ok \<lparr>fl_at = \<lparr>cur_position = pos, cur_item_seq = item_seq e\<rparr>, fl_run_id = run_id e,
         fl_attempt = attempt e,
         fl_error = \<lparr>ei_error_type = the (error_type e), ei_error_dump = error_dump e,
                     ei_traceback = traceback e\<rparr>\<rparr>)"

definition datagen_failures :: "'j event list \<Rightarrow> (datagen_error, failure list) result" where
  "datagen_failures es =
     res_bind (normalize_events es) (\<lambda>ordered.
       collect_res failure_of (filter (\<lambda>e. event_type e = Failed) ordered))"

section \<open>Lemmas: normalisation\<close>

definition idx_ok :: "(string \<times> 'j event) list \<Rightarrow> bool" where
  "idx_ok m \<longleftrightarrow> distinct (map fst m) \<and> (\<forall>k e. map_of m k = Some e \<longrightarrow> event_id e = k)"

text \<open>Equal but for the value, which is all that \<open>event_eq\<close> can blur.\<close>

definition same_header :: "'j event \<Rightarrow> 'j event \<Rightarrow> bool" where
  "same_header a b \<longleftrightarrow> a\<lparr>ev_value := None\<rparr> = b\<lparr>ev_value := None\<rparr>"

lemma same_header_refl [simp]: "same_header a a"
  by (simp add: same_header_def)

lemma same_header_trans: "same_header a b \<Longrightarrow> same_header b c \<Longrightarrow> same_header a c"
  by (simp add: same_header_def)

lemma same_header_fields:
  assumes "same_header a b"
  shows "event_id a = event_id b" "item_id a = item_id b" "item_seq a = item_seq b"
    "attempt a = attempt b" "event_type a = event_type b" "position_of a = position_of b"
    "status a = status b" "parent_item_id a = parent_item_id b" "run_id a = run_id b"
    "field_name a = field_name b"
  using assms by (cases a; cases b; simp add: same_header_def position_of_def)+

lemma event_eq_header: "event_eq a b \<Longrightarrow> same_header a b"
  by (simp add: event_eq_def same_header_def)

lemma idx_ok_update: "idx_ok m \<Longrightarrow> idx_ok (AList.update (event_id e) e m)"
  by (auto simp: idx_ok_def distinct_update update_conv')

lemma index_events_Cons_Ok:
  "index_events m (e # es) = Ok r \<longleftrightarrow>
     valid e \<and> (\<forall>p. map_of m (event_id e) = Some p \<longrightarrow> event_eq p e) \<and>
     index_events (AList.update (event_id e) e m) es = Ok r"
  by (cases "map_of m (event_id e)") (auto simp: Let_def)

declare index_events.simps(2) [simp del]
declare index_events_Cons_Ok [simp]

definition idx_values :: "(string \<times> 'j event) list \<Rightarrow> 'j event set" where
  "idx_values m = {e. map_of m (event_id e) = Some e}"

lemma idx_values_eq: "idx_ok m \<Longrightarrow> set (map snd m) = idx_values m"
proof -
  assume m: "idx_ok m"
  then have "e \<in> set (map snd m) \<longleftrightarrow> (\<exists>k. map_of m k = Some e)" for e
    by (auto simp: idx_ok_def map_of_eq_Some_iff intro: rev_image_eqI)
  with m show ?thesis by (auto simp: idx_ok_def idx_values_def)
qed

lemma idx_values_update:
  "idx_ok m \<Longrightarrow> idx_values (AList.update (event_id e) e m) = insert e {x \<in> idx_values m. event_id x \<noteq> event_id e}"
  by (auto simp: idx_values_def update_conv')

lemma index_events_props:
  assumes "index_events m es = Ok r" "idx_ok m"
  shows "idx_ok r \<and> (\<forall>e \<in> set es. valid e) \<and> idx_values r \<subseteq> idx_values m \<union> set es \<and>
    (\<forall>e \<in> idx_values m \<union> set es. \<exists>e' \<in> idx_values r. same_header e e')"
  using assms
proof (induction es arbitrary: m)
  case (Cons e es)
  let ?m = "AList.update (event_id e) e m"
  from Cons.prems have v: "valid e" and prev: "\<And>p. map_of m (event_id e) = Some p \<Longrightarrow> event_eq p e"
    and rest: "index_events ?m es = Ok r" by auto
  note ih = Cons.IH [OF rest idx_ok_update [OF Cons.prems(2)]]
  have upd: "idx_values ?m = insert e {x \<in> idx_values m. event_id x \<noteq> event_id e}"
    by (rule idx_values_update [OF Cons.prems(2)])
  have "\<exists>e' \<in> idx_values r. same_header x e'" if x: "x \<in> idx_values m" for x
  proof (cases "event_id x = event_id e")
    case True
    with x prev have "same_header x e" by (auto simp: idx_values_def intro: event_eq_header)
    moreover obtain e' where "e' \<in> idx_values r" "same_header e e'" using ih upd by blast
    ultimately show ?thesis using same_header_trans by blast
  next
    case False
    with x ih upd show ?thesis by blast
  qed
  with ih upd v show ?case by auto
qed (auto intro: same_header_refl)

definition same_content :: "'j event set \<Rightarrow> bool" where
  "same_content S \<longleftrightarrow> (\<forall>a \<in> S. \<forall>b \<in> S. event_id a = event_id b \<longrightarrow> a = b)"

lemma index_events_total:
  assumes "idx_ok m" "same_content (idx_values m \<union> set es)" "\<forall>e \<in> set es. valid e \<and> \<not> event_nan e"
  shows "\<exists>r. index_events m es = Ok r \<and> idx_values r = idx_values m \<union> set es"
  using assms
proof (induction es arbitrary: m)
  case (Cons e es)
  let ?m = "AList.update (event_id e) e m"
  have vals: "idx_values ?m = insert e (idx_values m)"
    using Cons.prems(2) idx_values_update [OF Cons.prems(1)] by (auto simp: same_content_def)
  have "event_eq p e" if "map_of m (event_id e) = Some p" for p
  proof -
    from that Cons.prems(1) have "p \<in> idx_values m" "event_id p = event_id e"
      by (auto simp: idx_ok_def idx_values_def)
    with Cons.prems(2,3) have "p = e" "\<not> event_nan e" by (auto simp: same_content_def)
    then show ?thesis by (simp add: event_eq_refl)
  qed
  moreover have "\<exists>r. index_events ?m es = Ok r \<and> idx_values r = idx_values ?m \<union> set es"
    using Cons.prems vals by (intro Cons.IH) (auto simp: idx_ok_update)
  ultimately show ?case using Cons.prems(3) vals by auto
qed auto

lemma index_events_append: "index_events m (xs @ ys) = res_bind (index_events m xs) (\<lambda>m'. index_events m' ys)"
proof (induction xs arbitrary: m)
  case (Cons e xs)
  then show ?case by (cases "validate e"; cases "map_of m (event_id e)") (simp_all add: index_events.simps Let_def)
qed simp

lemma index_events_keys: "index_events m es = Ok r \<Longrightarrow> idx_ok m \<Longrightarrow> e \<in> set es \<Longrightarrow> \<exists>p. map_of r (event_id e) = Some p"
proof -
  assume "index_events m es = Ok r" "idx_ok m" "e \<in> set es"
  then obtain e' where "e' \<in> idx_values r" "same_header e e'" using index_events_props [of m es r] by blast
  then show ?thesis using same_header_fields(1) [of e e'] unfolding idx_values_def by auto
qed

lemma idx_ok_Nil [simp]: "idx_ok []" "idx_values [] = {}"
  by (auto simp: idx_ok_def idx_values_def)

lemma idx_distinct_values:
  assumes "idx_ok m"
  shows "distinct (map snd m)" and "inj_on event_id (set (map snd m))"
proof -
  have "k = event_id e" if "(k, e) \<in> set m" for k e
    using assms that by (auto simp: idx_ok_def)
  then have "map fst m = map event_id (map snd m)" by (auto simp: case_prod_unfold)
  then have "distinct (map event_id (map snd m))" using assms by (metis idx_ok_def)
  then show "distinct (map snd m)" "inj_on event_id (set (map snd m))"
    by (simp_all add: distinct_map [of event_id "map snd m"] del: map_map set_map)
qed

text \<open>The normal form of a log: the distinct events in \<open>(item_seq, event_id)\<close> order.\<close>

definition normal_form :: "'j event list \<Rightarrow> bool" where
  "normal_form os \<longleftrightarrow> sorted_wrt (<) (map seq_key os) \<and> inj_on event_id (set os) \<and> check_windows os = Ok ()"

lemma sorted_keys_distinct:
  "sorted (map seq_key os) \<Longrightarrow> distinct os \<Longrightarrow> inj_on event_id (set os) \<Longrightarrow> sorted_wrt (<) (map seq_key os)"
  by (auto simp: strict_sorted_iff distinct_map inj_on_def seq_key_def)

lemma normalize_props:
  assumes "normalize_events es = Ok os"
  shows "normal_form os" "\<forall>e \<in> set es. valid e" "set os \<subseteq> set es"
    "\<forall>e \<in> set es. \<exists>e' \<in> set os. same_header e e'"
proof -
  from assms obtain m where m: "index_events [] es = Ok m"
    and os: "os = sort_key seq_key (map snd m)" and w: "check_windows os = Ok ()"
    by (auto simp: normalize_events_def Let_def)
  note pr = index_events_props [OF m idx_ok_Nil(1)]
  then have ok: "idx_ok m" by simp
  have set_os: "set os = idx_values m"
    using idx_values_eq [OF ok] os by simp
  show "\<forall>e \<in> set es. valid e" "set os \<subseteq> set es" "\<forall>e \<in> set es. \<exists>e' \<in> set os. same_header e e'"
    using pr set_os by auto
  show "normal_form os"
    using w idx_distinct_values [OF ok] os
    by (auto simp: normal_form_def intro!: sorted_keys_distinct)
qed

lemma normal_form_unique:
  assumes "normal_form os" "normal_form os'" "set os = set os'"
  shows "os = os'"
proof -
  have "inj_on seq_key (set os)"
    using assms(1) by (auto simp: normal_form_def inj_on_def seq_key_def)
  then show ?thesis
    using assms by (intro map_sorted_distinct_set_unique [of seq_key])
      (auto simp: normal_form_def strict_sorted_iff)
qed

lemma normalize_total:
  assumes "\<forall>e \<in> set es. valid e \<and> \<not> event_nan e" "set os = set es" "normal_form os"
  shows "normalize_events es = Ok os"
proof -
  have "same_content (set es)"
    using assms(2,3) by (auto simp: same_content_def normal_form_def inj_on_def)
  with assms(1) obtain m where m: "index_events [] es = Ok m" and vals: "idx_values m = set es"
    using index_events_total [of "[]" es] by auto
  have ok: "idx_ok m" using index_events_props [OF m] by simp
  let ?os = "sort_key seq_key (map snd m)"
  have "set ?os = set os" using idx_values_eq [OF ok] vals assms(2) by simp
  moreover have srt: "sorted_wrt (<) (map seq_key ?os)"
    using idx_distinct_values [OF ok] by (intro sorted_keys_distinct) auto
  moreover have "inj_on seq_key (set os)"
    using assms(3) by (auto simp: normal_form_def inj_on_def seq_key_def)
  ultimately have "?os = os"
    using assms(3) by (intro map_sorted_distinct_set_unique [of seq_key])
      (auto simp: normal_form_def strict_sorted_iff)
  with m assms(3) show ?thesis by (simp add: normalize_events_def normal_form_def)
qed

text \<open>A log already in normal form is kept as it is; no comparison of contents is ever made.\<close>

lemma update_fresh: "k \<notin> fst ` set m \<Longrightarrow> AList.update k v m = m @ [(k, v)]"
  by (induction m) auto

lemma index_events_fresh:
  assumes "\<forall>e \<in> set es. valid e" "distinct (map event_id es)" "event_id ` set es \<inter> fst ` set m = {}"
  shows "index_events m es = Ok (m @ map (\<lambda>e. (event_id e, e)) es)"
  using assms
proof (induction es arbitrary: m)
  case (Cons e es)
  have "map_of m (event_id e) = None" using Cons.prems(3) by (simp add: map_of_eq_None_iff)
  moreover have "index_events (m @ [(event_id e, e)]) es = Ok ((m @ [(event_id e, e)]) @ map (\<lambda>e. (event_id e, e)) es)"
    using Cons.prems by (intro Cons.IH) auto
  ultimately show ?case using Cons.prems by (simp add: update_fresh)
qed simp

lemma normalize_normal:
  assumes "normal_form os" "\<forall>e \<in> set os. valid e"
  shows "normalize_events os = Ok os"
proof -
  have "distinct os" "sorted (map seq_key os)"
    using assms(1) by (auto simp: normal_form_def strict_sorted_iff distinct_map)
  moreover from this have "distinct (map event_id os)"
    using assms(1) by (simp add: normal_form_def distinct_map)
  ultimately show ?thesis
    using assms by (simp add: normalize_events_def index_events_fresh normal_form_def
        sort_key_id_if_sorted comp_def)
qed

lemma normal_formI:
  assumes "sorted_wrt (<) (map item_seq os)" "\<forall>e \<in> set os. item_id e = s" "distinct (map event_id os)"
  shows "normal_form os"
proof -
  have "check_windows os = Ok ()"
    using assms(1,2) by (induction os rule: check_windows.induct) auto
  moreover have "sorted_wrt (<) (map seq_key os)"
    using assms(1) by (auto simp: sorted_wrt_map seq_key_def elim: sorted_wrt_mono_rel [rotated])
  ultimately show ?thesis using assms(3) by (simp add: normal_form_def distinct_map)
qed

lemma normalize_set_eq:
  assumes "normalize_events es = Ok os" "set es' = set es" "same_content (set es)"
    and "\<forall>e \<in> set es. \<not> event_nan e"
  shows "normalize_events es' = Ok os"
proof (rule normalize_total)
  show "\<forall>e \<in> set es'. valid e \<and> \<not> event_nan e"
    using assms normalize_props(2) by blast
  have "x \<in> set os" if x: "x \<in> set es" for x
  proof -
    obtain e' where "e' \<in> set os" "same_header x e'" using normalize_props(4) [OF assms(1)] x by blast
    moreover from this have "e' \<in> set es" "event_id e' = event_id x"
      using normalize_props(3) [OF assms(1)] same_header_fields(1) [of x e'] by auto
    with assms(3) x have "e' = x" by (auto simp: same_content_def)
    ultimately show ?thesis by simp
  qed
  then show "set os = set es'" using normalize_props(3) [OF assms(1)] assms(2) by blast
qed (rule normalize_props(1) [OF assms(1)])

section \<open>Lemmas: one event\<close>

text \<open>
  The abstract account of one field: what a write does to the state the field had
  (\<open>None\<close>: the write is refused).
\<close>

fun write_field ::
  "field_op \<Rightarrow> 'j datagen_value \<Rightarrow> 'j field_state option \<Rightarrow> 'j field_state option" where
  "write_field OpSet v (Some (FSet old)) = (if kind old = kind v then Some (FSet v) else None)"
| "write_field OpSet v _ = Some (FSet v)"
| "write_field OpAppend v None = Some (FAppended [v])"
| "write_field OpAppend v (Some (FAppended vs)) =
     (if vs = [] \<or> kind (hd vs) = kind v then Some (FAppended (vs @ [v])) else None)"
| "write_field OpAppend v (Some (FSet _)) = None"

definition is_field :: "'j event \<Rightarrow> bool" where
  "is_field e \<longleftrightarrow> event_type e = FieldSet \<or> event_type e = FieldAppend"

definition event_op :: "'j event \<Rightarrow> field_op" where
  "event_op e = (if event_type e = FieldSet then OpSet else OpAppend)"

definition cursor_of :: "'j event \<Rightarrow> step_cursor" where
  "cursor_of e = \<lparr>cur_position = position_of e, cur_item_seq = item_seq e\<rparr>"

definition traj_step :: "trajectory \<Rightarrow> 'j event \<Rightarrow> trajectory" where
  "traj_step t e =
     (case event_type e of
        StepStarted \<Rightarrow> t\<lparr>tr_started := insert (position_of e) (tr_started t)\<rparr>
      | StepCompleted \<Rightarrow> t\<lparr>tr_completed := insert (position_of e) (tr_completed t),
                            tr_ordered := tr_ordered t @ [cursor_of e]\<rparr>
      | _ \<Rightarrow> t)"

definition status_step :: "item_status \<Rightarrow> 'j event \<Rightarrow> item_status" where
  "status_step s e = (case event_type e of ItemCreated \<Rightarrow> Running | Terminal \<Rightarrow> the (status e) | _ \<Rightarrow> s)"

definition tags_step :: "'j option \<Rightarrow> 'j event \<Rightarrow> 'j option" where
  "tags_step q e = (if event_type e = ItemCreated \<and> query_tags e \<noteq> None then query_tags e else q)"

definition fields_step :: "(string, 'j field_state) btree_map \<Rightarrow> 'j event \<Rightarrow> (string, 'j field_state) btree_map" where
  "fields_step m e =
     (if is_field e
      then bt_insert (the (field_name e))
             (the (write_field (event_op e) (the (ev_value e)) (bt_get m (the (field_name e))))) m
      else m)"

definition blobs_step :: "(string, string) btree_map \<Rightarrow> 'j event \<Rightarrow> (string, string) btree_map" where
  "blobs_step m e =
     (if is_field e \<and> is_blob (the (ev_value e)) then bt_insert (the (field_name e)) (event_id e) m else m)"

definition item_step :: "'j folded_item \<Rightarrow> 'j event \<Rightarrow> 'j folded_item" where
  "item_step it e = it
     \<lparr>fi_last_item_seq := max (fi_last_item_seq it) (item_seq e),
      fi_last_attempt := max (fi_last_attempt it) (attempt e),
      fi_status := status_step (fi_status it) e,
      fi_trajectory := traj_step (fi_trajectory it) e,
      fi_query_tags := tags_step (fi_query_tags it) e,
      fi_fields := fields_step (fi_fields it) e,
      fi_blob_event_ids := blobs_step (fi_blob_event_ids it) e\<rparr>"

definition accepts :: "'j folded_item \<Rightarrow> 'j event \<Rightarrow> bool" where
  "accepts it e \<longleftrightarrow> item_id_parse (item_id e) = Ok (fi_item_id it) \<and>
     (is_field e \<longrightarrow>
        write_field (event_op e) (the (ev_value e)) (bt_get (fi_fields it) (the (field_name e))) \<noteq> None)"

lemma apply_field_set_iff:
  assumes "event_type e = FieldSet"
  shows "apply_field_set it e = Ok it' \<longleftrightarrow>
    write_field OpSet (the (ev_value e)) (bt_get (fi_fields it) (the (field_name e))) \<noteq> None \<and>
    it' = it\<lparr>fi_fields := fields_step (fi_fields it) e,
            fi_blob_event_ids := blobs_step (fi_blob_event_ids it) e\<rparr>"
  using assms
  by (auto simp: apply_field_set_def record_blob_event_id_def fields_step_def blobs_step_def is_field_def
      event_op_def Let_def split: option.split field_state.split)

lemma apply_field_append_iff:
  assumes "event_type e = FieldAppend"
  shows "apply_field_append it e = Ok it' \<longleftrightarrow>
    write_field OpAppend (the (ev_value e)) (bt_get (fi_fields it) (the (field_name e))) \<noteq> None \<and>
    it' = it\<lparr>fi_fields := fields_step (fi_fields it) e,
            fi_blob_event_ids := blobs_step (fi_blob_event_ids it) e\<rparr>"
  using assms
  by (auto simp: apply_field_append_def record_blob_event_id_def fields_step_def blobs_step_def is_field_def
      event_op_def Let_def split: option.split field_state.split list.split)

lemma apply_event_iff:
  assumes "valid e"
  shows "apply_event it e = Ok it' \<longleftrightarrow> accepts it e \<and> it' = item_step it e"
proof -
  have step: "event_type e \<in> {StepStarted, StepCompleted} \<Longrightarrow> stream_position e = Ok (position_of e)"
    and fin: "event_type e = Terminal \<Longrightarrow> status e = Some Completed \<or> status e = Some Filtered"
    using assms by (auto simp: validate_Ok_iff type_payload_def intro: stream_position_Ok)
  note defs = apply_event_def accepts_def item_step_def is_field_def event_op_def traj_step_def
    status_step_def tags_step_def cursor_of_def
  show ?thesis
  proof (cases "event_type e")
    case FieldSet
    then show ?thesis by (auto simp: defs Let_def apply_field_set_iff)
  next
    case FieldAppend
    then show ?thesis by (auto simp: defs Let_def apply_field_append_iff)
  next
    case Terminal
    with fin show ?thesis by (auto simp: defs Let_def fields_step_def blobs_step_def)
  qed (use step in \<open>auto simp: defs Let_def fields_step_def blobs_step_def\<close>)
qed

fun accepts_all :: "'j folded_item \<Rightarrow> 'j event list \<Rightarrow> bool" where
  "accepts_all it [] = True"
| "accepts_all it (e # es) = (accepts it e \<and> accepts_all (item_step it e) es)"

lemma fold_apply_iff:
  "\<forall>e \<in> set es. valid e \<Longrightarrow>
     fold_res apply_event it es = Ok it' \<longleftrightarrow> accepts_all it es \<and> it' = foldl item_step it es"
  by (induction es arbitrary: it) (auto simp: apply_event_iff)

text \<open>What survives a run of steps, field by field.\<close>

lemma foldl_item_step:
  "fi_item_id (foldl item_step it es) = fi_item_id it"
  "fi_root_item_id (foldl item_step it es) = fi_root_item_id it"
  "fi_parent_item_id (foldl item_step it es) = fi_parent_item_id it"
  "fi_last_item_seq (foldl item_step it es) = foldl (\<lambda>m e. max m (item_seq e)) (fi_last_item_seq it) es"
  "fi_last_attempt (foldl item_step it es) = foldl (\<lambda>m e. max m (attempt e)) (fi_last_attempt it) es"
  "fi_status (foldl item_step it es) = foldl status_step (fi_status it) es"
  "fi_trajectory (foldl item_step it es) = foldl traj_step (fi_trajectory it) es"
  "fi_query_tags (foldl item_step it es) = foldl tags_step (fi_query_tags it) es"
  "fi_fields (foldl item_step it es) = foldl fields_step (fi_fields it) es"
  "fi_blob_event_ids (foldl item_step it es) = foldl blobs_step (fi_blob_event_ids it) es"
  by (induction es arbitrary: it; simp add: item_step_def)+

lemma foldl_max_Max: "foldl (\<lambda>m e. max m (f e)) (x::'b::linorder) es = Max (insert x (f ` set es))"
proof (induction es arbitrary: x)
  case (Cons e es)
  then show ?case by (cases "es = []") (simp_all add: max.assoc)
qed simp

lemma foldl_traj_step:
  "tr_ordered (foldl traj_step t es) = tr_ordered t @ map cursor_of (filter (\<lambda>e. event_type e = StepCompleted) es)"
  "tr_completed (foldl traj_step t es) = tr_completed t \<union> position_of ` {e \<in> set es. event_type e = StepCompleted}"
  "tr_started (foldl traj_step t es) = tr_started t \<union> position_of ` {e \<in> set es. event_type e = StepStarted}"
  by (induction es arbitrary: t; auto simp: traj_step_def split: event_type.splits)+

lemma foldl_status_lifecycle:
  "s \<noteq> StatusFailed \<Longrightarrow> \<forall>e \<in> set es. valid e \<Longrightarrow> foldl status_step s es \<noteq> StatusFailed"
proof (induction es arbitrary: s)
  case (Cons e es)
  have "status_step s e \<noteq> StatusFailed"
    using Cons.prems by (auto simp: status_step_def validate_Ok_iff type_payload_def split: event_type.splits)
  with Cons show ?case by simp
qed simp

section \<open>Lemmas: a whole fold\<close>

lemma initial_item_Ok:
  assumes "initial_item e = Ok it"
  shows "item_id_parse (item_id e) = Ok (fi_item_id it)" "item_id_parse (root_item_id e) = Ok (fi_root_item_id it)"
    "fi_status it = Running" "fi_last_item_seq it = item_seq e" "fi_last_attempt it = attempt e"
    "fi_fields it = []" "fi_blob_event_ids it = []" "fi_query_tags it = None"
    "fi_trajectory it = \<lparr>tr_ordered = [], tr_completed = {}, tr_started = {}\<rparr>"
    "(parent_item_id e = None \<and> fi_parent_item_id it = None) \<or>
     (\<exists>p q. parent_item_id e = Some p \<and> item_id_parse p = Ok q \<and> fi_parent_item_id it = Some q)"
  using assms by (auto simp: initial_item_def split: option.splits)

definition project :: "blob_projection \<Rightarrow> 'j folded_item \<Rightarrow> 'j folded_item" where
  "project b it = (if b = Lazy then drop_blob_bytes it else it)"

lemma project_simps [simp]:
  "fi_item_id (project b it) = fi_item_id it" "fi_root_item_id (project b it) = fi_root_item_id it"
  "fi_parent_item_id (project b it) = fi_parent_item_id it" "fi_status (project b it) = fi_status it"
  "fi_last_item_seq (project b it) = fi_last_item_seq it"
  "fi_last_attempt (project b it) = fi_last_attempt it"
  "fi_trajectory (project b it) = fi_trajectory it" "fi_query_tags (project b it) = fi_query_tags it"
  "fi_blob_event_ids (project b it) = fi_blob_event_ids it"
  by (simp_all add: project_def drop_blob_bytes_def)

lemma bt_get_strip: "bt_get (map (\<lambda>(k, s). (k, f s)) m) k = map_option f (bt_get m k)"
  by (induction m) (auto simp: bt_get_def)

lemma fold_Some_iff:
  "fold_datagen_events_with es b = Ok (Some it) \<longleftrightarrow>
     (\<exists>e0 rest it0. normalize_events es = Ok (e0 # rest) \<and> event_type e0 = ItemCreated \<and>
        initial_item e0 = Ok it0 \<and> accepts_all it0 (e0 # rest) \<and>
        it = project b (foldl item_step it0 (e0 # rest)))"
proof (cases "normalize_events es")
  case (Inr os)
  have "fold_res apply_event it0 os = Ok it1 \<longleftrightarrow> accepts_all it0 os \<and> it1 = foldl item_step it0 os" for it0 it1
    using normalize_props(2,3) [OF Inr] by (intro fold_apply_iff) blast
  with Inr show ?thesis
    by (cases os) (auto simp: fold_datagen_events_with_def project_def simp del: fold_res.simps)
qed (simp add: fold_datagen_events_with_def)

lemma fold_None_iff:
  "fold_datagen_events_with es b = Ok None \<longleftrightarrow>
     (\<exists>os. normalize_events es = Ok os \<and> (\<forall>e0 rest. os = e0 # rest \<longrightarrow> event_type e0 \<noteq> ItemCreated))"
proof (cases "normalize_events es")
  case (Inr os)
  then show ?thesis by (cases os) (auto simp: fold_datagen_events_with_def)
qed (simp add: fold_datagen_events_with_def)

lemma normalize_repeated_nan:
  assumes "event_nan e" "normalize_events (xs @ e # ys @ zs) = Ok os"
  shows "normalize_events (xs @ e # ys @ e # zs) = Err (EventIdReused (event_id e))"
proof -
  have split: "(xs @ e # ys) @ zs = xs @ e # ys @ zs" "(xs @ e # ys) @ e # zs = xs @ e # ys @ e # zs" by simp_all
  obtain m where m: "index_events [] (xs @ e # ys) = Ok m"
    using assms(2) unfolding normalize_events_def split(1) [symmetric] index_events_append [of _ "xs @ e # ys"] by auto
  obtain p where p: "map_of m (event_id e) = Some p" using index_events_keys [OF m] by fastforce
  have "valid e" using index_events_props [OF m] by simp
  then have "index_events m (e # zs) = Err (EventIdReused (event_id e))"
    using p event_eq_nan [of p e] assms(1) by (auto simp: index_events.simps Let_def)
  then have "index_events [] ((xs @ e # ys) @ e # zs) = Err (EventIdReused (event_id e))"
    unfolding index_events_append [of _ "xs @ e # ys"] m by simp
  then show ?thesis unfolding normalize_events_def split(2) by simp
qed

text \<open>Events that compare equal are the same event: they do not differ in the sign of a zero.\<close>

definition equal_is_same :: "'j event set \<Rightarrow> bool" where
  "equal_is_same S \<longleftrightarrow> (\<forall>a \<in> S. \<forall>b \<in> S. event_eq a b \<longrightarrow> a = b)"

lemma same_content_equal: "same_content S \<Longrightarrow> equal_is_same S"
  using event_eq_header same_header_fields(1) unfolding same_content_def equal_is_same_def by blast

lemma index_events_same:
  assumes "index_events m es = Ok r" "idx_ok m" "equal_is_same (idx_values m \<union> set es)"
  shows "same_content (idx_values m \<union> set es)"
  using assms
proof (induction es arbitrary: m)
  case Nil
  show ?case unfolding same_content_def
  proof (intro ballI impI)
    fix a b assume "a \<in> idx_values m \<union> set []" "b \<in> idx_values m \<union> set []" "event_id a = event_id b"
    then have "map_of m (event_id a) = Some a" "map_of m (event_id a) = Some b" unfolding idx_values_def by simp_all
    then show "a = b" by simp
  qed
next
  case (Cons e es)
  let ?m = "AList.update (event_id e) e m"
  have "p = e" if "p \<in> idx_values m" "event_id p = event_id e" for p
  proof -
    have "map_of m (event_id e) = Some p" using that unfolding idx_values_def by simp
    then have "event_eq p e" using Cons.prems(1) by simp
    then show "p = e" using Cons.prems(3) that(1) unfolding equal_is_same_def by simp
  qed
  then have vals: "idx_values ?m = insert e (idx_values m)"
    unfolding idx_values_update [OF Cons.prems(2)] by blast
  moreover have "index_events ?m es = Ok r" using Cons.prems(1) by simp
  ultimately show ?case using Cons.IH [of ?m] Cons.prems(2,3) by (simp add: idx_ok_update)
qed

lemma normalize_same_content:
  assumes "normalize_events es = Ok os" "equal_is_same (set es)"
  shows "same_content (set es)"
proof -
  obtain m where "index_events [] es = Ok m" using assms(1) by (auto simp: normalize_events_def)
  from index_events_same [OF this] show ?thesis using assms(2) by simp
qed

lemma fold_set_eq:
  assumes "set es' = set es" "equal_is_same (set es)" "\<forall>e \<in> set es. \<not> event_nan e"
  shows "fold_datagen_events_with es b = Ok r \<longleftrightarrow> fold_datagen_events_with es' b = Ok r"
proof -
  have "normalize_events es = Ok os \<longleftrightarrow> normalize_events es' = Ok os" for os
  proof
    assume n: "normalize_events es = Ok os"
    show "normalize_events es' = Ok os" by (rule normalize_set_eq [OF n assms(1) normalize_same_content [OF n assms(2)] assms(3)])
  next
    assume n: "normalize_events es' = Ok os"
    show "normalize_events es = Ok os"
      by (rule normalize_set_eq [OF n assms(1) [symmetric] normalize_same_content [OF n]]) (use assms in simp_all)
  qed
  then show ?thesis by (simp add: fold_datagen_events_with_def)
qed

lemma header_images:
  assumes "normalize_events es = Ok os" and "\<And>a b. same_header a b \<Longrightarrow> f a = f b"
  shows "f ` set os = f ` set es"
proof (intro equalityI image_subsetI)
  fix e assume "e \<in> set es"
  then obtain e' where "e' \<in> set os" "same_header e e'" using normalize_props(4) [OF assms(1)] by blast
  then show "f e \<in> f ` set os" using assms(2) by (metis image_eqI)
qed (use normalize_props(3) [OF assms(1)] in auto)

lemma normal_form_seqs: "normal_form os \<Longrightarrow> sorted_wrt (<) (map item_seq os)"
  unfolding normal_form_def
proof (induction os rule: induct_list012)
  case (3 a b os)
  then have "item_seq a < item_seq b" "sorted_wrt (<) (map item_seq (b # os))"
    by (auto simp: seq_key_def inj_on_def split: if_splits)
  then show ?case by auto
qed auto

lemma fold_max_props:
  assumes "fold_datagen_events_with es b = Ok (Some it)"
  shows "fi_last_item_seq it = Max (item_seq ` set es)" "fi_last_attempt it = Max (attempt ` set es)"
proof -
  from assms obtain e0 rest it0 where n: "normalize_events es = Ok (e0 # rest)"
    and i: "initial_item e0 = Ok it0" and it: "it = project b (foldl item_step it0 (e0 # rest))"
    unfolding fold_Some_iff by blast
  have "fi_last_item_seq it = Max (item_seq ` set (e0 # rest))"
    "fi_last_attempt it = Max (attempt ` set (e0 # rest))"
    using initial_item_Ok(4,5) [OF i]
    by (simp_all only: it project_simps foldl_item_step foldl_max_Max) (simp_all add: insert_absorb)
  then show "fi_last_item_seq it = Max (item_seq ` set es)" "fi_last_attempt it = Max (attempt ` set es)"
    using header_images [OF n, of item_seq] header_images [OF n, of attempt] same_header_fields(3,4)
    by metis+
qed

lemma fold_trajectory:
  assumes "fold_datagen_events_with es b = Ok (Some it)"
  shows "set (tr_ordered (fi_trajectory it)) = cursor_of ` {e \<in> set es. event_type e = StepCompleted}"
    and "sorted_wrt (<) (map cur_item_seq (tr_ordered (fi_trajectory it)))"
    and "tr_completed (fi_trajectory it) = position_of ` {e \<in> set es. event_type e = StepCompleted}"
    and "tr_started (fi_trajectory it) = position_of ` {e \<in> set es. event_type e = StepStarted}"
proof -
  from assms obtain e0 rest it0 where n: "normalize_events es = Ok (e0 # rest)"
    and i: "initial_item e0 = Ok it0" and it: "it = project b (foldl item_step it0 (e0 # rest))"
    unfolding fold_Some_iff by blast
  let ?os = "e0 # rest"
  have tr: "fi_trajectory it = foldl traj_step \<lparr>tr_ordered = [], tr_completed = {}, tr_started = {}\<rparr> ?os"
    by (simp only: it project_simps foldl_item_step initial_item_Ok(9) [OF i])
  have img: "f ` {e \<in> set ?os. event_type e = t} = f ` {e \<in> set es. event_type e = t}"
    if f: "\<And>a b. same_header a b \<Longrightarrow> f a = f b" for f :: "'a event \<Rightarrow> 'c" and t
  proof -
    have "(\<lambda>e. (f e, event_type e)) ` set ?os = (\<lambda>e. (f e, event_type e)) ` set es"
      using f same_header_fields(5) by (intro header_images [OF n]) auto
    then show ?thesis by (auto simp: image_iff set_eq_iff) metis+
  qed
  have "cursor_of ` {e \<in> set ?os. event_type e = StepCompleted} =
      cursor_of ` {e \<in> set es. event_type e = StepCompleted}"
    by (rule img) (simp add: cursor_of_def same_header_fields(3,6))
  then show "set (tr_ordered (fi_trajectory it)) = cursor_of ` {e \<in> set es. event_type e = StepCompleted}"
    unfolding tr foldl_traj_step by (simp only: set_append set_map set_filter select_convs) simp
  show "tr_completed (fi_trajectory it) = position_of ` {e \<in> set es. event_type e = StepCompleted}"
    "tr_started (fi_trajectory it) = position_of ` {e \<in> set es. event_type e = StepStarted}"
    unfolding tr foldl_traj_step using img [OF same_header_fields(6)] by simp_all
  have "sorted_wrt (<) (map item_seq ?os)"
    using normal_form_seqs normalize_props(1) [OF n] by blast
  then show "sorted_wrt (<) (map cur_item_seq (tr_ordered (fi_trajectory it)))"
    unfolding tr foldl_traj_step by (simp add: sorted_wrt_map cursor_of_def sorted_wrt_filter)
qed

section \<open>Lemmas: fields\<close>

text \<open>The field writes of a log in order, and the account of one field's writes.\<close>

definition field_log :: "'j event list \<Rightarrow> (string \<times> field_op \<times> 'j datagen_value) list" where
  "field_log os = map (\<lambda>e. (the (field_name e), event_op e, the (ev_value e))) (filter is_field os)"

definition writes_of :: "string \<Rightarrow> (string \<times> field_op \<times> 'j datagen_value) list \<Rightarrow> (field_op \<times> 'j datagen_value) list" where
  "writes_of name l = map snd (filter (\<lambda>x. fst x = name) l)"

fun replay_field ::
  "'j field_state option \<Rightarrow> (field_op \<times> 'j datagen_value) list \<Rightarrow> 'j field_state option option" where
  "replay_field s [] = Some s"
| "replay_field s ((op, v) # r) =
     (case write_field op v s of None \<Rightarrow> None | Some s' \<Rightarrow> replay_field (Some s') r)"

lemma replay_field_append:
  "replay_field s (a @ b) = (case replay_field s a of None \<Rightarrow> None | Some s' \<Rightarrow> replay_field s' b)"
  by (induction s a rule: replay_field.induct) (auto split: option.splits)

lemma writes_of_simps [simp]:
  "writes_of n [] = []" "writes_of n (a @ b) = writes_of n a @ writes_of n b"
  "writes_of n ((k, w) # l) = (if k = n then w # writes_of n l else writes_of n l)"
  by (simp_all add: writes_of_def)

lemma field_log_simps [simp]:
  "field_log [] = []" "field_log (a @ b) = field_log a @ field_log b"
  "field_log (e # es) = (if is_field e then (the (field_name e), event_op e, the (ev_value e)) # field_log es
     else field_log es)"
  by (simp_all add: field_log_def)

lemma item_step_fields:
  assumes "bt_sorted (fi_fields it)"
  shows "bt_sorted (fi_fields (item_step it e))"
    and "bt_get (fi_fields (item_step it e)) n =
      (if is_field e \<and> n = the (field_name e)
       then Some (the (write_field (event_op e) (the (ev_value e)) (bt_get (fi_fields it) n)))
       else bt_get (fi_fields it) n)"
    and "fi_item_id (item_step it e) = fi_item_id it"
  using assms by (simp_all add: item_step_def fields_step_def bt_sorted_insert bt_get_insert)

lemma accepts_all_iff:
  assumes "bt_sorted (fi_fields it)"
  shows "accepts_all it es \<longleftrightarrow>
    (\<forall>e \<in> set es. item_id_parse (item_id e) = Ok (fi_item_id it)) \<and>
    (\<forall>n. replay_field (bt_get (fi_fields it) n) (writes_of n (field_log es)) \<noteq> None)"
  using assms
proof (induction es arbitrary: it)
  case (Cons e es)
  let ?n = "the (field_name e)" and ?w = "write_field (event_op e) (the (ev_value e))
    (bt_get (fi_fields it) (the (field_name e)))"
  note step = item_step_fields [OF Cons.prems, of e]
  show ?case
  proof (cases "is_field e \<and> ?w = None")
    case True
    then have "replay_field (bt_get (fi_fields it) ?n) (writes_of ?n (field_log (e # es))) = None"
      by simp
    moreover from True have "\<not> accepts it e" by (simp add: accepts_def)
    ultimately show ?thesis unfolding accepts_all.simps by blast
  next
    case False
    then have "replay_field (bt_get (fi_fields (item_step it e)) n) (writes_of n (field_log es)) =
        replay_field (bt_get (fi_fields it) n) (writes_of n (field_log (e # es)))" for n
      using step(2) [of n] by auto
    moreover have "accepts it e \<longleftrightarrow> item_id_parse (item_id e) = Ok (fi_item_id it)"
      using False by (auto simp: accepts_def)
    ultimately show ?thesis using Cons.IH [OF step(1)] step(3) by simp
  qed
qed simp

lemma fields_replay:
  assumes "accepts_all it es" "bt_sorted (fi_fields it)"
  shows "replay_field (bt_get (fi_fields it) n) (writes_of n (field_log es)) =
    Some (bt_get (fi_fields (foldl item_step it es)) n)"
  using assms
proof (induction es arbitrary: it)
  case (Cons e es)
  note step = item_step_fields [OF Cons.prems(2), of e]
  have "is_field e \<Longrightarrow> write_field (event_op e) (the (ev_value e)) (bt_get (fi_fields it) (the (field_name e))) \<noteq> None"
    using Cons.prems by (auto simp: accepts_def)
  then have "replay_field (bt_get (fi_fields (item_step it e)) n) (writes_of n (field_log es)) =
      replay_field (bt_get (fi_fields it) n) (writes_of n (field_log (e # es)))"
    using step(2) [of n] by auto
  with Cons.IH [OF _ step(1)] Cons.prems show ?case by simp
qed simp

lemma replay_FSet: "replay_field s h = Some (Some (FSet v)) \<Longrightarrow> h \<noteq> [] \<Longrightarrow> last h = (OpSet, v)"
proof (induction s h rule: replay_field.induct)
  case (2 s op w r)
  then obtain s' where s': "write_field op w s = Some s'" "replay_field (Some s') r = Some (Some (FSet v))"
    by (auto split: option.splits)
  show ?case
  proof (cases "r = []")
    case True
    with s' show ?thesis
      by (cases "(op, w, s)" rule: write_field.cases) (auto split: if_splits)
  next
    case False
    with "2.IH" s' show ?thesis by simp
  qed
qed simp

lemma replay_FAppended:
  "replay_field s h = Some (Some (FAppended vs)) \<Longrightarrow> s = None \<or> (\<exists>us. s = Some (FAppended us)) \<Longrightarrow>
     map fst h = replicate (length h) OpAppend \<and>
     vs = (case s of Some (FAppended us) \<Rightarrow> us | _ \<Rightarrow> []) @ map snd h"
proof (induction s h rule: replay_field.induct)
  case (2 s op w r)
  then obtain s' where s': "write_field op w s = Some s'" "replay_field (Some s') r = Some (Some (FAppended vs))"
    by (auto split: option.splits)
  show ?case
  proof (cases op)
    case OpSet
    have set_stays: "replay_field (Some (FSet x)) h \<noteq> Some (Some (FAppended vs))" for x h
    proof (induction h arbitrary: x)
      case (Cons a h)
      then show ?case by (cases a; cases "fst a") auto
    qed simp
    from OpSet "2.prems"(2) s'(1) have "s' = FSet w" by (auto split: if_splits)
    with s'(2) set_stays show ?thesis by blast
  next
    case OpAppend
    with "2.prems"(2) s'(1) have "s' = FAppended ((case s of Some (FAppended us) \<Rightarrow> us | _ \<Rightarrow> []) @ [w])"
      by (auto split: if_splits)
    with "2.IH" s' OpAppend show ?thesis by simp
  qed
qed auto

definition one_kind :: "'j datagen_value list \<Rightarrow> bool" where
  "one_kind us \<longleftrightarrow> (\<forall>a \<in> set us. kind a = kind (hd us))"

lemma one_kind_snoc: "one_kind us \<Longrightarrow> us = [] \<or> kind (hd us) = kind w \<Longrightarrow> one_kind (us @ [w])"
  by (cases us) (simp_all add: one_kind_def)

lemma write_field_kinds:
  assumes "write_field op w s = Some (FAppended vs)" "\<And>us. s = Some (FAppended us) \<Longrightarrow> one_kind us"
  shows "one_kind vs"
  using assms one_kind_snoc [of _ w] one_kind_snoc [of "[]" w]
  by (cases "(op, w, s)" rule: write_field.cases) (auto simp: one_kind_def [of "[]"] split: if_splits)

lemma replay_kinds:
  "replay_field s h = Some (Some (FAppended vs)) \<Longrightarrow> (\<And>us. s = Some (FAppended us) \<Longrightarrow> one_kind us) \<Longrightarrow>
     one_kind vs"
proof (induction s h rule: replay_field.induct)
  case (2 s op w r)
  then obtain s' where s': "write_field op w s = Some s'" "replay_field (Some s') r = Some (Some (FAppended vs))"
    by (auto split: option.splits)
  have "one_kind us" if "Some s' = Some (FAppended us)" for us
    using that s'(1) "2.prems"(2) write_field_kinds by blast
  with "2.IH" s' show ?case by blast
qed auto


lemma replay_field_Some: "replay_field (Some s) h \<noteq> Some None"
  by (induction "Some s" h arbitrary: s rule: replay_field.induct) (auto split: option.splits)

lemma replay_field_None_iff: "replay_field None h = Some None \<longleftrightarrow> h = []"
  by (cases h) (auto simp: replay_field_Some split: option.splits)

lemma append_history:
  "map fst h = replicate (length h) OpAppend \<Longrightarrow> vs = map snd h \<Longrightarrow> h = map (\<lambda>v. (OpAppend, v)) vs"
  by (induction h arbitrary: vs) auto

end
