(* ===== verification/Floats.thy ===== *)
theory Floats
  imports Prelude
begin

text \<open>
  Rust's conversions between \<open>f32\<close> and \<open>f64\<close>, on IEEE 754 bit patterns: widening (\<open>f64::from\<close>) is exact,
  narrowing (\<open>as f32\<close>) rounds to nearest, ties to even, overflows to an infinity and underflows
  through the subnormals to zero. A NaN stays a quiet NaN.
\<close>

type_synonym f32 = "32 word"

definition f64_exponent :: "f64 \<Rightarrow> nat" where "f64_exponent w = unat w div 2 ^ 52 mod 2 ^ 11"
definition f64_mantissa :: "f64 \<Rightarrow> nat" where "f64_mantissa w = unat w mod 2 ^ 52"
definition f64_sign :: "f64 \<Rightarrow> nat" where "f64_sign w = unat w div 2 ^ 63"
definition f32_exponent :: "f32 \<Rightarrow> nat" where "f32_exponent w = unat w div 2 ^ 23 mod 2 ^ 8"
definition f32_mantissa :: "f32 \<Rightarrow> nat" where "f32_mantissa w = unat w mod 2 ^ 23"
definition f32_sign :: "f32 \<Rightarrow> nat" where "f32_sign w = unat w div 2 ^ 31"

definition f64_pack :: "nat \<Rightarrow> nat \<Rightarrow> nat \<Rightarrow> f64" where
  "f64_pack s e m = of_nat (s * 2 ^ 63 + e * 2 ^ 52 + m)"

text \<open>The exponent and the mantissa of an \<open>f32\<close> as one number, so that a carry of the rounding reaches the exponent.\<close>

definition f32_pack :: "nat \<Rightarrow> nat \<Rightarrow> f32" where
  "f32_pack s em = of_nat (s * 2 ^ 31 + em)"

definition f32_inf :: "nat \<Rightarrow> f32" where "f32_inf s = f32_pack s (255 * 2 ^ 23)"
definition f64_finite :: "f64 \<Rightarrow> bool" where "f64_finite w \<longleftrightarrow> f64_exponent w \<noteq> 2047"
definition f32_finite :: "f32 \<Rightarrow> bool" where "f32_finite w \<longleftrightarrow> f32_exponent w \<noteq> 255"

definition round_shift :: "nat \<Rightarrow> nat \<Rightarrow> nat" where
  "round_shift n k =
     (let q = n div 2 ^ k; r = n mod 2 ^ k
      in if 2 ^ k < 2 * r \<or> 2 * r = 2 ^ k \<and> odd q then q + 1 else q)"

fun msb :: "nat \<Rightarrow> nat" where
  "msb n = (if n < 2 then 0 else Suc (msb (n div 2)))"

declare msb.simps [simp del]

definition f64_to_f32 :: "f64 \<Rightarrow> f32" where
  "f64_to_f32 w =
     (let s = f64_sign w; e = f64_exponent w; m = f64_mantissa w in
      if e = 2047
      then f32_pack s (if m = 0 then 255 * 2 ^ 23 else 255 * 2 ^ 23 + 2 ^ 22 + m div 2 ^ 29 mod 2 ^ 22)
      else if 897 \<le> e then f32_pack s (min ((e - 896) * 2 ^ 23 + round_shift m 29) (255 * 2 ^ 23))
      else if e = 0 then f32_pack s 0
      else f32_pack s (round_shift (2 ^ 52 + m) (926 - e)))"

definition f32_to_f64 :: "f32 \<Rightarrow> f64" where
  "f32_to_f64 w =
     (let s = f32_sign w; e = f32_exponent w; m = f32_mantissa w in
      if e = 255
      then f64_pack s 2047 (if m = 0 then 0 else 2 ^ 51 + m mod 2 ^ 22 * 2 ^ 29)
      else if e = 0
      then (if m = 0 then f64_pack s 0 0 else f64_pack s (874 + msb m) ((m - 2 ^ msb m) * 2 ^ (52 - msb m)))
      else f64_pack s (e + 896) (m * 2 ^ 29))"

section \<open>Lemmas\<close>

lemma msb_bounds: "0 < n \<Longrightarrow> 2 ^ msb n \<le> n \<and> n < 2 ^ Suc (msb n)"
proof (induction n rule: msb.induct)
  case (1 n)
  show ?case
  proof (cases "n < 2")
    case False
    then have "2 ^ msb (n div 2) \<le> n div 2 \<and> n div 2 < 2 ^ Suc (msb (n div 2))" using 1 by simp
    then show ?thesis using False by (subst (1 2) msb.simps) auto
  qed (use 1 in \<open>simp add: msb.simps\<close>)
qed

lemma msb_less: "n < 2 ^ k \<Longrightarrow> 0 < k \<Longrightarrow> msb n < k"
proof (rule ccontr)
  assume a: "n < 2 ^ k" "0 < k" "\<not> msb n < k"
  show False
  proof (cases "n = 0")
    case False
    have "(2::nat) ^ k \<le> 2 ^ msb n" using a(3) by (intro power_increasing) simp_all
    moreover have "2 ^ msb n \<le> n" using msb_bounds [of n] False by blast
    ultimately show False using a(1) by linarith
  qed (use a in \<open>simp add: msb.simps\<close>)
qed

lemma round_shift_exact [simp]: "round_shift (q * 2 ^ k) k = q"
  by (simp add: round_shift_def)

lemma pack64_unat: "s < 2 \<Longrightarrow> e < 2048 \<Longrightarrow> m < 2 ^ 52 \<Longrightarrow> unat (f64_pack s e m) = s * 2 ^ 63 + e * 2 ^ 52 + m"
  unfolding f64_pack_def unat_of_nat by simp

lemma pack64_fields:
  assumes "s < 2" "e < 2048" "m < 2 ^ 52"
  shows "f64_sign (f64_pack s e m) = s" "f64_exponent (f64_pack s e m) = e" "f64_mantissa (f64_pack s e m) = m"
proof -
  have u: "unat (f64_pack s e m) = (s * 2048 + e) * 2 ^ 52 + m" by (simp add: pack64_unat [OF assms])
  have d: "((s * 2048 + e) * 2 ^ 52 + m) div 2 ^ 52 = s * 2048 + e" using assms(3) by simp
  show "f64_exponent (f64_pack s e m) = e" unfolding f64_exponent_def u d using assms(2) by simp
  show "f64_mantissa (f64_pack s e m) = m" unfolding f64_mantissa_def u using assms(3) by (simp only: mod_mult_self3 mod_less)
  have "unat (f64_pack s e m) div 2 ^ 63 = unat (f64_pack s e m) div 2 ^ 52 div 2 ^ 11"
    by (simp add: div_mult2_eq [symmetric])
  also have "\<dots> = s" unfolding u d using assms(2) by simp
  finally show "f64_sign (f64_pack s e m) = s" unfolding f64_sign_def .
qed

lemma power_eqs: "(2::nat) ^ 31 = 2147483648" "(2::nat) ^ 23 = 8388608" "(2::nat) ^ 8 = 256"
  by simp_all

lemma f32_fields:
  "f32_sign w < 2" "f32_exponent w < 256" "f32_mantissa w < 2 ^ 23"
  "f32_pack (f32_sign w) (f32_exponent w * 2 ^ 23 + f32_mantissa w) = w"
proof -
  have lt: "unat w < 2 ^ 32" using unsigned_less [of w] by simp
  then show "f32_sign w < 2" unfolding f32_sign_def by (simp add: less_mult_imp_div_less)
  show "f32_exponent w < 256" "f32_mantissa w < 2 ^ 23" by (simp_all add: f32_exponent_def f32_mantissa_def)
  have "unat w div 2 ^ 31 = unat w div 2 ^ 23 div 2 ^ 8" by (simp add: div_mult2_eq [symmetric])
  moreover have "unat w div 8388608 * 8388608 + unat w mod 8388608 = unat w"
    "unat w div 8388608 div 256 * 256 + unat w div 8388608 mod 256 = unat w div 8388608" by (rule div_mult_mod_eq)+
  ultimately have "f32_sign w * 2 ^ 31 + (f32_exponent w * 2 ^ 23 + f32_mantissa w) = unat w"
    unfolding f32_sign_def f32_exponent_def f32_mantissa_def unfolding power_eqs by linarith
  then show "f32_pack (f32_sign w) (f32_exponent w * 2 ^ 23 + f32_mantissa w) = w"
    unfolding f32_pack_def by (simp only: of_nat_unat ucast_id)
qed

lemma subnormal_mantissa:
  assumes "0 < m" "m < 2 ^ 23"
  shows "(m - 2 ^ msb m) * 2 ^ (52 - msb m) < 2 ^ 52"
proof -
  have k: "msb m < 23" by (rule msb_less [OF assms(2)]) simp
  have "m - 2 ^ msb m < 2 ^ msb m" using msb_bounds [OF assms(1)] by auto
  then have "(m - 2 ^ msb m) * 2 ^ (52 - msb m) < 2 ^ msb m * 2 ^ (52 - msb m)" by (rule mult_strict_right_mono) simp
  also have "\<dots> = 2 ^ 52" using k by (simp flip: power_add)
  finally show ?thesis .
qed

lemma widen_finite:
  assumes "f32_finite w"
  shows "f64_finite (f32_to_f64 w)"
proof -
  note b = f32_fields [of w]
  have k: "msb (f32_mantissa w) < 23" by (rule msb_less [OF b(3)]) simp
  show ?thesis
  proof (cases "f32_exponent w = 0")
    case True
    then show ?thesis
      using k b(1,3) subnormal_mantissa [of "f32_mantissa w"]
      by (cases "f32_mantissa w = 0") (simp_all add: f32_to_f64_def Let_def f64_finite_def pack64_fields)
  next
    case False
    have "f32_mantissa w * 2 ^ 29 < 2 ^ 52" using b(3) by simp
    then show ?thesis
      using False assms b(1,2) by (simp add: f32_to_f64_def f64_finite_def f32_finite_def pack64_fields)
  qed
qed

lemma narrow_widen:
  assumes "f32_finite w"
  shows "f64_to_f32 (f32_to_f64 w) = w"
proof -
  define s e m where "s = f32_sign w" and "e = f32_exponent w" and "m = f32_mantissa w"
  have b: "s < 2" "e < 256" "m < 2 ^ 23" "f32_pack s (e * 2 ^ 23 + m) = w" "e \<noteq> 255"
    using f32_fields [of w] assms unfolding s_def e_def m_def f32_finite_def by simp_all
  have widen: "f32_to_f64 w = (if e = 0 then if m = 0 then f64_pack s 0 0
      else f64_pack s (874 + msb m) ((m - 2 ^ msb m) * 2 ^ (52 - msb m)) else f64_pack s (e + 896) (m * 2 ^ 29))"
    using b(5) by (simp add: f32_to_f64_def Let_def s_def e_def m_def)
  consider "e = 0" "m = 0" | "e = 0" "0 < m" | "0 < e" by auto
  then show ?thesis
  proof cases
    case 1
    then show ?thesis using b(1,4) by (simp add: widen f64_to_f32_def pack64_fields)
  next
    case 2
    have k: "msb m < 23" "2 ^ msb m \<le> m" by (rule msb_less [OF b(3)], simp) (use msb_bounds [OF 2(2)] in simp)
    have mant: "(m - 2 ^ msb m) * 2 ^ (52 - msb m) < 2 ^ 52" by (rule subnormal_mantissa [OF 2(2) b(3)])
    have "(2::nat) ^ 52 = 2 ^ msb m * 2 ^ (52 - msb m)" using k(1) by (simp flip: power_add)
    then have "2 ^ 52 + (m - 2 ^ msb m) * 2 ^ (52 - msb m) = m * 2 ^ (52 - msb m)"
      using k(2) by (metis add_mult_distrib le_add_diff_inverse)
    moreover have "926 - (874 + msb m) = 52 - msb m" by simp
    ultimately show ?thesis
      using 2 b k(1) mant by (simp add: widen f64_to_f32_def pack64_fields)
  next
    case 3
    have "m * 2 ^ 29 < 2 ^ 52" using b(3) by simp
    moreover have "e * 2 ^ 23 + m \<le> 255 * 2 ^ 23" using b(2,3,5) by simp
    ultimately show ?thesis
      using 3 b by (simp add: widen f64_to_f32_def pack64_fields min_absorb1 del: power_numeral)
  qed
qed

lemma widen_infinite: "\<not> f32_finite w \<Longrightarrow> \<not> f64_finite (f32_to_f64 w)"
proof -
  assume "\<not> f32_finite w"
  moreover have "f32_mantissa w mod 2 ^ 22 * 2 ^ 29 < 2 ^ 51"
    using mod_less_divisor [of "2 ^ 22" "f32_mantissa w"] by simp
  ultimately show ?thesis
    using f32_fields(1) [of w] by (simp add: f32_finite_def f32_to_f64_def f64_finite_def pack64_fields Let_def)
qed

lemma f32_pack_infinite: "\<not> f32_finite (f32_pack 0 (255 * 2 ^ 23))"
  by (simp add: f32_finite_def f32_exponent_def f32_pack_def)

lemma f32_pack_finite:
  assumes "s < 2" "em < 255 * 2 ^ 23"
  shows "f32_finite (f32_pack s em)"
proof -
  have "unat (f32_pack s em) = s * 2 ^ 31 + em" unfolding f32_pack_def unat_of_nat using assms by simp
  also have "\<dots> = s * 256 * 2 ^ 23 + em" by simp
  finally have "unat (f32_pack s em) div 2 ^ 23 = s * 256 + em div 2 ^ 23" by simp
  moreover have "em div 2 ^ 23 < 255" using assms(2) by (simp add: less_mult_imp_div_less)
  ultimately show ?thesis by (simp add: f32_finite_def f32_exponent_def)
qed

lemma f64_sign_less: "f64_sign w < 2"
proof -
  have "unat w < 2 * 2 ^ 63" using unsigned_less [of w] by simp
  then show ?thesis unfolding f64_sign_def by (rule less_mult_imp_div_less)
qed

text \<open>Narrowing a finite number that is out of range gives the infinity of its sign.\<close>

lemma narrow_overflow:
  assumes "f64_finite w" "\<not> f32_finite (f64_to_f32 w)"
  shows "f64_to_f32 w = f32_inf (f64_sign w)"
proof -
  have s: "f64_sign w < 2" by (rule f64_sign_less)
  have m: "f64_mantissa w < 2 ^ 52" by (simp add: f64_mantissa_def)
  have e: "f64_exponent w \<noteq> 2047" using assms(1) by (simp add: f64_finite_def)
  have "897 \<le> f64_exponent w"
  proof (rule ccontr)
    assume low: "\<not> 897 \<le> f64_exponent w"
    define k where "k = 926 - f64_exponent w"
    have "(2 ^ 52 + f64_mantissa w) div 2 ^ k \<le> (2 ^ 52 + f64_mantissa w) div 2 ^ 30"
      using low by (intro div_le_mono2 power_increasing) (auto simp: k_def)
    also have "\<dots> \<le> 2 ^ 23" using m by simp
    finally have "round_shift (2 ^ 52 + f64_mantissa w) k < 255 * 2 ^ 23" by (simp add: round_shift_def Let_def)
    then show False
      using assms(2) low e f32_pack_finite [OF s] by (auto simp: f64_to_f32_def Let_def k_def split: if_splits)
  qed
  then have w: "f64_to_f32 w = f32_pack (f64_sign w) (min ((f64_exponent w - 896) * 2 ^ 23 + round_shift (f64_mantissa w) 29) (255 * 2 ^ 23))"
    using e by (simp add: f64_to_f32_def Let_def)
  then have "\<not> (f64_exponent w - 896) * 2 ^ 23 + round_shift (f64_mantissa w) 29 < 255 * 2 ^ 23"
    using assms(2) f32_pack_finite [OF s] by (metis min.strict_order_iff min.commute min_def order_less_imp_le)
  then show ?thesis unfolding w f32_inf_def by (simp add: min_def)
qed

end
