(* ===== verification/Arrow.thy ===== *)
theory Arrow
  imports Floats
begin

text \<open>
  Record batches as the stores use them: a schema of named, typed, possibly nullable columns and rows
  of cells, the typed column access of \<open>crates/lance-context-core/src/store.rs\<close> (\<open>column_as\<close>,
  \<open>column_as_optional\<close>), and \<open>align_batch_to_schema\<close> of \<open>store_base.rs\<close>, which fits a batch written
  under an older schema to the base table's. Cells carry their own type, a list its element type, a
  struct its fields (all nullable in this code base); \<open>DDictionary\<close> has \<open>i8\<close> keys and string values;
  \<open>try_new\<close> is Arrow's documented check of a batch against its schema.
\<close>

section \<open>Batches\<close>

datatype data_type =
    DUtf8 | DLargeUtf8 | DInt32 | DInt64 | DFloat32 | DFloat64 | DBoolean | DLargeBinary | DTimestampMicros
  | DFixedSizeList data_type int
  | DList data_type
  | DDictionary
  | DStruct "(string \<times> data_type) list"

datatype cell =
    CNull
  | CUtf8 string
  | CLargeUtf8 string
  | CInt32 int
  | CInt64 int
  | CFloat64 f64
  | CBool bool
  | CLargeBinary "8 word list"
  | CTimestamp int
  | CFloat32 f32
  | CFixedSizeList data_type int "cell list"
  | CList data_type "cell list"
  | CDictionary string
  | CStruct "(string \<times> data_type) list" "cell list"

record field_def =
  fd_name :: string
  fd_type :: data_type
  fd_nullable :: bool

record batch =
  b_schema :: "field_def list"
  b_rows :: "cell list list"

datatype arrow_error =
    ColumnNotFound string
  | ColumnTypeMismatch string
  | UnknownGenerationColumn string
  | GenerationColumnType string data_type data_type
  | RequiredColumnMissing string
  | InvalidBatch

text \<open>
  Errors of a store: rejected input, a schema mismatch, or an error raised by Lance, of which the code
  looks at the variant and at the text.
\<close>

datatype lance_error_kind = DatasetNotFound | NotFound | OtherError

record lance_error =
  le_kind :: lance_error_kind
  le_text :: string

datatype 'e store_error = Invalid 'e | ArrowFault arrow_error | LanceFault lance_error

lemmas list_rel_cong [fundef_cong] = list.rel_cong

fun cell_fits :: "data_type \<Rightarrow> cell \<Rightarrow> bool" where
  "cell_fits t CNull = True"
| "cell_fits t (CUtf8 _) = (t = DUtf8)"
| "cell_fits t (CLargeUtf8 _) = (t = DLargeUtf8)"
| "cell_fits t (CInt32 _) = (t = DInt32)"
| "cell_fits t (CInt64 _) = (t = DInt64)"
| "cell_fits t (CFloat64 _) = (t = DFloat64)"
| "cell_fits t (CBool _) = (t = DBoolean)"
| "cell_fits t (CLargeBinary _) = (t = DLargeBinary)"
| "cell_fits t (CTimestamp _) = (t = DTimestampMicros)"
| "cell_fits t (CFloat32 _) = (t = DFloat32)"
| "cell_fits t (CFixedSizeList item n cs) =
     (t = DFixedSizeList item n \<and> int (length cs) = n \<and> list_all (cell_fits item) cs)"
| "cell_fits t (CList item cs) = (t = DList item \<and> list_all (cell_fits item) cs)"
| "cell_fits t (CDictionary _) = (t = DDictionary)"
| "cell_fits t (CStruct fs cs) = (t = DStruct fs \<and> list_all2 (\<lambda>f. cell_fits (snd f)) fs cs)"

definition field_fits :: "field_def \<Rightarrow> cell \<Rightarrow> bool" where
  "field_fits f c \<longleftrightarrow> cell_fits (fd_type f) c \<and> (c = CNull \<longrightarrow> fd_nullable f)"

definition row_fits :: "field_def list \<Rightarrow> cell list \<Rightarrow> bool" where
  "row_fits sch r \<longleftrightarrow> list_all2 field_fits sch r"

definition batch_ok :: "batch \<Rightarrow> bool" where
  "batch_ok b \<longleftrightarrow> list_all (row_fits (b_schema b)) (b_rows b)"

definition try_new :: "field_def list \<Rightarrow> cell list list \<Rightarrow> (arrow_error, batch) result" where
  "try_new sch rows =
     (if list_all (row_fits sch) rows then Ok \<lparr>b_schema = sch, b_rows = rows\<rparr> else Err InvalidBatch)"

definition field_with_name :: "field_def list \<Rightarrow> string \<Rightarrow> field_def option" where
  "field_with_name sch n = find (\<lambda>f. fd_name f = n) sch"

text \<open>The cell of a row in the first column of the given name, whatever its type.\<close>

fun cell_at :: "field_def list \<Rightarrow> cell list \<Rightarrow> string \<Rightarrow> cell option" where
  "cell_at (f # fs) (c # cs) n = (if fd_name f = n then Some c else cell_at fs cs n)"
| "cell_at _ _ n = None"

section \<open>Typed access\<close>

definition column_as :: "field_def list \<Rightarrow> data_type \<Rightarrow> string \<Rightarrow> (arrow_error, unit) result" where
  "column_as sch t n =
     (case field_with_name sch n of
        None \<Rightarrow> Err (ColumnNotFound n)
      | Some f \<Rightarrow> if fd_type f = t then Ok () else Err (ColumnTypeMismatch n))"

text \<open>A column that is absent or of another type reads as absent.\<close>

definition column_as_optional :: "field_def list \<Rightarrow> data_type \<Rightarrow> cell list \<Rightarrow> string \<Rightarrow> cell option" where
  "column_as_optional sch t r n =
     (case field_with_name sch n of
        None \<Rightarrow> None
      | Some f \<Rightarrow> if fd_type f = t then cell_at sch r n else None)"

definition optional_string :: "field_def list \<Rightarrow> cell list \<Rightarrow> string \<Rightarrow> string option" where
  "optional_string sch r n = (case column_as_optional sch DUtf8 r n of Some (CUtf8 s) \<Rightarrow> Some s | _ \<Rightarrow> None)"

definition optional_large_string :: "field_def list \<Rightarrow> cell list \<Rightarrow> string \<Rightarrow> string option" where
  "optional_large_string sch r n =
     (case column_as_optional sch DLargeUtf8 r n of Some (CLargeUtf8 s) \<Rightarrow> Some s | _ \<Rightarrow> None)"

definition optional_bytes :: "field_def list \<Rightarrow> cell list \<Rightarrow> string \<Rightarrow> 8 word list option" where
  "optional_bytes sch r n =
     (case column_as_optional sch DLargeBinary r n of Some (CLargeBinary s) \<Rightarrow> Some s | _ \<Rightarrow> None)"

definition optional_i64 :: "field_def list \<Rightarrow> cell list \<Rightarrow> string \<Rightarrow> int option" where
  "optional_i64 sch r n = (case column_as_optional sch DInt64 r n of Some (CInt64 i) \<Rightarrow> Some i | _ \<Rightarrow> None)"

definition optional_i32 :: "field_def list \<Rightarrow> cell list \<Rightarrow> string \<Rightarrow> int option" where
  "optional_i32 sch r n = (case column_as_optional sch DInt32 r n of Some (CInt32 i) \<Rightarrow> Some i | _ \<Rightarrow> None)"

definition optional_f64 :: "field_def list \<Rightarrow> cell list \<Rightarrow> string \<Rightarrow> f64 option" where
  "optional_f64 sch r n = (case column_as_optional sch DFloat64 r n of Some (CFloat64 i) \<Rightarrow> Some i | _ \<Rightarrow> None)"

definition optional_bool :: "field_def list \<Rightarrow> cell list \<Rightarrow> string \<Rightarrow> bool option" where
  "optional_bool sch r n = (case column_as_optional sch DBoolean r n of Some (CBool i) \<Rightarrow> Some i | _ \<Rightarrow> None)"

definition optional_micros :: "field_def list \<Rightarrow> cell list \<Rightarrow> string \<Rightarrow> int option" where
  "optional_micros sch r n =
     (case column_as_optional sch DTimestampMicros r n of Some (CTimestamp i) \<Rightarrow> Some i | _ \<Rightarrow> None)"

lemmas optional_defs = optional_string_def optional_large_string_def optional_bytes_def optional_i64_def
  optional_i32_def optional_f64_def optional_bool_def optional_micros_def

section \<open>Aligning a batch to a schema\<close>

definition align_field ::
  "field_def list \<Rightarrow> field_def \<Rightarrow> (arrow_error, cell list \<Rightarrow> cell) result" where
  "align_field source target =
     (case field_with_name source (fd_name target) of
        Some f \<Rightarrow>
          if fd_type f \<noteq> fd_type target
          then Err (GenerationColumnType (fd_name target) (fd_type f) (fd_type target))
          else Ok (\<lambda>r. the (cell_at source r (fd_name target)))
      | None \<Rightarrow>
          if fd_nullable target then Ok (\<lambda>_. CNull)
          else Err (RequiredColumnMissing (fd_name target)))"

definition align_batch_to_schema :: "batch \<Rightarrow> field_def list \<Rightarrow> (arrow_error, batch) result" where
  "align_batch_to_schema b target =
     res_bind (collect_res (\<lambda>f. guard_ok (field_with_name target (fd_name f) \<noteq> None)
                 (UnknownGenerationColumn (fd_name f))) (b_schema b)) (\<lambda>_.
     res_bind (collect_res (align_field (b_schema b)) target) (\<lambda>cols.
     try_new target (map (\<lambda>r. map (\<lambda>c. c r) cols) (b_rows b))))"

section \<open>Lemmas\<close>

lemma field_with_name_None: "field_with_name sch n = None \<longleftrightarrow> n \<notin> fd_name ` set sch"
  by (auto simp: field_with_name_def find_None_iff)

lemma cell_at_map: "cell_at sch (map g sch) n = map_option g (field_with_name sch n)"
  by (induction sch) (auto simp: field_with_name_def)

lemma cell_at_None: "length r = length sch \<Longrightarrow> cell_at sch r n = None \<longleftrightarrow> field_with_name sch n = None"
  by (induction sch r n rule: cell_at.induct) (auto simp: field_with_name_def)

lemma field_with_name_name: "field_with_name sch n = Some f \<Longrightarrow> fd_name f = n \<and> f \<in> set sch"
  by (auto simp: field_with_name_def find_Some_iff)

lemma align_field_Ok:
  "align_field src t = Ok g \<longleftrightarrow>
     (case field_with_name src (fd_name t) of
        Some f \<Rightarrow> fd_type f = fd_type t \<and> g = (\<lambda>r. the (cell_at src r (fd_name t)))
      | None \<Rightarrow> fd_nullable t \<and> g = (\<lambda>_. CNull))"
  by (auto simp: align_field_def split: option.splits)

text \<open>An aligned batch: the target's schema, row by row the old cells under their names, nulls elsewhere.\<close>

definition aligned_cell :: "field_def list \<Rightarrow> cell list \<Rightarrow> string \<Rightarrow> cell" where
  "aligned_cell src r n = (case field_with_name src n of Some _ \<Rightarrow> the (cell_at src r n) | None \<Rightarrow> CNull)"

lemma align_rows:
  assumes "collect_res (align_field src) target = Ok cols"
  shows "map (\<lambda>c. c r) cols = map (\<lambda>t. aligned_cell src r (fd_name t)) target"
proof -
  have "list_all2 (\<lambda>t g. align_field src t = Ok g) target cols"
    using assms by (simp add: collect_res_Ok_iff)
  then show ?thesis
    by (induction target cols rule: list_all2_induct)
      (auto simp: align_field_Ok aligned_cell_def split: option.splits)
qed

lemma align_Ok_rows:
  assumes "align_batch_to_schema b target = Ok b'"
  shows "b' = \<lparr>b_schema = target,
    b_rows = map (\<lambda>r. map (\<lambda>t. aligned_cell (b_schema b) r (fd_name t)) target) (b_rows b)\<rparr>"
    and "\<forall>f \<in> set (b_schema b). field_with_name target (fd_name f) \<noteq> None"
    and "list_all (row_fits target) (b_rows b')"
proof -
  from assms obtain u cols where
    "collect_res (\<lambda>f. guard_ok (field_with_name target (fd_name f) \<noteq> None)
        (UnknownGenerationColumn (fd_name f))) (b_schema b) = Ok u"
    and c: "collect_res (align_field (b_schema b)) target = Ok cols"
    and t: "try_new target (map (\<lambda>r. map (\<lambda>c. c r) cols) (b_rows b)) = Ok b'"
    by (auto simp: align_batch_to_schema_def)
  then show "\<forall>f \<in> set (b_schema b). field_with_name target (fd_name f) \<noteq> None"
    by (auto simp: collect_res_Ok_iff list_all2_conv_all_nth in_set_conv_nth)
  show "b' = \<lparr>b_schema = target,
      b_rows = map (\<lambda>r. map (\<lambda>t. aligned_cell (b_schema b) r (fd_name t)) target) (b_rows b)\<rparr>"
    and "list_all (row_fits target) (b_rows b')"
    using t by (simp_all add: try_new_def align_rows [OF c] split: if_splits) auto
qed

lemma align_cells:
  assumes "align_batch_to_schema b target = Ok b'" "i < length (b_rows b)"
  shows "cell_at target (b_rows b' ! i) n =
    map_option (\<lambda>_. aligned_cell (b_schema b) (b_rows b ! i) n) (field_with_name target n)"
proof -
  have "b_rows b' ! i = map (\<lambda>t. aligned_cell (b_schema b) (b_rows b ! i) (fd_name t)) target"
    using assms(2) by (simp add: align_Ok_rows(1) [OF assms(1)])
  then show ?thesis
    using field_with_name_name [of target n] by (auto simp: cell_at_map option.map_comp comp_def
        intro!: option.map_cong)
qed

section \<open>Properties\<close>

text \<open>
  Aligning a write-ahead generation to the base table never loses or alters a cell: whenever it
  succeeds, every row keeps, under every column name of the generation, the cell it had, and reads
  null under every column the base table has gained since.
\<close>

theorem align_preserves_cells:
  assumes "align_batch_to_schema b target = Ok b'" "batch_ok b" "i < length (b_rows b)"
  shows "b_schema b' = target \<and> length (b_rows b') = length (b_rows b) \<and>
    (\<forall>n \<in> fd_name ` set (b_schema b). cell_at target (b_rows b' ! i) n = cell_at (b_schema b) (b_rows b ! i) n) \<and>
    (\<forall>n \<in> fd_name ` set target - fd_name ` set (b_schema b). cell_at target (b_rows b' ! i) n = Some CNull)"
proof -
  have len: "length (b_rows b ! i) = length (b_schema b)"
    using assms(2,3) list_all2_lengthD [of field_fits "b_schema b" "b_rows b ! i"]
    by (simp add: batch_ok_def row_fits_def list_all_length)
  have "cell_at target (b_rows b' ! i) n = cell_at (b_schema b) (b_rows b ! i) n"
    if "n \<in> fd_name ` set (b_schema b)" for n
  proof -
    have "field_with_name target n \<noteq> None" using that align_Ok_rows(2) [OF assms(1)] by auto
    moreover have "field_with_name (b_schema b) n \<noteq> None" using that by (simp add: field_with_name_None)
    moreover from this have "cell_at (b_schema b) (b_rows b ! i) n \<noteq> None" using cell_at_None [OF len] by simp
    ultimately show ?thesis
      unfolding align_cells [OF assms(1,3)] by (auto simp: aligned_cell_def)
  qed
  moreover have "cell_at target (b_rows b' ! i) n = Some CNull"
    if "n \<in> fd_name ` set target - fd_name ` set (b_schema b)" for n
  proof -
    have "field_with_name (b_schema b) n = None" "field_with_name target n \<noteq> None"
      using that by (auto simp: field_with_name_None)
    then show ?thesis unfolding align_cells [OF assms(1,3)] by (auto simp: aligned_cell_def)
  qed
  ultimately show ?thesis by (simp add: align_Ok_rows(1) [OF assms(1)])
qed

definition sample_fields :: "bool \<Rightarrow> field_def list" where
  "sample_fields wide = \<lparr>fd_name = ''id'', fd_type = DUtf8, fd_nullable = False\<rparr> #
     (if wide then [\<lparr>fd_name = ''x'', fd_type = DInt64, fd_nullable = True\<rparr>] else [])"

theorem align_preserves_cells_witness:
  "\<exists>b'. align_batch_to_schema \<lparr>b_schema = sample_fields False, b_rows = [[CUtf8 ''a'']]\<rparr> (sample_fields True) = Ok b' \<and>
     cell_at (sample_fields True) (b_rows b' ! 0) ''id'' = Some (CUtf8 ''a'')"
proof -
  have a: "align_batch_to_schema \<lparr>b_schema = sample_fields False, b_rows = [[CUtf8 ''a'']]\<rparr> (sample_fields True) =
      Ok \<lparr>b_schema = sample_fields True, b_rows = [[CUtf8 ''a'', CNull]]\<rparr>"
    by (simp add: align_batch_to_schema_def sample_fields_def field_with_name_def align_field_def try_new_def
        row_fits_def field_fits_def)
  from align_preserves_cells [OF a, of 0] show ?thesis
    unfolding a by (simp add: batch_ok_def row_fits_def field_fits_def sample_fields_def)
qed

end
