(* ===== verification/Datagen_Codec.thy ===== *)
theory Datagen_Codec
  imports Datagen_Fold Arrow
begin

text \<open>
  The write-path validation and the row codec of \<open>crates/lance-context-core/src/datagen_store.rs\<close>:
  \<open>validate_write_batch\<close>, \<open>validate_checkpoint_batch\<close>, the 34-column log schema, \<open>events_to_batch\<close> and
  \<open>batch_to_events\<close>. \<open>serde_json\<close>'s printer and parser and the range of \<open>chrono\<close>'s instants are
  parameters, gathered in the record \<open>codec\<close>.
\<close>

type_synonym datagen_store_error = "datagen_error store_error"

section \<open>Batch validation\<close>

definition check_blob :: "'j event \<Rightarrow> (datagen_store_error, unit) result" where
  "check_blob e =
     (case ev_value e of
        Some (VBlob blob) \<Rightarrow>
          (case blob_bytes blob of
             None \<Rightarrow> Err (Invalid (BlobWithoutBytes (event_id e)))
           | Some bytes \<Rightarrow>
               if blob_size blob \<noteq> int (length bytes)
               then Err (Invalid (BlobSizeMismatch (event_id e) (blob_size blob) (length bytes)))
               else Ok ())
      | _ \<Rightarrow> Ok ())"

fun validate_write_loop ::
  "(string \<rightharpoonup> 'j event) \<Rightarrow> (string \<times> int \<rightharpoonup> string) \<Rightarrow> 'j event list \<Rightarrow> (datagen_store_error, unit) result"
where
  "validate_write_loop by_id seqs [] = Ok ()"
| "validate_write_loop by_id seqs (e # es) =
     res_bind (res_map_err Invalid (validate e)) (\<lambda>_.
     res_bind (case by_id (event_id e) of
         Some previous \<Rightarrow> guard_ok (event_eq previous e) (Invalid (EventIdReused (event_id e)))
       | None \<Rightarrow> Ok ()) (\<lambda>_.
     res_bind (case seqs (item_id e, item_seq e) of
         Some previous \<Rightarrow> guard_ok (previous = event_id e) (Invalid (DuplicateItemSeq (item_id e) (item_seq e)))
       | None \<Rightarrow> Ok ()) (\<lambda>_.
     res_bind (check_blob e) (\<lambda>_.
     validate_write_loop (by_id(event_id e \<mapsto> e)) (seqs((item_id e, item_seq e) \<mapsto> event_id e)) es))))"

definition validate_write_batch :: "'j event list \<Rightarrow> (datagen_store_error, unit) result" where
  "validate_write_batch es = validate_write_loop Map.empty Map.empty es"

definition same_checkpoint :: "'j event \<Rightarrow> 'j event \<Rightarrow> bool" where
  "same_checkpoint first e \<longleftrightarrow> item_id e = item_id first \<and> checkpoint_id e = checkpoint_id first \<and>
     run_id e = run_id first \<and> writer_epoch e = writer_epoch first \<and> attempt e = attempt first"

fun count_completed :: "'j event \<Rightarrow> nat \<Rightarrow> 'j event list \<Rightarrow> (datagen_store_error, nat) result" where
  "count_completed first n [] = Ok n"
| "count_completed first n (e # es) =
     (if \<not> same_checkpoint first e then Err (Invalid CheckpointNotShared)
      else case event_type e of
        FieldSet \<Rightarrow> count_completed first n es
      | FieldAppend \<Rightarrow> count_completed first n es
      | StepCompleted \<Rightarrow> count_completed first (n + 1) es
      | _ \<Rightarrow> Err (Invalid CheckpointForeignType))"

definition same_step :: "'j event \<Rightarrow> 'j event \<Rightarrow> bool" where
  "same_step completion e \<longleftrightarrow> step_name e = step_name completion \<and> step_index e = step_index completion \<and>
     step_kind e = step_kind completion \<and> enclosing_step e = enclosing_step completion \<and>
     selector_step e = selector_step completion"

definition validate_checkpoint_batch :: "'j event list \<Rightarrow> (datagen_store_error, unit) result" where
  "validate_checkpoint_batch es =
     (case es of
        [] \<Rightarrow> Err (Invalid EmptyCheckpoint)
      | first # _ \<Rightarrow>
          res_bind (count_completed first 0 es) (\<lambda>completed.
          if completed \<noteq> 1 then Err (Invalid (CheckpointCompletions completed))
          else case find (\<lambda>e. event_type e = StepCompleted) es of
              None \<Rightarrow> Err (Invalid EmptyCheckpoint)
            | Some completion \<Rightarrow>
                if list_all (same_step completion) (filter is_field es)
                then validate_write_batch es
                else Err (Invalid CheckpointStepMismatch)))"

section \<open>The row codec\<close>

record 'j codec =
  json_to_string :: "'j \<Rightarrow> string"
  json_from_str :: "string \<Rightarrow> 'j option"
  micros_ok :: "int \<Rightarrow> bool"

definition col :: "string \<Rightarrow> data_type \<Rightarrow> bool \<Rightarrow> field_def" where
  "col n t nullable = \<lparr>fd_name = n, fd_type = t, fd_nullable = nullable\<rparr>"

definition datagen_log_schema :: "field_def list" where
  "datagen_log_schema =
     [col ''event_id'' DUtf8 False, col ''item_id'' DUtf8 False, col ''root_item_id'' DUtf8 False,
      col ''parent_item_id'' DUtf8 True, col ''item_seq'' DInt64 False, col ''checkpoint_id'' DUtf8 False,
      col ''event_type'' DUtf8 False, col ''step_name'' DUtf8 True, col ''step_kind'' DUtf8 True,
      col ''step_index'' DInt64 True, col ''enclosing_step'' DUtf8 True, col ''selector_step'' DUtf8 True,
      col ''attempt'' DInt32 False, col ''run_id'' DUtf8 False, col ''writer_epoch'' DUtf8 False,
      col ''field_name'' DUtf8 True, col ''field_type'' DUtf8 True, col ''codec_version'' DInt32 True,
      col ''value_kind'' DUtf8 True, col ''value_i64'' DInt64 True, col ''value_f64'' DFloat64 True,
      col ''value_bool'' DBoolean True, col ''value_str'' DLargeUtf8 True, col ''value_json'' DLargeUtf8 True,
      col ''value_blob'' DLargeBinary True, col ''payload_size'' DInt64 True,
      col ''payload_checksum'' DUtf8 True, col ''query_tags_json'' DLargeUtf8 True, col ''status'' DUtf8 True,
      col ''error_type'' DUtf8 True, col ''error_dump'' DLargeUtf8 True, col ''traceback'' DLargeUtf8 True,
      col ''event_ts'' DTimestampMicros False, col ''schema_version'' DInt32 False]"

definition opt_cell :: "('a \<Rightarrow> cell) \<Rightarrow> 'a option \<Rightarrow> cell" where
  "opt_cell c x = (case x of None \<Rightarrow> CNull | Some v \<Rightarrow> c v)"

definition blob_of :: "'j event \<Rightarrow> blob_value option" where
  "blob_of e = (case ev_value e of Some (VBlob b) \<Rightarrow> Some b | _ \<Rightarrow> None)"

text \<open>\<open>DateTime::timestamp_micros\<close> of an instant in nanoseconds.\<close>

definition timestamp_micros :: "int \<Rightarrow> int" where "timestamp_micros ns = ns div 1000"

definition event_cells :: "'j codec \<Rightarrow> 'j event \<Rightarrow> cell list" where
  "event_cells J e =
     [CUtf8 (event_id e), CUtf8 (item_id e), CUtf8 (root_item_id e), opt_cell CUtf8 (parent_item_id e),
      CInt64 (item_seq e), CUtf8 (checkpoint_id e), CUtf8 (event_type_as_str (event_type e)),
      opt_cell CUtf8 (step_name e), opt_cell CUtf8 (map_option step_kind_as_str (step_kind e)),
      opt_cell CInt64 (step_index e), opt_cell CUtf8 (enclosing_step e), opt_cell CUtf8 (selector_step e),
      CInt32 (attempt e), CUtf8 (run_id e), CUtf8 (writer_epoch e), opt_cell CUtf8 (field_name e),
      opt_cell CUtf8 (field_type e), opt_cell CInt32 (codec_version e),
      opt_cell CUtf8 (map_option kind (ev_value e)),
      (case ev_value e of Some (VInt v) \<Rightarrow> CInt64 v | _ \<Rightarrow> CNull),
      (case ev_value e of Some (VFloat v) \<Rightarrow> CFloat64 v | _ \<Rightarrow> CNull),
      (case ev_value e of Some (VBool v) \<Rightarrow> CBool v | _ \<Rightarrow> CNull),
      (case ev_value e of Some (VStr v) \<Rightarrow> CLargeUtf8 v | _ \<Rightarrow> CNull),
      (case ev_value e of Some (VJson v) \<Rightarrow> CLargeUtf8 (json_to_string J v) | _ \<Rightarrow> CNull),
      (case blob_of e of Some b \<Rightarrow> opt_cell CLargeBinary (blob_bytes b) | None \<Rightarrow> CNull),
      (case blob_of e of Some b \<Rightarrow> CInt64 (blob_size b) | None \<Rightarrow> CNull),
      (case blob_of e of Some b \<Rightarrow> opt_cell CUtf8 (blob_checksum b) | None \<Rightarrow> CNull),
      opt_cell (\<lambda>t. CLargeUtf8 (json_to_string J t)) (query_tags e),
      opt_cell CUtf8 (map_option item_status_as_str (status e)), opt_cell CUtf8 (error_type e),
      opt_cell CLargeUtf8 (error_dump e), opt_cell CLargeUtf8 (traceback e),
      CTimestamp (timestamp_micros (event_ts e)), CInt32 (schema_version e)]"

definition events_to_batch :: "'j codec \<Rightarrow> 'j event list \<Rightarrow> (datagen_store_error, batch) result" where
  "events_to_batch J es = res_map_err ArrowFault (try_new datagen_log_schema (map (event_cells J) es))"

definition required :: "string \<Rightarrow> 'a option \<Rightarrow> (datagen_store_error, 'a) result" where
  "required n x = ok_or (Invalid (NullColumn n)) x"

definition parse_json :: "'j codec \<Rightarrow> string \<Rightarrow> string \<Rightarrow> string \<Rightarrow> (datagen_store_error, 'j) result" where
  "parse_json J eid column s = ok_or (Invalid (InvalidJson eid column)) (json_from_str J s)"

definition row_value ::
  "'j codec \<Rightarrow> field_def list \<Rightarrow> cell list \<Rightarrow> string \<Rightarrow> (datagen_store_error, 'j datagen_value option) result"
where
  "row_value J sch r eid =
     (case optional_string sch r ''value_kind'' of
        None \<Rightarrow> Ok None
      | Some k \<Rightarrow>
          if k = ''int'' then res_bind (required ''value_i64'' (optional_i64 sch r ''value_i64'')) (\<lambda>v. Ok (Some (VInt v)))
          else if k = ''float'' then
            res_bind (required ''value_f64'' (optional_f64 sch r ''value_f64'')) (\<lambda>v. Ok (Some (VFloat v)))
          else if k = ''bool'' then
            res_bind (required ''value_bool'' (optional_bool sch r ''value_bool'')) (\<lambda>v. Ok (Some (VBool v)))
          else if k = ''str'' then
            res_bind (required ''value_str'' (optional_large_string sch r ''value_str'')) (\<lambda>v. Ok (Some (VStr v)))
          else if k = ''json'' then
            res_bind (required ''value_json'' (optional_large_string sch r ''value_json'')) (\<lambda>s.
            res_bind (parse_json J eid ''value_json'' s) (\<lambda>v. Ok (Some (VJson v))))
          else if k = ''blob'' then
            res_bind (required ''payload_size'' (optional_i64 sch r ''payload_size'')) (\<lambda>n.
            Ok (Some (VBlob \<lparr>blob_bytes = optional_bytes sch r ''value_blob'', blob_size = n,
                             blob_checksum = optional_string sch r ''payload_checksum''\<rparr>)))
          else Err (Invalid (UnsupportedValueKind eid k)))"

definition timestamp_from_micros :: "'j codec \<Rightarrow> int \<Rightarrow> string \<Rightarrow> (datagen_store_error, int) result" where
  "timestamp_from_micros J v column =
     (if micros_ok J v then Ok (v * 1000) else Err (Invalid (InvalidTimestamp column v)))"

text \<open>\<open>array.value(row)\<close> of a non-nullable column: what the slot holds, the type's default in a null slot.\<close>

definition str_at :: "field_def list \<Rightarrow> cell list \<Rightarrow> string \<Rightarrow> string" where
  "str_at sch r n = (case optional_string sch r n of Some s \<Rightarrow> s | None \<Rightarrow> [])"

definition int_or_0 :: "int option \<Rightarrow> int" where
  "int_or_0 x = (case x of Some i \<Rightarrow> i | None \<Rightarrow> 0)"

definition parse_opt ::
  "(string \<Rightarrow> (datagen_error, 'a) result) \<Rightarrow> string option \<Rightarrow> (datagen_store_error, 'a option) result" where
  "parse_opt p x = (case x of
     None \<Rightarrow> Ok None | Some s \<Rightarrow> res_bind (res_map_err Invalid (p s)) (\<lambda>v. Ok (Some v)))"

definition row_to_event ::
  "'j codec \<Rightarrow> field_def list \<Rightarrow> cell list \<Rightarrow> (datagen_store_error, 'j event) result" where
  "row_to_event J sch r =
     (let eid = str_at sch r ''event_id''; ostr = optional_string sch r in
      res_bind (row_value J sch r eid) (\<lambda>v.
      res_bind (case optional_large_string sch r ''query_tags_json'' of
          Some s \<Rightarrow> res_bind (parse_json J eid ''query_tags_json'' s) (\<lambda>j. Ok (Some j)) | None \<Rightarrow> Ok None) (\<lambda>tags.
      res_bind (res_map_err Invalid (event_type_parse (str_at sch r ''event_type''))) (\<lambda>ty.
      res_bind (parse_opt step_kind_parse (ostr ''step_kind'')) (\<lambda>sk.
      res_bind (parse_opt item_status_parse (ostr ''status'')) (\<lambda>st.
      res_bind (timestamp_from_micros J (int_or_0 (optional_micros sch r ''event_ts'')) ''event_ts'') (\<lambda>ts.
      (let e = \<lparr>event_id = eid, item_id = str_at sch r ''item_id'',
         root_item_id = str_at sch r ''root_item_id'', parent_item_id = ostr ''parent_item_id'',
         item_seq = int_or_0 (optional_i64 sch r ''item_seq''), checkpoint_id = str_at sch r ''checkpoint_id'',
         event_type = ty, step_name = ostr ''step_name'', step_kind = sk,
         step_index = optional_i64 sch r ''step_index'', enclosing_step = ostr ''enclosing_step'',
         selector_step = ostr ''selector_step'', attempt = int_or_0 (optional_i32 sch r ''attempt''),
         run_id = str_at sch r ''run_id'', writer_epoch = str_at sch r ''writer_epoch'',
         field_name = ostr ''field_name'', field_type = ostr ''field_type'',
         codec_version = optional_i32 sch r ''codec_version'', ev_value = v, query_tags = tags, status = st,
         error_type = ostr ''error_type'', error_dump = optional_large_string sch r ''error_dump'',
         traceback = optional_large_string sch r ''traceback'', event_ts = ts,
         schema_version = int_or_0 (optional_i32 sch r ''schema_version'')\<rparr>
       in res_bind (res_map_err Invalid (validate e)) (\<lambda>_. Ok e)))))))))"

definition required_columns :: "(string \<times> data_type) list" where
  "required_columns =
     [(''event_id'', DUtf8), (''item_id'', DUtf8), (''root_item_id'', DUtf8), (''item_seq'', DInt64),
      (''checkpoint_id'', DUtf8), (''event_type'', DUtf8), (''attempt'', DInt32), (''run_id'', DUtf8),
      (''writer_epoch'', DUtf8), (''event_ts'', DTimestampMicros), (''schema_version'', DInt32)]"

definition batch_to_events :: "'j codec \<Rightarrow> batch \<Rightarrow> (datagen_store_error, 'j event list) result" where
  "batch_to_events J b =
     res_bind (res_map_err ArrowFault
       (collect_res (\<lambda>(n, t). column_as (b_schema b) t n) required_columns)) (\<lambda>_.
     collect_res (row_to_event J (b_schema b)) (b_rows b))"

text \<open>\<open>non_blob_columns\<close>: the projection of a scan that leaves the blob column on disk.\<close>

definition non_blob_columns :: "field_def list \<Rightarrow> string list" where
  "non_blob_columns sch = filter (\<lambda>n. n \<noteq> ''value_blob'') (map fd_name sch)"

section \<open>Lemmas: validation\<close>

lemma f64_eq_trans: "f64_eq a b \<Longrightarrow> f64_eq b c \<Longrightarrow> f64_eq a c"
  by (auto simp: f64_eq_def)

lemma value_eq_trans: "value_eq a b \<Longrightarrow> value_eq b c \<Longrightarrow> value_eq a c"
  by (cases a; cases b; cases c) (auto intro: f64_eq_trans)

lemma event_eq_trans: "event_eq a b \<Longrightarrow> event_eq b c \<Longrightarrow> event_eq a c"
  by (cases "ev_value a"; cases "ev_value b"; cases "ev_value c")
    (auto simp: event_eq_def intro: value_eq_trans)

definition blob_ok :: "'j event \<Rightarrow> bool" where
  "blob_ok e \<longleftrightarrow> (\<forall>b. ev_value e = Some (VBlob b) \<longrightarrow>
     (\<exists>bytes. blob_bytes b = Some bytes \<and> blob_size b = int (length bytes)))"

lemma check_blob_Ok [simp]: "check_blob e = Ok u \<longleftrightarrow> blob_ok e"
  by (auto simp: check_blob_def blob_ok_def split: option.splits datagen_value.splits)

text \<open>Two events of one batch that can stand together.\<close>

definition compatible :: "'j event \<Rightarrow> 'j event \<Rightarrow> bool" where
  "compatible a b \<longleftrightarrow> (event_id a = event_id b \<longrightarrow> event_eq a b) \<and>
     (item_id a = item_id b \<and> item_seq a = item_seq b \<longrightarrow> event_id a = event_id b)"

lemma validate_write_loop_iff:
  "validate_write_loop m s es = Ok () \<longleftrightarrow>
     (\<forall>e \<in> set es. valid e \<and> blob_ok e \<and> (\<forall>p. m (event_id e) = Some p \<longrightarrow> event_eq p e) \<and>
        (\<forall>i. s (item_id e, item_seq e) = Some i \<longrightarrow> i = event_id e)) \<and> sorted_wrt compatible es"
proof (induction es arbitrary: m s)
  case (Cons e es)
  let ?m = "m(event_id e \<mapsto> e)" and ?s = "s((item_id e, item_seq e) \<mapsto> event_id e)"
  let ?here = "valid e \<and> blob_ok e \<and> (\<forall>p. m (event_id e) = Some p \<longrightarrow> event_eq p e) \<and>
    (\<forall>i. s (item_id e, item_seq e) = Some i \<longrightarrow> i = event_id e)"
  have step: "validate_write_loop m s (e # es) = Ok () \<longleftrightarrow> ?here \<and> validate_write_loop ?m ?s es = Ok ()"
    by (auto split: option.splits)
  have later: "((\<forall>p. ?m (event_id f) = Some p \<longrightarrow> event_eq p f) \<and>
        (\<forall>i. ?s (item_id f, item_seq f) = Some i \<longrightarrow> i = event_id f)) \<longleftrightarrow>
     ((\<forall>p. m (event_id f) = Some p \<longrightarrow> event_eq p f) \<and>
        (\<forall>i. s (item_id f, item_seq f) = Some i \<longrightarrow> i = event_id f) \<and> compatible e f)" if ?here for f
    using that by (auto simp: compatible_def dest: event_eq_trans)
  show ?case
  proof (cases ?here)
    case True
    show ?thesis unfolding step Cons.IH later [OF True] using True by auto
  qed (use step in auto)
qed simp

lemma validate_write_batch_iff:
  "validate_write_batch es = Ok () \<longleftrightarrow> (\<forall>e \<in> set es. valid e \<and> blob_ok e) \<and> sorted_wrt compatible es"
  by (simp add: validate_write_batch_def validate_write_loop_iff)

lemma count_completed_iff:
  "count_completed first n es = Ok m \<longleftrightarrow>
     (\<forall>e \<in> set es. same_checkpoint first e \<and> event_type e \<in> {FieldSet, FieldAppend, StepCompleted}) \<and>
     m = n + length (filter (\<lambda>e. event_type e = StepCompleted) es)"
  by (induction first n es rule: count_completed.induct) (auto split: event_type.splits)

lemma validate_checkpoint_batch_iff:
  "validate_checkpoint_batch es = Ok () \<longleftrightarrow>
     (\<forall>a \<in> set es. \<forall>b \<in> set es. same_checkpoint a b) \<and>
     (\<forall>e \<in> set es. event_type e \<in> {FieldSet, FieldAppend, StepCompleted}) \<and>
     (\<exists>c. filter (\<lambda>e. event_type e = StepCompleted) es = [c] \<and> (\<forall>e \<in> set es. same_step c e)) \<and>
     validate_write_batch es = Ok ()"
proof (cases es)
  case (Cons first rest)
  let ?fin = "filter (\<lambda>e. event_type e = StepCompleted) es"
  have fnd: "find (\<lambda>e. event_type e = StepCompleted) es = (case ?fin of [] \<Rightarrow> None | c # _ \<Rightarrow> Some c)"
    by (induction es) auto
  have share: "(\<forall>e \<in> set es. same_checkpoint first e) \<longleftrightarrow> (\<forall>a \<in> set es. \<forall>b \<in> set es. same_checkpoint a b)"
    using Cons by (auto simp: same_checkpoint_def)
  have same: "(\<forall>e \<in> set es. same_step c e) \<longleftrightarrow> list_all (same_step c) (filter is_field es)"
    if "?fin = [c]" "\<forall>e \<in> set es. event_type e \<in> {FieldSet, FieldAppend, StepCompleted}" for c
  proof -
    have "e = c" if "e \<in> set es" "\<not> is_field e" for e
    proof -
      have "e \<in> set ?fin" using that \<open>\<forall>e \<in> set es. _\<close> by (auto simp: is_field_def)
      then show ?thesis using \<open>?fin = [c]\<close> by simp
    qed
    then show ?thesis by (auto simp: list_all_iff same_step_def)
  qed
  have "validate_checkpoint_batch es = res_bind (count_completed first 0 es) (\<lambda>n.
      if n \<noteq> 1 then Err (Invalid (CheckpointCompletions n))
      else case find (\<lambda>e. event_type e = StepCompleted) es of
          None \<Rightarrow> Err (Invalid EmptyCheckpoint)
        | Some c \<Rightarrow> if list_all (same_step c) (filter is_field es) then validate_write_batch es
                   else Err (Invalid CheckpointStepMismatch))"
    unfolding validate_checkpoint_batch_def Cons by (simp only: list.case)
  then have "validate_checkpoint_batch es = Ok () \<longleftrightarrow>
      (\<forall>e \<in> set es. same_checkpoint first e \<and> event_type e \<in> {FieldSet, FieldAppend, StepCompleted}) \<and>
      (\<exists>c. ?fin = [c] \<and> list_all (same_step c) (filter is_field es)) \<and> validate_write_batch es = Ok ()"
    unfolding fnd by (cases ?fin) (auto simp: count_completed_iff split: if_splits)
  with share same show ?thesis by blast
qed (simp add: validate_checkpoint_batch_def)

section \<open>Lemmas: the codec\<close>

text \<open>What the format does to an event: instants are kept to the microsecond.\<close>

definition truncate_ts :: "'j event \<Rightarrow> 'j event" where
  "truncate_ts e = e\<lparr>event_ts := timestamp_micros (event_ts e) * 1000\<rparr>"

definition codec_ok :: "'j codec \<Rightarrow> bool" where
  "codec_ok J \<longleftrightarrow> (\<forall>j. json_from_str J (json_to_string J j) = Some j)"

lemma validate_ts [simp]: "validate (e\<lparr>event_ts := t\<rparr>) = validate e"
  by (cases "event_type e") (simp_all add: validate_def validate_type_def validate_field_def require_step_provenance_def)

lemma opt_cell_simps [simp]: "opt_cell c None = CNull" "opt_cell c (Some v) = c v"
  by (simp_all add: opt_cell_def)

lemma col_simps [simp]: "fd_name (col n t b) = n" "fd_type (col n t b) = t" "fd_nullable (col n t b) = b"
  by (simp_all add: col_def)

lemma field_fits_opt: "(\<And>v. cell_fits t (c v)) \<Longrightarrow> (\<And>v. c v \<noteq> CNull) \<Longrightarrow> field_fits (col n t True) (opt_cell c x)"
  by (cases x) (simp_all add: field_fits_def)

lemma field_fits_null: "field_fits (col n t True) CNull"
  by (simp add: field_fits_def)

lemma row_fits_event: "row_fits datagen_log_schema (event_cells J e)"
  unfolding row_fits_def datagen_log_schema_def event_cells_def list_all2_Cons list_all2_Nil
  by (auto simp: field_fits_opt field_fits_null split: option.split datagen_value.split)
    (simp_all add: field_fits_def)

lemma events_to_batch_Ok:
  "events_to_batch J es = Ok \<lparr>b_schema = datagen_log_schema, b_rows = map (event_cells J) es\<rparr>"
  by (simp add: events_to_batch_def try_new_def row_fits_event list_all_length)

lemma read_string:
  "column_as_optional sch DUtf8 r n = Some (opt_cell CUtf8 x) \<Longrightarrow> optional_string sch r n = x"
  "column_as_optional sch DUtf8 r n = Some (CUtf8 s) \<Longrightarrow> optional_string sch r n = Some s"
  by (cases x; simp add: optional_string_def)+

lemma read_large_string:
  "column_as_optional sch DLargeUtf8 r n = Some (opt_cell CLargeUtf8 x) \<Longrightarrow> optional_large_string sch r n = x"
  by (cases x) (simp_all add: optional_large_string_def)

lemma read_i64: "column_as_optional sch DInt64 r n = Some (opt_cell CInt64 y) \<Longrightarrow> optional_i64 sch r n = y"
  by (cases y) (simp_all add: optional_i64_def)

lemma read_i32: "column_as_optional sch DInt32 r n = Some (opt_cell CInt32 y) \<Longrightarrow> optional_i32 sch r n = y"
  by (cases y) (simp_all add: optional_i32_def)

lemma read_bytes:
  "column_as_optional sch DLargeBinary r n = Some (opt_cell CLargeBinary z) \<Longrightarrow> optional_bytes sch r n = z"
  by (cases z) (simp_all add: optional_bytes_def)

lemmas locate = column_as_optional_def field_with_name_def datagen_log_schema_def event_cells_def

lemma read_columns:
  "str_at datagen_log_schema (event_cells J e) ''event_id'' = event_id e"
  "str_at datagen_log_schema (event_cells J e) ''item_id'' = item_id e"
  "str_at datagen_log_schema (event_cells J e) ''root_item_id'' = root_item_id e"
  "str_at datagen_log_schema (event_cells J e) ''checkpoint_id'' = checkpoint_id e"
  "str_at datagen_log_schema (event_cells J e) ''event_type'' = event_type_as_str (event_type e)"
  "str_at datagen_log_schema (event_cells J e) ''run_id'' = run_id e"
  "str_at datagen_log_schema (event_cells J e) ''writer_epoch'' = writer_epoch e"
  by (simp_all add: str_at_def optional_string_def locate)

lemma read_opt_strings:
  "optional_string datagen_log_schema (event_cells J e) ''parent_item_id'' = parent_item_id e"
  "optional_string datagen_log_schema (event_cells J e) ''step_name'' = step_name e"
  "optional_string datagen_log_schema (event_cells J e) ''step_kind'' = map_option step_kind_as_str (step_kind e)"
  "optional_string datagen_log_schema (event_cells J e) ''enclosing_step'' = enclosing_step e"
  "optional_string datagen_log_schema (event_cells J e) ''selector_step'' = selector_step e"
  "optional_string datagen_log_schema (event_cells J e) ''field_name'' = field_name e"
  "optional_string datagen_log_schema (event_cells J e) ''field_type'' = field_type e"
  "optional_string datagen_log_schema (event_cells J e) ''value_kind'' = map_option kind (ev_value e)"
  "optional_string datagen_log_schema (event_cells J e) ''status'' = map_option item_status_as_str (status e)"
  "optional_string datagen_log_schema (event_cells J e) ''error_type'' = error_type e"
  by (rule read_string(1), simp add: locate)+

lemma read_opt_large_strings:
  "optional_large_string datagen_log_schema (event_cells J e) ''error_dump'' = error_dump e"
  "optional_large_string datagen_log_schema (event_cells J e) ''traceback'' = traceback e"
  by (rule read_large_string, simp add: locate)+

lemma read_tags:
  "optional_large_string datagen_log_schema (event_cells J e) ''query_tags_json'' =
     map_option (json_to_string J) (query_tags e)"
  by (cases "query_tags e") (simp_all add: optional_large_string_def locate)

lemma read_ints:
  "optional_i64 datagen_log_schema (event_cells J e) ''item_seq'' = Some (item_seq e)"
  "optional_i64 datagen_log_schema (event_cells J e) ''step_index'' = step_index e"
  "optional_i32 datagen_log_schema (event_cells J e) ''attempt'' = Some (attempt e)"
  "optional_i32 datagen_log_schema (event_cells J e) ''codec_version'' = codec_version e"
  "optional_i32 datagen_log_schema (event_cells J e) ''schema_version'' = Some (schema_version e)"
  "optional_micros datagen_log_schema (event_cells J e) ''event_ts'' = Some (timestamp_micros (event_ts e))"
  by (rule read_i64 read_i32, simp add: locate | simp add: optional_i64_def optional_i32_def optional_micros_def locate)+

lemma read_value:
  assumes "codec_ok J"
  shows "row_value J datagen_log_schema (event_cells J e) eid = Ok (ev_value e)"
proof (cases "ev_value e")
  case None
  then show ?thesis by (simp add: row_value_def read_opt_strings)
next
  case (Some v)
  note defs = row_value_def read_opt_strings required_def parse_json_def blob_of_def
  show ?thesis
  proof (cases v)
    case (VBlob b)
    have b: "blob_of e = Some b" using Some VBlob by (simp add: blob_of_def)
    have "column_as_optional datagen_log_schema DInt64 (event_cells J e) ''payload_size'' = Some (CInt64 (blob_size b))"
      "column_as_optional datagen_log_schema DLargeBinary (event_cells J e) ''value_blob'' =
         Some (opt_cell CLargeBinary (blob_bytes b))"
      "column_as_optional datagen_log_schema DUtf8 (event_cells J e) ''payload_checksum'' =
         Some (opt_cell CUtf8 (blob_checksum b))"
      by (simp_all add: locate b)
    then have "optional_i64 datagen_log_schema (event_cells J e) ''payload_size'' = Some (blob_size b)"
      "optional_bytes datagen_log_schema (event_cells J e) ''value_blob'' = blob_bytes b"
      "optional_string datagen_log_schema (event_cells J e) ''payload_checksum'' = blob_checksum b"
      using read_i64 [where y = "Some (blob_size b)"] by (simp_all add: read_string(1) read_bytes)
    then show ?thesis using Some VBlob by (simp add: defs)
  qed (use Some assms in \<open>simp_all add: defs optional_defs locate codec_ok_def\<close>)
qed

lemma row_round_trip:
  assumes "codec_ok J" "valid e" "micros_ok J (timestamp_micros (event_ts e))"
  shows "row_to_event J datagen_log_schema (event_cells J e) = Ok (truncate_ts e)"
proof -
  have "valid (truncate_ts e)" using assms(2) by (simp add: truncate_ts_def)
  moreover have "parse_opt step_kind_parse (map_option step_kind_as_str x) = Ok x" for x
    by (cases x) (simp_all add: parse_opt_def)
  moreover have "parse_opt item_status_parse (map_option item_status_as_str x) = Ok x" for x
    by (cases x) (simp_all add: parse_opt_def)
  moreover have "\<lparr>event_id = event_id e, item_id = item_id e, root_item_id = root_item_id e,
      parent_item_id = parent_item_id e, item_seq = item_seq e, checkpoint_id = checkpoint_id e,
      event_type = event_type e, step_name = step_name e, step_kind = step_kind e, step_index = step_index e,
      enclosing_step = enclosing_step e, selector_step = selector_step e, attempt = attempt e,
      run_id = run_id e, writer_epoch = writer_epoch e, field_name = field_name e, field_type = field_type e,
      codec_version = codec_version e, ev_value = ev_value e, query_tags = query_tags e, status = status e,
      error_type = error_type e, error_dump = error_dump e, traceback = traceback e,
      event_ts = timestamp_micros (event_ts e) * 1000, schema_version = schema_version e\<rparr> = truncate_ts e"
    by (cases e) (simp add: truncate_ts_def)
  moreover have "(case map_option (json_to_string J) x of
      Some s \<Rightarrow> res_bind (parse_json J eid c s) (\<lambda>j. Ok (Some j)) | None \<Rightarrow> Ok None) = Ok x" for eid c x
    using assms(1) by (cases x) (simp_all add: parse_json_def codec_ok_def)
  ultimately show ?thesis
    using assms(3)
    by (simp add: row_to_event_def read_columns read_opt_strings read_opt_large_strings read_tags read_ints
        read_value [OF assms(1)] timestamp_from_micros_def int_or_0_def Let_def)
qed

end
