(* ===== verification/Datagen_Tree.thy ===== *)
theory Datagen_Tree
  imports Datagen_Fold
begin

text \<open>
  Inspection views over a whole log (\<open>crates/lance-context-core/src/datagen.rs\<close>):
  \<open>DatagenItemTree::build\<close> links the folded items of a root parent to child, and
  \<open>DatagenRunOverview::build\<close> aggregates a run. Both group the events by item first; the grouping
  map is the \<open>BTreeMap\<close> of the prelude.
\<close>

section \<open>Grouping\<close>

definition group_by_item :: "'j event list \<Rightarrow> (string, 'j event list) btree_map" where
  "group_by_item es =
     foldl (\<lambda>m e. bt_upsert (item_id e) (\<lambda>a. (case a of None \<Rightarrow> [] | Some l \<Rightarrow> l) @ [e]) m) [] es"

lemma group_foldl:
  "foldl (\<lambda>a x. Some ((case a of None \<Rightarrow> [] | Some l \<Rightarrow> l) @ [x])) b xs =
     (if xs = [] then b else Some ((case b of None \<Rightarrow> [] | Some l \<Rightarrow> l) @ xs))"
  by (induction xs arbitrary: b) auto

lemma group_by_item_get:
  "bt_get (group_by_item es) k =
     (let l = filter (\<lambda>e. item_id e = k) es in if l = [] then None else Some l)"
  unfolding group_by_item_def
  by (subst bt_upsert_accumulate) (simp add: group_foldl Let_def)

lemma group_by_item_sorted: "bt_sorted (group_by_item es)"
  unfolding group_by_item_def by (rule bt_sorted_accumulate [OF bt.invar_empty])

lemma group_by_item_mem:
  "(k, l) \<in> set (group_by_item es) \<longleftrightarrow> l = filter (\<lambda>e. item_id e = k) es \<and> l \<noteq> []"
  unfolding bt.entries_Some [OF group_by_item_sorted] group_by_item_get by (auto simp: Let_def)

lemma group_by_item_single:
  assumes "es \<noteq> []" "\<forall>e \<in> set es. item_id e = k"
  shows "group_by_item es = [(k, es)]"
proof -
  have "bt_get (group_by_item es) j = bt_get [(k, es)] j" for j
    unfolding group_by_item_get using assms by (auto simp: Let_def bt_get_def filter_empty_conv)
  then show ?thesis
    using bt.entries_eq_iff [OF group_by_item_sorted, of "[(k, es)]" es] by (simp add: bt_sorted_def)
qed

section \<open>Item trees\<close>

record 'j item_node =
  nd_item :: "'j folded_item"
  nd_children :: "item_id list"

record 'j item_tree =
  tree_nodes :: "(string, 'j item_node) btree_map"
  tree_roots :: "item_id list"

definition insert_folded ::
  "(string, 'j item_node) btree_map \<Rightarrow> 'j event list \<Rightarrow> (datagen_error, (string, 'j item_node) btree_map) result"
where
  "insert_folded nodes evs =
     res_bind (fold_datagen_events evs) (\<lambda>folded.
       Ok (case folded of
             None \<Rightarrow> nodes
           | Some it \<Rightarrow> bt_insert (item_id_to_string (fi_item_id it)) \<lparr>nd_item = it, nd_children = []\<rparr> nodes))"

definition link_child ::
  "(string, 'j item_node) btree_map \<times> item_id list \<Rightarrow> string \<times> string option \<Rightarrow>
   (datagen_error, (string, 'j item_node) btree_map \<times> item_id list) result" where
  "link_child s c =
     (case (s, c) of ((nodes, roots), (child_id, parent_id)) \<Rightarrow>
        (case parent_id of
           Some p \<Rightarrow>
             (case bt_get nodes p of
                Some nd \<Rightarrow>
                  res_bind (item_id_parse child_id) (\<lambda>i.
                    Ok (bt_insert p (nd\<lparr>nd_children := nd_children nd @ [i]\<rparr>) nodes, roots))
              | None \<Rightarrow> res_bind (item_id_parse child_id) (\<lambda>i. Ok (nodes, roots @ [i])))
         | None \<Rightarrow> res_bind (item_id_parse child_id) (\<lambda>i. Ok (nodes, roots @ [i]))))"

definition child_ids :: "(string, 'j item_node) btree_map \<Rightarrow> (string \<times> string option) list" where
  "child_ids nodes =
     map (\<lambda>nd. (item_id_to_string (fi_item_id (nd_item nd)),
                map_option item_id_to_string (fi_parent_item_id (nd_item nd)))) (bt_values nodes)"

definition tree_build :: "'j event list \<Rightarrow> (datagen_error, 'j item_tree) result" where
  "tree_build es =
     res_bind (fold_res insert_folded [] (bt_values (group_by_item es))) (\<lambda>nodes.
     res_bind (fold_res link_child (nodes, []) (child_ids nodes)) (\<lambda>(linked, roots).
     Ok \<lparr>tree_nodes = map (\<lambda>(k, nd). (k, nd\<lparr>nd_children := sort (nd_children nd)\<rparr>)) linked,
         tree_roots = sort roots\<rparr>))"

definition tree_node :: "'j item_tree \<Rightarrow> item_id \<Rightarrow> 'j item_node option" where
  "tree_node t i = bt_get (tree_nodes t) (item_id_to_string i)"

definition tree_len :: "'j item_tree \<Rightarrow> nat" where "tree_len t = length (tree_nodes t)"
definition tree_is_empty :: "'j item_tree \<Rightarrow> bool" where "tree_is_empty t \<longleftrightarrow> tree_nodes t = []"
definition tree_items :: "'j item_tree \<Rightarrow> 'j folded_item list" where
  "tree_items t = map nd_item (bt_values (tree_nodes t))"

section \<open>Run overview\<close>

record failure_bucket =
  fb_failures :: nat
  fb_by_error_type :: "(string, nat) btree_map"
  fb_sample :: "string list"

record run_overview =
  ov_items :: nat
  ov_running :: nat
  ov_completed :: nat
  ov_filtered :: nat
  ov_failures :: nat
  ov_by_error_type :: "(string, nat) btree_map"
  ov_by_run :: "(string, failure_bucket) btree_map"
  ov_completed_steps :: "(string, nat) btree_map"

definition FAILURE_SAMPLE_LIMIT :: nat where "FAILURE_SAMPLE_LIMIT = 5"

definition empty_overview :: run_overview where
  "empty_overview = \<lparr>ov_items = 0, ov_running = 0, ov_completed = 0, ov_filtered = 0, ov_failures = 0,
     ov_by_error_type = [], ov_by_run = [], ov_completed_steps = []\<rparr>"

definition empty_bucket :: failure_bucket where
  "empty_bucket = \<lparr>fb_failures = 0, fb_by_error_type = [], fb_sample = []\<rparr>"

definition bump :: "string \<Rightarrow> (string, nat) btree_map \<Rightarrow> (string, nat) btree_map" where
  "bump k m = bt_upsert k (\<lambda>a. (case a of None \<Rightarrow> 0 | Some n \<Rightarrow> n) + 1) m"

definition bucket_add :: "string \<Rightarrow> failure \<Rightarrow> failure_bucket \<Rightarrow> failure_bucket" where
  "bucket_add rt f b =
     (let b' = b\<lparr>fb_failures := fb_failures b + 1,
                fb_by_error_type := bump (ei_error_type (fl_error f)) (fb_by_error_type b)\<rparr>
      in if length (fb_sample b') < FAILURE_SAMPLE_LIMIT \<and> rt \<notin> set (fb_sample b')
         then b'\<lparr>fb_sample := fb_sample b' @ [rt]\<rparr> else b')"

definition add_failure :: "string \<Rightarrow> run_overview \<Rightarrow> failure \<Rightarrow> run_overview" where
  "add_failure rt ov f = ov
     \<lparr>ov_failures := ov_failures ov + 1,
      ov_by_error_type := bump (ei_error_type (fl_error f)) (ov_by_error_type ov),
      ov_by_run := bt_upsert (fl_run_id f)
        (\<lambda>a. bucket_add rt f (case a of None \<Rightarrow> empty_bucket | Some b \<Rightarrow> b)) (ov_by_run ov)\<rparr>"

definition count_root :: "'j folded_item \<Rightarrow> run_overview \<Rightarrow> run_overview" where
  "count_root it ov =
     (if fi_parent_item_id it \<noteq> None then ov
      else
        (let ov' = ov\<lparr>ov_items := ov_items ov + 1\<rparr> in
         case fi_status it of
           Running \<Rightarrow> ov'\<lparr>ov_running := ov_running ov' + 1\<rparr>
         | Completed \<Rightarrow> ov'\<lparr>ov_completed := ov_completed ov' + 1\<rparr>
         | Filtered \<Rightarrow> ov'\<lparr>ov_filtered := ov_filtered ov' + 1\<rparr>
         | StatusFailed \<Rightarrow> ov'\<lparr>ov_running := ov_running ov' + 1\<rparr>))"

definition overview_item :: "run_overview \<Rightarrow> 'j event list \<Rightarrow> (datagen_error, run_overview) result" where
  "overview_item ov evs =
     res_bind (fold_datagen_events evs) (\<lambda>folded.
       case folded of
         None \<Rightarrow> Ok ov
       | Some it \<Rightarrow>
           (let ov1 = ov\<lparr>ov_completed_steps :=
                 foldl (\<lambda>m c. bump (sid_name (pos_step (cur_position c))) m) (ov_completed_steps ov)
                   (tr_ordered (fi_trajectory it))\<rparr> in
            res_bind (datagen_failures evs) (\<lambda>fs.
              Ok (count_root it (foldl (add_failure (item_id_to_string (fi_root_item_id it))) ov1 fs)))))"

definition overview_build :: "'j event list \<Rightarrow> (datagen_error, run_overview) result" where
  "overview_build es = fold_res overview_item empty_overview (bt_values (group_by_item es))"

section \<open>Lookup results\<close>

datatype 'j item_lookup = NeverStarted | Found "'j folded_item"

fun lookup_folded :: "'j item_lookup \<Rightarrow> 'j folded_item option" where
  "lookup_folded NeverStarted = None"
| "lookup_folded (Found it) = Some it"

type_synonym root_item_statuses = "string \<rightharpoonup> item_status"

definition root_status :: "root_item_statuses \<Rightarrow> item_id \<Rightarrow> item_status option" where
  "root_status m i = m (item_id_to_string i)"

definition is_terminated :: "root_item_statuses \<Rightarrow> item_id \<Rightarrow> bool" where
  "is_terminated m i \<longleftrightarrow>
     (case root_status m i of Some Completed \<Rightarrow> True | Some Filtered \<Rightarrow> True | _ \<Rightarrow> False)"

section \<open>Lemmas: trees\<close>

lemma bt_insert_present_keys: "k \<in> fst ` set m \<Longrightarrow> bt_sorted m \<Longrightarrow> map fst (bt_insert k v m) = map fst m"
  unfolding bt_sorted_def
proof (induction k v m rule: bt_insert.induct)
  case (2 k v k' v' m)
  then have "\<not> k < k'" by fastforce
  with 2 show ?case by auto
qed simp

lemma bt_get_None_iff: "bt_get m k = None \<longleftrightarrow> k \<notin> fst ` set m"
  by (simp add: bt_get_def map_of_eq_None_iff)

definition adopted :: "(string, 'j item_node) btree_map \<Rightarrow> string \<times> string option \<Rightarrow> bool" where
  "adopted nodes c \<longleftrightarrow> (\<exists>p. snd c = Some p \<and> bt_get nodes p \<noteq> None)"

text \<open>Linking appends each item to its parent's children, or to the roots when the parent is absent.\<close>

lemma link_all:
  assumes "bt_sorted nodes" "\<forall>c \<in> set cs. item_id_parse (fst c) = Ok (pid (fst c))"
  shows "\<exists>linked. fold_res link_child (nodes, roots) cs =
      Ok (linked, roots @ map (pid \<circ> fst) (filter (\<lambda>c. \<not> adopted nodes c) cs)) \<and>
    bt_sorted linked \<and> map fst linked = map fst nodes \<and>
    (\<forall>k. bt_get linked k = map_option
       (\<lambda>nd. nd\<lparr>nd_children := nd_children nd @ map (pid \<circ> fst) (filter (\<lambda>c. snd c = Some k) cs)\<rparr>) (bt_get nodes k))"
  using assms
proof (induction cs arbitrary: nodes roots)
  case Nil
  have "map_option (\<lambda>nd. nd\<lparr>nd_children := nd_children nd\<rparr>) x = x" for x :: "'a item_node option"
    by (cases x) simp_all
  with Nil show ?case by simp
next
  case (Cons c cs)
  obtain ch par where c: "c = (ch, par)" by (cases c)
  have parse: "item_id_parse ch = Ok (pid ch)" using Cons.prems(2) c by auto
  have rest: "\<forall>c \<in> set cs. item_id_parse (fst c) = Ok (pid (fst c))" using Cons.prems(2) by auto
  show ?case
  proof (cases "adopted nodes c")
    case True
    then obtain p nd where p: "par = Some p" and nd: "bt_get nodes p = Some nd" by (auto simp: adopted_def c)
    let ?n = "bt_insert p (nd\<lparr>nd_children := nd_children nd @ [pid ch]\<rparr>) nodes"
    have srt: "bt_sorted ?n" using Cons.prems(1) by (rule bt_sorted_insert)
    have "p \<in> fst ` set nodes" using nd bt_get_None_iff by (metis option.distinct(1))
    then have keys: "map fst ?n = map fst nodes" using Cons.prems(1) by (rule bt_insert_present_keys)
    have "bt_get ?n k \<noteq> None \<longleftrightarrow> bt_get nodes k \<noteq> None" for k
      using nd by (simp add: bt_get_insert [OF Cons.prems(1)])
    then have ad: "adopted ?n = adopted nodes" by (simp only: fun_eq_iff adopted_def) simp
    have step: "link_child (nodes, roots) c = Ok (?n, roots)"
      using p nd parse by (simp add: link_child_def c)
    obtain linked where l: "fold_res link_child (?n, roots) cs =
        Ok (linked, roots @ map (pid \<circ> fst) (filter (\<lambda>c. \<not> adopted nodes c) cs))" "bt_sorted linked"
        "map fst linked = map fst nodes"
      and g: "\<And>k. bt_get linked k = map_option
        (\<lambda>nd. nd\<lparr>nd_children := nd_children nd @ map (pid \<circ> fst) (filter (\<lambda>c. snd c = Some k) cs)\<rparr>) (bt_get ?n k)"
      using Cons.IH [OF srt rest, of roots] unfolding ad keys by blast
    have "bt_get linked k = map_option (\<lambda>nd. nd\<lparr>nd_children :=
        nd_children nd @ map (pid \<circ> fst) (filter (\<lambda>c. snd c = Some k) (c # cs))\<rparr>) (bt_get nodes k)" for k
      by (cases "k = p") (simp_all add: g bt_get_insert [OF Cons.prems(1)] nd c p)
    then show ?thesis by (intro exI [of _ linked]) (use l True in \<open>simp add: step comp_def\<close>)
  next
    case False
    then have step: "link_child (nodes, roots) c = Ok (nodes, roots @ [pid ch])"
      using parse by (auto simp: link_child_def c adopted_def split: option.splits)
    obtain linked where l: "fold_res link_child (nodes, roots @ [pid ch]) cs =
        Ok (linked, (roots @ [pid ch]) @ map (pid \<circ> fst) (filter (\<lambda>c. \<not> adopted nodes c) cs))" "bt_sorted linked"
        "map fst linked = map fst nodes"
      and g: "\<And>k. bt_get linked k = map_option
        (\<lambda>nd. nd\<lparr>nd_children := nd_children nd @ map (pid \<circ> fst) (filter (\<lambda>c. snd c = Some k) cs)\<rparr>) (bt_get nodes k)"
      using Cons.IH [OF Cons.prems(1) rest, of "roots @ [pid ch]"] by blast
    have absent: "bt_get nodes k = None" if "snd c = Some k" for k
      using False that by (auto simp: adopted_def)
    have "bt_get linked k = map_option (\<lambda>nd. nd\<lparr>nd_children :=
        nd_children nd @ map (pid \<circ> fst) (filter (\<lambda>c. snd c = Some k) (c # cs))\<rparr>) (bt_get nodes k)" for k
      by (cases "snd c = Some k") (simp_all add: g absent)
    then show ?thesis by (intro exI [of _ linked]) (use l False step in \<open>simp add: comp_def c\<close>)
  qed
qed

definition node_map_ok :: "(string, 'j item_node) btree_map \<Rightarrow> bool" where
  "node_map_ok nodes \<longleftrightarrow> bt_sorted nodes \<and>
     (\<forall>(k, nd) \<in> set nodes. k = item_id_to_string (fi_item_id (nd_item nd)) \<and>
        plain_item_id (fi_item_id (nd_item nd)) \<and> nd_children nd = [])"

lemma fold_item_plain:
  assumes "fold_datagen_events_with es b = Ok (Some it)"
  shows "plain_item_id (fi_item_id it)"
proof -
  from assms obtain e0 rest it0 where "initial_item e0 = Ok it0"
    "it = project b (foldl item_step it0 (e0 # rest))" unfolding fold_Some_iff by blast
  then show ?thesis
    using initial_item_Ok(1) item_id_parse_plain by (metis project_simps(1) foldl_item_step(1))
qed

lemma bt_insert_mem: "x \<in> set (bt_insert k v m) \<Longrightarrow> x = (k, v) \<or> x \<in> set m"
  by (induction k v m rule: bt_insert.induct) (auto split: if_splits)

lemma insert_folded_ok: "insert_folded nodes evs = Ok nodes' \<Longrightarrow> node_map_ok nodes \<Longrightarrow> node_map_ok nodes'"
  by (auto simp: insert_folded_def node_map_ok_def bt_sorted_insert fold_datagen_events_def
      dest!: bt_insert_mem fold_item_plain split: option.splits)

lemma nodes_ok: "fold_res insert_folded [] groups = Ok nodes \<Longrightarrow> node_map_ok nodes"
  by (rule fold_res_invariant [where P = node_map_ok])
    (auto simp: insert_folded_ok, simp add: node_map_ok_def bt.invar_empty)

text \<open>The parent of an item as the tree stores it, and the items of a tree below a key.\<close>

definition parent_key :: "'j folded_item \<Rightarrow> string option" where
  "parent_key it = map_option item_id_to_string (fi_parent_item_id it)"

lemma tree_build_shape:
  assumes "fold_res insert_folded [] (bt_values (group_by_item es)) = Ok nodes"
  obtains t where "tree_build es = Ok t" "map fst (tree_nodes t) = map fst nodes"
    "tree_items t = map (nd_item \<circ> snd) nodes" "bt_sorted (tree_nodes t)"
    "tree_roots t = sort (map fi_item_id (filter (\<lambda>it. \<not> (\<exists>p. parent_key it = Some p \<and> p \<in> fst ` set nodes)) (tree_items t)))"
    "\<And>k nd. bt_get (tree_nodes t) k = Some nd \<Longrightarrow>
       nd_children nd = sort (map fi_item_id (filter (\<lambda>it. parent_key it = Some k) (tree_items t)))"
proof -
  note ok = nodes_ok [OF assms, unfolded node_map_ok_def]
  have srt: "bt_sorted nodes" using ok by blast
  let ?its = "map (nd_item \<circ> snd) nodes"
  let ?pid = "\<lambda>s. projr (item_id_parse s)"
  have pid: "item_id_parse (item_id_to_string (fi_item_id it)) = Ok (fi_item_id it)" if "it \<in> set ?its" for it
    using that ok by (auto intro!: item_id_parse_to_string)
  have cs: "child_ids nodes = map (\<lambda>it. (item_id_to_string (fi_item_id it), parent_key it)) ?its"
    by (simp add: child_ids_def bt_values_def parent_key_def comp_def)
  have prs: "\<forall>c \<in> set (child_ids nodes). item_id_parse (fst c) = Ok (?pid (fst c))"
    using pid unfolding cs by simp
  have pidmap: "map (?pid \<circ> fst) (filter P (child_ids nodes)) =
      map fi_item_id (filter (\<lambda>it. P (item_id_to_string (fi_item_id it), parent_key it)) ?its)" for P
    using pid unfolding cs by (auto simp: filter_map comp_def)
  from link_all [OF srt prs, where roots = "[]"] obtain linked where
    l: "fold_res link_child (nodes, []) (child_ids nodes) =
        Ok (linked, map (?pid \<circ> fst) (filter (\<lambda>c. \<not> adopted nodes c) (child_ids nodes)))"
      "bt_sorted linked" "map fst linked = map fst nodes"
    and g: "\<And>k. bt_get linked k = map_option (\<lambda>nd. nd\<lparr>nd_children := nd_children nd @
        map (?pid \<circ> fst) (filter (\<lambda>c. snd c = Some k) (child_ids nodes))\<rparr>) (bt_get nodes k)"
    by auto
  let ?t = "\<lparr>tree_nodes = map (\<lambda>(k, nd). (k, nd\<lparr>nd_children := sort (nd_children nd)\<rparr>)) linked,
    tree_roots = sort (map (?pid \<circ> fst) (filter (\<lambda>c. \<not> adopted nodes c) (child_ids nodes)))\<rparr>"
  have get: "bt_get (tree_nodes ?t) k = map_option (\<lambda>nd. nd\<lparr>nd_children := sort (nd_children nd)\<rparr>) (bt_get linked k)" for k
    by (simp add: bt_get_strip)
  have keys: "map fst (tree_nodes ?t) = map fst nodes" using l(3) by (simp add: comp_def case_prod_unfold)
  have item_of: "nd_item (snd x) = nd_item (the (bt_get nodes (fst x)))" if "x \<in> set linked" for x
  proof -
    have "bt_get linked (fst x) = Some (snd x)"
      using that bt.entries_Some [OF l(2)] by (metis prod.collapse)
    then obtain z where "bt_get nodes (fst x) = Some z" "snd x = z\<lparr>nd_children := nd_children z @
        map (?pid \<circ> fst) (filter (\<lambda>c. snd c = Some (fst x)) (child_ids nodes))\<rparr>"
      using g [of "fst x"] by (metis (no_types, lifting) map_option_eq_Some)
    then show ?thesis by simp
  qed
  have "map (nd_item \<circ> snd) linked = map (\<lambda>k. nd_item (the (bt_get nodes k))) (map fst linked)"
    using item_of by simp
  also have "\<dots> = map (\<lambda>k. nd_item (the (bt_get nodes k))) (map fst nodes)" by (simp only: l(3))
  also have "\<dots> = ?its"
    using bt.entries_Some [OF srt] by (auto simp: comp_def)
  finally have its: "tree_items ?t = ?its"
    by (simp add: tree_items_def bt_values_def comp_def case_prod_unfold)
  have ch: "nd_children nd = []" if "bt_get nodes k = Some nd" for k nd
  proof -
    have "(k, nd) \<in> set nodes" using that bt.entries_Some [OF srt] by blast
    then show ?thesis using ok by blast
  qed
  have kids: "nd_children nd = sort (map fi_item_id (filter (\<lambda>it. parent_key it = Some k) ?its))"
    if "bt_get (tree_nodes ?t) k = Some nd" for k nd
  proof -
    from that [unfolded get] obtain ln where ln: "bt_get linked k = Some ln" "nd = ln\<lparr>nd_children := sort (nd_children ln)\<rparr>"
      by blast
    from ln(1) g [of k] obtain z where "bt_get nodes k = Some z" "ln = z\<lparr>nd_children := nd_children z @
        map fi_item_id (filter (\<lambda>it. parent_key it = Some k) ?its)\<rparr>"
      unfolding pidmap snd_conv by (metis (no_types, lifting) map_option_eq_Some)
    then show ?thesis using ch ln(2) by simp
  qed
  show thesis
  proof (rule that [of ?t])
    show "tree_build es = Ok ?t" by (simp add: tree_build_def assms l(1))
    show "bt_sorted (tree_nodes ?t)" using srt keys by (simp add: bt_sorted_def)
    show "tree_roots ?t = sort (map fi_item_id (filter (\<lambda>it. \<not> (\<exists>p. parent_key it = Some p \<and> p \<in> fst ` set nodes)) (tree_items ?t)))"
      unfolding its by (simp only: pidmap select_convs) (simp add: adopted_def bt_get_None_iff)
    show "nd_children nd = sort (map fi_item_id (filter (\<lambda>it. parent_key it = Some k) (tree_items ?t)))"
      if "bt_get (tree_nodes ?t) k = Some nd" for k nd
      using kids [OF that] unfolding its .
  qed (use keys its in simp_all)
qed

text \<open>An item id in a log that reads back as it is stored, as every writer prints it.\<close>

definition canonical_id :: "string \<Rightarrow> bool" where
  "canonical_id s \<longleftrightarrow> (\<forall>i. item_id_parse s = Ok i \<longrightarrow> item_id_to_string i = s)"

lemma fold_item_key:
  assumes "fold_datagen_events es = Ok (Some it)" "\<forall>e \<in> set es. item_id e = k" "canonical_id k"
  shows "item_id_to_string (fi_item_id it) = k"
proof -
  from assms(1) obtain e0 rest it0 where n: "normalize_events es = Ok (e0 # rest)" and i: "initial_item e0 = Ok it0"
    and it: "it = project Lazy (foldl item_step it0 (e0 # rest))" unfolding fold_datagen_events_def fold_Some_iff by blast
  have "e0 \<in> set es" using normalize_props(3) [OF n] by simp
  then have "item_id_parse k = Ok (fi_item_id it0)" using initial_item_Ok(1) [OF i] assms(2) by simp
  moreover have "fi_item_id it = fi_item_id it0" unfolding it project_simps(1) by (rule foldl_item_step(1))
  ultimately show ?thesis using assms(3) by (simp add: canonical_id_def)
qed

lemma insert_folded_all:
  assumes "bt_sorted nodes" "distinct (map fst groups)"
    and "\<forall>(k, evs) \<in> set groups. canonical_id k \<and> (\<forall>e \<in> set evs. item_id e = k)"
  shows "(\<exists>nodes'. fold_res insert_folded nodes (map snd groups) = Ok nodes') \<longleftrightarrow>
      (\<forall>(k, evs) \<in> set groups. \<exists>r. fold_datagen_events evs = Ok r)"
    and "fold_res insert_folded nodes (map snd groups) = Ok nodes' \<Longrightarrow>
      bt_get nodes' k = (case map_of groups k of
         None \<Rightarrow> bt_get nodes k
       | Some evs \<Rightarrow> (case fold_datagen_events evs of
             Ok (Some it) \<Rightarrow> Some \<lparr>nd_item = it, nd_children = []\<rparr> | _ \<Rightarrow> bt_get nodes k))"
proof -
  show "(\<exists>nodes'. fold_res insert_folded nodes (map snd groups) = Ok nodes') \<longleftrightarrow>
      (\<forall>(k, evs) \<in> set groups. \<exists>r. fold_datagen_events evs = Ok r)"
  proof (induction groups arbitrary: nodes)
    case (Cons g groups)
    then show ?case by (cases g, cases "fold_datagen_events (snd g)") (simp_all add: insert_folded_def)
  qed simp
next
  assume "fold_res insert_folded nodes (map snd groups) = Ok nodes'"
  with assms show "bt_get nodes' k = (case map_of groups k of
         None \<Rightarrow> bt_get nodes k
       | Some evs \<Rightarrow> (case fold_datagen_events evs of
             Ok (Some it) \<Rightarrow> Some \<lparr>nd_item = it, nd_children = []\<rparr> | _ \<Rightarrow> bt_get nodes k))"
  proof (induction groups arbitrary: nodes)
    case (Cons g groups)
    obtain j evs where g: "g = (j, evs)" by fastforce
    obtain nodes1 where step: "insert_folded nodes evs = Ok nodes1" "fold_res insert_folded nodes1 (map snd groups) = Ok nodes'"
      using Cons.prems(4) g by auto
    then obtain r where r: "fold_datagen_events evs = Ok r" by (auto simp: insert_folded_def)
    have j: "canonical_id j" "\<forall>e \<in> set evs. item_id e = j" using Cons.prems(3) g by auto
    have n1: "nodes1 = (case r of None \<Rightarrow> nodes | Some it \<Rightarrow> bt_insert j \<lparr>nd_item = it, nd_children = []\<rparr> nodes)"
      using step(1) r fold_item_key [OF _ j(2,1)] by (auto simp: insert_folded_def split: option.splits)
    have srt: "bt_sorted nodes1" using Cons.prems(1) n1 by (auto simp: bt_sorted_insert split: option.splits)
    have fresh: "map_of groups j = None" using Cons.prems(2) g by (simp add: map_of_eq_None_iff)
    have "bt_get nodes1 k = (if k = j then (case r of Some it \<Rightarrow> Some \<lparr>nd_item = it, nd_children = []\<rparr> | None \<Rightarrow> bt_get nodes k) else bt_get nodes k)"
      using n1 Cons.prems(1) by (auto simp: bt_get_insert split: option.splits)
    moreover have "bt_get nodes' k = (case map_of groups k of
         None \<Rightarrow> bt_get nodes1 k
       | Some evs \<Rightarrow> (case fold_datagen_events evs of
             Ok (Some it) \<Rightarrow> Some \<lparr>nd_item = it, nd_children = []\<rparr> | _ \<Rightarrow> bt_get nodes1 k))"
      using Cons.IH [OF srt _ _ step(2)] Cons.prems(2,3) g by simp
    ultimately show ?case using g fresh r by (cases "k = j") (simp_all split: option.split sum.split)
  qed simp
qed

lemma fold_nothing: "fold_datagen_events [] = Ok None"
  by (simp add: fold_datagen_events_def fold_datagen_events_with_def normalize_events_def)

lemma tree_build_exact:
  assumes "\<forall>e \<in> set es. canonical_id (item_id e)"
  shows "(\<exists>t. tree_build es = Ok t) \<longleftrightarrow> (\<forall>k \<in> item_id ` set es. \<exists>r. fold_datagen_events (filter (\<lambda>e. item_id e = k) es) = Ok r)"
    and "tree_build es = Ok t \<Longrightarrow> map_option nd_item (bt_get (tree_nodes t) k) =
      (case fold_datagen_events (filter (\<lambda>e. item_id e = k) es) of Ok (Some it) \<Rightarrow> Some it | _ \<Rightarrow> None)"
    and "tree_build es = Ok t \<Longrightarrow> bt_sorted (tree_nodes t)"
    and "tree_build es = Ok t \<Longrightarrow> tree_roots t = sort (map fi_item_id
      (filter (\<lambda>it. \<forall>p. parent_key it = Some p \<longrightarrow> bt_get (tree_nodes t) p = None) (tree_items t)))"
    and "tree_build es = Ok t \<Longrightarrow> bt_get (tree_nodes t) k = Some nd \<Longrightarrow>
      nd_children nd = sort (map fi_item_id (filter (\<lambda>it. parent_key it = Some k) (tree_items t)))"
proof -
  have grp: "map snd (group_by_item es) = bt_values (group_by_item es)" by (simp add: bt_values_def)
  have ids: "distinct (map fst (group_by_item es))"
    using group_by_item_sorted [of es] by (simp add: bt_sorted_def strict_sorted_iff)
  have ok: "\<forall>(k, evs) \<in> set (group_by_item es). canonical_id k \<and> (\<forall>e \<in> set evs. item_id e = k)"
    using assms by (auto simp: group_by_item_mem filter_empty_conv)
  note all = insert_folded_all [OF bt.invar_empty ids ok, unfolded grp]
  have built: "(\<exists>t. tree_build es = Ok t) \<longleftrightarrow> (\<exists>nodes. fold_res insert_folded [] (bt_values (group_by_item es)) = Ok nodes)"
  proof
    assume "\<exists>t. tree_build es = Ok t"
    then show "\<exists>nodes. fold_res insert_folded [] (bt_values (group_by_item es)) = Ok nodes" by (auto simp: tree_build_def)
  next
    assume "\<exists>nodes. fold_res insert_folded [] (bt_values (group_by_item es)) = Ok nodes"
    then show "\<exists>t. tree_build es = Ok t" by (elim exE) (rule tree_build_shape, assumption, blast)
  qed
  show "(\<exists>t. tree_build es = Ok t) \<longleftrightarrow> (\<forall>k \<in> item_id ` set es. \<exists>r. fold_datagen_events (filter (\<lambda>e. item_id e = k) es) = Ok r)"
    unfolding built all(1)
  proof (intro iffI ballI)
    fix k assume folds: "\<forall>(k, evs) \<in> set (group_by_item es). \<exists>r. fold_datagen_events evs = Ok r" and "k \<in> item_id ` set es"
    then have "(k, filter (\<lambda>e. item_id e = k) es) \<in> set (group_by_item es)" by (auto simp: group_by_item_mem filter_empty_conv)
    then show "\<exists>r. fold_datagen_events (filter (\<lambda>e. item_id e = k) es) = Ok r" using folds by blast
  next
    fix g assume "\<forall>k \<in> item_id ` set es. \<exists>r. fold_datagen_events (filter (\<lambda>e. item_id e = k) es) = Ok r" "g \<in> set (group_by_item es)"
    then show "case g of (k, evs) \<Rightarrow> \<exists>r. fold_datagen_events evs = Ok r"
      by (cases g) (auto simp: group_by_item_mem filter_empty_conv)
  qed
  assume t: "tree_build es = Ok t"
  then obtain nodes where nodes: "fold_res insert_folded [] (bt_values (group_by_item es)) = Ok nodes" using built by blast
  obtain t' where t': "tree_build es = Ok t'" and
    shape': "map fst (tree_nodes t') = map fst nodes" "tree_items t' = map (nd_item \<circ> snd) nodes" "bt_sorted (tree_nodes t')"
    "tree_roots t' = sort (map fi_item_id (filter (\<lambda>it. \<not> (\<exists>p. parent_key it = Some p \<and> p \<in> fst ` set nodes)) (tree_items t')))"
    "\<And>k nd. bt_get (tree_nodes t') k = Some nd \<Longrightarrow>
       nd_children nd = sort (map fi_item_id (filter (\<lambda>it. parent_key it = Some k) (tree_items t')))"
    by (rule tree_build_shape [OF nodes]) blast
  have "t' = t" using t t' by simp
  note shape = shape' [unfolded this]
  show "bt_sorted (tree_nodes t)" by (rule shape(3))
  show "bt_get (tree_nodes t) k = Some nd \<Longrightarrow>
      nd_children nd = sort (map fi_item_id (filter (\<lambda>it. parent_key it = Some k) (tree_items t)))" by (rule shape(5))
  have "p \<in> fst ` set nodes \<longleftrightarrow> bt_get (tree_nodes t) p \<noteq> None" for p
    using arg_cong [OF shape(1), of set] by (simp add: bt_get_None_iff)
  then show "tree_roots t = sort (map fi_item_id
      (filter (\<lambda>it. \<forall>p. parent_key it = Some p \<longrightarrow> bt_get (tree_nodes t) p = None) (tree_items t)))"
    using shape(4) by simp
  have items: "map (nd_item \<circ> snd) (tree_nodes t) = map (nd_item \<circ> snd) nodes"
    using shape(2) by (simp add: tree_items_def bt_values_def comp_def)
  have "map (\<lambda>(k, nd). (k, nd_item nd)) (tree_nodes t) = map (\<lambda>(k, nd). (k, nd_item nd)) nodes"
  proof -
    have "map (\<lambda>(k, nd). (k, nd_item nd)) xs = zip (map fst xs) (map (nd_item \<circ> snd) xs)" for xs :: "(string \<times> 'a item_node) list"
      by (induction xs) auto
    then show ?thesis using items shape(1) by simp
  qed
  then have "map_option nd_item (bt_get (tree_nodes t) k) = map_option nd_item (bt_get nodes k)"
    by (metis bt_get_strip)
  also have "\<dots> = (case fold_datagen_events (filter (\<lambda>e. item_id e = k) es) of Ok (Some it) \<Rightarrow> Some it | _ \<Rightarrow> None)"
  proof -
    have "map_of (group_by_item es) k = (if filter (\<lambda>e. item_id e = k) es = [] then None else Some (filter (\<lambda>e. item_id e = k) es))"
      using group_by_item_get [of es k] by (simp add: bt_get_def Let_def)
    then show ?thesis
      using all(2) [OF nodes, of k] by (cases "filter (\<lambda>e. item_id e = k) es = []") (simp_all add: bt_get_def fold_nothing split: sum.split option.split)
  qed
  finally show "map_option nd_item (bt_get (tree_nodes t) k) =
      (case fold_datagen_events (filter (\<lambda>e. item_id e = k) es) of Ok (Some it) \<Rightarrow> Some it | _ \<Rightarrow> None)" .
qed

section \<open>Lemmas: the overview\<close>

definition bt_total :: "('v \<Rightarrow> nat) \<Rightarrow> ('k, 'v) btree_map \<Rightarrow> nat" where
  "bt_total g m = sum_list (map (g \<circ> snd) m)"

lemma bt_total_insert:
  "bt_sorted m \<Longrightarrow>
     bt_total g (bt_insert k v m) + (case bt_get m k of None \<Rightarrow> 0 | Some u \<Rightarrow> g u) = bt_total g m + g v"
  unfolding bt_sorted_def bt_total_def bt_get_def
proof (induction k v m rule: bt_insert.induct)
  case (2 k v k' v' m)
  show ?case
  proof (cases "k < k'")
    case True
    then have "k \<notin> fst ` set ((k', v') # m)" using 2(2) by force
    then have "map_of ((k', v') # m) k = None" unfolding map_of_eq_None_iff .
    with True show ?thesis by simp
  qed (use 2 in auto)
qed simp

lemma bt_total_bump: "bt_sorted m \<Longrightarrow> bt_total (\<lambda>n. n) (bump k m) = Suc (bt_total (\<lambda>n. n) m)"
  using bt_total_insert [of m "\<lambda>n. n" k "case bt_get m k of None \<Rightarrow> 1 | Some n \<Rightarrow> n + 1"]
  by (auto simp: bump_def bt_upsert_def split: option.splits)

lemma bt_sorted_bump: "bt_sorted m \<Longrightarrow> bt_sorted (bump k m)"
  by (simp add: bump_def bt_upsert_def bt_sorted_insert)

definition bucket_ok :: "failure_bucket \<Rightarrow> bool" where
  "bucket_ok b \<longleftrightarrow> bt_sorted (fb_by_error_type b) \<and> bt_total (\<lambda>n. n) (fb_by_error_type b) = fb_failures b \<and>
     length (fb_sample b) \<le> FAILURE_SAMPLE_LIMIT \<and> distinct (fb_sample b)"

definition overview_ok :: "run_overview \<Rightarrow> bool" where
  "overview_ok ov \<longleftrightarrow> ov_items ov = ov_running ov + ov_completed ov + ov_filtered ov \<and>
     bt_sorted (ov_by_error_type ov) \<and> bt_total (\<lambda>n. n) (ov_by_error_type ov) = ov_failures ov \<and>
     bt_sorted (ov_by_run ov) \<and> bt_total fb_failures (ov_by_run ov) = ov_failures ov \<and>
     (\<forall>k b. bt_get (ov_by_run ov) k = Some b \<longrightarrow> bucket_ok b)"

lemma bucket_add_ok: "bucket_ok b \<Longrightarrow> bucket_ok (bucket_add rt f b)"
  by (auto simp: bucket_ok_def bucket_add_def Let_def bt_total_bump bt_sorted_bump)

lemma bucket_add_failures: "fb_failures (bucket_add rt f b) = Suc (fb_failures b)"
  by (simp add: bucket_add_def Let_def)

lemma empty_bucket_ok: "bucket_ok empty_bucket"
  by (simp add: bucket_ok_def empty_bucket_def bt.invar_empty bt_total_def)

lemma add_failure_ok:
  assumes "overview_ok ov"
  shows "overview_ok (add_failure rt ov f)"
proof -
  let ?b = "bucket_add rt f (case bt_get (ov_by_run ov) (fl_run_id f) of None \<Rightarrow> empty_bucket | Some b \<Rightarrow> b)"
  have srt: "bt_sorted (ov_by_run ov)" using assms by (simp add: overview_ok_def)
  have "bucket_ok (case bt_get (ov_by_run ov) (fl_run_id f) of None \<Rightarrow> empty_bucket | Some b \<Rightarrow> b)"
    using assms empty_bucket_ok by (auto simp: overview_ok_def split: option.splits)
  then have "bucket_ok ?b" by (rule bucket_add_ok)
  moreover have "bt_total fb_failures (bt_insert (fl_run_id f) ?b (ov_by_run ov)) = Suc (bt_total fb_failures (ov_by_run ov))"
    using bt_total_insert [OF srt, of fb_failures "fl_run_id f" ?b]
    by (simp add: bucket_add_failures empty_bucket_def split: option.splits)
  ultimately show ?thesis
    using assms by (auto simp: overview_ok_def add_failure_def bt_upsert_def bt_sorted_insert bt_get_insert
        bt_total_bump bt_sorted_bump)
qed

lemma add_failures_ok: "overview_ok ov \<Longrightarrow> overview_ok (foldl (add_failure rt) ov fs)"
  by (induction fs arbitrary: ov) (auto simp: add_failure_ok)

lemma count_root_ok: "overview_ok ov \<Longrightarrow> overview_ok (count_root it ov)"
  by (auto simp: overview_ok_def count_root_def Let_def split: item_status.splits)

lemma overview_item_ok: "overview_item ov evs = Ok ov' \<Longrightarrow> overview_ok ov \<Longrightarrow> overview_ok ov'"
proof -
  have steps: "overview_ok ov \<Longrightarrow> overview_ok (ov\<lparr>ov_completed_steps := m\<rparr>)" for m
    by (simp add: overview_ok_def)
  show "overview_item ov evs = Ok ov' \<Longrightarrow> overview_ok ov \<Longrightarrow> overview_ok ov'"
    by (auto simp: overview_item_def Let_def intro!: count_root_ok add_failures_ok steps split: option.splits)
qed

lemma overview_build_ok: "overview_build es = Ok ov \<Longrightarrow> overview_ok ov"
  unfolding overview_build_def
  by (rule fold_res_invariant [where P = overview_ok])
    (auto simp: overview_item_ok, simp add: overview_ok_def empty_overview_def bt.invar_empty bt_total_def bt.get_empty)

end
