(* ===== verification/Storage_Base.thy ===== *)
theory Storage_Base
  imports Arrow
begin

text \<open>
  \<open>StorageBase\<close> of \<open>crates/lance-context-core/src/store_base.rs\<close>, the write path every fixed-schema store
  shares: the durable \<open>put\<close> through a resident shard writer with one retry on a fence, the seal that
  makes rows readable, and the merge of flushed generations into the base table, split into a prepare
  phase that runs beside appends and a commit phase (append, surgical drain, delete).

  Lance itself (the shard writer, the shard manifest store, the dataset) is the parameter \<open>lance\<close>: a
  record of the calls the code makes. What the code relies on of them is the locale \<open>lance_laws\<close>.
\<close>

section \<open>Lance as a parameter\<close>

record manifest =
  m_version :: nat
  m_writer_epoch :: nat
  m_current_generation :: nat
  m_replay_after :: nat
  m_last_seen :: nat
  m_flushed :: "(nat \<times> string) list"

record 'l lance =
  mem_wal_writer :: "('l, lance_error, nat) io"
  writer_put :: "nat \<Rightarrow> batch list \<Rightarrow> ('l, lance_error, unit) io"
  force_seal_active :: "nat \<Rightarrow> ('l, lance_error, unit) io"
  wait_for_flush_drain :: "nat \<Rightarrow> ('l, lance_error, unit) io"
  writer_close :: "nat \<Rightarrow> ('l, lance_error, unit) io"
  object_store :: "'l \<Rightarrow> (lance_error, unit) result"
  read_latest :: "'l \<Rightarrow> (lance_error, manifest option) result"
  load_generation :: "string \<Rightarrow> 'l \<Rightarrow> (lance_error, batch list) result"
  table_schema :: "'l \<Rightarrow> field_def list"
  checkout_latest :: "('l, lance_error, unit) io"
  add_columns :: "field_def list \<Rightarrow> ('l, lance_error, unit) io"
  dataset_append :: "batch list \<Rightarrow> ('l, lance_error, unit) io"
  commit_update :: "nat \<Rightarrow> (manifest \<Rightarrow> manifest) \<Rightarrow> ('l, lance_error, unit) io"
  remove_dir_all :: "string \<Rightarrow> ('l, lance_error, unit) io"
  lsm_scan :: "string \<Rightarrow> string list option \<Rightarrow> 'l \<Rightarrow> (lance_error, batch list) result"
  table_version :: "'l \<Rightarrow> nat"

record 'l base =
  sb_lance :: 'l
  sb_writer :: "nat option"
  sb_seal_on_put :: bool
  sb_merge_after :: nat
  sb_latest_schema :: "field_def list option"
  sb_pinned :: "nat option"

record prepared_merge =
  pm_generations :: "nat set"
  pm_paths :: "string list"
  pm_batches :: "batch list"
  pm_schema :: "field_def list"

datatype flush_outcome = Sealed | Noop | Fenced

type_synonym ('l, 'e, 'a) base_io = "('l base, 'e store_error, 'a) io"

definition raw_call :: "('l, lance_error, 'a) io \<Rightarrow> ('l base, lance_error, 'a) io" where
  "raw_call m = (\<lambda>b. case m (sb_lance b) of (r, l) \<Rightarrow> (r, b\<lparr>sb_lance := l\<rparr>))"

definition fault :: "lance_error \<Rightarrow> ('l, 'e, 'a) base_io" where
  "fault e = io_result (Err (LanceFault e))"

definition call :: "('l, lance_error, 'a) io \<Rightarrow> ('l, 'e, 'a) base_io" where
  "call m = io_match (raw_call m) io_return fault"

section \<open>Errors by their text\<close>

fun contains :: "string \<Rightarrow> string \<Rightarrow> bool" where
  "contains [] p = (p = [])"
| "contains (c # s) p = (take (length p) (c # s) = p \<or> contains s p)"

definition is_fenced_error :: "lance_error \<Rightarrow> bool" where
  "is_fenced_error e \<longleftrightarrow> contains (le_text e) ''fenced'' \<or> contains (le_text e) ''Fenced''"

definition is_not_found_error :: "lance_error \<Rightarrow> bool" where
  "is_not_found_error e \<longleftrightarrow> le_kind e = DatasetNotFound \<or> le_kind e = NotFound \<or>
     contains (le_text e) ''was not found'' \<or> contains (le_text e) ''not found'' \<or> contains (le_text e) ''NotFound''"

section \<open>Writing\<close>

definition resident_writer :: "'l lance \<Rightarrow> ('l, 'e, nat) base_io" where
  "resident_writer L = io_bind (\<lambda>b. (Ok (sb_writer b), b)) (\<lambda>writer.
     case writer of
       Some w \<Rightarrow> io_return w
     | None \<Rightarrow> io_bind (call (mem_wal_writer L)) (\<lambda>w b. (Ok w, b\<lparr>sb_writer := Some w\<rparr>)))"

definition invalidate_writer :: "nat \<Rightarrow> ('l, 'e, unit) base_io" where
  "invalidate_writer stale = (\<lambda>b. (Ok (), if sb_writer b = Some stale then b\<lparr>sb_writer := None\<rparr> else b))"

definition put_inner :: "'l lance \<Rightarrow> batch list \<Rightarrow> ('l, 'e, unit) base_io" where
  "put_inner L bs = io_bind (resident_writer L) (\<lambda>w.
     io_match (raw_call (writer_put L w bs)) (\<lambda>_. io_return ()) (\<lambda>e.
       if is_fenced_error e
       then io_bind (invalidate_writer w) (\<lambda>_. io_bind (resident_writer L) (\<lambda>w'. call (writer_put L w' bs)))
       else fault e))"

definition flush_inner :: "'l lance \<Rightarrow> ('l, 'e, flush_outcome) base_io" where
  "flush_inner L = io_bind (\<lambda>b. (Ok (sb_writer b), b)) (\<lambda>writer.
     case writer of
       None \<Rightarrow> io_return Noop
     | Some w \<Rightarrow>
         io_match (raw_call (force_seal_active L w))
           (\<lambda>_. io_bind (call (wait_for_flush_drain L w)) (\<lambda>_. io_return Sealed))
           (\<lambda>e. if is_fenced_error e then io_bind (invalidate_writer w) (\<lambda>_. io_return Fenced) else fault e))"

definition flush :: "'l lance \<Rightarrow> ('l, 'e, unit) base_io" where
  "flush L = io_bind (flush_inner L) (\<lambda>_. io_return ())"

definition put_sealing :: "'l lance \<Rightarrow> batch list \<Rightarrow> ('l, 'e, unit) base_io" where
  "put_sealing L bs = io_bind (put_inner L bs) (\<lambda>_.
     io_bind (\<lambda>b. (Ok (sb_seal_on_put b), b)) (\<lambda>seal. if seal then flush L else io_return ()))"

definition put :: "'l lance \<Rightarrow> batch list \<Rightarrow> ('l, 'e, unit) base_io" where
  "put L bs = (if bs = [] then io_return () else put_sealing L bs)"

text \<open>\<open>sole\<close>: no append in flight still shares the writer; otherwise it is only dropped from the slot.\<close>

definition close :: "'l lance \<Rightarrow> bool \<Rightarrow> ('l, 'e, unit) base_io" where
  "close L sole = io_bind (\<lambda>b. (Ok (sb_writer b), b\<lparr>sb_writer := None\<rparr>)) (\<lambda>writer.
     case writer of
       None \<Rightarrow> io_return ()
     | Some w \<Rightarrow> if sole then call (writer_close L w) else io_return ())"

section \<open>Merging\<close>

text \<open>Resolving the dataset's object store, which may fail.\<close>

definition resolve_object_store :: "'l lance \<Rightarrow> ('l, 'e, unit) base_io" where
  "resolve_object_store L = (\<lambda>b. (res_map_err LanceFault (object_store L (sb_lance b)), b))"

definition read_generation ::
  "'l lance \<Rightarrow> field_def list \<Rightarrow> string \<Rightarrow> 'l \<Rightarrow> ('e store_error, batch list) result" where
  "read_generation L sch path l =
     res_bind (res_map_err LanceFault (load_generation L path l)) (\<lambda>bs.
     res_map_err ArrowFault (collect_res (\<lambda>b. align_batch_to_schema b sch) (filter (\<lambda>b. b_rows b \<noteq> []) bs)))"

definition read_flushed_generations ::
  "'l lance \<Rightarrow> manifest \<Rightarrow> 'l \<Rightarrow> ('e store_error, prepared_merge) result" where
  "read_flushed_generations L m l =
     res_bind (collect_res (\<lambda>g. read_generation L (table_schema L l) (snd g) l) (m_flushed m)) (\<lambda>bss.
     Ok \<lparr>pm_generations = fst ` set (m_flushed m), pm_paths = map snd (m_flushed m),
         pm_batches = concat bss, pm_schema = table_schema L l\<rparr>)"

definition prepare_merge :: "'l lance \<Rightarrow> manifest \<Rightarrow> ('l, 'e, prepared_merge option) base_io" where
  "prepare_merge L m =
     (if m_flushed m = [] then io_return None
      else io_bind (flush L) (\<lambda>_.
           io_bind (\<lambda>b. (read_flushed_generations L m (sb_lance b), b)) (\<lambda>p. io_return (Some p))))"

definition prepare_merge_if_ready_inner ::
  "'l lance \<Rightarrow> nat \<Rightarrow> bool \<Rightarrow> ('l, 'e, (manifest \<times> prepared_merge) option) base_io" where
  "prepare_merge_if_ready_inner L threshold seal_first =
     io_bind (if seal_first then flush L else io_return ()) (\<lambda>_.
     io_bind (resolve_object_store L) (\<lambda>_.
     io_bind (\<lambda>b. (res_map_err LanceFault (read_latest L (sb_lance b)), b)) (\<lambda>m.
     case m of
       None \<Rightarrow> io_return None
     | Some mf \<Rightarrow>
         (let pending = length (m_flushed mf) in
          if pending = 0 \<or> pending < max threshold 1 then io_return None
          else io_bind (prepare_merge L mf) (\<lambda>p. io_return (map_option (\<lambda>p. (mf, p)) p))))))"

definition prepare_merge_if_ready ::
  "'l lance \<Rightarrow> nat \<Rightarrow> ('l, 'e, (manifest \<times> prepared_merge) option) base_io" where
  "prepare_merge_if_ready L threshold = prepare_merge_if_ready_inner L threshold False"

definition prepare_cleanup_merge :: "'l lance \<Rightarrow> ('l, 'e, (manifest \<times> prepared_merge) option) base_io" where
  "prepare_cleanup_merge L = prepare_merge_if_ready_inner L 1 True"

definition refresh_latest :: "'l lance \<Rightarrow> ('l, 'e, unit) base_io" where
  "refresh_latest L = io_bind (call (checkout_latest L)) (\<lambda>_ b. (Ok (), b\<lparr>sb_pinned := None\<rparr>))"

definition ensure_latest_schema :: "'l lance \<Rightarrow> ('l, 'e, unit) base_io" where
  "ensure_latest_schema L = io_bind (\<lambda>b. (Ok (sb_latest_schema b), b)) (\<lambda>latest_schema.
     case latest_schema of
       None \<Rightarrow> io_return ()
     | Some latest \<Rightarrow>
         io_bind (refresh_latest L) (\<lambda>_.
         io_bind (\<lambda>b. (Ok (table_schema L (sb_lance b)), b)) (\<lambda>base_schema.
         io_bind (io_result (res_map_err ArrowFault
             (align_batch_to_schema \<lparr>b_schema = base_schema, b_rows = []\<rparr> latest))) (\<lambda>_.
         (let missing = filter (\<lambda>f. field_with_name base_schema (fd_name f) = None) latest
          in if missing = [] then io_return () else call (add_columns L missing))))))"

definition append_merged_batches :: "'l lance \<Rightarrow> batch list \<Rightarrow> ('l, 'e, unit) base_io" where
  "append_merged_batches L bs = call (dataset_append L bs)"

definition drain :: "nat set \<Rightarrow> manifest \<Rightarrow> manifest" where
  "drain merged cur = cur\<lparr>m_version := m_version cur + 1,
     m_flushed := filter (\<lambda>fg. fst fg \<notin> merged) (m_flushed cur)\<rparr>"

text \<open>Best effort: a directory that cannot be removed is logged and skipped.\<close>

fun remove_generation_dirs :: "'l lance \<Rightarrow> string list \<Rightarrow> ('l, 'e, unit) base_io" where
  "remove_generation_dirs L [] b = (Ok (), b)"
| "remove_generation_dirs L (p # ps) b =
     remove_generation_dirs L ps (b\<lparr>sb_lance := snd (remove_dir_all L p (sb_lance b))\<rparr>)"

definition delete_merged_generation_dirs :: "'l lance \<Rightarrow> string list \<Rightarrow> ('l, 'e, unit) base_io" where
  "delete_merged_generation_dirs L ps = io_bind (resolve_object_store L) (\<lambda>_. remove_generation_dirs L ps)"

definition commit_merge :: "'l lance \<Rightarrow> manifest \<Rightarrow> prepared_merge \<Rightarrow> ('l, 'e, unit) base_io" where
  "commit_merge L m p =
     io_bind (ensure_latest_schema L) (\<lambda>_.
     io_bind (if pm_batches p = [] then io_return ()
              else io_bind (append_merged_batches L (pm_batches p)) (\<lambda>_ b. (Ok (), b\<lparr>sb_pinned := None\<rparr>))) (\<lambda>_.
     io_bind (call (commit_update L (m_writer_epoch m) (drain (pm_generations p)))) (\<lambda>_.
     io_bind (delete_merged_generation_dirs L (pm_paths p)) (\<lambda>_ b.
     (Ok (), b\<lparr>sb_pinned := None\<rparr>)))))"

definition commit_prepared_merge :: "'l lance \<Rightarrow> manifest \<Rightarrow> prepared_merge \<Rightarrow> ('l, 'e, nat) base_io" where
  "commit_prepared_merge L m p =
     io_bind (commit_merge L m p) (\<lambda>_. io_return (card (pm_generations p)))"

definition merge_own_shard_if_ready :: "'l lance \<Rightarrow> nat \<Rightarrow> ('l, 'e, nat) base_io" where
  "merge_own_shard_if_ready L threshold =
     io_bind (prepare_merge_if_ready L threshold) (\<lambda>r.
       case r of
         None \<Rightarrow> io_return 0
       | Some (m, p) \<Rightarrow> io_bind (commit_merge L m p) (\<lambda>_. io_return (card (pm_generations p))))"

definition maybe_merge_own_shard :: "'l lance \<Rightarrow> ('l, 'e, nat) base_io" where
  "maybe_merge_own_shard L = io_bind (\<lambda>b. (Ok (sb_merge_after b), b)) (\<lambda>n.
     if n = 0 then io_return 0 else merge_own_shard_if_ready L n)"

definition cleanup_own_shard :: "'l lance \<Rightarrow> ('l, 'e, nat) base_io" where
  "cleanup_own_shard L = io_bind (flush L) (\<lambda>_. merge_own_shard_if_ready L 1)"

end
