(* ===== verification/Storage_Safety.thy ===== *)
theory Storage_Safety
  imports Storage_Base
begin

text \<open>
  Why no row is lost between the write-ahead log, the flushed generations and the base table. The
  locale \<open>lance_laws\<close> states what the storage code relies on of Lance through a view of its state (rows
  in the base table, rows of each generation directory, durable rows not yet sealed, the shard
  manifest); inside it every operation of \<open>StorageBase\<close> is shown to grow that view, whatever it
  returns. The laws are discharged for a table model at the end.
\<close>

section \<open>Views\<close>

type_synonym content = "string \<rightharpoonup> cell"

text \<open>A row as a reader sees it: the non-null cells by column name.\<close>

definition content :: "field_def list \<Rightarrow> cell list \<Rightarrow> content" where
  "content sch r = (\<lambda>n. case cell_at sch r n of Some CNull \<Rightarrow> None | c \<Rightarrow> c)"

definition contents :: "batch list \<Rightarrow> content set" where
  "contents bs = (\<Union>b \<in> set bs. content (b_schema b) ` set (b_rows b))"

record wal_view =
  v_base :: "content set"
  v_mem :: "content set"
  v_gen :: "string \<Rightarrow> content set"
  v_manifest :: "manifest option"

definition v_flushed :: "wal_view \<Rightarrow> (nat \<times> string) set" where
  "v_flushed v = (case v_manifest v of None \<Rightarrow> {} | Some m \<Rightarrow> set (m_flushed m))"

definition v_current :: "wal_view \<Rightarrow> nat" where
  "v_current v = (case v_manifest v of None \<Rightarrow> 0 | Some m \<Rightarrow> m_current_generation m)"

text \<open>What a read over the base table and the flushed generations sees, and what a restart recovers.\<close>

definition visible :: "wal_view \<Rightarrow> content set" where
  "visible v = v_base v \<union> (\<Union>fg \<in> v_flushed v. v_gen v (snd fg))"

definition durable :: "wal_view \<Rightarrow> content set" where
  "durable v = visible v \<union> v_mem v"

definition view_ok :: "(string \<Rightarrow> nat) \<Rightarrow> wal_view \<Rightarrow> bool" where
  "view_ok gen_of v \<longleftrightarrow> (\<forall>fg \<in> v_flushed v. gen_of (snd fg) = fst fg \<and> fst fg < v_current v)"

definition grows :: "(string \<Rightarrow> nat) \<Rightarrow> wal_view \<Rightarrow> wal_view \<Rightarrow> bool" where
  "grows gen_of v v' \<longleftrightarrow> (view_ok gen_of v \<longrightarrow>
     view_ok gen_of v' \<and> visible v \<subseteq> visible v' \<and> durable v \<subseteq> durable v' \<and> v_current v \<le> v_current v' \<and>
     (\<forall>fg \<in> v_flushed v'. fg \<in> v_flushed v \<and> v_gen v' (snd fg) = v_gen v (snd fg) \<or> v_current v \<le> fst fg))"

lemma grows_refl [simp]: "grows gen_of v v"
  by (simp add: grows_def)

lemma grows_trans: "grows gen_of v v' \<Longrightarrow> grows gen_of v' v'' \<Longrightarrow> grows gen_of v v''"
proof -
  assume a: "grows gen_of v v'" and b: "grows gen_of v' v''"
  show ?thesis unfolding grows_def
  proof (intro impI)
    assume v: "view_ok gen_of v"
    note a = a [unfolded grows_def, rule_format, OF v]
    note b = b [unfolded grows_def, rule_format, OF conjunct1 [OF a]]
    have "fg \<in> v_flushed v \<and> v_gen v'' (snd fg) = v_gen v (snd fg) \<or> v_current v \<le> fst fg"
      if "fg \<in> v_flushed v''" for fg
      using that a b by (metis order_trans)
    with a b show "view_ok gen_of v'' \<and> visible v \<subseteq> visible v'' \<and> durable v \<subseteq> durable v'' \<and>
        v_current v \<le> v_current v'' \<and>
        (\<forall>fg \<in> v_flushed v''. fg \<in> v_flushed v \<and> v_gen v'' (snd fg) = v_gen v (snd fg) \<or> v_current v \<le> fst fg)"
      by (meson order_trans)
  qed
qed

lemma contents_simps [simp]:
  "contents [] = {}" "contents (b # bs) = content (b_schema b) ` set (b_rows b) \<union> contents bs"
  "contents (as @ bs) = contents as \<union> contents bs"
  by (auto simp: contents_def)

lemma contents_concat_map: "contents (concat (map f xs)) = (\<Union>x \<in> set xs. contents (f x))"
  by (auto simp: contents_def)

lemma align_contents:
  assumes "align_batch_to_schema b sch = Ok b'" "batch_ok b"
  shows "contents [b'] = contents [b]"
proof -
  note rows = align_Ok_rows(1) [OF assms(1)]
  have len: "length r = length (b_schema b)" if "r \<in> set (b_rows b)" for r
    using assms(2) that list_all2_lengthD [of field_fits "b_schema b" r]
    by (simp add: batch_ok_def row_fits_def list_all_iff)
  have "content sch (map (\<lambda>t. aligned_cell (b_schema b) r (fd_name t)) sch) = content (b_schema b) r"
    if r: "r \<in> set (b_rows b)" for r
  proof
    fix n
    have at: "cell_at sch (map (\<lambda>t. aligned_cell (b_schema b) r (fd_name t)) sch) n =
        map_option (\<lambda>_. aligned_cell (b_schema b) r n) (field_with_name sch n)"
      using field_with_name_name [of sch n] by (cases "field_with_name sch n") (auto simp: cell_at_map)
    show "content sch (map (\<lambda>t. aligned_cell (b_schema b) r (fd_name t)) sch) n = content (b_schema b) r n"
    proof (cases "field_with_name (b_schema b) n")
      case None
      then have "cell_at (b_schema b) r n = None" using cell_at_None [OF len [OF r]] by simp
      with None show ?thesis unfolding content_def at by (auto simp: aligned_cell_def split: option.splits)
    next
      case (Some f)
      then have "field_with_name sch n \<noteq> None"
        using align_Ok_rows(2) [OF assms(1)] field_with_name_name by metis
      moreover have "cell_at (b_schema b) r n \<noteq> None" using Some cell_at_None [OF len [OF r]] by simp
      ultimately show ?thesis using Some unfolding content_def at by (auto simp: aligned_cell_def)
    qed
  qed
  then show ?thesis by (auto simp: rows image_image)
qed

lemma align_all_contents:
  "list_all2 (\<lambda>b b'. align_batch_to_schema b sch = Ok b') bs bs' \<Longrightarrow> list_all batch_ok bs \<Longrightarrow>
     contents bs' = contents bs"
proof (induction bs bs' rule: list_all2_induct)
  case (Cons b bs b' bs')
  then show ?case using align_contents [of b sch b'] by simp
qed simp

text \<open>What a prepared merge must still guarantee when it is committed.\<close>

definition prepared_ok :: "(string \<Rightarrow> nat) \<Rightarrow> wal_view \<Rightarrow> prepared_merge \<Rightarrow> bool" where
  "prepared_ok gen_of v p \<longleftrightarrow>
     (\<forall>fg \<in> v_flushed v. fst fg \<in> pm_generations p \<longrightarrow> v_gen v (snd fg) \<subseteq> contents (pm_batches p)) \<and>
     (\<forall>g \<in> pm_generations p. g < v_current v) \<and> (\<forall>q \<in> set (pm_paths p). gen_of q \<in> pm_generations p)"

lemma prepared_ok_grows:
  "view_ok gen_of v \<Longrightarrow> grows gen_of v v' \<Longrightarrow> prepared_ok gen_of v p \<Longrightarrow> prepared_ok gen_of v' p"
  unfolding grows_def prepared_ok_def by (metis leD order_less_le_trans)

section \<open>Interleavings\<close>

text \<open>
  One handle under concurrent calls: appends, flushes and any number of merges in flight, each prepared
  under the shared lock and committed later under the exclusive one, or never; a restart drops the
  resident writer and every merge in flight. The error parameter plays no role in the states.
\<close>

type_synonym 'l wal_state = "'l base \<times> (manifest \<times> prepared_merge) list"

inductive wal_step :: "'l lance \<Rightarrow> 'l wal_state \<Rightarrow> 'l wal_state \<Rightarrow> bool" for L :: "'l lance" where
  append: "(put L bs :: ('l, unit, unit) base_io) b = (r, b') \<Longrightarrow> wal_step L (b, ps) (b', ps)"
| seal: "(flush L :: ('l, unit, unit) base_io) b = (r, b') \<Longrightarrow> wal_step L (b, ps) (b', ps)"
| shutdown: "(close L sole :: ('l, unit, unit) base_io) b = (r, b') \<Longrightarrow> wal_step L (b, ps) (b', ps)"
| prepare: "(prepare_merge_if_ready_inner L n sf :: ('l, unit, _) base_io) b = (r, b') \<Longrightarrow>
    wal_step L (b, ps) (b', (case r of Inr (Some mp) \<Rightarrow> mp # ps | _ \<Rightarrow> ps))"
| commit: "(m, p) \<in> set ps \<Longrightarrow> (commit_prepared_merge L m p :: ('l, unit, nat) base_io) b = (r, b') \<Longrightarrow>
    wal_step L (b, ps) (b', remove1 (m, p) ps)"
| restart: "wal_step L (b, ps) (b\<lparr>sb_writer := None\<rparr>, [])"

inductive_cases wal_stepE: "wal_step L (b, ps) c"

section \<open>The laws of Lance\<close>

locale lance_laws =
  fixes L :: "'l lance" and view :: "'l \<Rightarrow> wal_view" and gen_of :: "string \<Rightarrow> nat"
  assumes open_grows: "grows gen_of (view l) (view (snd (mem_wal_writer L l)))"
    and put_grows: "grows gen_of (view l) (view (snd (writer_put L w bs l)))"
    and put_durable: "view_ok gen_of (view l) \<Longrightarrow> writer_put L w bs l = (Ok u, l') \<Longrightarrow> contents bs \<subseteq> durable (view l')"
    and seal_grows: "grows gen_of (view l) (view (snd (force_seal_active L w l)))"
    and wait_grows: "grows gen_of (view l) (view (snd (wait_for_flush_drain L w l)))"
    and seal_visible: "view_ok gen_of (view l) \<Longrightarrow> force_seal_active L w l = (Ok u, l1) \<Longrightarrow>
      wait_for_flush_drain L w l1 = (Ok u, l2) \<Longrightarrow> durable (view l) \<subseteq> visible (view l2)"
    and close_grows: "grows gen_of (view l) (view (snd (writer_close L w l)))"
    and read_latest_manifest: "read_latest L l = Ok m \<Longrightarrow> m = v_manifest (view l)"
    and load_rows: "load_generation L p l = Ok bs \<Longrightarrow> (g, p) \<in> v_flushed (view l) \<Longrightarrow>
      contents bs = v_gen (view l) p \<and> list_all batch_ok bs"
    and checkout_grows: "grows gen_of (view l) (view (snd (checkout_latest L l)))"
    and columns_grows: "grows gen_of (view l) (view (snd (add_columns L fs l)))"
    and append_grows: "grows gen_of (view l) (view (snd (dataset_append L bs l)))"
    and append_visible: "view_ok gen_of (view l) \<Longrightarrow> dataset_append L bs l = (Ok u, l') \<Longrightarrow>
      contents bs \<subseteq> v_base (view l')"
    and update_applies: "commit_update L e f l = (Ok u, l') \<Longrightarrow>
      view l' = (view l)\<lparr>v_manifest := map_option f (v_manifest (view l))\<rparr>"
    and update_fails: "commit_update L e f l = (Err x, l') \<Longrightarrow> view l' = view l"
    and remove_only: "\<exists>G. view (snd (remove_dir_all L p l)) = (view l)\<lparr>v_gen := G\<rparr> \<and>
      (\<forall>q. q \<noteq> p \<longrightarrow> G q = v_gen (view l) q)"
begin

abbreviation ok :: "'l base \<Rightarrow> bool" where "ok b \<equiv> view_ok gen_of (view (sb_lance b))"
abbreviation seen :: "'l base \<Rightarrow> content set" where "seen b \<equiv> visible (view (sb_lance b))"
abbreviation kept :: "'l base \<Rightarrow> content set" where "kept b \<equiv> durable (view (sb_lance b))"

abbreviation step :: "'l base \<Rightarrow> 'l base \<Rightarrow> bool" where
  "step b b' \<equiv> grows gen_of (view (sb_lance b)) (view (sb_lance b'))"

lemma step_order: "reflp step" "transp step"
  by (auto simp: reflp_def intro!: transpI intro: grows_trans)

lemmas keeps_bind = io_keeps_bind [OF step_order]
lemmas keeps_match = io_keeps_match [OF step_order(2)]
lemmas keeps_pure = io_keeps_pure [OF step_order(1)]

lemma raw_call_Ok: "raw_call m b = (r, b') \<longleftrightarrow> (\<exists>l. m (sb_lance b) = (r, l) \<and> b' = b\<lparr>sb_lance := l\<rparr>)"
  by (auto simp: raw_call_def split: prod.splits)

lemma raw_call_keeps: "(\<And>l. grows gen_of (view l) (view (snd (m l)))) \<Longrightarrow> io_keeps step (raw_call m)"
  by (simp add: io_keeps_def raw_call_def split: prod.splits) (metis snd_conv)

lemma fault_keeps: "io_keeps step (fault e)"
  unfolding fault_def by (rule keeps_pure)

lemma call_keeps: "(\<And>l. grows gen_of (view l) (view (snd (m l)))) \<Longrightarrow> io_keeps step (call m)"
  unfolding call_def by (intro keeps_match raw_call_keeps keeps_pure fault_keeps) blast

lemma call_Ok: "call m b = (Ok u, b') \<longleftrightarrow> (\<exists>l. m (sb_lance b) = (Ok u, l) \<and> b' = b\<lparr>sb_lance := l\<rparr>)"
  by (auto simp: call_def io_match_Ok_iff raw_call_Ok fault_def)

lemma handle_keeps: "(\<And>b. sb_lance (f b) = sb_lance b) \<Longrightarrow> io_keeps step (\<lambda>b. (r b, f b))"
  by (simp add: io_keeps_def)

lemma resident_keeps: "io_keeps step (resident_writer L)"
  unfolding resident_writer_def
  by (intro keeps_bind handle_keeps)
    (auto intro!: keeps_bind call_keeps open_grows handle_keeps keeps_pure split: option.split)

lemma invalidate_keeps: "io_keeps step (invalidate_writer w)"
  unfolding invalidate_writer_def by (rule handle_keeps) simp

lemma put_inner_keeps: "io_keeps step (put_inner L bs)"
  unfolding put_inner_def
  by (intro keeps_bind keeps_match resident_keeps raw_call_keeps put_grows keeps_pure)
    (auto intro!: keeps_bind resident_keeps invalidate_keeps call_keeps put_grows fault_keeps)

lemma flush_inner_keeps: "io_keeps step (flush_inner L)"
  unfolding flush_inner_def
  by (intro keeps_bind handle_keeps)
    (auto intro!: keeps_bind keeps_match raw_call_keeps seal_grows call_keeps wait_grows keeps_pure
      invalidate_keeps fault_keeps split: option.split)

lemma flush_keeps: "io_keeps step (flush L)"
  unfolding flush_def by (intro keeps_bind flush_inner_keeps keeps_pure)

lemma put_keeps: "io_keeps step (put L bs)"
  unfolding put_def put_sealing_def
  by (auto intro!: keeps_bind put_inner_keeps keeps_pure handle_keeps flush_keeps)

lemma close_keeps: "io_keeps step (close L sole)"
  unfolding close_def
  by (intro keeps_bind handle_keeps)
    (auto intro!: call_keeps close_grows keeps_pure split: option.split)

lemma keeps_ok: "io_keeps step m \<Longrightarrow> m b = (r, b') \<Longrightarrow> ok b \<Longrightarrow> ok b' \<and> seen b \<subseteq> seen b' \<and> kept b \<subseteq> kept b'"
  using io_keepsD [of step m b r b'] by (simp add: grows_def)

lemma put_inner_durable:
  assumes "ok b" "put_inner L bs b = ((Ok u :: ('e store_error, unit) result), b')"
  shows "contents bs \<subseteq> kept b'"
proof -
  have last: "contents bs \<subseteq> kept b'"
    if w: "writer_put L w bs (sb_lance b1) = (Ok v, l)" "b' = b1\<lparr>sb_lance := l\<rparr>" "ok b1" for w b1 v l
    using put_durable [OF w(3,1)] w(2) by simp
  from assms(2) obtain w b1 where r: "resident_writer L b = ((Ok w :: ('e store_error, nat) result), b1)"
    and m: "io_match (raw_call (writer_put L w bs)) (\<lambda>_. io_return ()) (\<lambda>e.
       if is_fenced_error e
       then io_bind (invalidate_writer w) (\<lambda>_. io_bind (resident_writer L) (\<lambda>w'. call (writer_put L w' bs)))
       else fault e) b1 = ((Ok u :: ('e store_error, unit) result), b')"
    unfolding put_inner_def io_bind_Ok_iff by blast
  have ok1: "ok b1" using keeps_ok [OF resident_keeps r assms(1)] by simp
  from m consider (first) v l where "writer_put L w bs (sb_lance b1) = (Ok v, l)" "b' = b1\<lparr>sb_lance := l\<rparr>"
    | (retry) e l b2 w' b3 v l' where "writer_put L w bs (sb_lance b1) = (Err e, l)"
        "invalidate_writer w (b1\<lparr>sb_lance := l\<rparr>) = ((Ok () :: ('e store_error, unit) result), b2)"
        "resident_writer L b2 = ((Ok w' :: ('e store_error, nat) result), b3)"
        "writer_put L w' bs (sb_lance b3) = (Ok v, l')" "b' = b3\<lparr>sb_lance := l'\<rparr>"
    by (auto simp: io_match_Ok_iff raw_call_Ok call_Ok fault_def split: if_splits)
  then show ?thesis
  proof cases
    case first
    then show ?thesis using last ok1 by blast
  next
    case retry
    have "ok (b1\<lparr>sb_lance := l\<rparr>)"
      using put_grows [of "sb_lance b1" w bs] ok1 retry(1) by (simp add: grows_def)
    then have "ok b3"
      using keeps_ok [OF invalidate_keeps retry(2)] keeps_ok [OF resident_keeps retry(3)] by blast
    then show ?thesis using last retry(4,5) by blast
  qed
qed

lemma resident_handle:
  "(resident_writer L :: ('l, 'e, nat) base_io) b = (Ok w, b') \<Longrightarrow>
     sb_writer b' = Some w \<and> sb_seal_on_put b' = sb_seal_on_put b"
  by (auto simp: resident_writer_def call_Ok split: option.splits)

lemma put_inner_handle:
  assumes "(put_inner L bs :: ('l, 'e, unit) base_io) b = (Ok u, b')"
  shows "sb_seal_on_put b' = sb_seal_on_put b \<and> sb_writer b' \<noteq> None"
proof -
  from assms [unfolded put_inner_def io_bind_Ok_iff io_match_Ok_iff] obtain w b1 where
    r: "(resident_writer L :: ('l, 'e, nat) base_io) b = (Ok w, b1)"
    and m: "(\<exists>x b2. raw_call (writer_put L w bs) b1 = (Ok x, b2) \<and> b2 = b') \<or>
      (\<exists>e b2. raw_call (writer_put L w bs) b1 = (Err e, b2) \<and>
        io_bind (invalidate_writer w) (\<lambda>_. io_bind (resident_writer L) (\<lambda>w'. call (writer_put L w' bs))) b2
          = ((Ok u :: ('e store_error, unit) result), b'))"
    by (auto simp: fault_def split: if_splits)
  from m show ?thesis
  proof
    assume "\<exists>x b2. raw_call (writer_put L w bs) b1 = (Ok x, b2) \<and> b2 = b'"
    then show ?thesis using resident_handle [OF r] by (auto simp: raw_call_Ok)
  next
    assume "\<exists>e b2. raw_call (writer_put L w bs) b1 = (Err e, b2) \<and>
        io_bind (invalidate_writer w) (\<lambda>_. io_bind (resident_writer L) (\<lambda>w'. call (writer_put L w' bs))) b2
          = ((Ok u :: ('e store_error, unit) result), b')"
    then obtain e b2 b3 w' b4 where "raw_call (writer_put L w bs) b1 = (Err e, b2)"
      "(invalidate_writer w :: ('l, 'e, unit) base_io) b2 = (Ok (), b3)"
      and r': "(resident_writer L :: ('l, 'e, nat) base_io) b3 = (Ok w', b4)"
      and "(call (writer_put L w' bs) :: ('l, 'e, unit) base_io) b4 = (Ok u, b')"
      by auto
    then show ?thesis using resident_handle [OF r] resident_handle [OF r']
      by (auto simp: raw_call_Ok call_Ok invalidate_writer_def split: if_splits)
  qed
qed

lemma flush_sealed:
  assumes "ok b" "flush_inner L b = (Ok Sealed, b')"
  shows "kept b \<subseteq> seen b'"
proof -
  from assms(2) obtain w v l1 l2 where "force_seal_active L w (sb_lance b) = (Ok (), l1)"
    "wait_for_flush_drain L w l1 = (Ok (), l2)" "sb_lance b' = l2"
    by (cases "sb_writer b") (auto simp: flush_inner_def io_match_Ok_iff raw_call_Ok call_Ok fault_def split: if_splits)
  then show ?thesis using seal_visible [OF assms(1)] by blast
qed

text \<open>The drain, once the merged rows are in the base table, and the deletes, once the drain is through.\<close>

lemma drain_grows:
  assumes "prepared_ok gen_of v p" "contents (pm_batches p) \<subseteq> v_base v"
  shows "grows gen_of v (v\<lparr>v_manifest := map_option (drain (pm_generations p)) (v_manifest v)\<rparr>)"
proof -
  let ?v = "v\<lparr>v_manifest := map_option (drain (pm_generations p)) (v_manifest v)\<rparr>"
  have fl: "v_flushed ?v = {fg \<in> v_flushed v. fst fg \<notin> pm_generations p}"
    by (auto simp: v_flushed_def drain_def split: option.splits)
  have cur: "v_current ?v = v_current v"
    by (simp add: v_current_def drain_def split: option.splits)
  have "v_gen v (snd fg) \<subseteq> v_base v" if "fg \<in> v_flushed v" "fst fg \<in> pm_generations p" for fg
    using assms that by (auto simp: prepared_ok_def)
  then have vis: "visible v \<subseteq> visible ?v" unfolding visible_def fl by auto
  then have "durable v \<subseteq> durable ?v" by (auto simp: durable_def)
  with vis fl cur show ?thesis by (auto simp: grows_def view_ok_def)
qed

lemma remove_grows:
  assumes "\<forall>q \<in> set ps. gen_of q \<in> G" "\<forall>fg \<in> v_flushed (view (sb_lance b)). fst fg \<notin> G" "ok b"
  shows "step b (snd ((remove_generation_dirs L ps :: ('l, 'e, unit) base_io) b))"
  using assms
proof (induction ps arbitrary: b)
  case (Cons q ps)
  let ?b = "b\<lparr>sb_lance := snd (remove_dir_all L q (sb_lance b))\<rparr>"
  obtain F where v: "view (sb_lance ?b) = (view (sb_lance b))\<lparr>v_gen := F\<rparr>"
    and F: "\<And>x. x \<noteq> q \<Longrightarrow> F x = v_gen (view (sb_lance b)) x"
    using remove_only [of q "sb_lance b"] by auto
  have fl: "v_flushed (view (sb_lance ?b)) = v_flushed (view (sb_lance b))"
    unfolding v by (simp add: v_flushed_def)
  have same: "F (snd fg) = v_gen (view (sb_lance b)) (snd fg)" if "fg \<in> v_flushed (view (sb_lance b))" for fg
  proof (rule F)
    have "gen_of (snd fg) = fst fg" using Cons.prems(3) that by (simp add: view_ok_def)
    then show "snd fg \<noteq> q" using Cons.prems(1,2) that by auto
  qed
  then have vis: "visible (view (sb_lance ?b)) = visible (view (sb_lance b))"
    unfolding visible_def fl unfolding v by auto
  then have dur: "durable (view (sb_lance ?b)) = durable (view (sb_lance b))"
    unfolding durable_def vis unfolding v by simp
  have cur: "v_current (view (sb_lance ?b)) = v_current (view (sb_lance b))"
    unfolding v by (simp add: v_current_def)
  have "step b ?b"
    unfolding grows_def vis dur cur view_ok_def fl using same unfolding v by auto
  moreover from this Cons.prems(3) have "ok ?b" by (simp add: grows_def)
  moreover have "\<forall>fg \<in> v_flushed (view (sb_lance ?b)). fst fg \<notin> G" using Cons.prems(2) fl by simp
  ultimately show ?case
    using Cons.IH [of ?b] Cons.prems(1) grows_trans by (auto simp del: base.update_convs)
qed simp

lemma delete_grows:
  assumes "\<forall>q \<in> set ps. gen_of q \<in> G" "\<forall>fg \<in> v_flushed (view (sb_lance b)). fst fg \<notin> G" "ok b"
  shows "step b (snd ((delete_merged_generation_dirs L ps :: ('l, 'e, unit) base_io) b))"
  using remove_grows [OF assms, where 'e = 'e]
  by (cases "object_store L (sb_lance b)") (simp_all add: delete_merged_generation_dirs_def resolve_object_store_def snd_io_bind)

lemma refresh_keeps: "io_keeps step (refresh_latest L)"
  unfolding refresh_latest_def by (intro keeps_bind call_keeps checkout_grows handle_keeps) simp

lemma schema_keeps: "io_keeps step (ensure_latest_schema L)"
  unfolding ensure_latest_schema_def
  by (intro keeps_bind handle_keeps)
    (auto intro!: keeps_bind refresh_keeps handle_keeps call_keeps columns_grows keeps_pure
      simp: Let_def split: option.split)

lemma keeps_at: "io_keeps step m \<Longrightarrow> m b = (r, b') \<Longrightarrow> step b b'"
  by (rule io_keepsD)

lemma append_stage:
  assumes "ok b"
  shows "(if pm_batches p = [] then io_return ()
          else io_bind (append_merged_batches L (pm_batches p)) (\<lambda>_ b. (Ok (), b\<lparr>sb_pinned := None\<rparr>))) b
          = ((Ok u :: ('e store_error, unit) result), b') \<Longrightarrow> contents (pm_batches p) \<subseteq> v_base (view (sb_lance b'))"
  using append_visible [OF assms, of "pm_batches p"]
  by (auto simp: append_merged_batches_def call_Ok split: if_splits)

lemma append_stage_keeps:
  "io_keeps step (if pm_batches p = [] then io_return ()
     else io_bind (append_merged_batches L (pm_batches p)) (\<lambda>_ b. (Ok (), b\<lparr>sb_pinned := None\<rparr>)))"
  unfolding append_merged_batches_def
  by (auto intro!: keeps_pure keeps_bind call_keeps append_grows handle_keeps)

lemma drain_stage:
  assumes "prepared_ok gen_of (view (sb_lance b)) p" "contents (pm_batches p) \<subseteq> v_base (view (sb_lance b))"
    and "call (commit_update L e (drain (pm_generations p))) b = ((r :: ('e store_error, unit) result), b')"
  shows "step b b'"
    and "r = Ok u \<Longrightarrow> \<forall>fg \<in> v_flushed (view (sb_lance b')). fst fg \<notin> pm_generations p"
proof -
  from assms(3) obtain q l where q: "commit_update L e (drain (pm_generations p)) (sb_lance b) = (q, l)"
    and b': "b' = b\<lparr>sb_lance := l\<rparr>" and r: "r = Ok u \<longrightarrow> q = Ok u"
    by (auto simp: call_def io_match_Ok_iff raw_call_Ok fault_def)
  show "step b b'"
    using q update_applies [of e _ "sb_lance b"] update_fails [of e _ "sb_lance b"] drain_grows [OF assms(1,2)]
    by (cases q) (simp_all add: b')
  assume "r = Ok u"
  then have "view l = (view (sb_lance b))\<lparr>v_manifest := map_option (drain (pm_generations p)) (v_manifest (view (sb_lance b)))\<rparr>"
    using q r update_applies by blast
  then show "\<forall>fg \<in> v_flushed (view (sb_lance b')). fst fg \<notin> pm_generations p"
    by (auto simp: b' v_flushed_def drain_def split: option.splits)
qed

lemma commit_step:
  assumes "ok b" "prepared_ok gen_of (view (sb_lance b)) p"
  shows "step b (snd ((commit_merge L m p :: ('l, 'e, unit) base_io) b))"
  unfolding commit_merge_def
proof (rule io_bind_step [OF keeps_at [OF schema_keeps] step_order(2)])
  fix u b1
  assume e1: "ensure_latest_schema L b = ((Ok u :: ('e store_error, unit) result), b1)"
  have g1: "step b b1" by (rule keeps_at [OF schema_keeps e1])
  then have b1: "ok b1" "prepared_ok gen_of (view (sb_lance b1)) p"
    using assms prepared_ok_grows by (auto simp: grows_def)
  let ?app = "if pm_batches p = [] then io_return ()
    else io_bind (append_merged_batches L (pm_batches p)) (\<lambda>_ b. (Ok (), b\<lparr>sb_pinned := None\<rparr>))
      :: ('l, 'e, unit) base_io"
  let ?up = "call (commit_update L (m_writer_epoch m) (drain (pm_generations p))) :: ('l, 'e, unit) base_io"
  let ?del = "delete_merged_generation_dirs L (pm_paths p) :: ('l, 'e, unit) base_io"
  show "step b1 (snd (io_bind ?app (\<lambda>_. io_bind ?up (\<lambda>_. io_bind ?del (\<lambda>_ b. (Ok (), b\<lparr>sb_pinned := None\<rparr>)))) b1))"
  proof (rule io_bind_step [OF keeps_at [OF append_stage_keeps] step_order(2)])
    fix v b2
    assume e2: "?app b1 = (Ok v, b2)"
    have g2: "step b1 b2" by (rule keeps_at [OF append_stage_keeps e2])
    then have b2: "ok b2" "prepared_ok gen_of (view (sb_lance b2)) p"
      using b1 prepared_ok_grows by (auto simp: grows_def)
    note drained = drain_stage [OF b2(2) append_stage [OF b1(1) e2]]
    show "step b2 (snd (io_bind ?up (\<lambda>_. io_bind ?del (\<lambda>_ b. (Ok (), b\<lparr>sb_pinned := None\<rparr>))) b2))"
    proof (rule io_bind_step [OF drained(1) step_order(2)])
      fix w b3
      assume e3: "?up b2 = (Ok w, b3)"
      have "ok b3" using drained(1) [OF e3] b2(1) by (simp add: grows_def)
      moreover have "\<forall>q \<in> set (pm_paths p). gen_of q \<in> pm_generations p" using b2(2) by (simp add: prepared_ok_def)
      ultimately have d: "step b3 (snd (?del b3))" using delete_grows drained(2) [OF e3] by blast
      show "step b3 (snd (io_bind ?del (\<lambda>_ b. (Ok (), b\<lparr>sb_pinned := None\<rparr>)) b3))"
        by (rule io_bind_step [OF _ step_order(2)]) (use d in simp_all)
    qed
  qed
qed

lemma commit_prepared_step:
  assumes "ok b" "prepared_ok gen_of (view (sb_lance b)) p"
  shows "step b (snd ((commit_prepared_merge L m p :: ('l, 'e, nat) base_io) b))"
proof -
  have "step b (snd ((commit_merge L m p :: ('l, 'e, unit) base_io) b))" by (rule commit_step [OF assms])
  then show ?thesis
    unfolding commit_prepared_merge_def by (intro io_bind_step [OF _ step_order(2)]) simp_all
qed

text \<open>A prepared merge holds all the rows of the generations it claims to have merged.\<close>

lemma read_flushed_prepared:
  assumes "ok b0" "step b0 b" "v_manifest (view (sb_lance b0)) = Some m"
    and "read_flushed_generations L m (sb_lance b) = (Ok p :: ('e store_error, prepared_merge) result)"
  shows "prepared_ok gen_of (view (sb_lance b)) p"
proof -
  let ?l = "sb_lance b" and ?sch = "table_schema L (sb_lance b)"
  from assms(4) obtain bss where
    bss: "list_all2 (\<lambda>g bs. read_generation L ?sch (snd g) ?l = (Ok bs :: ('e store_error, batch list) result)) (m_flushed m) bss"
    and p: "p = \<lparr>pm_generations = fst ` set (m_flushed m), pm_paths = map snd (m_flushed m),
         pm_batches = concat bss, pm_schema = ?sch\<rparr>"
    by (auto simp: read_flushed_generations_def collect_res_Ok_iff)
  have fl0: "v_flushed (view (sb_lance b0)) = set (m_flushed m)" by (simp add: v_flushed_def assms(3))
  have old: "gen_of (snd fg) = fst fg \<and> fst fg < v_current (view (sb_lance b0))" if "fg \<in> set (m_flushed m)" for fg
    using assms(1) that fl0 by (auto simp: view_ok_def)
  have mono: "v_current (view (sb_lance b0)) \<le> v_current (view ?l)"
    using assms(1,2) by (simp add: grows_def)
  have rows: "v_gen (view ?l) (snd fg) \<subseteq> contents (concat bss)"
    if fg: "fg \<in> v_flushed (view ?l)" "fst fg \<in> fst ` set (m_flushed m)" for fg
  proof -
    have "fst fg < v_current (view (sb_lance b0))" using fg(2) old by auto
    then have "fg \<in> set (m_flushed m)" using assms(1,2) fg(1) fl0 by (auto simp: grows_def)
    then obtain bs where "bs \<in> set bss"
      and rd: "read_generation L ?sch (snd fg) ?l = (Ok bs :: ('e store_error, batch list) result)"
      using list_all2_mem [OF bss] by blast
    from rd obtain raw where raw: "load_generation L (snd fg) ?l = Ok raw"
      and al: "list_all2 (\<lambda>b b'. align_batch_to_schema b ?sch = Ok b') (filter (\<lambda>b. b_rows b \<noteq> []) raw) bs"
      by (auto simp: read_generation_def collect_res_Ok_iff)
    have load: "contents raw = v_gen (view ?l) (snd fg)" "list_all batch_ok raw"
      using load_rows [OF raw, of "fst fg"] fg(1) by simp_all
    have "contents (filter (\<lambda>b. b_rows b \<noteq> []) raw) = contents raw" by (auto simp: contents_def)
    moreover have "contents bs = contents (filter (\<lambda>b. b_rows b \<noteq> []) raw)"
      by (rule align_all_contents [OF al]) (use load(2) in \<open>simp add: list_all_iff\<close>)
    ultimately show ?thesis using load(1) \<open>bs \<in> set bss\<close> by (auto simp: contents_def)
  qed
  have "g < v_current (view ?l)" if "g \<in> pm_generations p" for g
    using that old mono unfolding p by force
  moreover have "gen_of q \<in> pm_generations p" if "q \<in> set (pm_paths p)" for q
    using that old unfolding p by force
  moreover have "v_gen (view ?l) (snd fg) \<subseteq> contents (pm_batches p)"
    if "fg \<in> v_flushed (view ?l)" "fst fg \<in> pm_generations p" for fg
    using rows [OF that(1)] that(2) unfolding p by simp
  ultimately show ?thesis unfolding prepared_ok_def by blast
qed

lemma prepare_inner_prepared:
  assumes "ok b" "(prepare_merge_if_ready_inner L n sf :: ('l, 'e, _) base_io) b = (Ok (Some (m, p)), b')"
  shows "prepared_ok gen_of (view (sb_lance b')) p"
proof -
  let ?fl = "if sf then flush L else io_return () :: ('l, 'e, unit) base_io"
  have k: "io_keeps step ?fl" by (auto intro: flush_keeps keeps_pure)
  from assms(2) obtain b1 where b1: "?fl b = (Ok (), b1)" "read_latest L (sb_lance b1) = Ok (Some m)"
    "io_bind (prepare_merge L m) (\<lambda>p. io_return (map_option (\<lambda>p. (m, p)) p)) b1 =
       ((Ok (Some (m, p)) :: ('e store_error, _) result), b')"
    unfolding prepare_merge_if_ready_inner_def io_bind_Ok_iff
    by (auto simp: Let_def resolve_object_store_def split: option.splits if_splits)
  have ok1: "ok b1" using keeps_ok [OF k b1(1) assms(1)] by simp
  from b1(3) obtain b2 where f: "(flush L :: ('l, 'e, unit) base_io) b1 = (Ok (), b2)"
    and rd: "read_flushed_generations L m (sb_lance b2) = (Ok p :: ('e store_error, _) result)" and b': "b' = b2"
    by (auto simp: prepare_merge_def split: if_splits)
  have "step b1 b2" by (rule keeps_at [OF flush_keeps f])
  moreover have "v_manifest (view (sb_lance b1)) = Some m" using read_latest_manifest [OF b1(2)] by simp
  ultimately show ?thesis unfolding b' using read_flushed_prepared [OF ok1 _ _ rd] by blast
qed

lemma prepare_merge_keeps: "io_keeps step (prepare_merge L m)"
  unfolding prepare_merge_def
  by (auto intro!: keeps_bind keeps_pure flush_keeps handle_keeps)

lemma prepare_inner_keeps: "io_keeps step (prepare_merge_if_ready_inner L n sf)"
  unfolding prepare_merge_if_ready_inner_def Let_def
  by (auto intro!: keeps_bind keeps_pure flush_keeps handle_keeps prepare_merge_keeps split: option.split simp: resolve_object_store_def)

abbreviation all_prepared :: "'l wal_state \<Rightarrow> bool" where
  "all_prepared c \<equiv> (\<forall>mp \<in> set (snd c). prepared_ok gen_of (view (sb_lance (fst c))) (snd mp))"

lemma wal_step_safe:
  assumes "wal_step L c c'" "ok (fst c)" "all_prepared c"
  shows "step (fst c) (fst c') \<and> ok (fst c') \<and> all_prepared c'"
proof -
  have carry: "step b b' \<and> ok b' \<and> all_prepared (b', ps)" if "step b b'" "ok b" "all_prepared (b, ps)" for b b' ps
    using that prepared_ok_grows by (auto simp: grows_def)
  from assms show ?thesis
  proof (induction rule: wal_step.induct)
    case (append bs b r b' ps)
    show ?case using carry [OF keeps_at [OF put_keeps append(1)], of ps] append(2,3) by simp
  next
    case (seal b r b' ps)
    show ?case using carry [OF keeps_at [OF flush_keeps seal(1)], of ps] seal(2,3) by simp
  next
    case (shutdown sole b r b' ps)
    show ?case using carry [OF keeps_at [OF close_keeps shutdown(1)], of ps] shutdown(2,3) by simp
  next
    case (prepare n sf b r b' ps)
    have "step b b'" by (rule keeps_at [OF prepare_inner_keeps prepare(1)])
    with prepare carry have c: "step b b' \<and> ok b' \<and> all_prepared (b', ps)" by simp
    show ?case
    proof (cases "\<exists>m p. r = Ok (Some (m, p))")
      case True
      then obtain m p where r: "r = Ok (Some (m, p))" by blast
      have "prepared_ok gen_of (view (sb_lance b')) p"
        using prepare_inner_prepared [of b n sf m p b'] prepare r by simp
      with c r show ?thesis by simp
    next
      case False
      then have "(case r of Inr (Some mp) \<Rightarrow> mp # ps | _ \<Rightarrow> ps) = ps" by (auto split: sum.splits option.splits)
      with c show ?thesis by simp
    qed
  next
    case (commit m p ps b r b')
    have "step b b'"
      using commit_prepared_step [of b p m] commit by (metis fst_conv snd_conv)
    with commit have "step b b' \<and> ok b' \<and> all_prepared (b', ps)" using carry by simp
    then show ?case using set_remove1_subset [of "(m, p)" ps] by auto
  next
    case (restart b ps)
    then show ?case by simp
  qed
qed

lemma wal_run_safe:
  assumes "(wal_step L)\<^sup>*\<^sup>* c c'" "ok (fst c)" "all_prepared c"
  shows "step (fst c) (fst c') \<and> ok (fst c') \<and> all_prepared c'"
  using assms
proof (induction rule: rtranclp_induct)
  case (step c1 c2)
  then show ?case using wal_step_safe grows_trans by blast
qed simp

lemma put_durable_kept:
  assumes "ok b" "(put L bs :: ('l, 'e, unit) base_io) b = (Ok u, b')"
  shows "contents bs \<subseteq> kept b' \<and> ok b'"
proof (cases "bs = []")
  case False
  with assms(2) obtain b1 where p: "(put_inner L bs :: ('l, 'e, unit) base_io) b = (Ok (), b1)"
    and f: "(if sb_seal_on_put b1 then flush L else io_return ()) b1 = ((Ok u :: ('e store_error, unit) result), b')"
    by (auto simp: put_def put_sealing_def)
  have ok1: "ok b1" using keeps_ok [OF put_inner_keeps p assms(1)] by simp
  have k: "io_keeps step (if sb_seal_on_put b1 then flush L else io_return () :: ('l, 'e, unit) base_io)"
    by (auto intro: flush_keeps keeps_pure)
  show ?thesis using keeps_ok [OF k f ok1] put_inner_durable [OF assms(1) p] by blast
qed (use keeps_ok [OF put_keeps assms(2,1)] in simp)

lemma flush_fenced:
  assumes "(flush_inner L :: ('l, 'e, _) base_io) b = (Ok Fenced, b')"
  shows "sb_writer b' = None \<and> (\<exists>w l e. force_seal_active L w l = (Err e, sb_lance b') \<and> is_fenced_error e)"
proof -
  obtain w where w: "sb_writer b = Some w" using assms by (cases "sb_writer b") (simp_all add: flush_inner_def io_bind_def io_return_def)
  obtain r l where r: "force_seal_active L w (sb_lance b) = (r, l)" by fastforce
  obtain e where e: "r = Err e" "is_fenced_error e"
    using assms w r by (cases r) (auto simp: flush_inner_def io_bind_def io_match_def raw_call_def call_def io_return_def fault_def io_result_def
        split: prod.splits sum.splits if_splits)
  then have "b' = b\<lparr>sb_lance := l, sb_writer := None\<rparr>"
    using assms w r by (simp add: flush_inner_def io_bind_def io_match_def raw_call_def invalidate_writer_def io_return_def)
  then show ?thesis using r e by auto
qed

lemma put_sealed_or_fenced:
  assumes "ok b" "(put L bs :: ('l, 'e, unit) base_io) b = (Ok u, b')" "bs \<noteq> []" "sb_seal_on_put b"
  shows "contents bs \<subseteq> seen b' \<or>
    contents bs \<subseteq> kept b' \<and> sb_writer b' = None \<and> (\<exists>w l e. force_seal_active L w l = (Err e, sb_lance b') \<and> is_fenced_error e)"
proof -
  from assms(2,3) obtain b1 where p: "(put_inner L bs :: ('l, 'e, unit) base_io) b = (Ok (), b1)"
    and f: "(if sb_seal_on_put b1 then flush L else io_return ()) b1 = ((Ok u :: ('e store_error, unit) result), b')"
    by (auto simp: put_def put_sealing_def)
  have "sb_seal_on_put b1 = sb_seal_on_put b" using put_inner_handle [OF p] by simp
  with f assms(4) obtain out where fl: "(flush_inner L :: ('l, 'e, _) base_io) b1 = (Ok out, b')"
    by (auto simp: flush_def)
  have ok1: "ok b1" using keeps_ok [OF put_inner_keeps p assms(1)] by simp
  show ?thesis
  proof (cases out)
    case Sealed
    then show ?thesis using flush_sealed [OF ok1] fl put_inner_durable [OF assms(1) p] by blast
  next
    case Noop
    have "sb_writer b1 \<noteq> None" using put_inner_handle [OF p] by simp
    with fl Noop show ?thesis
      by (auto simp: flush_inner_def io_match_Ok_iff fault_def split: option.splits if_splits)
  next
    case Fenced
    have "sb_writer b' = None \<and> (\<exists>w l e. force_seal_active L w l = (Err e, sb_lance b') \<and> is_fenced_error e)"
      using fl unfolding Fenced by (rule flush_fenced)
    then show ?thesis using put_durable_kept [OF assms(1,2)] by blast
  qed
qed

end

section \<open>Reading\<close>

text \<open>
  What the code relies on of the LSM scanner: an equality filter on a text column returns, projected,
  rows of the base table and the listed generations that match, and one row at least for every key
  that has a match. Quotes in the literal are doubled.
\<close>

definition escape_sql_literal :: "string \<Rightarrow> string" where
  "escape_sql_literal v = concat (map (\<lambda>c. if c = CHR 0x27 then [CHR 0x27, CHR 0x27] else [c]) v)"

definition sql_eq :: "string \<Rightarrow> string \<Rightarrow> string" where
  "sql_eq col v = col @ '' = '' @ [CHR 0x27] @ escape_sql_literal v @ [CHR 0x27]"

definition project_fields :: "string list option \<Rightarrow> field_def list \<Rightarrow> field_def list" where
  "project_fields cols sch = (case cols of None \<Rightarrow> sch | Some ns \<Rightarrow> filter (\<lambda>f. fd_name f \<in> set ns) sch)"

definition project_content :: "string list option \<Rightarrow> content \<Rightarrow> content" where
  "project_content cols c = (case cols of None \<Rightarrow> c | Some ns \<Rightarrow> c |` set ns)"

definition matching :: "wal_view \<Rightarrow> string \<Rightarrow> string \<Rightarrow> content set" where
  "matching v col x = {c \<in> visible v. c col = Some (CUtf8 x)}"

locale lance_reads = lance_laws L view gen_of for L :: "'l lance" and view gen_of +
  fixes key :: string
  assumes scan_batches: "CHR '' '' \<notin> set col \<Longrightarrow> lsm_scan L (sql_eq col x) cols l = Ok bs \<Longrightarrow>
      list_all (\<lambda>b. batch_ok b \<and> b_schema b = project_fields cols (table_schema L l)) bs"
    and scan_sound: "CHR '' '' \<notin> set col \<Longrightarrow> lsm_scan L (sql_eq col x) cols l = Ok bs \<Longrightarrow>
      contents bs \<subseteq> project_content cols ` matching (view l) col x"
    and scan_complete: "CHR '' '' \<notin> set col \<Longrightarrow> lsm_scan L (sql_eq col x) cols l = Ok bs \<Longrightarrow>
      c \<in> matching (view l) col x \<Longrightarrow>
      \<exists>c' \<in> matching (view l) col x. c' key = c key \<and> project_content cols c' \<in> contents bs"

section \<open>A table that obeys the laws\<close>

text \<open>
  A reference table: one shard, generation directories named after their generation, writers fenced by
  the epoch of the manifest. It shows the laws consistent, and the properties below hold of it outright.
\<close>

record table =
  tb_schema :: "field_def list"
  tb_base :: "batch list"
  tb_mem :: "batch list"
  tb_dirs :: "(string \<times> batch list) list"
  tb_manifest :: manifest

definition fenced_error :: lance_error where
  "fenced_error = \<lparr>le_kind = OtherError, le_text = ''Writer fenced''\<rparr>"
definition missing_error :: lance_error where
  "missing_error = \<lparr>le_kind = NotFound, le_text = ''not found''\<rparr>"
definition corrupt_error :: lance_error where
  "corrupt_error = \<lparr>le_kind = OtherError, le_text = ''corrupt''\<rparr>"

definition gen_path :: "nat \<Rightarrow> string" where "gen_path g = ''gen_'' @ show_nat g"
definition path_gen :: "string \<Rightarrow> nat" where
  "path_gen p = (case parse_nat (drop 4 p) of Some n \<Rightarrow> n | None \<Rightarrow> 0)"

lemma path_gen_path [simp]: "path_gen (gen_path g) = g"
  by (simp add: path_gen_def gen_path_def)

definition tb_fenced :: "nat \<Rightarrow> table \<Rightarrow> bool" where
  "tb_fenced w t \<longleftrightarrow> w < m_writer_epoch (tb_manifest t)"

definition tb_open :: "(table, lance_error, nat) io" where
  "tb_open t = (let e = m_writer_epoch (tb_manifest t) + 1 in
     (Ok e, t\<lparr>tb_manifest := (tb_manifest t)\<lparr>m_writer_epoch := e\<rparr>\<rparr>))"

definition tb_put :: "nat \<Rightarrow> batch list \<Rightarrow> (table, lance_error, unit) io" where
  "tb_put w bs t =
     (if tb_fenced w t then (Err fenced_error, t) else (Ok (), t\<lparr>tb_mem := tb_mem t @ bs\<rparr>))"

definition tb_seal :: "nat \<Rightarrow> (table, lance_error, unit) io" where
  "tb_seal w t =
     (if tb_fenced w t then (Err fenced_error, t)
      else if tb_mem t = [] then (Ok (), t)
      else (let m = tb_manifest t; g = m_current_generation m in
        (Ok (), t\<lparr>tb_mem := [], tb_dirs := (gen_path g, tb_mem t) # tb_dirs t,
          tb_manifest := m\<lparr>m_current_generation := g + 1, m_flushed := m_flushed m @ [(g, gen_path g)]\<rparr>\<rparr>)))"

definition tb_load :: "string \<Rightarrow> table \<Rightarrow> (lance_error, batch list) result" where
  "tb_load p t = (case map_of (tb_dirs t) p of
     None \<Rightarrow> Err missing_error | Some bs \<Rightarrow> if list_all batch_ok bs then Ok bs else Err corrupt_error)"

text \<open>
  The reference scanner: equality filters on a text column, with the literal read as SQL does, over
  the base table and the listed generations, one row per key (the latest).
\<close>

fun read_literal :: "string \<Rightarrow> string option" where
  "read_literal [] = None"
| "read_literal [c] = (if c = CHR 0x27 then Some [] else None)"
| "read_literal (c # d # s) =
     (if c = CHR 0x27
      then (if d = CHR 0x27 then map_option ((#) c) (read_literal s) else None)
      else map_option ((#) c) (read_literal (d # s)))"

definition parse_filter :: "string \<Rightarrow> (string \<times> string) option" where
  "parse_filter f = (let col = takeWhile (\<lambda>c. c \<noteq> CHR '' '') f; rest = drop (length col) f in
     if take 4 rest = '' = '' @ [CHR 0x27] then map_option (Pair col) (read_literal (drop 4 rest)) else None)"

definition tb_rows :: "table \<Rightarrow> batch list" where
  "tb_rows t = tb_base t @ concat (map (\<lambda>fg. case map_of (tb_dirs t) (snd fg) of None \<Rightarrow> [] | Some bs \<Rightarrow> bs)
     (m_flushed (tb_manifest t)))"

fun keep_last :: "string \<Rightarrow> content list \<Rightarrow> content list" where
  "keep_last key [] = []"
| "keep_last key (c # cs) = (if list_ex (\<lambda>d. d key = c key) cs then keep_last key cs else c # keep_last key cs)"

definition row_of :: "field_def list \<Rightarrow> content \<Rightarrow> cell list" where
  "row_of sch c = map (\<lambda>f. case c (fd_name f) of None \<Rightarrow> CNull | Some x \<Rightarrow> x) sch"

definition batch_rows :: "batch \<Rightarrow> content list" where
  "batch_rows b = map (content (b_schema b)) (b_rows b)"

definition tb_scan :: "string \<Rightarrow> string list option \<Rightarrow> table \<Rightarrow> (lance_error, batch list) result" where
  "tb_scan f cols t =
     (case parse_filter f of
        None \<Rightarrow> Err corrupt_error
      | Some (col, v) \<Rightarrow>
          (let sch = project_fields cols (tb_schema t);
               sel = filter (\<lambda>c. c col = Some (CUtf8 v)) (concat (map batch_rows (tb_rows t)));
               rows = map (row_of sch) (keep_last ''event_id'' sel)
           in if list_all (row_fits sch) rows \<and>
                 list_all (\<lambda>b. set (map fd_name (b_schema b)) \<subseteq> set (map fd_name (tb_schema t))) (tb_rows t)
              then Ok [\<lparr>b_schema = sch, b_rows = rows\<rparr>] else Err corrupt_error))"

definition table_lance :: "table lance" where
  "table_lance =
     \<lparr>mem_wal_writer = tb_open, writer_put = tb_put, force_seal_active = tb_seal,
      wait_for_flush_drain = (\<lambda>w t. (Ok (), t)), writer_close = tb_seal,
      object_store = (\<lambda>t. Ok ()), read_latest = (\<lambda>t. Ok (Some (tb_manifest t))), load_generation = tb_load, table_schema = tb_schema,
      checkout_latest = (\<lambda>t. (Ok (), t)),
      add_columns = (\<lambda>fs t. (Ok (), t\<lparr>tb_schema := tb_schema t @ fs\<rparr>)),
      dataset_append = (\<lambda>bs t. (Ok (), t\<lparr>tb_base := tb_base t @ bs\<rparr>)),
      commit_update = (\<lambda>e f t. if tb_fenced e t then (Err fenced_error, t)
        else (Ok (), t\<lparr>tb_manifest := f (tb_manifest t)\<rparr>)),
      remove_dir_all = (\<lambda>p t. (Ok (), t\<lparr>tb_dirs := filter (\<lambda>d. fst d \<noteq> p) (tb_dirs t)\<rparr>)),
      lsm_scan = tb_scan, table_version = (\<lambda>t. length (tb_base t))\<rparr>"

definition table_view :: "table \<Rightarrow> wal_view" where
  "table_view t =
     \<lparr>v_base = contents (tb_base t), v_mem = contents (tb_mem t),
      v_gen = (\<lambda>p. case map_of (tb_dirs t) p of None \<Rightarrow> {} | Some bs \<Rightarrow> contents bs),
      v_manifest = Some (tb_manifest t)\<rparr>"

lemma grows_simple:
  assumes "v_flushed v' = v_flushed v" "v_current v' = v_current v" "v_gen v' = v_gen v"
    "v_base v \<subseteq> v_base v'" "v_mem v \<subseteq> v_mem v'"
  shows "grows gen_of v v'"
  using assms by (auto simp: grows_def view_ok_def visible_def durable_def)

lemma tb_seal_grows: "grows path_gen (table_view t) (table_view (snd (tb_seal w t)))"
proof (cases "tb_fenced w t \<or> tb_mem t = []")
  case False
  let ?m = "tb_manifest t"
  let ?g = "m_current_generation ?m"
  let ?v = "table_view t" and ?v' = "table_view (snd (tb_seal w t))"
  have v': "?v' = ?v\<lparr>v_mem := {}, v_gen := (v_gen ?v)(gen_path ?g := contents (tb_mem t)),
      v_manifest := Some (?m\<lparr>m_current_generation := ?g + 1, m_flushed := m_flushed ?m @ [(?g, gen_path ?g)]\<rparr>)\<rparr>"
    using False by (auto simp: tb_seal_def table_view_def Let_def fun_eq_iff)
  have fl: "v_flushed ?v' = insert (?g, gen_path ?g) (v_flushed ?v)" and cur: "v_current ?v' = v_current ?v + 1"
    "v_current ?v = ?g"
    unfolding v' by (auto simp: v_flushed_def v_current_def table_view_def)
  show ?thesis unfolding grows_def
  proof (intro impI)
    assume ok: "view_ok path_gen ?v"
    have other: "snd fg \<noteq> gen_path ?g" if "fg \<in> v_flushed ?v" for fg
      using ok that cur(2) by (auto simp: view_ok_def)
    then have same: "v_gen ?v' (snd fg) = v_gen ?v (snd fg)" if "fg \<in> v_flushed ?v" for fg
      using that unfolding v' by simp
    have new: "v_gen ?v' (gen_path ?g) = v_mem ?v" unfolding v' by (simp add: table_view_def)
    have "(\<Union>fg \<in> v_flushed ?v. v_gen ?v' (snd fg)) = (\<Union>fg \<in> v_flushed ?v. v_gen ?v (snd fg))"
      by (rule SUP_cong) (simp_all add: same)
    moreover have "v_base ?v' = v_base ?v" unfolding v' by simp
    ultimately have "visible ?v' = visible ?v \<union> v_mem ?v"
      unfolding visible_def fl by (simp add: new Un_ac)
    moreover have "view_ok path_gen ?v'" using ok cur unfolding view_ok_def fl by auto
    ultimately show "view_ok path_gen ?v' \<and> visible ?v \<subseteq> visible ?v' \<and> durable ?v \<subseteq> durable ?v' \<and>
        v_current ?v \<le> v_current ?v' \<and>
        (\<forall>fg \<in> v_flushed ?v'. fg \<in> v_flushed ?v \<and> v_gen ?v' (snd fg) = v_gen ?v (snd fg) \<or> v_current ?v \<le> fst fg)"
      using same cur unfolding fl by (auto simp: durable_def)
  qed
qed (auto simp: tb_seal_def)

lemma tb_seal_visible:
  assumes "view_ok path_gen (table_view t)" "tb_seal w t = (Ok u, t')"
  shows "durable (table_view t) \<subseteq> visible (table_view t')"
proof -
  have "grows path_gen (table_view t) (table_view t')" using tb_seal_grows [of t w] assms(2) by simp
  then have "durable (table_view t) \<subseteq> durable (table_view t')" using assms(1) by (simp add: grows_def)
  moreover have "v_mem (table_view t') = {}"
    using assms(2) by (auto simp: tb_seal_def table_view_def Let_def split: if_splits)
  ultimately show ?thesis by (simp add: durable_def)
qed

lemma map_of_filter_key: "map_of (filter (\<lambda>d. fst d \<noteq> p) xs) q = (if q = p then None else map_of xs q)"
  by (induction xs) auto

interpretation table: lance_laws table_lance table_view path_gen
proof
  show "grows path_gen (table_view l) (table_view (snd (mem_wal_writer table_lance l)))" for l
    by (rule grows_simple) (auto simp: table_lance_def tb_open_def Let_def table_view_def v_flushed_def v_current_def)
  show "grows path_gen (table_view l) (table_view (snd (writer_put table_lance w bs l)))" for l w bs
    by (rule grows_simple) (auto simp: table_lance_def tb_put_def table_view_def v_flushed_def v_current_def)
  show "contents bs \<subseteq> durable (table_view l')" if "writer_put table_lance w bs l = (Ok u, l')" for l w bs u l'
    using that by (auto simp: table_lance_def tb_put_def table_view_def durable_def split: if_splits)
  show "grows path_gen (table_view l) (table_view (snd (dataset_append table_lance bs l)))" for l bs
    by (rule grows_simple) (auto simp: table_lance_def table_view_def v_flushed_def v_current_def)
  show "contents bs \<subseteq> v_base (table_view l')" if "dataset_append table_lance bs l = (Ok u, l')" for l bs u l'
    using that by (auto simp: table_lance_def table_view_def)
  show "grows path_gen (table_view l) (table_view (snd (add_columns table_lance fs l)))" for l fs
    by (rule grows_simple) (auto simp: table_lance_def table_view_def v_flushed_def v_current_def)
  show "contents bs = v_gen (table_view l) p \<and> list_all batch_ok bs"
    if "load_generation table_lance p l = Ok bs" for p l bs
    using that by (auto simp: table_lance_def tb_load_def table_view_def split: option.splits if_splits)
  show "table_view l' = (table_view l)\<lparr>v_manifest := map_option f (v_manifest (table_view l))\<rparr>"
    if "commit_update table_lance e f l = (Ok u, l')" for e f l u l'
    using that by (auto simp: table_lance_def table_view_def split: if_splits)
  show "table_view l' = table_view l" if "commit_update table_lance e f l = (Err x, l')" for e f l x l'
    using that by (auto simp: table_lance_def split: if_splits)
  show "\<exists>G. table_view (snd (remove_dir_all table_lance p l)) = (table_view l)\<lparr>v_gen := G\<rparr> \<and>
      (\<forall>q. q \<noteq> p \<longrightarrow> G q = v_gen (table_view l) q)" for p l
    by (intro exI [of _ "v_gen (table_view (snd (remove_dir_all table_lance p l)))"])
      (auto simp: table_lance_def table_view_def map_of_filter_key)
  show "durable (table_view l) \<subseteq> visible (table_view l2)"
    if "view_ok path_gen (table_view l)" "force_seal_active table_lance w l = (Ok u, l1)"
      "wait_for_flush_drain table_lance w l1 = (Ok u, l2)" for l w u l1 l2
    using that tb_seal_visible [of l w u l1] by (simp add: table_lance_def)
  show "m = v_manifest (table_view l)" if "read_latest table_lance l = Ok m" for l m
    using that by (simp add: table_lance_def table_view_def)
qed (simp_all add: table_lance_def tb_seal_grows)

section \<open>The reference scanner\<close>

lemma read_literal_escape: "read_literal (escape_sql_literal v @ [CHR 0x27]) = Some v"
proof (induction v)
  case Nil
  then show ?case by (simp add: escape_sql_literal_def)
next
  case (Cons c v)
  then show ?case
    by (cases "escape_sql_literal v @ [CHR 0x27]") (auto simp: escape_sql_literal_def)
qed

lemma parse_filter_eq: "CHR '' '' \<notin> set col \<Longrightarrow> parse_filter (sql_eq col x) = Some (col, x)"
proof -
  assume "CHR '' '' \<notin> set col"
  then have "takeWhile (\<lambda>c. c \<noteq> CHR '' '') (sql_eq col x) = col"
    by (auto simp: sql_eq_def takeWhile_append2 intro: trans [OF takeWhile_append2])
  then show ?thesis by (simp add: parse_filter_def sql_eq_def read_literal_escape)
qed

lemma keep_last_subset: "set (keep_last k cs) \<subseteq> set cs"
  by (induction cs) auto

lemma keep_last_covers: "c \<in> set cs \<Longrightarrow> \<exists>d \<in> set (keep_last k cs). d k = c k"
proof (induction cs arbitrary: c)
  case (Cons a cs)
  then show ?case by (cases "c = a") (auto simp: list_ex_iff, metis)
qed simp

lemma content_row_of:
  "content sch (row_of sch c) n = (if n \<in> fd_name ` set sch then (case c n of Some CNull \<Rightarrow> None | x \<Rightarrow> x) else None)"
proof -
  have "cell_at sch (row_of sch c) n = map_option (\<lambda>_. case c n of None \<Rightarrow> CNull | Some x \<Rightarrow> x) (field_with_name sch n)"
    unfolding row_of_def cell_at_map
    using field_with_name_name [of sch n] by (cases "field_with_name sch n") auto
  then show ?thesis
    using field_with_name_None [of sch n]
    by (cases "field_with_name sch n") (auto simp: content_def split: option.splits cell.splits)
qed

lemma content_not_null: "content sch r n \<noteq> Some CNull"
  by (simp add: content_def split: option.splits cell.splits)

lemma content_dom: "content sch r n \<noteq> None \<Longrightarrow> n \<in> fd_name ` set sch"
proof -
  have "cell_at sch r n = None" if "n \<notin> fd_name ` set sch"
    using that by (induction sch r n rule: cell_at.induct) auto
  then show "content sch r n \<noteq> None \<Longrightarrow> n \<in> fd_name ` set sch"
    by (cases "n \<in> fd_name ` set sch") (simp_all add: content_def)
qed

lemma row_of_project:
  assumes "c \<in> set (batch_rows b)" "set (map fd_name (b_schema b)) \<subseteq> set (map fd_name sch)"
  shows "content (project_fields cols sch) (row_of (project_fields cols sch) c) = project_content cols c"
proof
  fix n
  obtain r where c: "c = content (b_schema b) r" using assms(1) by (auto simp: batch_rows_def)
  have "n \<in> fd_name ` set sch" if "c n \<noteq> None" using that assms(2) content_dom unfolding c by fastforce
  moreover have "c n \<noteq> Some CNull" unfolding c by (rule content_not_null)
  ultimately show "content (project_fields cols sch) (row_of (project_fields cols sch) c) n = project_content cols c n"
    unfolding content_row_of
    by (cases "c n") (auto simp: project_fields_def project_content_def restrict_map_def split: option.splits cell.splits)
qed

lemma visible_table_rows: "visible (table_view t) = set (concat (map batch_rows (tb_rows t)))"
proof -
  have base: "set (concat (map batch_rows bs)) = contents bs" for bs
    by (auto simp: contents_def batch_rows_def)
  show ?thesis
    unfolding base tb_rows_def contents_simps(3) contents_concat_map
    by (auto simp: visible_def table_view_def v_flushed_def split: option.splits)
qed

lemma tb_scan_eq:
  assumes "CHR '' '' \<notin> set col" "tb_scan (sql_eq col x) cols t = Ok bs"
  obtains sel where "bs = [\<lparr>b_schema = project_fields cols (tb_schema t),
      b_rows = map (row_of (project_fields cols (tb_schema t))) (keep_last ''event_id'' sel)\<rparr>]"
    "set sel = matching (table_view t) col x" "batch_ok (hd bs)"
    "\<And>c. c \<in> set sel \<Longrightarrow> content (project_fields cols (tb_schema t)) (row_of (project_fields cols (tb_schema t)) c)
       = project_content cols c"
proof -
  let ?sch = "project_fields cols (tb_schema t)"
  let ?sel = "filter (\<lambda>c. c col = Some (CUtf8 x)) (concat (map batch_rows (tb_rows t)))"
  have bs: "bs = [\<lparr>b_schema = ?sch, b_rows = map (row_of ?sch) (keep_last ''event_id'' ?sel)\<rparr>]"
    and fits: "list_all (row_fits ?sch) (map (row_of ?sch) (keep_last ''event_id'' ?sel))"
    and cols: "\<forall>b \<in> set (tb_rows t). set (map fd_name (b_schema b)) \<subseteq> set (map fd_name (tb_schema t))"
    using assms(2) by (auto simp: tb_scan_def parse_filter_eq [OF assms(1)] Let_def list_all_iff split: if_splits)
  show thesis
  proof (rule that [OF bs])
    show "set ?sel = matching (table_view t) col x"
      unfolding matching_def visible_table_rows by auto
    show "batch_ok (hd bs)" unfolding bs batch_ok_def using fits by simp
    show "content ?sch (row_of ?sch c) = project_content cols c" if "c \<in> set ?sel" for c
    proof -
      from that obtain b where "b \<in> set (tb_rows t)" "c \<in> set (batch_rows b)" by auto
      then show ?thesis using cols row_of_project by blast
    qed
  qed
qed

interpretation table: lance_reads table_lance table_view path_gen "''event_id''"
proof
  fix col x cols l bs
  assume col: "CHR '' '' \<notin> set col" and "lsm_scan table_lance (sql_eq col x) cols l = Ok bs"
  then have scan: "tb_scan (sql_eq col x) cols l = Ok bs" by (simp add: table_lance_def)
  obtain sel where s: "bs = [\<lparr>b_schema = project_fields cols (tb_schema l),
      b_rows = map (row_of (project_fields cols (tb_schema l))) (keep_last ''event_id'' sel)\<rparr>]"
    "set sel = matching (table_view l) col x" "batch_ok (hd bs)"
    "\<And>c. c \<in> set sel \<Longrightarrow> content (project_fields cols (tb_schema l)) (row_of (project_fields cols (tb_schema l)) c)
       = project_content cols c"
    using tb_scan_eq [OF col scan] by blast
  have rows: "contents bs = project_content cols ` set (keep_last ''event_id'' sel)"
    using s(4) keep_last_subset [of "''event_id''" sel] unfolding s(1) by (force simp: image_image)
  show "list_all (\<lambda>b. batch_ok b \<and> b_schema b = project_fields cols (table_schema table_lance l)) bs"
    using s(3) unfolding s(1) by (simp add: table_lance_def)
  show "contents bs \<subseteq> project_content cols ` matching (table_view l) col x"
    using keep_last_subset [of "''event_id''" sel] unfolding rows s(2) [symmetric] by blast
  show "\<exists>c' \<in> matching (table_view l) col x. c' ''event_id'' = c ''event_id'' \<and> project_content cols c' \<in> contents bs"
    if "c \<in> matching (table_view l) col x" for c
    using that keep_last_subset [of "''event_id''" sel] keep_last_covers [of c sel "''event_id''"] unfolding rows s(2) [symmetric] by blast
qed

section \<open>Properties\<close>

text \<open>
  C3. No merge loses a row. Under any interleaving of appends, flushes, shutdowns, restarts and merges,
  with merges prepared while appends go on and committed in any order, or failing at any point of the
  commit, every row a reader could see stays visible and every durable row stays durable.
\<close>

theorem merge_loses_no_row:
  assumes "lance_laws L view gen_of" "view_ok gen_of (view (sb_lance b))"
    and "(wal_step L)\<^sup>*\<^sup>* (b, []) (b', ps)"
  shows "visible (view (sb_lance b)) \<subseteq> visible (view (sb_lance b')) \<and>
    durable (view (sb_lance b)) \<subseteq> durable (view (sb_lance b'))"
  using lance_laws.wal_run_safe [OF assms(1,3)] assms(2) by (simp add: grows_def)

definition sample_row :: batch where
  "sample_row = \<lparr>b_schema = sample_fields False, b_rows = [[CUtf8 ''a'']]\<rparr>"

definition sample_table :: table where
  "sample_table = \<lparr>tb_schema = sample_fields False, tb_base = [], tb_mem = [], tb_dirs = [],
     tb_manifest = \<lparr>m_version = 0, m_writer_epoch = 0, m_current_generation = 1, m_replay_after = 0,
       m_last_seen = 0, m_flushed = []\<rparr>\<rparr>"

definition sample_base :: "bool \<Rightarrow> table base" where
  "sample_base seal = \<lparr>sb_lance = sample_table, sb_writer = None, sb_seal_on_put = seal, sb_merge_after = 1,
     sb_latest_schema = None, sb_pinned = None\<rparr>"

lemma sample_base_ok: "view_ok path_gen (table_view (sb_lance (sample_base seal)))"
  by (simp add: sample_base_def sample_table_def table_view_def view_ok_def v_flushed_def)

theorem merge_loses_no_row_witness:
  "visible (table_view (sb_lance (sample_base True))) \<subseteq>
   visible (table_view (sb_lance (snd ((put table_lance [sample_row] :: (table, unit, unit) base_io) (sample_base True)))))"
proof -
  have "wal_step table_lance (sample_base True, [])
      (snd ((put table_lance [sample_row] :: (table, unit, unit) base_io) (sample_base True)), [])"
    by (rule wal_step.append [OF prod.collapse [symmetric]])
  then show ?thesis
    using merge_loses_no_row [OF table.lance_laws_axioms sample_base_ok] by blast
qed

text \<open>
  C9. An acknowledged append is never lost: once \<open>put\<close> returns \<open>Ok\<close>, its rows are durable after any
  further sequence of calls, crashes and merges.
\<close>

theorem acknowledged_put_durable:
  assumes "lance_laws L view gen_of" "view_ok gen_of (view (sb_lance b))"
    and "(put L bs :: ('l, unit, unit) base_io) b = (Ok (), b1)"
    and "(wal_step L)\<^sup>*\<^sup>* (b1, []) (b', ps)"
  shows "contents bs \<subseteq> durable (view (sb_lance b'))"
proof -
  have "contents bs \<subseteq> durable (view (sb_lance b1))" "view_ok gen_of (view (sb_lance b1))"
    using lance_laws.put_durable_kept [OF assms(1,2,3)] by simp_all
  then show ?thesis using lance_laws.wal_run_safe [OF assms(1,4)] by (auto simp: grows_def)
qed

lemma sample_put:
  "(put table_lance [sample_row] :: (table, unit, unit) base_io) (sample_base True) =
     (Ok (), snd ((put table_lance [sample_row] :: (table, unit, unit) base_io) (sample_base True)))"
  by (simp add: put_def put_sealing_def put_inner_def resident_writer_def io_bind_def io_match_def call_def
      raw_call_def sample_base_def sample_table_def table_lance_def tb_open_def tb_put_def tb_fenced_def
      flush_def flush_inner_def tb_seal_def Let_def)

theorem acknowledged_put_durable_witness:
  "contents [sample_row] \<subseteq> durable (table_view (sb_lance
     (snd ((put table_lance [sample_row] :: (table, unit, unit) base_io) (sample_base True)))))"
  by (rule acknowledged_put_durable [OF table.lance_laws_axioms sample_base_ok sample_put rtranclp.rtrancl_refl])

text \<open>
  C32. With \<open>seal_on_put\<close>, an append that returns \<open>Ok\<close> is readable at once, or sealing failed with a fence: then
  the rows are durable, the resident slot is left empty, and \<open>put\<close> reports success although its rows are not
  yet readable. No other failure to seal is reported as success.
\<close>

theorem sealed_put_visible_or_fenced:
  assumes "lance_laws L view gen_of" "view_ok gen_of (view (sb_lance b))"
    and "(put L bs :: ('l, unit, unit) base_io) b = (Ok (), b')" "bs \<noteq> []" "sb_seal_on_put b"
  shows "contents bs \<subseteq> visible (view (sb_lance b')) \<or>
    contents bs \<subseteq> durable (view (sb_lance b')) \<and> sb_writer b' = None \<and>
    (\<exists>w l e. force_seal_active L w l = (Err e, sb_lance b') \<and> is_fenced_error e)"
  by (rule lance_laws.put_sealed_or_fenced [OF assms])

theorem sealed_put_visible_or_fenced_witness:
  "contents [sample_row] \<subseteq> visible (table_view (sb_lance
     (snd ((put table_lance [sample_row] :: (table, unit, unit) base_io) (sample_base True)))))"
proof -
  have w: "sb_writer (snd ((put table_lance [sample_row] :: (table, unit, unit) base_io) (sample_base True))) \<noteq> None"
    by (simp add: put_def put_sealing_def put_inner_def resident_writer_def io_bind_def io_match_def call_def
        raw_call_def sample_base_def sample_table_def table_lance_def tb_open_def tb_put_def tb_fenced_def
        flush_def flush_inner_def tb_seal_def Let_def)
  have seal: "sb_seal_on_put (sample_base True)" by (simp add: sample_base_def)
  from sealed_put_visible_or_fenced [OF table.lance_laws_axioms sample_base_ok sample_put list.distinct(2) seal]
  show ?thesis using w by blast
qed

end
