(* ===== verification/Datagen_Store.thy ===== *)
theory Datagen_Store
  imports Datagen_Codec Datagen_Tree Storage_Safety
begin

text \<open>
  \<open>DatagenStore\<close> of \<open>crates/lance-context-core/src/datagen_store.rs\<close>: the typed operations of the
  checkpoint log on top of the storage base. Writes validate and encode one batch and hand it to the
  base; reads scan by filter, decode, sort and fold. \<open>lance_reads\<close> is the interface to the scanner.
\<close>

section \<open>Writing\<close>

type_synonym ('l, 'a) store_io = "('l, datagen_error, 'a) base_io"

definition base_version :: "'l lance \<Rightarrow> ('l, 'e, nat) base_io" where
  "base_version L = (\<lambda>b. (Ok (table_version L (sb_lance b)), b))"

definition append :: "'l lance \<Rightarrow> 'j codec \<Rightarrow> 'j event list \<Rightarrow> ('l, nat) store_io" where
  "append L J es =
     (if es = [] then base_version L
      else io_bind (io_result (validate_write_batch es)) (\<lambda>_.
           io_bind (io_result (events_to_batch J es)) (\<lambda>batch.
           io_bind (put L [batch]) (\<lambda>_.
           io_bind (maybe_merge_own_shard L) (\<lambda>_. base_version L)))))"

definition append_checkpoint :: "'l lance \<Rightarrow> 'j codec \<Rightarrow> 'j event list \<Rightarrow> ('l, nat) store_io" where
  "append_checkpoint L J es = io_bind (io_result (validate_checkpoint_batch es)) (\<lambda>_. append L J es)"

definition open_stream ::
  "'l lance \<Rightarrow> 'j codec \<Rightarrow> uuid_fun \<Rightarrow> clock \<Rightarrow> 'j new_stream \<Rightarrow> write_context \<Rightarrow> ('l, writer) store_io" where
  "open_stream L J uuid clock st ctx =
     (let (created, w) = open_stream_events uuid clock st ctx
      in io_bind (append L J [created]) (\<lambda>_. io_return w))"

section \<open>Reading\<close>

definition scan_key :: "'j event \<Rightarrow> string \<times> int \<times> string" where
  "scan_key e = (item_id e, item_seq e, event_id e)"

definition scan_events ::
  "'l lance \<Rightarrow> 'j codec \<Rightarrow> string \<Rightarrow> string list option \<Rightarrow> 'l base \<Rightarrow> (datagen_store_error, 'j event list) result"
where
  "scan_events L J f cols b =
     res_bind (res_map_err LanceFault (lsm_scan L f cols (sb_lance b))) (\<lambda>batches.
     res_bind (collect_res (batch_to_events J) batches) (\<lambda>ess.
     Ok (sort_key scan_key (concat ess))))"

definition events_with_blobs ::
  "'l lance \<Rightarrow> 'j codec \<Rightarrow> string \<Rightarrow> 'l base \<Rightarrow> (datagen_store_error, 'j event list) result" where
  "events_with_blobs L J f b = scan_events L J f None b"

definition filtered_events ::
  "'l lance \<Rightarrow> 'j codec \<Rightarrow> string \<Rightarrow> 'l base \<Rightarrow> (datagen_store_error, 'j event list) result" where
  "filtered_events L J f b = scan_events L J f (Some (non_blob_columns (table_schema L (sb_lance b)))) b"

definition events_for_item ::
  "'l lance \<Rightarrow> 'j codec \<Rightarrow> string \<Rightarrow> 'l base \<Rightarrow> (datagen_store_error, 'j event list) result" where
  "events_for_item L J i b = filtered_events L J (sql_eq ''item_id'' i) b"

definition events_for_root ::
  "'l lance \<Rightarrow> 'j codec \<Rightarrow> string \<Rightarrow> 'l base \<Rightarrow> (datagen_store_error, 'j event list) result" where
  "events_for_root L J i b = filtered_events L J (sql_eq ''root_item_id'' i) b"

definition store_item_tree ::
  "'l lance \<Rightarrow> 'j codec \<Rightarrow> string \<Rightarrow> 'l base \<Rightarrow> (datagen_store_error, 'j item_tree) result" where
  "store_item_tree L J i b = res_bind (events_for_root L J i b) (\<lambda>es. res_map_err Invalid (tree_build es))"

definition failures ::
  "'l lance \<Rightarrow> 'j codec \<Rightarrow> string option \<Rightarrow> 'l base \<Rightarrow> (datagen_store_error, 'j event list) result" where
  "failures L J run b =
     filtered_events L J
       (case run of
          Some r \<Rightarrow> sql_eq ''event_type'' ''FAILED'' @ '' AND '' @ sql_eq ''run_id'' r
        | None \<Rightarrow> sql_eq ''event_type'' ''FAILED'') b"

definition as_lookup :: "'j folded_item option \<Rightarrow> 'j item_lookup" where
  "as_lookup r = (case r of Some it \<Rightarrow> Found it | None \<Rightarrow> NeverStarted)"

definition fold_item ::
  "'l lance \<Rightarrow> 'j codec \<Rightarrow> string \<Rightarrow> 'l base \<Rightarrow> (datagen_store_error, 'j item_lookup) result" where
  "fold_item L J i b =
     res_bind (events_for_item L J i b) (\<lambda>es.
     res_bind (res_map_err Invalid (fold_datagen_events es)) (\<lambda>r. Ok (as_lookup r)))"

definition fold_item_with ::
  "'l lance \<Rightarrow> 'j codec \<Rightarrow> string \<Rightarrow> blob_projection \<Rightarrow> 'l base \<Rightarrow> (datagen_store_error, 'j item_lookup) result" where
  "fold_item_with L J i blobs b =
     res_bind (case blobs of
         Lazy \<Rightarrow> events_for_item L J i b
       | Eager \<Rightarrow> events_with_blobs L J (sql_eq ''item_id'' i) b) (\<lambda>es.
     res_bind (res_map_err Invalid (fold_datagen_events_with es blobs)) (\<lambda>r. Ok (as_lookup r)))"

definition store_overview :: "'l lance \<Rightarrow> 'j codec \<Rightarrow> 'l base \<Rightarrow> (datagen_store_error, run_overview) result" where
  "store_overview L J b =
     res_bind (filtered_events L J ''event_type IS NOT NULL'' b) (\<lambda>es. res_map_err Invalid (overview_build es))"

definition root_item_status ::
  "'l lance \<Rightarrow> 'j codec \<Rightarrow> 'l base \<Rightarrow> (string \<rightharpoonup> item_status) \<Rightarrow> string \<Rightarrow>
   (datagen_store_error, string \<rightharpoonup> item_status) result" where
  "root_item_status L J b statuses i =
     res_bind (events_for_root L J i b) (\<lambda>es.
     res_bind (res_map_err Invalid (fold_datagen_events (filter (\<lambda>e. item_id e = i) es))) (\<lambda>r.
     Ok (case r of Some it \<Rightarrow> statuses(i \<mapsto> fi_status it) | None \<Rightarrow> statuses)))"

definition store_root_item_statuses ::
  "'l lance \<Rightarrow> 'j codec \<Rightarrow> string list \<Rightarrow> 'l base \<Rightarrow> (datagen_store_error, root_item_statuses) result" where
  "store_root_item_statuses L J ids b = fold_res (root_item_status L J b) Map.empty ids"

definition item_failures ::
  "'l lance \<Rightarrow> 'j codec \<Rightarrow> string \<Rightarrow> 'l base \<Rightarrow> (datagen_store_error, failure list) result" where
  "item_failures L J i b = res_bind (events_for_item L J i b) (\<lambda>es. res_map_err Invalid (datagen_failures es))"

definition store_trajectory ::
  "'l lance \<Rightarrow> 'j codec \<Rightarrow> string \<Rightarrow> 'l base \<Rightarrow> (datagen_store_error, step_cursor list) result" where
  "store_trajectory L J i b = res_bind (events_for_item L J i b) (\<lambda>es. res_map_err Invalid (datagen_trajectory es))"

definition load_blob ::
  "(string \<Rightarrow> ('e, 8 word list option) result) \<Rightarrow> 'j folded_item \<Rightarrow> string \<Rightarrow> ('e, 8 word list option) result" where
  "load_blob get_blob it name =
     (case bt_get (fi_blob_event_ids it) name of Some eid \<Rightarrow> get_blob eid | None \<Rightarrow> Ok None)"

section \<open>Lemmas: reading a row by its content\<close>

lemma field_cell:
  "list_all2 field_fits sch r \<Longrightarrow>
     (case field_with_name sch n of None \<Rightarrow> cell_at sch r n = None
      | Some f \<Rightarrow> \<exists>c. cell_at sch r n = Some c \<and> cell_fits (fd_type f) c)"
proof (induction sch r rule: list_all2_induct)
  case (Cons x xs y ys)
  then show ?case by (cases "fd_name x = n") (auto simp: field_with_name_def field_fits_def split: option.splits)
qed (simp add: field_with_name_def)

text \<open>A well-typed row reads the same wherever its non-null cells are the same.\<close>

definition cell_of :: "field_def list \<Rightarrow> cell list \<Rightarrow> data_type \<Rightarrow> string \<Rightarrow> cell option" where
  "cell_of sch r t n = (case content sch r n of Some c \<Rightarrow> if cell_fits t c then Some c else None | None \<Rightarrow> None)"

lemma column_content:
  assumes "row_fits sch r"
  shows "(case column_as_optional sch t r n of Some CNull \<Rightarrow> None | c \<Rightarrow> c) = cell_of sch r t n"
proof -
  have fit: "cell_fits t c \<longleftrightarrow> t = t'" if "cell_fits t' c" "c \<noteq> CNull" for c t'
    using that by (cases c) auto
  show ?thesis
    using field_cell [of sch r n] assms fit
    by (cases "field_with_name sch n")
      (auto simp: row_fits_def column_as_optional_def cell_of_def content_def split: option.splits cell.splits)
qed

lemma optional_content:
  assumes "row_fits sch r"
  shows "optional_string sch r n = (case cell_of sch r DUtf8 n of Some (CUtf8 s) \<Rightarrow> Some s | _ \<Rightarrow> None)"
    "optional_large_string sch r n = (case cell_of sch r DLargeUtf8 n of Some (CLargeUtf8 s) \<Rightarrow> Some s | _ \<Rightarrow> None)"
    "optional_bytes sch r n = (case cell_of sch r DLargeBinary n of Some (CLargeBinary s) \<Rightarrow> Some s | _ \<Rightarrow> None)"
    "optional_i64 sch r n = (case cell_of sch r DInt64 n of Some (CInt64 s) \<Rightarrow> Some s | _ \<Rightarrow> None)"
    "optional_i32 sch r n = (case cell_of sch r DInt32 n of Some (CInt32 s) \<Rightarrow> Some s | _ \<Rightarrow> None)"
    "optional_f64 sch r n = (case cell_of sch r DFloat64 n of Some (CFloat64 s) \<Rightarrow> Some s | _ \<Rightarrow> None)"
    "optional_bool sch r n = (case cell_of sch r DBoolean n of Some (CBool s) \<Rightarrow> Some s | _ \<Rightarrow> None)"
    "optional_micros sch r n = (case cell_of sch r DTimestampMicros n of Some (CTimestamp s) \<Rightarrow> Some s | _ \<Rightarrow> None)"
  unfolding column_content [OF assms, symmetric] optional_defs
  by (simp_all split: option.split cell.split)

lemma row_to_event_content:
  assumes "row_fits sch r" "row_fits sch' r'" "content sch r = content sch' r'"
  shows "row_to_event J sch r = row_to_event J sch' r'"
proof -
  have "cell_of sch r t n = cell_of sch' r' t n" for t n by (simp add: cell_of_def assms(3))
  note same = this optional_content [OF assms(1)] optional_content [OF assms(2)]
  have "optional_string sch r = optional_string sch' r'" by (simp add: fun_eq_iff same)
  then show ?thesis
    unfolding row_to_event_def row_value_def str_at_def same(2-) same(1) by simp
qed

end
