(* ===== verification/Datagen_Resume.thy ===== *)
theory Datagen_Resume
  imports Datagen_Fold
begin

text \<open>
  Crash and resume: an item's log as it grows over several attempts, each driven by a writer that
  is either fresh (\<open>open_stream_events\<close>) or rebuilt from the fold of the log so far
  (\<open>resuming_writer\<close>). The abstract account of such a history is the sequence of writer calls
  alone; the lemmas show that folding the log recovers exactly that account.
\<close>

section \<open>The abstract account of a session\<close>

fun op_changes :: "'j writer_op \<Rightarrow> 'j field_change list" where
  "op_changes (OpCompleted _ fs) = fs"
| "op_changes _ = []"

definition ops_log :: "'j writer_op list \<Rightarrow> (string \<times> field_op \<times> 'j datagen_value) list" where
  "ops_log xs = concat (map (\<lambda>x. map (\<lambda>c. (fc_name c, fc_op c, fc_value c)) (op_changes x)) xs)"

fun op_completed :: "'j writer_op \<Rightarrow> stream_position list" where
  "op_completed (OpCompleted pos _) = [pos]"
| "op_completed _ = []"

fun op_status :: "item_status \<Rightarrow> 'j writer_op \<Rightarrow> item_status" where
  "op_status s (OpTerminal t) = terminal_status t"
| "op_status s _ = s"

definition ctx_ok :: "write_context \<Rightarrow> bool" where
  "ctx_ok ctx \<longleftrightarrow> ctx_run_id ctx \<noteq> [] \<and> ctx_writer_epoch ctx \<noteq> []"

section \<open>Logs over several attempts\<close>

inductive stream_log ::
  "uuid_fun \<Rightarrow> 'j new_stream \<Rightarrow> 'j event list \<Rightarrow> 'j writer_op list list \<Rightarrow> bool"
  for uuid :: uuid_fun and st :: "'j new_stream" where
  fresh: "open_stream_events uuid clock st ctx = (created, w) \<Longrightarrow> ctx_ok ctx \<Longrightarrow> list_all op_ok ops \<Longrightarrow>
    room w (ops_events ops) (ops_ordinals ops) \<Longrightarrow> run_ops uuid clock w ops = (es, w') \<Longrightarrow>
    stream_log uuid st (created # es) [ops]"
| resumed: "stream_log uuid st log opss \<Longrightarrow> fold_datagen_events log = Ok (Some it) \<Longrightarrow> ctx_ok ctx \<Longrightarrow>
    w = resuming_writer it ctx \<Longrightarrow> fi_last_attempt it < 2 ^ 31 - 1 \<Longrightarrow> list_all op_ok ops \<Longrightarrow>
    room w (ops_events ops) (ops_ordinals ops) \<Longrightarrow> run_ops uuid clock w ops = (es, w') \<Longrightarrow>
    stream_log uuid st (log @ es) (opss @ [ops])"

section \<open>Lemmas: what the events of a session fold to\<close>

lemma position_of_stamp [simp]: "position_of (stamp_position e p) = p"
  by (simp add: position_of_def)

lemma field_event_kind [simp]:
  "is_field (field_event u c w ck p s k ch)" "event_op (field_event u c w ck p s k ch) = fc_op ch"
  by (cases "fc_op ch"; simp add: is_field_def event_op_def)+

lemma field_log_map_fields:
  "field_log (map (\<lambda>j. field_event u c w ck p (q j) j (fs ! j)) [0..<length fs]) =
     map (\<lambda>c. (fc_name c, fc_op c, fc_value c)) fs"
  by (simp add: field_log_def comp_def filter_map)
    (rule nth_equalityI, simp_all)

lemma not_field_simps [simp]:
  "event_type e = StepStarted \<Longrightarrow> \<not> is_field e" "event_type e = StepCompleted \<Longrightarrow> \<not> is_field e"
  "event_type e = Failed \<Longrightarrow> \<not> is_field e" "event_type e = Terminal \<Longrightarrow> \<not> is_field e"
  "event_type e = ItemCreated \<Longrightarrow> \<not> is_field e"
  by (simp_all add: is_field_def)

definition completions :: "'j event list \<Rightarrow> stream_position list" where
  "completions es = map position_of (filter (\<lambda>e. event_type e = StepCompleted) es)"

lemma completions_simps [simp]:
  "completions [] = []" "completions (a @ b) = completions a @ completions b"
  "completions (e # es) = (if event_type e = StepCompleted then position_of e # completions es else completions es)"
  by (simp_all add: completions_def)

lemma completions_fields [simp]: "\<forall>e \<in> set es. is_field e \<Longrightarrow> completions es = []"
  by (auto simp: completions_def filter_empty_conv)

lemma status_fields [simp]: "\<forall>e \<in> set es. is_field e \<Longrightarrow> foldl status_step s es = s"
  by (induction es) (auto simp: status_step_def is_field_def)

lemma run_op_account:
  assumes "room w (op_events x) (op_ordinals x)"
  shows "field_log (fst (run_op uuid clock w x)) = map (\<lambda>c. (fc_name c, fc_op c, fc_value c)) (op_changes x)"
    and "completions (fst (run_op uuid clock w x)) = op_completed x"
    and "foldl status_step s (fst (run_op uuid clock w x)) = op_status s x"
    and "e \<in> set (fst (run_op uuid clock w x)) \<Longrightarrow> event_type e \<noteq> ItemCreated"
proof -
  show "field_log (fst (run_op uuid clock w x)) = map (\<lambda>c. (fc_name c, fc_op c, fc_value c)) (op_changes x)"
    using assms by (cases x) (simp_all add: call_room field_log_map_fields)
  show "completions (fst (run_op uuid clock w x)) = op_completed x"
    "foldl status_step s (fst (run_op uuid clock w x)) = op_status s x"
    using assms by (cases x; auto simp: call_room status_step_def)+
  show "e \<in> set (fst (run_op uuid clock w x)) \<Longrightarrow> event_type e \<noteq> ItemCreated"
    using assms by (cases x) (auto simp: call_room split: field_op.splits)
qed

lemma run_ops_account:
  assumes "room w (ops_events xs) (ops_ordinals xs)"
  shows "field_log (fst (run_ops uuid clock w xs)) = ops_log xs"
    and "completions (fst (run_ops uuid clock w xs)) = concat (map op_completed xs)"
    and "foldl status_step s (fst (run_ops uuid clock w xs)) = foldl op_status s xs"
    and "e \<in> set (fst (run_ops uuid clock w xs)) \<Longrightarrow> event_type e \<noteq> ItemCreated"
  using assms
proof (induction xs arbitrary: w s)
  case (Cons x xs)
  {
    case 1
    note r = run_ops_Cons [OF this]
    show ?case unfolding r(1) using Cons.IH(1) [OF r(3)] run_op_account(1) [OF r(2)] by (simp add: ops_log_def)
  next
    case 2
    note r = run_ops_Cons [OF this]
    show ?case unfolding r(1) using Cons.IH(2) [OF r(3)] run_op_account(2) [OF r(2)] by simp
  next
    case 3
    note r = run_ops_Cons [OF this]
    show ?case unfolding r(1) using Cons.IH(3) [OF r(3)] run_op_account(3) [OF r(2)] by simp
  next
    case 4
    note r = run_ops_Cons [OF 4(2)]
    from 4(2,1) show ?case
      by (rule run_ops_memE) (use Cons.IH(4) [OF _ r(3)] run_op_account(4) [OF r(2)] in blast)+
  }
qed (simp_all add: ops_log_def)

section \<open>Lemmas: the log over all attempts\<close>

text \<open>Where an event id of the log can come from, up to attempt \<open>A\<close> and sequence number \<open>N\<close>.\<close>

definition origin :: "uuid_fun \<Rightarrow> item_id \<Rightarrow> int \<Rightarrow> int \<Rightarrow> 'j event \<Rightarrow> bool" where
  "origin uuid i A N e \<longleftrightarrow>
     (\<exists>j. event_id e = datagen_event_id uuid (item_id_to_string i) (checkpoint_id e) j) \<and>
     (checkpoint_id e = item_id_to_string i @ nul # ''created'' \<or>
      (\<exists>a pos ord. a \<le> A \<and> checkpoint_id e = checkpoint_string i a pos ord) \<or>
      (\<exists>seq \<le> N. checkpoint_id e = item_id_to_string i @ nul # ''terminal'' @ nul # show_int seq))"

lemma origin_mono: "origin uuid i A N e \<Longrightarrow> A \<le> A' \<Longrightarrow> N \<le> N' \<Longrightarrow> origin uuid i A' N' e"
  unfolding origin_def by (meson order_trans)

lemma origin_tagged:
  assumes "tagged uuid w n m e"
  shows "origin uuid (w_item_id w) (w_attempt w) (w_next_seq w + int n - 1) e"
  using assms unfolding tagged_def step_tag_def term_tag_def origin_def by force

lemma created_not_checkpoint:
  "item_id_to_string i @ nul # ''created'' \<noteq> checkpoint_string i a pos ord"
  "item_id_to_string i @ nul # ''created'' \<noteq> item_id_to_string i @ nul # ''terminal'' @ nul # s"
proof -
  have "nul \<notin> set ''created''" by (simp add: nul_def)
  moreover have "nul \<in> set (show_int a @ nul # x)" for x by simp
  ultimately have "''created'' \<noteq> show_int a @ nul # x" for x by metis
  then show "item_id_to_string i @ nul # ''created'' \<noteq> checkpoint_string i a pos ord"
    unfolding checkpoint_string_def by (metis same_append_eq list.inject)
qed simp

lemma origin_fresh:
  assumes "inj uuid" "origin uuid (w_item_id w) A N e" "A < w_attempt w" "N < w_next_seq w"
    and "tagged uuid w n m f"
  shows "event_id e \<noteq> event_id f"
proof
  assume eq: "event_id e = event_id f"
  have ck: "checkpoint_id e = checkpoint_id f"
    using eq assms(2,5) eid_of_inject [OF assms(1)]
    unfolding origin_def tagged_def step_tag_def term_tag_def by metis
  from assms(5) consider
    (step) pos ord where "checkpoint_id f = checkpoint_string (w_item_id w) (w_attempt w) pos ord"
  | (fin) seq where "w_next_seq w \<le> seq"
      "checkpoint_id f = item_id_to_string (w_item_id w) @ nul # ''terminal'' @ nul # show_int seq"
    unfolding tagged_def step_tag_def term_tag_def by blast
  then show False
  proof cases
    case step
    with ck assms(2) show False
      unfolding origin_def using created_not_checkpoint(1) terminal_not_checkpoint
        checkpoint_string_inject assms(3) by (metis not_le)
  next
    case fin
    with ck assms(2,4) show False
      unfolding origin_def using created_not_checkpoint(2) terminal_not_checkpoint
      by (elim conjE disjE exE) (metis, metis, simp)
  qed
qed

text \<open>Attempts seen so far are at most \<open>A\<close>; step checkpoints come from attempts up to \<open>B\<close>.\<close>

definition log_inv ::
  "uuid_fun \<Rightarrow> 'j new_stream \<Rightarrow> 'j event list \<Rightarrow> 'j writer_op list list \<Rightarrow> int \<Rightarrow> int \<Rightarrow> bool" where
  "log_inv uuid st log opss A B \<longleftrightarrow>
     map item_seq log = map (\<lambda>k. 1 + int k) [0..<length log] \<and>
     (\<forall>e \<in> set log. valid e \<and> item_id e = item_id_to_string (ns_item_id st) \<and>
        origin uuid (ns_item_id st) B (int (length log)) e \<and> attempt e \<le> A) \<and>
     distinct (map event_id log) \<and> A \<in> attempt ` set log \<and> B \<le> A \<and> 0 \<le> A \<and>
     (\<exists>e0 rest. log = e0 # rest \<and> event_type e0 = ItemCreated \<and>
        root_item_id e0 = item_id_to_string (root (ns_item_id st)) \<and>
        parent_item_id e0 = map_option item_id_to_string (ns_parent_item_id st)) \<and>
     field_log log = ops_log (concat opss) \<and>
     completions log = concat (map op_completed (concat opss)) \<and>
     foldl status_step Running log = foldl op_status Running (concat opss)"

lemma seqs_increasing: "map item_seq log = map (\<lambda>k. a + int k) [0..<n] \<Longrightarrow> sorted_wrt (<) (map item_seq log)"
  by (simp add: sorted_wrt_iff_nth_less)

lemma ops_log_append [simp]: "ops_log (a @ b) = ops_log a @ ops_log b"
  by (simp add: ops_log_def)

lemma ops_events_length:
  "room w (ops_events xs) (ops_ordinals xs) \<Longrightarrow> length (fst (run_ops uuid clock w xs)) = ops_events xs"
  using run_ops_seqs [of w xs uuid clock] by (metis length_map map_nth length_upt diff_zero)

lemma ops_events_0 [simp]: "ops_events xs = 0 \<longleftrightarrow> xs = []"
proof (cases xs)
  case (Cons x xs')
  then show ?thesis by (cases x) simp_all
qed simp

definition stream_plain :: "'j new_stream \<Rightarrow> bool" where
  "stream_plain st \<longleftrightarrow> plain_item_id (ns_item_id st) \<and>
     (\<forall>p. ns_parent_item_id st = Some p \<longrightarrow> plain_item_id p)"

lemma log_inv_extend:
  assumes inv: "log_inv uuid st log opss A B" and "inj uuid" "\<And>s. uuid s \<noteq> []"
    and w: "writer_ok w" "w_item_id w = ns_item_id st" "w_next_seq w = int (length log) + 1"
      "B < w_attempt w" "A \<le> w_attempt w"
    and ops: "list_all op_ok ops" "room w (ops_events ops) (ops_ordinals ops)"
    and es: "es = fst (run_ops uuid clock w ops)"
  shows "log_inv uuid st (log @ es) (opss @ [ops])
    (if ops = [] then A else w_attempt w) (if ops = [] then B else w_attempt w)"
proof (cases "ops = []")
  case True
  with inv es show ?thesis by (simp add: log_inv_def)
next
  case False
  let ?n = "ops_events ops"
  have len: "length es = ?n" using es ops_events_length [OF ops(2)] by simp
  have st: "\<forall>e \<in> set es. stamped w e" and vd: "\<forall>e \<in> set es. valid e"
    and tg: "\<forall>e \<in> set es. tagged uuid w ?n (ops_ordinals ops) e"
    using run_ops_stamped [OF ops(2)] run_ops_valid [OF w(1) ops assms(3)] run_ops_tagged [OF ops(2)]
    by (simp_all add: es)
  have seqs: "map item_seq (log @ es) = map (\<lambda>k. 1 + int k) [0..<length (log @ es)]"
  proof -
    have "map item_seq es = map (\<lambda>k. 1 + int k) [length log..<length log + ?n]"
      unfolding es run_ops_seqs [OF ops(2)] w(3) by (rule nth_equalityI) simp_all
    with inv len show ?thesis by (simp add: log_inv_def upt_add_eq_append [of 0 "length log"])
  qed
  have ids: "distinct (map event_id (log @ es))"
  proof -
    have "event_id e \<noteq> event_id f" if "e \<in> set log" "f \<in> set es" for e f
      using that inv w tg by (intro origin_fresh [OF assms(2), of w B "int (length log)"])
        (auto simp: log_inv_def)
    with inv run_ops_distinct [OF assms(2) ops] show ?thesis by (auto simp: log_inv_def es)
  qed
  have org: "\<forall>e \<in> set (log @ es). origin uuid (ns_item_id st) (w_attempt w) (int (length (log @ es))) e"
  proof
    fix e assume "e \<in> set (log @ es)"
    then consider "e \<in> set log" | "e \<in> set es" by auto
    then show "origin uuid (ns_item_id st) (w_attempt w) (int (length (log @ es))) e"
    proof cases
      case 1
      then show ?thesis using inv w(4) by (auto simp: log_inv_def elim!: origin_mono)
    next
      case 2
      with tg origin_tagged have "origin uuid (w_item_id w) (w_attempt w) (w_next_seq w + int ?n - 1) e" by blast
      then show ?thesis using w(2,3) len by (simp add: algebra_simps)
    qed
  qed
  obtain x where "x \<in> set es" using False len by (cases es) auto
  moreover from this have "attempt x = w_attempt w" using st by (simp add: stamped_def)
  ultimately have att: "w_attempt w \<in> attempt ` set (log @ es)" by (metis image_eqI set_append UnCI)
  have acc: "field_log es = ops_log ops" "completions es = concat (map op_completed ops)"
    "foldl status_step s es = foldl op_status s ops" for s
    using run_ops_account(1-3) [OF ops(2)] by (simp_all add: es)
  have "\<forall>e \<in> set (log @ es). valid e \<and> item_id e = item_id_to_string (ns_item_id st) \<and>
      origin uuid (ns_item_id st) (w_attempt w) (int (length (log @ es))) e \<and> attempt e \<le> w_attempt w"
    using inv st vd org w(2,5) by (fastforce simp: log_inv_def stamped_def)
  moreover have "\<exists>e0 rest. log @ es = e0 # rest \<and> event_type e0 = ItemCreated \<and>
      root_item_id e0 = item_id_to_string (root (ns_item_id st)) \<and>
      parent_item_id e0 = map_option item_id_to_string (ns_parent_item_id st)"
    using inv by (auto simp: log_inv_def)
  moreover have "field_log (log @ es) = ops_log (concat (opss @ [ops]))"
    "completions (log @ es) = concat (map op_completed (concat (opss @ [ops])))"
    "foldl status_step Running (log @ es) = foldl op_status Running (concat (opss @ [ops]))"
    using inv acc by (simp_all add: log_inv_def)
  moreover have "0 \<le> w_attempt w" using w(1) by (simp add: writer_ok_def)
  ultimately show ?thesis
    using False seqs ids att unfolding log_inv_def by (simp only: if_False) blast
qed

lemma log_inv_created:
  assumes "open_stream_events uuid clock st ctx = (created, w)" "ctx_ok ctx" "stream_plain st"
    "\<And>s. uuid s \<noteq> []"
  shows "log_inv uuid st [created] [] 0 (-1)"
    and "writer_ok w" "w_item_id w = ns_item_id st" "w_next_seq w = 2" "w_attempt w = 0"
proof -
  let ?ck = "item_id_to_string (ns_item_id st) @ nul # ''created''"
  let ?w = "\<lparr>w_item_id = ns_item_id st, w_root_item_id = root (ns_item_id st),
                w_parent_item_id = ns_parent_item_id st, w_context = ctx,
                w_next_seq = 2, w_attempt = 0, w_checkpoint_ordinal = 0\<rparr>"
  have w: "w = ?w" and c: "created = (base_event clock ?w (eid_of uuid ?w ?ck 0) 1 ?ck ItemCreated)
      \<lparr>status := Some Running, query_tags := ns_query_tags st\<rparr>"
    using assms(1) by (auto simp: open_stream_events_def take_seq_def wrap_simps in_i64_def Let_def)
  show wo: "writer_ok w" "w_item_id w = ns_item_id st" "w_next_seq w = 2" "w_attempt w = 0"
    using assms(2,3) by (simp_all add: w writer_ok_def ctx_ok_def stream_plain_def plain_root)
  have "valid created"
    using assms(2-4) by (simp add: c validate_Ok_iff ids_present_def type_payload_def base_event_def ctx_ok_def
        stream_plain_def plain_root item_id_to_string_nonempty datagen_event_id_def DATAGEN_SCHEMA_VERSION_def)
  moreover have "origin uuid (ns_item_id st) (-1) 1 created"
    by (auto simp: origin_def c)
  ultimately show "log_inv uuid st [created] [] 0 (-1)"
    by (simp add: log_inv_def c base_event_def is_field_def status_step_def ops_log_def)
qed

lemma log_inv_normal:
  assumes "log_inv uuid st log opss A B"
  shows "normalize_events log = Ok log"
proof -
  have "map item_seq log = map (\<lambda>k. 1 + int k) [0..<length log]" "distinct (map event_id log)"
    "\<forall>e \<in> set log. valid e \<and> item_id e = item_id_to_string (ns_item_id st)"
    using assms by (simp_all add: log_inv_def)
  then show ?thesis by (blast intro: normalize_normal normal_formI seqs_increasing)
qed

lemma initial_item_plain:
  assumes "stream_plain st" "item_id e0 = item_id_to_string (ns_item_id st)"
    "root_item_id e0 = item_id_to_string (root (ns_item_id st))"
    "parent_item_id e0 = map_option item_id_to_string (ns_parent_item_id st)"
  obtains it0 where "initial_item e0 = Ok it0" "fi_item_id it0 = ns_item_id st"
    "fi_root_item_id it0 = root (ns_item_id st)" "fi_parent_item_id it0 = ns_parent_item_id st"
  using assms by (cases "ns_parent_item_id st")
    (auto simp: initial_item_def stream_plain_def item_id_parse_to_string plain_root)

text \<open>
  Folding such a log succeeds exactly when no field is refused, and then yields the abstract account.
\<close>

lemma log_inv_fold:
  assumes inv: "log_inv uuid st log opss A B" and plain: "stream_plain st"
  obtains it0 where
    "fi_item_id it0 = ns_item_id st" "fi_root_item_id it0 = root (ns_item_id st)"
    "fi_parent_item_id it0 = ns_parent_item_id st" "fi_last_item_seq it0 = int (length log)"
    "fi_last_attempt it0 = A"
    "map cur_position (tr_ordered (fi_trajectory it0)) = concat (map op_completed (concat opss))"
    "fi_status it0 = foldl op_status Running (concat opss)"
    "\<And>b it. fold_datagen_events_with log b = Ok (Some it) \<longleftrightarrow>
       (\<forall>n. replay_field None (writes_of n (ops_log (concat opss))) = Some (bt_get (fi_fields it0) n)) \<and>
       it = project b it0"
    "(\<forall>n. replay_field None (writes_of n (ops_log (concat opss))) \<noteq> None) \<Longrightarrow>
       (\<forall>n. replay_field None (writes_of n (ops_log (concat opss))) = Some (bt_get (fi_fields it0) n))"
proof -
  from inv obtain e0 rest where log: "log = e0 # rest" and e0: "event_type e0 = ItemCreated"
    "item_id e0 = item_id_to_string (ns_item_id st)"
    "root_item_id e0 = item_id_to_string (root (ns_item_id st))"
    "parent_item_id e0 = map_option item_id_to_string (ns_parent_item_id st)"
    by (auto simp: log_inv_def)
  obtain i0 where i0: "initial_item e0 = Ok i0" "fi_item_id i0 = ns_item_id st"
    "fi_root_item_id i0 = root (ns_item_id st)" "fi_parent_item_id i0 = ns_parent_item_id st"
    using initial_item_plain [OF plain e0(2-4)] by blast
  note i0' = initial_item_Ok(3-9) [OF i0(1)]
  let ?it = "foldl item_step i0 log"
  have srt: "bt_sorted (fi_fields i0)" by (simp add: i0' bt.invar_empty)
  have get0: "bt_get (fi_fields i0) n = None" for n by (simp add: i0' bt.get_empty)
  have fl: "field_log log = ops_log (concat opss)" using inv by (simp add: log_inv_def)
  have acc: "accepts_all i0 log \<longleftrightarrow> (\<forall>n. replay_field None (writes_of n (ops_log (concat opss))) \<noteq> None)"
    unfolding accepts_all_iff [OF srt] get0 fl
    using inv plain i0(2) by (auto simp: log_inv_def item_id_parse_to_string stream_plain_def)
  have rep: "accepts_all i0 log \<Longrightarrow>
      replay_field None (writes_of n (ops_log (concat opss))) = Some (bt_get (fi_fields ?it) n)" for n
    using fields_replay [OF _ srt, of log n] by (simp add: fl get0)
  have "map item_seq log = map (\<lambda>k. 1 + int k) [0..<length log]" using inv by (simp add: log_inv_def)
  then have "item_seq ` set log = (\<lambda>k. 1 + int k) ` {0..<length log}"
    by (metis list.set_map set_upt)
  moreover have "fi_last_item_seq ?it = Max (item_seq ` set log)"
    unfolding foldl_item_step(4) foldl_max_Max i0' by (simp add: log)
  ultimately have "fi_last_item_seq ?it = Max ((\<lambda>k. 1 + int k) ` {0..<length log})" by simp
  also have "\<dots> = int (length log)"
    by (rule Max_eqI) (auto simp: log intro!: image_eqI [of _ _ "length log - 1"])
  finally have seq: "fi_last_item_seq ?it = int (length log)" .
  have "fi_last_attempt ?it = Max (attempt ` set log)"
    unfolding foldl_item_step(5) foldl_max_Max i0' by (simp add: log)
  also have "\<dots> = A" using inv by (intro Max_eqI) (auto simp: log_inv_def)
  finally have att: "fi_last_attempt ?it = A" .
  show thesis
  proof (rule that [of ?it])
    show "fold_datagen_events_with log b = Ok (Some it) \<longleftrightarrow>
       (\<forall>n. replay_field None (writes_of n (ops_log (concat opss))) = Some (bt_get (fi_fields ?it) n)) \<and>
       it = project b ?it" for b it
      unfolding fold_Some_iff log_inv_normal [OF inv] using log e0(1) i0(1) acc rep by auto
    show "map cur_position (tr_ordered (fi_trajectory ?it)) = concat (map op_completed (concat opss))"
      using inv by (simp add: foldl_item_step foldl_traj_step i0' log_inv_def completions_def
          cursor_of_def comp_def)
    show "fi_status ?it = foldl op_status Running (concat opss)"
      using inv by (simp add: foldl_item_step i0' log_inv_def)
  qed (use i0 seq att acc rep in \<open>simp_all add: foldl_item_step(1-3)\<close>)
qed

text \<open>Attempts are counted by the sessions that wrote something after the first one.\<close>

definition resumed_attempts :: "'j writer_op list list \<Rightarrow> int" where
  "resumed_attempts opss = int (length (filter (\<lambda>ops. ops \<noteq> []) (tl opss)))"

lemma wrap_i64_next: "0 \<le> wrap_i64 (x + 1) \<Longrightarrow> 0 \<le> x \<Longrightarrow> x < 2 ^ 63 \<Longrightarrow> wrap_i64 (x + 1) = x + 1"
proof (cases "x + 1 < 2 ^ 63")
  case False
  assume x: "0 \<le> wrap_i64 (x + 1)" "0 \<le> x" "x < 2 ^ 63"
  with False have "x + 1 = 2 ^ 63" by simp
  then have "wrap_i64 (x + 1) = wrap_i64 (2 ^ 63)" by simp
  also have "\<dots> = - (2 ^ 63)" by (simp add: wrap_i64_def)
  finally show ?thesis using x(1) by simp
qed (simp add: wrap_simps in_i64_def)

lemma stream_log_inv:
  assumes "stream_log uuid st log opss" "inj uuid" "\<And>s. uuid s \<noteq> []" "stream_plain st"
  shows "opss \<noteq> [] \<and> length log < 2 ^ 63 \<and> (\<exists>B. log_inv uuid st log opss (resumed_attempts opss) B)"
  using assms
proof (induction rule: stream_log.induct)
  case (fresh clock ctx created w ops es w')
  note c = log_inv_created [OF fresh(1,2) \<open>stream_plain st\<close> fresh(7)]
  have "log_inv uuid st ([created] @ es) ([] @ [ops]) (if ops = [] then 0 else w_attempt w)
      (if ops = [] then -1 else w_attempt w)"
    by (rule log_inv_extend [where clock = clock, OF c(1) fresh(6,7)]) (use c(2-5) fresh(3-5) in simp_all)
  moreover have "length es = ops_events ops"
    using ops_events_length [OF fresh(4), of uuid clock] fresh(5) by simp
  ultimately show ?case
    using c(4,5) fresh(4) by (cases "ops = []") (auto simp: resumed_attempts_def room_def)
next
  case (resumed log opss it ctx w ops clock es w')
  then obtain B where inv: "log_inv uuid st log opss (resumed_attempts opss) B" and ne: "opss \<noteq> []"
    and len: "length log < 2 ^ 63" by blast
  obtain it0 where it0: "fi_item_id it0 = ns_item_id st" "fi_root_item_id it0 = root (ns_item_id st)"
    "fi_parent_item_id it0 = ns_parent_item_id st" "fi_last_item_seq it0 = int (length log)"
    "fi_last_attempt it0 = resumed_attempts opss" and "it = project Lazy it0"
    by (rule log_inv_fold [OF inv resumed(12)]) (use resumed(2) in \<open>auto simp: fold_datagen_events_def\<close>)
  then have it: "fi_item_id it = ns_item_id st" "fi_root_item_id it = root (ns_item_id st)"
    "fi_parent_item_id it = ns_parent_item_id st" "fi_last_item_seq it = int (length log)"
    "fi_last_attempt it = resumed_attempts opss" by simp_all
  have A: "0 \<le> resumed_attempts opss" by (simp add: resumed_attempts_def)
  note wd = resumed(4) [unfolded resuming_writer_def writer_resume_def]
  have seq: "w_next_seq w = int (length log) + 1"
    using wrap_i64_next [of "int (length log)"] len resumed(7) it(4) by (simp add: wd room_def)
  have att: "w_attempt w = resumed_attempts opss + 1"
    using A resumed(5) it(5) by (simp add: wd wrap_simps in_i32_def)
  have wok: "writer_ok w" "w_item_id w = ns_item_id st"
    using it resumed(3,12) att A by (auto simp: wd writer_ok_def ctx_ok_def stream_plain_def plain_root)
  have "log_inv uuid st (log @ es) (opss @ [ops])
      (if ops = [] then resumed_attempts opss else w_attempt w) (if ops = [] then B else w_attempt w)"
    by (rule log_inv_extend [where clock = clock, OF inv resumed(10,11) wok seq])
      (use inv att resumed(6-8) in \<open>simp_all add: log_inv_def\<close>)
  moreover have "length es = ops_events ops"
    using ops_events_length [OF resumed(7), of uuid clock] resumed(8) by simp
  ultimately show ?case using ne att seq resumed(7)
    by (cases "ops = []") (auto simp: resumed_attempts_def room_def algebra_simps)
qed

end
