(* ===== verification/Datagen_Properties.thy ===== *)
theory Datagen_Properties
  imports Datagen_Resume Datagen_Tree
begin

text \<open>
  The correctness properties of the event-sourced checkpoint log of
  \<open>crates/lance-context-core/src/datagen.rs\<close>, with a small stream on which they are exercised: one
  item, opened, one step that sets a field and appends to another, and, after a resume, a second step
  and the terminal event.
\<close>

section \<open>A sample stream\<close>

definition sample_uuid :: uuid_fun where "sample_uuid s = CHR ''u'' # s"
definition sample_clock :: clock where "sample_clock s = 1700000000000000000 + s"
definition sample_item :: item_id where "sample_item = ItemId ''k1'' []"

definition sample_stream :: "nat new_stream" where
  "sample_stream = \<lparr>ns_item_id = sample_item, ns_parent_item_id = None, ns_query_tags = None\<rparr>"

definition sample_ctx :: write_context where
  "sample_ctx = \<lparr>ctx_run_id = ''r1'', ctx_writer_epoch = ''e1''\<rparr>"

definition sample_pos :: "int \<Rightarrow> stream_position" where
  "sample_pos n = \<lparr>pos_step = \<lparr>sid_name = ''s'', sid_kind = Leaf\<rparr>, pos_index = n,
     pos_enclosing = None, pos_selector = None\<rparr>"

definition sample_change :: "string \<Rightarrow> field_op \<Rightarrow> int \<Rightarrow> nat field_change" where
  "sample_change n op v = \<lparr>fc_name = n, fc_field_type = ''t'', fc_codec_version = 1, fc_op = op,
     fc_value = VInt v\<rparr>"

definition sample_ops :: "nat writer_op list" where
  "sample_ops = [OpCompleted (sample_pos 0) [sample_change ''f'' OpSet 1, sample_change ''g'' OpAppend 2]]"

definition sample_more :: "nat writer_op list" where
  "sample_more = [OpCompleted (sample_pos 1) [sample_change ''g'' OpAppend 3], OpTerminal TermCompleted]"

definition sample_created :: "nat event" where
  "sample_created = fst (open_stream_events sample_uuid sample_clock sample_stream sample_ctx)"

definition sample_writer :: writer where
  "sample_writer = snd (open_stream_events sample_uuid sample_clock sample_stream sample_ctx)"

definition sample_log :: "nat event list" where
  "sample_log = sample_created # fst (run_ops sample_uuid sample_clock sample_writer sample_ops)"

lemmas sample_defs = sample_uuid_def sample_clock_def sample_item_def sample_stream_def sample_ctx_def
  sample_pos_def sample_change_def sample_ops_def sample_more_def sample_created_def sample_writer_def

lemma sample_uuid_ok: "inj sample_uuid" "sample_uuid s \<noteq> []"
  by (simp_all add: sample_uuid_def inj_def)

lemma sample_writer_eq:
  "sample_writer = \<lparr>w_item_id = ItemId ''k1'' [], w_root_item_id = ItemId ''k1'' [], w_parent_item_id = None,
     w_context = sample_ctx, w_next_seq = 2, w_attempt = 0, w_checkpoint_ordinal = 0\<rparr>"
  by (simp add: sample_defs open_stream_events_def take_seq_def root_def wrap_simps in_i64_def Let_def)

lemma sample_plain: "plain_item_id sample_item" "stream_plain sample_stream"
  by (simp_all add: sample_defs plain_item_id_def plain_key_def stream_plain_def)

lemma sample_session:
  "writer_ok sample_writer" "list_all op_ok sample_ops"
  "room sample_writer (ops_events sample_ops) (ops_ordinals sample_ops)"
  by (simp_all add: sample_writer_eq writer_ok_def plain_item_id_def plain_key_def sample_ctx_def
      sample_ops_def sample_change_def sample_pos_def change_ok_def room_def ops_events_def ops_ordinals_def)

lemma sample_stream_log: "stream_log sample_uuid sample_stream sample_log [sample_ops]"
  unfolding sample_log_def
  by (rule stream_log.fresh [where clock = sample_clock and ctx = sample_ctx and
        w' = "snd (run_ops sample_uuid sample_clock sample_writer sample_ops)"])
    (use sample_session in \<open>simp_all add: sample_created_def sample_writer_def ctx_ok_def sample_ctx_def\<close>)

lemma sample_replay: "replay_field None (writes_of n (ops_log sample_ops)) \<noteq> None"
  by (auto simp: ops_log_def sample_ops_def sample_change_def)

lemma sample_folds: "\<exists>it. fold_datagen_events_with sample_log b = Ok (Some it)"
proof -
  obtain B where inv: "log_inv sample_uuid sample_stream sample_log [sample_ops] (resumed_attempts [sample_ops]) B"
    using stream_log_inv [OF sample_stream_log sample_uuid_ok sample_plain(2)] by blast
  show ?thesis
    by (rule log_inv_fold [OF inv sample_plain(2)]) (use sample_replay in auto)
qed

lemma sample_normal: "normalize_events sample_log = Ok sample_log"
  using stream_log_inv [OF sample_stream_log sample_uuid_ok sample_plain(2)] log_inv_normal by blast

lemma sample_groups: "bt_values (group_by_item sample_log) = [sample_log]"
proof -
  have "\<forall>e \<in> set sample_log. item_id e = item_id_to_string (ns_item_id sample_stream)"
    using stream_log_inv [OF sample_stream_log sample_uuid_ok sample_plain(2)] by (auto simp: log_inv_def)
  then show ?thesis
    using group_by_item_single [of sample_log] by (auto simp: bt_values_def sample_log_def)
qed

lemma sample_no_failures: "datagen_failures sample_log = Ok []"
proof -
  have "\<forall>e \<in> set (fst (run_ops sample_uuid sample_clock sample_writer sample_ops)). event_type e \<noteq> Failed"
    by (simp add: sample_ops_def sample_writer_eq step_completed_def compose_checkpoint_id_def take_seq_def
        sample_change_def Let_def)
  moreover have "event_type sample_created \<noteq> Failed"
    by (simp add: sample_created_def open_stream_events_def take_seq_def Let_def)
  ultimately have "filter (\<lambda>e. event_type e = Failed) sample_log = []"
    by (auto simp: sample_log_def filter_empty_conv)
  then show ?thesis by (simp add: datagen_failures_def sample_normal)
qed

section \<open>Identity\<close>

text \<open>
  An item id read back from its stored form is the id that was written, exactly when its key is
  non-empty and free of \<open>/\<close>, its step names are free of \<open>/\<close> and \<open>:\<close>, and its branch numbers are
  \<open>i64\<close>s.
\<close>

theorem item_id_round_trip: "item_id_parse (item_id_to_string i) = Ok i \<longleftrightarrow> plain_item_id i"
  using item_id_parse_to_string item_id_parse_plain by blast

text \<open>
  No two items with such ids share a stored id, so the events of one are never folded into the
  other: filtering a log by the stored id of \<open>i\<close> drops every event of \<open>j\<close>.
\<close>

theorem item_ids_never_collide:
  assumes "plain_item_id i" "plain_item_id j" "i \<noteq> j"
    and "\<forall>e \<in> set es. item_id e = item_id_to_string j"
  shows "filter (\<lambda>e. item_id e = item_id_to_string i) es = []"
  using assms item_id_to_string_inj by (metis (mono_tags, lifting) filter_False)

theorem item_ids_never_collide_witness:
  "filter (\<lambda>e. item_id e = item_id_to_string (child sample_item ''s'' 0)) [sample_created] = []"
proof (rule item_ids_never_collide [where j = sample_item])
  show "plain_item_id (child sample_item ''s'' 0)"
    by (simp add: sample_item_def child_def plain_item_id_def plain_key_def plain_segment_def in_i64_def)
  show "plain_item_id sample_item" by (rule sample_plain)
qed (simp_all add: child_def sample_defs open_stream_events_def take_seq_def Let_def)

text \<open>
  A source key that contains \<open>/\<close> is accepted when a stream is opened but the item cannot be read
  back: whatever else its log holds, folding it never yields the item that was opened.
\<close>

theorem slash_key_never_recovered:
  fixes st :: "'j new_stream"
  assumes "CHR ''/'' \<in> set key" "ns_item_id st = from_source_key key"
  shows "item_id_parse (item_id (fst (open_stream_events uuid clock st ctx))) \<noteq> Ok (ns_item_id st) \<and>
    (\<forall>es :: 'j event list. \<forall>b it. fold_datagen_events_with es b = Ok (Some it) \<longrightarrow> fi_item_id it \<noteq> ns_item_id st)"
proof -
  have bad: "\<not> plain_item_id (ns_item_id st)"
    using assms by (simp add: from_source_key_def plain_item_id_def plain_key_def)
  have "item_id (fst (open_stream_events uuid clock st ctx)) = item_id_to_string (ns_item_id st)"
    by (simp add: open_stream_events_def take_seq_def Let_def)
  with bad have "item_id_parse (item_id (fst (open_stream_events uuid clock st ctx))) \<noteq> Ok (ns_item_id st)"
    using item_id_parse_plain by fastforce
  with bad show ?thesis using fold_item_plain by metis
qed

theorem slash_key_never_recovered_witness:
  "item_id_parse (item_id (fst (open_stream_events sample_uuid sample_clock
     (sample_stream\<lparr>ns_item_id := from_source_key ''a/s:0''\<rparr>) sample_ctx))) \<noteq> Ok (from_source_key ''a/s:0'')"
  using slash_key_never_recovered [of "''a/s:0''" "sample_stream\<lparr>ns_item_id := from_source_key ''a/s:0''\<rparr>"
      sample_uuid sample_clock sample_ctx]
  by simp

section \<open>Writing\<close>

text \<open>
  What one writer session emits is well formed, whatever calls it makes: every event passes
  \<open>validate\<close>, carries the writer's item, attempt, run and epoch, the sequence numbers are the
  consecutive ones from the writer's position on, no two events share an id, and the writer is left
  just past them. The hypotheses are non-empty names, counters that do not run out of their width,
  and v5 UUIDs that do not collide.
\<close>

theorem writer_session_events:
  assumes "writer_ok w" "list_all op_ok ops" "room w (ops_events ops) (ops_ordinals ops)"
    and "inj uuid" "\<And>s. uuid s \<noteq> []" "run_ops uuid clock w ops = (es, w')"
  shows "(\<forall>e \<in> set es. valid e \<and> stamped w e) \<and>
    map item_seq es = map (\<lambda>k. w_next_seq w + int k) [0..<length es] \<and> distinct (map event_id es) \<and>
    w_next_seq w' = w_next_seq w + int (length es) \<and> w_attempt w' = w_attempt w"
proof -
  have es: "es = fst (run_ops uuid clock w ops)" and w': "w' = snd (run_ops uuid clock w ops)"
    using assms(6) by simp_all
  have len: "length es = ops_events ops" using ops_events_length [OF assms(3)] es by simp
  have "valid e" "stamped w e" if "e \<in> set es" for e
    using that run_ops_valid [of w ops uuid e clock] run_ops_stamped [OF assms(3)] assms(1-3,5) es by blast+
  moreover have "map item_seq es = map (\<lambda>k. w_next_seq w + int k) [0..<length es]"
    using run_ops_seqs [OF assms(3), of uuid clock] by (simp only: len) (simp only: es)
  moreover have "distinct (map event_id es)" unfolding es by (rule run_ops_distinct [OF assms(4,2,3)])
  moreover have "w' = writer_advance w (length es) (ops_ordinals ops)"
    unfolding w' len by (rule run_ops_writer [OF assms(3)])
  ultimately show ?thesis by simp
qed

theorem writer_session_events_witness:
  "distinct (map event_id (fst (run_ops sample_uuid sample_clock sample_writer sample_ops)))"
  using writer_session_events [OF sample_session sample_uuid_ok, of sample_clock] by (metis prod.collapse)

text \<open>
  Checkpoint ids of one item never repeat across attempts and calls: two of them agree only for
  the same attempt and the same ordinal within it, whatever the steps are called.
\<close>

theorem checkpoint_ids_unique:
  assumes "w_item_id w = w_item_id w'"
    and "fst (compose_checkpoint_id w pos) = fst (compose_checkpoint_id w' pos')"
  shows "w_attempt w = w_attempt w' \<and> w_checkpoint_ordinal w = w_checkpoint_ordinal w'"
  using assms checkpoint_string_inject by (auto simp: compose_checkpoint_id_def)

theorem checkpoint_ids_unique_witness:
  "w_attempt sample_writer = w_attempt (snd (take_seq sample_writer)) \<and>
   w_checkpoint_ordinal sample_writer = w_checkpoint_ordinal (snd (take_seq sample_writer))"
  by (rule checkpoint_ids_unique [of _ _ "sample_pos 0" "sample_pos 0"])
    (simp_all add: take_seq_def compose_checkpoint_id_def)

section \<open>Folding\<close>

text \<open>
  C12. A fold depends on which events the log holds and on nothing else: any other list with the same
  events, in any order and with any number of duplicates, folds to the same result under either blob
  projection, or both are refused. The events carry no NaN, which Rust does not find equal to itself, and
  events that compare equal are identical (they do not differ in the sign of a zero); events that reuse
  an id with other content are allowed, and refused in every order.
\<close>

theorem fold_order_independent:
  assumes "set es' = set es" "equal_is_same (set es)" "\<forall>e \<in> set es. \<not> event_nan e"
  shows "fold_datagen_events_with es b = Ok r \<longleftrightarrow> fold_datagen_events_with es' b = Ok r"
  by (rule fold_set_eq [OF assms])

theorem fold_order_independent_witness:
  "\<forall>r. fold_datagen_events_with (sample_created # [sample_created]) Lazy = Ok r \<longleftrightarrow>
   fold_datagen_events_with [sample_created] Lazy = Ok r"
  by (intro allI, rule fold_order_independent)
    (simp_all add: equal_is_same_def event_nan_def sample_defs open_stream_events_def take_seq_def Let_def)

text \<open>
  The positions a resuming writer continues from are the maxima over the whole log: the folded
  item's last sequence number and last attempt bound every event and are attained.
\<close>

theorem fold_resume_point:
  assumes "fold_datagen_events_with es b = Ok (Some it)"
  shows "fi_last_item_seq it = Max (item_seq ` set es) \<and> fi_last_attempt it = Max (attempt ` set es)"
  using fold_max_props [OF assms] by simp

theorem fold_resume_point_witness:
  "\<exists>it. fold_datagen_events_with sample_log Lazy = Ok (Some it) \<and>
     fi_last_item_seq it = Max (item_seq ` set sample_log)"
  using sample_folds [of Lazy] fold_resume_point by blast

text \<open>
  The trajectory lists the completed steps, one entry per completion in strictly increasing
  sequence order, and the sets of completed and started positions are those of the log.
\<close>

theorem fold_trajectory_exact:
  assumes "fold_datagen_events_with es b = Ok (Some it)"
  shows "set (tr_ordered (fi_trajectory it)) = cursor_of ` {e \<in> set es. event_type e = StepCompleted} \<and>
    sorted_wrt (<) (map cur_item_seq (tr_ordered (fi_trajectory it))) \<and>
    tr_completed (fi_trajectory it) = position_of ` {e \<in> set es. event_type e = StepCompleted} \<and>
    tr_started (fi_trajectory it) = position_of ` {e \<in> set es. event_type e = StepStarted}"
  using fold_trajectory [OF assms] by simp

theorem fold_trajectory_exact_witness:
  "\<exists>it. fold_datagen_events_with sample_log Lazy = Ok (Some it) \<and>
     tr_started (fi_trajectory it) = position_of ` {e \<in> set sample_log. event_type e = StepStarted}"
  using sample_folds [of Lazy] fold_trajectory_exact by blast

text \<open>
  A folded item is running, completed or filtered; a \<open>FAILED\<close> event never makes it failed, so a
  failed item stays resumable.
\<close>

theorem fold_status_never_failed:
  assumes "fold_datagen_events_with es b = Ok (Some it)"
  shows "fi_status it \<noteq> StatusFailed"
proof -
  from assms obtain e0 rest it0 where n: "normalize_events es = Ok (e0 # rest)"
    and i: "initial_item e0 = Ok it0" and it: "it = project b (foldl item_step it0 (e0 # rest))"
    unfolding fold_Some_iff by blast
  have "\<forall>e \<in> set (e0 # rest). valid e" using normalize_props(2,3) [OF n] by blast
  then have "foldl status_step Running (e0 # rest) \<noteq> StatusFailed"
    by (intro foldl_status_lifecycle) simp
  then show ?thesis unfolding it project_simps foldl_item_step initial_item_Ok(3) [OF i] .
qed

theorem fold_status_never_failed_witness:
  "\<exists>it. fold_datagen_events_with sample_log Lazy = Ok (Some it) \<and> fi_status it \<noteq> StatusFailed"
  using sample_folds [of Lazy] fold_status_never_failed by blast

text \<open>
  Fields: a value that reads as set is the one of the last write to the field and a later reader
  never sees an earlier one; a field that reads as appended holds the values of all writes to it, in
  log order, all of one kind and none of them a set.
\<close>

theorem fold_field_history:
  assumes "fold_datagen_events_with es Eager = Ok (Some it)" "normalize_events es = Ok os"
    and h: "h = writes_of name (field_log os)"
  shows "(bt_get (fi_fields it) name = None \<longleftrightarrow> h = []) \<and>
    (\<forall>v. bt_get (fi_fields it) name = Some (FSet v) \<longrightarrow> last h = (OpSet, v)) \<and>
    (\<forall>vs. bt_get (fi_fields it) name = Some (FAppended vs) \<longrightarrow>
       h = map (\<lambda>v. (OpAppend, v)) vs \<and> one_kind vs)"
proof -
  from assms(1,2) obtain e0 rest it0 where os: "os = e0 # rest" and i: "initial_item e0 = Ok it0"
    and acc: "accepts_all it0 os" and it: "it = foldl item_step it0 os"
    unfolding fold_Some_iff by (auto simp: project_def)
  have f0: "fi_fields it0 = []" by (rule initial_item_Ok(6) [OF i])
  have r: "replay_field None h = Some (bt_get (fi_fields it) name)"
    using fields_replay [OF acc, of name] unfolding it f0 h by (simp add: bt.invar_empty bt.get_empty)
  have "bt_get (fi_fields it) name = None \<longleftrightarrow> h = []"
    using r replay_field_None_iff [of h] by auto
  moreover have "last h = (OpSet, v)" if "bt_get (fi_fields it) name = Some (FSet v)" for v
  proof -
    have "h \<noteq> []" using r that by auto
    then show ?thesis using r that replay_FSet [of None h v] by simp
  qed
  moreover have "h = map (\<lambda>v. (OpAppend, v)) vs \<and> one_kind vs"
    if "bt_get (fi_fields it) name = Some (FAppended vs)" for vs
  proof -
    have rep: "replay_field None h = Some (Some (FAppended vs))" using r that by simp
    from replay_FAppended [OF this] have "map fst h = replicate (length h) OpAppend" "vs = map snd h" by simp_all
    then show ?thesis using append_history replay_kinds [OF rep] by blast
  qed
  ultimately show ?thesis by blast
qed

theorem fold_field_history_witness:
  "\<exists>it. fold_datagen_events_with sample_log Eager = Ok (Some it) \<and>
     (bt_get (fi_fields it) ''f'' = None \<longleftrightarrow> writes_of ''f'' (field_log sample_log) = [])"
  using sample_folds [of Eager] fold_field_history [OF _ sample_normal refl, of _ "''f''"] by blast

text \<open>
  The lazy and the eager projection fold to the same item but for the bytes of its blobs: one
  succeeds exactly when the other does, and the lazy result is the eager one with every blob's bytes
  dropped, sizes and checksums kept.
\<close>

theorem fold_projections_agree:
  "fold_datagen_events_with es Lazy = res_bind (fold_datagen_events_with es Eager) (\<lambda>r. Ok (map_option drop_blob_bytes r))"
proof (cases "normalize_events es")
  case (Inr os)
  show ?thesis
  proof (cases os)
    case (Cons e0 rest)
    show ?thesis
    proof (cases "initial_item e0")
      case i: (Inr it0)
      show ?thesis
        by (cases "fold_res apply_event it0 os") (use i Cons Inr in \<open>auto simp: fold_datagen_events_with_def\<close>)
    qed (use Cons Inr in \<open>auto simp: fold_datagen_events_with_def\<close>)
  qed (use Inr in \<open>simp add: fold_datagen_events_with_def\<close>)
qed (simp add: fold_datagen_events_with_def)

text \<open>
  Folding reports "never started" exactly when the log is consistent and does not begin, in
  sequence order, with \<open>ITEM_CREATED\<close>; so a log that does hold an \<open>ITEM_CREATED\<close>, but behind
  another event, is reported as never started too.
\<close>

theorem fold_never_started_iff:
  "fold_datagen_events_with es b = Ok None \<longleftrightarrow>
     (\<exists>os. normalize_events es = Ok os \<and> \<not> (os \<noteq> [] \<and> event_type (hd os) = ItemCreated))"
  unfolding fold_None_iff by (metis list.exhaust list.sel(1) list.distinct(1))

text \<open>
  C33. Replaying an event with a NaN value is not idempotent. Any log that is accepted with such an event in
  it is refused as "reused with different content" once the event is repeated anywhere later in the log,
  and so is every fold of it.
\<close>

theorem nan_event_not_idempotent:
  assumes "event_nan e" "normalize_events (xs @ e # ys @ zs) = Ok os"
  shows "normalize_events (xs @ e # ys @ e # zs) = Err (EventIdReused (event_id e)) \<and>
    fold_datagen_events_with (xs @ e # ys @ e # zs) b = Err (EventIdReused (event_id e))"
  using normalize_repeated_nan [OF assms] by (simp add: fold_datagen_events_with_def)

definition sample_nan :: "nat event" where
  "sample_nan = stamp_position (sample_created\<lparr>event_type := FieldSet, field_name := Some ''f'', field_type := Some ''t'',
     codec_version := Some 1, ev_value := Some (VFloat 0x7FF8000000000000)\<rparr>) (sample_pos 0)"

theorem nan_event_not_idempotent_witness:
  "normalize_events [sample_nan] = Ok [sample_nan] \<and>
   fold_datagen_events_with [sample_nan, sample_nan] Lazy = Err (EventIdReused (event_id sample_nan))"
proof -
  have "valid sample_nan" and nan: "event_nan sample_nan"
    by (simp_all add: sample_nan_def stamp_position_def base_event_def validate_Ok_iff type_payload_def has_field_def has_step_def ids_present_def
        none_or_empty_def event_nan_def f64_is_nan_def sample_defs open_stream_events_def take_seq_def Let_def
        item_id_to_string_def root_def datagen_event_id_def DATAGEN_SCHEMA_VERSION_def)
  then have ok: "normalize_events ([] @ sample_nan # [] @ []) = Ok [sample_nan]"
    using normalize_normal [of "[sample_nan]"] by (simp add: normal_form_def)
  show ?thesis using nan_event_not_idempotent [OF nan ok, of Lazy] ok by simp
qed

section \<open>Crash and resume\<close>

text \<open>
  C1. Resuming from the log alone loses nothing. Take any log a stream can leave behind: opened, driven
  through any calls, cut off, and any number of times folded, resumed by the writer that fold
  yields, and driven on. If the field writes are consistent, folding it succeeds and recovers exactly
  what the calls meant: each field holds the replay of all the changes made to it over all attempts,
  the trajectory is the sequence of completed steps, the status is that of the last terminal call, the
  last sequence number is the number of events, and the attempts are numbered by the sessions that
  wrote something.
\<close>

theorem resume_recovers_account:
  assumes "stream_log uuid st log opss" "inj uuid" "\<And>s. uuid s \<noteq> []" "stream_plain st"
    and "\<forall>n. replay_field None (writes_of n (ops_log (concat opss))) \<noteq> None"
  shows "\<exists>it. fold_datagen_events_with log Eager = Ok (Some it) \<and>
    fi_item_id it = ns_item_id st \<and> fi_parent_item_id it = ns_parent_item_id st \<and>
    (\<forall>n. replay_field None (writes_of n (ops_log (concat opss))) = Some (bt_get (fi_fields it) n)) \<and>
    map cur_position (tr_ordered (fi_trajectory it)) = concat (map op_completed (concat opss)) \<and>
    fi_status it = foldl op_status Running (concat opss) \<and>
    fi_last_item_seq it = int (length log) \<and> fi_last_attempt it = resumed_attempts opss"
proof -
  obtain B where inv: "log_inv uuid st log opss (resumed_attempts opss) B"
    using stream_log_inv [OF assms(1-4)] by blast
  show ?thesis
    by (rule log_inv_fold [OF inv assms(4)]) (use assms(5) in \<open>auto simp: project_def\<close>)
qed

theorem resume_recovers_account_witness:
  "\<exists>it. fold_datagen_events_with sample_log Eager = Ok (Some it) \<and> fi_last_item_seq it = int (length sample_log)"
  using resume_recovers_account [OF sample_stream_log sample_uuid_ok sample_plain(2)] sample_replay by auto

text \<open>
  C11. Every log a stream can leave behind, resumed or not, is in normal form: all events valid, the
  sequence numbers 1, 2, 3, ... without gap or repetition, and all event ids distinct, so a resumed
  attempt never collides with an earlier one.
\<close>

theorem resumed_log_well_formed:
  assumes "stream_log uuid st log opss" "inj uuid" "\<And>s. uuid s \<noteq> []" "stream_plain st"
  shows "(\<forall>e \<in> set log. valid e) \<and> map item_seq log = map (\<lambda>k. 1 + int k) [0..<length log] \<and>
    distinct (map event_id log) \<and> normalize_events log = Ok log"
proof -
  obtain B where inv: "log_inv uuid st log opss (resumed_attempts opss) B"
    using stream_log_inv [OF assms] by blast
  then show ?thesis using log_inv_normal [OF inv] by (simp add: log_inv_def)
qed

theorem resumed_log_well_formed_witness: "distinct (map event_id sample_log)"
  using resumed_log_well_formed [OF sample_stream_log sample_uuid_ok sample_plain(2)] by blast

section \<open>Trees and overviews\<close>

text \<open>
  C31. A tree is built from a log exactly if the events of each item fold; then it holds each item the log
  folds to, under its stored id and once, and nothing else: an item that never started is left out. The
  roots are the items whose parent is not in the tree and each node's children are the items that name it
  as parent, both in the order of \<open>DatagenItemId\<close> (root key, then steps with branch numbers compared as numbers).
  The ids of the log are in printed form.
\<close>

theorem tree_build_partitions:
  assumes "\<forall>e \<in> set es. canonical_id (item_id e)"
  shows "if \<forall>k \<in> item_id ` set es. \<exists>r. fold_datagen_events (filter (\<lambda>e. item_id e = k) es) = Ok r
    then \<exists>t. tree_build es = Ok t \<and> bt_sorted (tree_nodes t) \<and>
      (\<forall>k. map_option nd_item (bt_get (tree_nodes t) k) =
        (case fold_datagen_events (filter (\<lambda>e. item_id e = k) es) of Ok (Some it) \<Rightarrow> Some it | _ \<Rightarrow> None)) \<and>
      tree_roots t = sort (map fi_item_id
        (filter (\<lambda>it. \<forall>p. parent_key it = Some p \<longrightarrow> bt_get (tree_nodes t) p = None) (tree_items t))) \<and>
      (\<forall>k nd. bt_get (tree_nodes t) k = Some nd \<longrightarrow>
        nd_children nd = sort (map fi_item_id (filter (\<lambda>it. parent_key it = Some k) (tree_items t))))
    else \<exists>x. tree_build es = Err x"
proof (cases "tree_build es")
  case (Inl x)
  then show ?thesis using tree_build_exact(1) [OF assms] by auto
next
  case (Inr t)
  then show ?thesis using tree_build_exact(1) [OF assms] tree_build_exact(2-5) [OF assms Inr] by auto
qed

theorem tree_build_partitions_witness:
  "\<exists>t it. tree_build sample_log = Ok t \<and> fold_datagen_events sample_log = Ok (Some it) \<and>
     map_option nd_item (bt_get (tree_nodes t) (item_id_to_string (ns_item_id sample_stream))) = Some it"
proof -
  have same: "\<forall>e \<in> set sample_log. item_id e = item_id_to_string (ns_item_id sample_stream)"
    using stream_log_inv [OF sample_stream_log sample_uuid_ok sample_plain(2)] by (auto simp: log_inv_def)
  obtain it where it: "fold_datagen_events sample_log = Ok (Some it)"
    using sample_folds [of Lazy] by (auto simp: fold_datagen_events_def)
  have all: "filter (\<lambda>e. item_id e = item_id_to_string (ns_item_id sample_stream)) sample_log = sample_log" using same by simp
  have canon: "\<forall>e \<in> set sample_log. canonical_id (item_id e)"
    using same item_id_parse_to_string [of "ns_item_id sample_stream"] sample_plain(2)
    by (auto simp: canonical_id_def stream_plain_def)
  have "\<forall>k \<in> item_id ` set sample_log. \<exists>r. fold_datagen_events (filter (\<lambda>e. item_id e = k) sample_log) = Ok r"
    using same all it by auto
  with tree_build_partitions [OF canon] obtain t where t: "tree_build sample_log = Ok t"
    "\<And>k. map_option nd_item (bt_get (tree_nodes t) k) =
      (case fold_datagen_events (filter (\<lambda>e. item_id e = k) sample_log) of Ok (Some it) \<Rightarrow> Some it | _ \<Rightarrow> None)"
    by auto
  show ?thesis using t(1) it t(2) [of "item_id_to_string (ns_item_id sample_stream)"] all by auto
qed

text \<open>
  Grouping is lossless: each item's group is the sub-list of its events in log order, an item has
  a group exactly if it has an event, and the groups come in increasing id order.
\<close>

theorem group_by_item_lossless:
  "bt_get (group_by_item es) k =
     (if k \<in> item_id ` set es then Some (filter (\<lambda>e. item_id e = k) es) else None) \<and>
   bt_sorted (group_by_item es)"
  by (auto simp: group_by_item_get Let_def filter_empty_conv group_by_item_sorted)

text \<open>
  The counters of a run overview are consistent: every counted root item is running, completed or
  filtered; the failures add up both by error type and by run; and each run keeps at most five
  distinct sample items, with its own error-type counts adding up to its failures.
\<close>

theorem overview_counters_consistent:
  assumes "overview_build es = Ok ov"
  shows "ov_items ov = ov_running ov + ov_completed ov + ov_filtered ov \<and>
    bt_total (\<lambda>n. n) (ov_by_error_type ov) = ov_failures ov \<and>
    bt_total fb_failures (ov_by_run ov) = ov_failures ov \<and>
    (\<forall>r b. bt_get (ov_by_run ov) r = Some b \<longrightarrow>
       bt_total (\<lambda>n. n) (fb_by_error_type b) = fb_failures b \<and>
       length (fb_sample b) \<le> FAILURE_SAMPLE_LIMIT \<and> distinct (fb_sample b))"
  using overview_build_ok [OF assms] by (auto simp: overview_ok_def bucket_ok_def)

theorem overview_counters_consistent_witness:
  "\<exists>ov. overview_build sample_log = Ok ov \<and> ov_items ov = ov_running ov + ov_completed ov + ov_filtered ov"
proof -
  obtain it where "fold_datagen_events sample_log = Ok (Some it)"
    using sample_folds [of Lazy] by (auto simp: fold_datagen_events_def)
  then obtain ov where "overview_build sample_log = Ok ov"
    by (simp add: overview_build_def sample_groups overview_item_def sample_no_failures)
  from this overview_counters_consistent [OF this] show ?thesis by blast
qed

end
