(* ===== verification/Datagen_Store_Correct.thy ===== *)
theory Datagen_Store_Correct
  imports Datagen_Store Datagen_Properties
begin

text \<open>
  The correctness of the checkpoint store as a whole: what an append makes durable and what a read by
  item id returns, through batch validation, the row codec, the SQL filter, the column projection and
  the deduplicating scan, down to the fold of the decoded events.
\<close>

section \<open>Lemmas: folding what was stored\<close>

text \<open>An event as a scan returns it: the instant to the microsecond and, lazily, no blob bytes.\<close>

definition thin :: "blob_projection \<Rightarrow> 'j event \<Rightarrow> 'j event" where
  "thin b e = (truncate_ts e)\<lparr>ev_value := map_option (if b = Lazy then strip_value else id) (ev_value e)\<rparr>"

lemma kind_strip [simp]: "kind (strip_value v) = kind v" "is_blob (strip_value v) = is_blob v"
  "strip_value (strip_value v) = strip_value v"
  by (cases v; simp)+

lemma strip_state_idem [simp]: "strip_state (strip_state s) = strip_state s"
  by (cases s) simp_all

lemma project_idem [simp]: "project b (project b it) = project b it"
  by (simp add: project_def drop_blob_bytes_def comp_def case_prod_unfold)

lemma thin_fields [simp]:
  "event_id (thin b e) = event_id e" "item_id (thin b e) = item_id e" "item_seq (thin b e) = item_seq e"
  "root_item_id (thin b e) = root_item_id e" "parent_item_id (thin b e) = parent_item_id e"
  "event_type (thin b e) = event_type e" "attempt (thin b e) = attempt e" "status (thin b e) = status e"
  "query_tags (thin b e) = query_tags e" "field_name (thin b e) = field_name e"
  "ev_value (thin b e) = map_option (if b = Lazy then strip_value else id) (ev_value e)"
  "position_of (thin b e) = position_of e" "is_field (thin b e) = is_field e" "event_op (thin b e) = event_op e"
  by (simp_all add: thin_def truncate_ts_def position_of_def is_field_def event_op_def)

lemma valid_thin [simp]: "valid (thin b e) \<longleftrightarrow> valid e"
  by (cases "event_type e")
    (simp_all add: thin_def truncate_ts_def validate_Ok_iff type_payload_def has_field_def has_step_def
      ids_present_def)

lemma event_nan_thin [simp]: "event_nan (thin b e) \<longleftrightarrow> event_nan e"
proof (cases "ev_value e")
  case (Some v)
  then show ?thesis by (cases v) (auto simp: event_nan_def)
qed (simp add: event_nan_def)

lemma seq_key_thin [simp]: "seq_key (thin b e) = seq_key e"
  by (simp add: seq_key_def)

lemma check_windows_thin [simp]: "check_windows (map (thin b) es) = check_windows es"
  by (induction es rule: check_windows.induct) simp_all

lemma normal_form_thin:
  assumes "inj_on event_id (set os)"
  shows "normal_form (map (thin b) os) \<longleftrightarrow> normal_form os"
  using assms by (auto simp: normal_form_def comp_def inj_on_def)

lemma normalize_same_set:
  assumes "normalize_events es = Ok os" "same_content (set es)"
  shows "set os = set es"
proof -
  have "x \<in> set os" if x: "x \<in> set es" for x
  proof -
    obtain e' where "e' \<in> set os" "same_header x e'" using normalize_props(4) [OF assms(1)] x by blast
    moreover from this have "e' \<in> set es" "event_id e' = event_id x"
      using normalize_props(3) [OF assms(1)] same_header_fields(1) [of x e'] by auto
    ultimately show ?thesis using assms(2) x by (auto simp: same_content_def)
  qed
  then show ?thesis using normalize_props(3) [OF assms(1)] by blast
qed

lemma same_content_thin: "same_content S \<Longrightarrow> same_content (thin b ` S)"
  by (auto simp: same_content_def)

lemma same_content_inj: "same_content S \<Longrightarrow> inj_on event_id S"
  by (auto simp: same_content_def inj_on_def)

lemma normalize_thin:
  assumes "same_content (set es)" "\<forall>e \<in> set es. \<not> event_nan e"
  shows "normalize_events (map (thin b) es) = Ok os' \<longleftrightarrow> (\<exists>os. normalize_events es = Ok os \<and> os' = map (thin b) os)"
proof
  assume n: "normalize_events (map (thin b) es) = Ok os'"
  have "set os' = thin b ` set es"
    using normalize_same_set [OF n] same_content_thin [OF assms(1)] by simp
  moreover define os where "os = map (inv_into (set es) (thin b)) os'"
  have inj: "inj_on (thin b) (set es)"
    using same_content_inj [OF assms(1)] by (metis (no_types, lifting) inj_on_def thin_fields(1))
  ultimately have os: "map (thin b) os = os'" "set os = set es"
    by (auto simp: os_def f_inv_into_f inv_into_f_f image_image intro!: map_idI)
  have v: "\<forall>e \<in> set es. valid e" using normalize_props(2) [OF n] by simp
  have "normal_form os"
    using normalize_props(1) [OF n] normal_form_thin [of os b] same_content_inj [OF assms(1)] os by metis
  then have "normalize_events es = Ok os" using v assms(2) os(2) by (intro normalize_total) auto
  with os(1) [symmetric] show "\<exists>os. normalize_events es = Ok os \<and> os' = map (thin b) os" by blast
next
  assume "\<exists>os. normalize_events es = Ok os \<and> os' = map (thin b) os"
  then obtain os where n: "normalize_events es = Ok os" and os': "os' = map (thin b) os" by blast
  have s: "set os = set es" by (rule normalize_same_set [OF n assms(1)])
  have "normal_form os'"
    using normalize_props(1) [OF n] normal_form_thin [of os b] unfolding os' by (simp add: normal_form_def)
  then show "normalize_events (map (thin b) es) = Ok os'"
    using assms(2) s normalize_props(2) [OF n] os' by (intro normalize_total) auto
qed

definition state_map :: "blob_projection \<Rightarrow> 'j field_state \<Rightarrow> 'j field_state" where
  "state_map b = (if b = Lazy then strip_state else id)"

lemma project_fields_eq: "fi_fields (project b it) = map (\<lambda>(k, s). (k, state_map b s)) (fi_fields it)"
  by (simp add: project_def drop_blob_bytes_def state_map_def)

lemma write_field_map:
  "write_field op ((if b = Lazy then strip_value else id) v) (map_option (state_map b) s) =
     map_option (state_map b) (write_field op v s)"
  by (cases "(op, v, s)" rule: write_field.cases) (auto simp: state_map_def hd_map)

lemma bt_insert_map:
  "map (\<lambda>(k, s). (k, f s)) (bt_insert n x m) = bt_insert n (f x) (map (\<lambda>(k, s). (k, f s)) m)"
  by (induction n x m rule: bt_insert.induct) auto

lemma value_thin:
  assumes "valid e" "is_field e"
  shows "the (map_option (if b = Lazy then strip_value else id) (ev_value e)) =
    (if b = Lazy then strip_value else id) (the (ev_value e))"
  using assms by (auto simp: validate_Ok_iff type_payload_def has_field_def is_field_def)

lemma item_step_thin:
  assumes "valid e" "accepts it e"
  shows "item_step (project b it) (thin b e) = project b (item_step it e)"
proof -
  have "fields_step (fi_fields (project b it)) (thin b e) = fi_fields (project b (item_step it e))"
  proof (cases "is_field e")
    case True
    then have "write_field (event_op e) (the (ev_value e)) (bt_get (fi_fields it) (the (field_name e))) \<noteq> None"
      using assms(2) by (simp add: accepts_def)
    then show ?thesis
      using True unfolding project_fields_eq fields_step_def item_step_def
      by (auto simp: value_thin [OF assms(1)] write_field_map bt_get_strip bt_insert_map)
  qed (simp add: project_fields_eq fields_step_def item_step_def)
  moreover have "blobs_step m (thin b e) = blobs_step m e" for m
    by (cases "is_field e") (simp_all add: blobs_step_def value_thin [OF assms(1)])
  moreover have "status_step s (thin b e) = status_step s e" "traj_step tr (thin b e) = traj_step tr e" for s tr
    by (cases "event_type e"; simp add: status_step_def traj_step_def cursor_of_def)+
  moreover have "tags_step q (thin b e) = tags_step q e" for q by (auto simp: tags_step_def)
  ultimately show ?thesis
    by (intro folded_item.equality) (simp_all add: item_step_def)
qed

lemma accepts_thin:
  assumes "valid e"
  shows "accepts (project b it) (thin b e) \<longleftrightarrow> accepts it e"
  using value_thin [OF assms, of b] unfolding accepts_def project_fields_eq bt_get_strip thin_fields project_simps
  by (metis option.map_disc_iff write_field_map)

lemma accepts_all_thin:
  "\<forall>e \<in> set es. valid e \<Longrightarrow> accepts_all (project b it) (map (thin b) es) \<longleftrightarrow> accepts_all it es"
  "\<forall>e \<in> set es. valid e \<Longrightarrow> accepts_all it es \<Longrightarrow>
     foldl item_step (project b it) (map (thin b) es) = project b (foldl item_step it es)"
  by (induction es arbitrary: it) (auto simp: accepts_thin item_step_thin)

lemma initial_item_thin:
  "initial_item (thin b e) = initial_item e"
  "initial_item e = Ok it \<Longrightarrow> project b it = it"
  by (auto simp: initial_item_def project_def drop_blob_bytes_def)

lemma fold_thin:
  assumes "same_content (set es)" "\<forall>e \<in> set es. \<not> event_nan e"
  shows "fold_datagen_events_with (map (thin b) es) b = Ok r \<longleftrightarrow> fold_datagen_events_with es b = Ok r"
proof (cases r)
  case None
  show ?thesis unfolding None fold_None_iff normalize_thin [OF assms] by (auto simp: Cons_eq_map_conv)
next
  case (Some it)
  have body: "(accepts_all it0 (map (thin b) os) \<and> it = project b (foldl item_step it0 (map (thin b) os))) \<longleftrightarrow>
      (accepts_all it0 os \<and> it = project b (foldl item_step it0 os))"
    if "normalize_events es = Ok os" "initial_item (hd os) = Ok it0" for os it0
    using accepts_all_thin [where es = os and it = it0 and b = b] initial_item_thin(2) [OF that(2)]
      normalize_props(2,3) [OF that(1)]
    by (auto simp: subset_eq)
  have "fold_datagen_events_with (map (thin b) es) b = Ok (Some it) \<longleftrightarrow>
      (\<exists>os it0. normalize_events es = Ok os \<and> os \<noteq> [] \<and> event_type (hd os) = ItemCreated \<and>
         initial_item (hd os) = Ok it0 \<and> accepts_all it0 (map (thin b) os) \<and>
         it = project b (foldl item_step it0 (map (thin b) os)))"
    unfolding fold_Some_iff normalize_thin [OF assms]
    by (intro iffI; clarsimp simp: neq_Nil_conv initial_item_thin(1))
  also have "\<dots> \<longleftrightarrow> (\<exists>os it0. normalize_events es = Ok os \<and> os \<noteq> [] \<and> event_type (hd os) = ItemCreated \<and>
      initial_item (hd os) = Ok it0 \<and> accepts_all it0 os \<and> it = project b (foldl item_step it0 os))"
    using body by blast
  also have "\<dots> \<longleftrightarrow> fold_datagen_events_with es b = Ok (Some it)"
    unfolding fold_Some_iff by (auto simp: neq_Nil_conv)
  finally show ?thesis unfolding Some .
qed


section \<open>Lemmas: what a scan returns\<close>

definition stripped :: "'j event \<Rightarrow> 'j event" where
  "stripped e = e\<lparr>ev_value := map_option strip_value (ev_value e)\<rparr>"

definition row_content :: "'j codec \<Rightarrow> 'j event \<Rightarrow> content" where
  "row_content J e = content datagen_log_schema (event_cells J e)"

definition scan_columns :: "blob_projection \<Rightarrow> field_def list \<Rightarrow> string list option" where
  "scan_columns b sch = (if b = Lazy then Some (non_blob_columns sch) else None)"

lemma thin_stripped: "thin Lazy e = truncate_ts (stripped e)" "thin Eager e = truncate_ts e"
  by (simp_all add: thin_def stripped_def truncate_ts_def option.map_id)

lemma cell_at_update:
  "distinct (map fd_name sch) \<Longrightarrow> length r = length sch \<Longrightarrow> k < length sch \<Longrightarrow>
     cell_at sch (r[k := c]) n = (if n = fd_name (sch ! k) then Some c else cell_at sch r n)"
proof (induction sch r n arbitrary: k rule: cell_at.induct)
  case (1 f fs c' cs n)
  then show ?case by (cases k) (auto simp: nth_mem)
qed auto

lemma blob_column: "datagen_log_schema ! 24 = col ''value_blob'' DLargeBinary True"
  "distinct (map fd_name datagen_log_schema)" "length datagen_log_schema = 34" "length (event_cells J e) = 34"
  by (simp_all add: datagen_log_schema_def event_cells_def)

lemma event_cells_stripped: "event_cells J (stripped e) = (event_cells J e)[24 := CNull]"
proof (cases "ev_value e")
  case (Some v)
  then show ?thesis by (cases v) (simp_all add: event_cells_def stripped_def blob_of_def)
qed (simp add: event_cells_def stripped_def blob_of_def)

lemma row_content_stripped:
  "row_content J (stripped e) = row_content J e |` set (non_blob_columns datagen_log_schema)"
proof (rule ext)
  fix n
  have "cell_at datagen_log_schema (event_cells J e) n = None" if "n \<notin> fd_name ` set datagen_log_schema"
    using that cell_at_None [of "event_cells J e" datagen_log_schema n]
    by (simp add: blob_column field_with_name_None)
  then show "row_content J (stripped e) n = (row_content J e |` set (non_blob_columns datagen_log_schema)) n"
    by (auto simp: row_content_def content_def event_cells_stripped cell_at_update blob_column non_blob_columns_def
        restrict_map_def)
qed

lemma project_row_content:
  "project_content (scan_columns b datagen_log_schema) (row_content J e) =
     row_content J (if b = Lazy then stripped e else e)"
  by (simp add: project_content_def scan_columns_def row_content_stripped)

lemma row_content_key:
  "row_content J e ''event_id'' = Some (CUtf8 (event_id e))" "row_content J e ''item_id'' = Some (CUtf8 (item_id e))"
  "row_content J e ''root_item_id'' = Some (CUtf8 (root_item_id e))"
  by (simp_all add: row_content_def content_def datagen_log_schema_def event_cells_def)

lemma required_present:
  "collect_res (\<lambda>(n, t). column_as (project_fields (scan_columns b datagen_log_schema) datagen_log_schema) t n)
     required_columns = Ok (replicate 11 ())"
  by (cases b) (simp_all add: required_columns_def column_as_def scan_columns_def project_fields_def
      non_blob_columns_def datagen_log_schema_def field_with_name_def eval_nat_numeral)

text \<open>The events a store may hold: those its own write path accepts and can encode.\<close>

definition storable :: "'j codec \<Rightarrow> 'j event \<Rightarrow> bool" where
  "storable J e \<longleftrightarrow> valid e \<and> \<not> event_nan e \<and> micros_ok J (timestamp_micros (event_ts e))"

lemma decode_row:
  assumes "codec_ok J" "storable J e" "row_fits sch r"
    and "content sch r = project_content (scan_columns b datagen_log_schema) (row_content J e)"
  shows "row_to_event J sch r = Ok (thin b e)"
proof -
  let ?e = "if b = Lazy then stripped e else e"
  have t: "truncate_ts ?e = thin b e" by (cases b) (simp_all add: thin_stripped)
  moreover have "valid ?e"
    using assms(2) valid_thin [of b e] unfolding t [symmetric] by (simp add: truncate_ts_def storable_def)
  moreover have "micros_ok J (timestamp_micros (event_ts ?e))"
    using assms(2) by (simp add: storable_def stripped_def)
  ultimately have "row_to_event J datagen_log_schema (event_cells J ?e) = Ok (thin b e)"
    using row_round_trip [OF assms(1)] by metis
  moreover have "row_to_event J sch r = row_to_event J datagen_log_schema (event_cells J ?e)"
    using assms(4) unfolding project_row_content
    by (intro row_to_event_content [OF assms(3) row_fits_event]) (simp add: row_content_def)
  ultimately show ?thesis by simp
qed

lemma decode_batches:
  assumes "codec_ok J" "\<forall>e \<in> E. storable J e"
    and "list_all (\<lambda>bt. batch_ok bt \<and> b_schema bt = project_fields (scan_columns b datagen_log_schema) datagen_log_schema) bs"
    and "contents bs = project_content (scan_columns b datagen_log_schema) ` row_content J ` E"
  shows "\<exists>ess. collect_res (batch_to_events J) bs = Ok ess \<and> set (concat ess) = thin b ` E"
proof -
  let ?sch = "project_fields (scan_columns b datagen_log_schema) datagen_log_schema"
  define pick where "pick r = (SOME e. e \<in> E \<and> content ?sch r = project_content (scan_columns b datagen_log_schema) (row_content J e))" for r
  have pick: "pick r \<in> E \<and> content ?sch r = project_content (scan_columns b datagen_log_schema) (row_content J (pick r))"
    if "bt \<in> set bs" "r \<in> set (b_rows bt)" for bt r
  proof -
    have "content ?sch r \<in> contents bs" using that assms(3) by (auto simp: contents_def list_all_iff)
    then have "\<exists>e. e \<in> E \<and> content ?sch r = project_content (scan_columns b datagen_log_schema) (row_content J e)"
      unfolding assms(4) by blast
    then show ?thesis unfolding pick_def by (rule someI_ex)
  qed
  have row: "row_to_event J ?sch r = Ok (thin b e)"
    if "bt \<in> set bs" "r \<in> set (b_rows bt)" "e \<in> E"
      "content ?sch r = project_content (scan_columns b datagen_log_schema) (row_content J e)" for bt r e
    using that assms by (intro decode_row) (auto simp: batch_ok_def list_all_iff)
  have "batch_to_events J bt = Ok (map (\<lambda>r. thin b (pick r)) (b_rows bt))" if "bt \<in> set bs" for bt
    using that assms(3) row [OF that] pick [OF that]
    by (auto simp: batch_to_events_def required_present list_all_iff intro!: collect_res_map_Ok)
  then have c: "collect_res (batch_to_events J) bs = Ok (map (\<lambda>bt. map (\<lambda>r. thin b (pick r)) (b_rows bt)) bs)"
    by (rule collect_res_map_Ok)
  have "thin b e \<in> (\<Union>bt \<in> set bs. (\<lambda>r. thin b (pick r)) ` set (b_rows bt))" if "e \<in> E" for e
  proof -
    have "project_content (scan_columns b datagen_log_schema) (row_content J e) \<in> contents bs"
      using that unfolding assms(4) by blast
    then obtain bt r where r: "bt \<in> set bs" "r \<in> set (b_rows bt)"
      "content ?sch r = project_content (scan_columns b datagen_log_schema) (row_content J e)"
      using assms(3) by (auto simp: contents_def list_all_iff)
    then have "thin b e = thin b (pick r)" using row pick that by (metis Inr_inject)
    with r show ?thesis by blast
  qed
  with pick c show ?thesis by auto
qed

context lance_reads
begin

lemma scan_events_exact:
  assumes "key = ''event_id''" "CHR '' '' \<notin> set cn" "codec_ok J" "same_content E" "\<forall>e \<in> E. storable J e"
    and "table_schema L (sb_lance b) = datagen_log_schema" "visible (view (sb_lance b)) = row_content J ` E"
    and "lsm_scan L (sql_eq cn x) (scan_columns p datagen_log_schema) (sb_lance b) = Ok bs"
  shows "\<exists>es. scan_events L J (sql_eq cn x) (scan_columns p datagen_log_schema) b = Ok es \<and>
    set es = thin p ` {e \<in> E. row_content J e cn = Some (CUtf8 x)}"
proof -
  let ?cols = "scan_columns p datagen_log_schema" and ?E = "{e \<in> E. row_content J e cn = Some (CUtf8 x)}"
  have m: "matching (view (sb_lance b)) cn x = row_content J ` ?E"
    using assms(7) by (auto simp: matching_def)
  have "project_content ?cols c \<in> contents bs" if c: "c \<in> row_content J ` ?E" for c
  proof -
    obtain c' where c': "c' \<in> row_content J ` ?E" "c' ''event_id'' = c ''event_id''" "project_content ?cols c' \<in> contents bs"
      using scan_complete [OF assms(2,8)] c unfolding m assms(1) by blast
    then obtain e e' where "e \<in> ?E" "c = row_content J e" "e' \<in> ?E" "c' = row_content J e'" "event_id e' = event_id e"
      using c by (auto simp: row_content_key)
    then have "c' = c" using assms(4) by (auto simp: same_content_def)
    with c' show ?thesis by simp
  qed
  then have "contents bs = project_content ?cols ` row_content J ` ?E"
    using scan_sound [OF assms(2,8)] unfolding m by blast
  then obtain ess where "collect_res (batch_to_events J) bs = Ok ess" "set (concat ess) = thin p ` ?E"
    using decode_batches [OF assms(3), of ?E p bs] scan_batches [OF assms(2,8)] assms(5,6) by auto
  then show ?thesis by (simp add: scan_events_def assms(8))
qed


text \<open>Every fold by item id reads exactly the item's events.\<close>

lemma fold_item_exact:
  assumes "key = ''event_id''" "codec_ok J" "same_content (set E)" "\<forall>e \<in> set E. storable J e"
    and "table_schema L (sb_lance b) = datagen_log_schema" "visible (view (sb_lance b)) = row_content J ` set E"
    and "lsm_scan L (sql_eq ''item_id'' i) (scan_columns p datagen_log_schema) (sb_lance b) = Ok bs"
  shows "fold_item_with L J i p b = Ok lk \<longleftrightarrow>
    (\<exists>r. fold_datagen_events_with (filter (\<lambda>e. item_id e = i) E) p = Ok r \<and> lk = as_lookup r)"
proof -
  let ?E = "filter (\<lambda>e. item_id e = i) E"
  obtain es where es: "scan_events L J (sql_eq ''item_id'' i) (scan_columns p datagen_log_schema) b = Ok es"
    "set es = thin p ` set ?E"
    using scan_events_exact [OF assms(1) _ assms(2-7)] by (auto simp: row_content_key)
  have sc: "same_content (set ?E)" and nn: "\<forall>e \<in> set ?E. \<not> event_nan e"
    using assms(3,4) by (auto simp: same_content_def storable_def)
  have "fold_datagen_events_with es p = Ok r \<longleftrightarrow> fold_datagen_events_with (map (thin p) ?E) p = Ok r" for r
    using es(2) same_content_thin [OF sc, of p] nn by (intro fold_set_eq same_content_equal) auto
  then have f: "fold_datagen_events_with es p = Ok r \<longleftrightarrow> fold_datagen_events_with ?E p = Ok r" for r
    unfolding fold_thin [OF sc nn] .
  have "fold_item_with L J i p b =
      res_bind (res_map_err Invalid (fold_datagen_events_with es p)) (\<lambda>r. Ok (as_lookup r))"
    using es(1) assms(5)
    by (cases p) (simp_all add: fold_item_with_def events_for_item_def filtered_events_def events_with_blobs_def scan_columns_def)
  then show ?thesis using f by auto
qed

end


section \<open>Lemmas: writing\<close>

context lance_laws
begin

lemma merge_own_step:
  assumes "ok b"
  shows "step b (snd ((maybe_merge_own_shard L :: ('l, 'e, nat) base_io) b))"
proof -
  have "step b (snd ((merge_own_shard_if_ready L n :: ('l, 'e, nat) base_io) b))" for n
    unfolding merge_own_shard_if_ready_def prepare_merge_if_ready_def
  proof (rule io_bind_step [OF keeps_at [OF prepare_inner_keeps] step_order(2)])
    fix r b1
    assume p: "prepare_merge_if_ready_inner L n False b = ((Ok r :: ('e store_error, _) result), b1)"
    have g: "step b b1" by (rule keeps_at [OF prepare_inner_keeps p])
    show "step b1 (snd ((case r of None \<Rightarrow> io_return 0
        | Some (m, p) \<Rightarrow> io_bind (commit_merge L m p) (\<lambda>_. io_return (card (pm_generations p)) :: ('l, 'e, nat) base_io)) b1))"
    proof (cases r)
      case (Some mp)
      obtain m q where mp: "mp = (m, q)" by (cases mp)
      have "prepared_ok gen_of (view (sb_lance b1)) q"
        using prepare_inner_prepared [OF assms, where 'e = 'e] p unfolding Some mp by blast
      moreover have "ok b1" using g assms by (simp add: grows_def)
      ultimately show ?thesis
        using commit_step [of b1 q m, where 'e = 'e] unfolding Some mp 
        by (auto simp: snd_io_bind io_return_def split: prod.splits sum.splits)
    qed (simp add: io_return_def)
  qed
  then show ?thesis by (auto simp: maybe_merge_own_shard_def io_bind_def io_return_def)
qed


lemma append_outcome:
  assumes "ok b" "append L J es b = (r, b')"
  shows "ok b'" "seen b \<subseteq> seen b'" "kept b \<subseteq> kept b'" "r = Ok v \<Longrightarrow> row_content J ` set es \<subseteq> kept b'"
    "es \<noteq> [] \<Longrightarrow> validate_write_batch es = Err err \<Longrightarrow> r = Err err \<and> b' = b"
proof -
  let ?bt = "\<lparr>b_schema = datagen_log_schema, b_rows = map (event_cells J) es\<rparr>"
  let ?put = "put L [?bt] :: ('l, datagen_error, unit) base_io"
  have rows: "contents [?bt] = row_content J ` set es" by (auto simp: contents_def row_content_def)
  show "es \<noteq> [] \<Longrightarrow> validate_write_batch es = Err err \<Longrightarrow> r = Err err \<and> b' = b"
    using assms(2) by (simp add: append_def io_bind_def io_result_def)
  have "step b b' \<and> (r = Ok v \<longrightarrow> row_content J ` set es \<subseteq> kept b')"
  proof (cases "es = [] \<or> (\<exists>err. validate_write_batch es = Err err)")
    case True
    then show ?thesis
      using assms(2) by (cases "es = []") (auto simp: append_def base_version_def io_bind_def io_result_def)
  next
    case False
    then have body: "io_bind ?put (\<lambda>_. io_bind (maybe_merge_own_shard L) (\<lambda>_. base_version L)) b = (r, b')"
      using assms(2) by (cases "validate_write_batch es")
        (auto simp: append_def io_bind_def io_result_def events_to_batch_Ok)
    obtain r1 b1 where p: "?put b = (r1, b1)" by (cases "?put b")
    have s1: "step b b1" by (rule keeps_at [OF put_keeps p])
    then have ok1: "ok b1" using assms(1) by (simp add: grows_def)
    obtain r2 b2 where m: "(maybe_merge_own_shard L :: ('l, datagen_error, nat) base_io) b1 = (r2, b2)"
      by (cases "(maybe_merge_own_shard L :: ('l, datagen_error, nat) base_io) b1")
    have s2: "step b1 b2" using merge_own_step [OF ok1, where 'e = datagen_error] m by simp
    show ?thesis
    proof (cases r1)
      case (Inl e)
      then show ?thesis using body p s1 by (auto simp: io_bind_def)
    next
      case (Inr u)
      then have "contents [?bt] \<subseteq> kept b1" using put_durable_kept [OF assms(1)] p by blast
      moreover have b': "b' = b2" using body p m Inr by (cases r2) (auto simp: io_bind_def base_version_def)
      moreover have "kept b1 \<subseteq> kept b2" using s2 ok1 by (simp add: grows_def)
      moreover have "step b b2" by (rule grows_trans [OF s1 s2])
      ultimately show ?thesis unfolding rows by blast
    qed
  qed
  then show "ok b'" "seen b \<subseteq> seen b'" "kept b \<subseteq> kept b'" "r = Ok v \<Longrightarrow> row_content J ` set es \<subseteq> kept b'"
    using assms(1) by (auto simp: grows_def)
qed

end

section \<open>Properties\<close>

text \<open>
  C17. The row codec loses nothing but sub-microsecond time: a batch of valid events, encoded and
  decoded, gives back the events in order, with every kind of value, blob bytes included.
\<close>

theorem batch_round_trip:
  assumes "codec_ok J" "\<forall>e \<in> set es. valid e \<and> micros_ok J (timestamp_micros (event_ts e))"
  shows "res_bind (events_to_batch J es) (batch_to_events J) = Ok (map truncate_ts es)"
proof -
  have "collect_res (\<lambda>(n, t). column_as datagen_log_schema t n) required_columns = Ok (replicate 11 ())"
    using required_present [of Eager] by (simp add: scan_columns_def project_fields_def)
  then show ?thesis
    using assms by (simp add: events_to_batch_Ok batch_to_events_def collect_res_map collect_res_map_Ok row_round_trip)
qed


definition sample_codec :: "nat codec" where
  "sample_codec = \<lparr>json_to_string = show_nat, json_from_str = parse_nat, micros_ok = (\<lambda>_. True)\<rparr>"

lemma sample_codec_ok: "codec_ok sample_codec"
  by (simp add: codec_ok_def sample_codec_def)

definition sample_event :: "nat event" where
  "sample_event = \<lparr>event_id = ''e1'', item_id = ''k'', root_item_id = ''k'', parent_item_id = None, item_seq = 1,
     checkpoint_id = ''c'', event_type = ItemCreated, step_name = None, step_kind = None, step_index = None,
     enclosing_step = None, selector_step = None, attempt = 0, run_id = ''r'', writer_epoch = ''w'',
     field_name = None, field_type = None, codec_version = None, ev_value = None, query_tags = Some 7,
     status = None, error_type = None, error_dump = None, traceback = None, event_ts = 1700000000000000001,
     schema_version = DATAGEN_SCHEMA_VERSION\<rparr>"

lemma sample_event_ok: "valid sample_event" "storable sample_codec sample_event"
  by (simp_all add: storable_def sample_codec_def sample_event_def validate_Ok_iff type_payload_def has_field_def
      has_step_def ids_present_def none_or_empty_def event_nan_def DATAGEN_SCHEMA_VERSION_def)

theorem batch_round_trip_witness:
  "res_bind (events_to_batch sample_codec [sample_event]) (batch_to_events sample_codec) =
     Ok [sample_event\<lparr>event_ts := 1700000000000000000\<rparr>]"
proof -
  have "res_bind (events_to_batch sample_codec [sample_event]) (batch_to_events sample_codec) =
      Ok (map truncate_ts [sample_event])"
    by (rule batch_round_trip [OF sample_codec_ok]) (simp add: sample_event_ok(1), simp add: sample_codec_def)
  then show ?thesis by (simp add: truncate_ts_def timestamp_micros_def sample_event_def)
qed

text \<open>
  C13. Reading an item folds exactly its events. Over any table that holds the rows of a set of storable
  events, with distinct ids, whose scan succeeds, the fold of an item, lazy or eager, is the fold of the
  events whose item id is the one asked for, whatever characters it has and whatever else the log holds:
  the SQL literal, the projection, the row codec and the deduplicating scan lose and add nothing.
\<close>

theorem fold_item_reads_log:
  assumes "lance_reads L view gen_of ''event_id''" "codec_ok J" "same_content (set E)" "\<forall>e \<in> set E. storable J e"
    and "table_schema L (sb_lance b) = datagen_log_schema" "visible (view (sb_lance b)) = row_content J ` set E"
    and "lsm_scan L (sql_eq ''item_id'' i) (scan_columns p datagen_log_schema) (sb_lance b) = Ok bs"
  shows "fold_item_with L J i p b = Ok lk \<longleftrightarrow>
    (\<exists>r. fold_datagen_events_with (filter (\<lambda>e. item_id e = i) E) p = Ok r \<and> lk = as_lookup r)"
  using lance_reads.fold_item_exact [OF assms(1) refl assms(2-)] .

definition sample_store :: "table base" where
  "sample_store = \<lparr>sb_lance = sample_table\<lparr>tb_schema := datagen_log_schema,
       tb_base := [\<lparr>b_schema = datagen_log_schema, b_rows = [event_cells sample_codec sample_event]\<rparr>]\<rparr>,
     sb_writer = None, sb_seal_on_put = True, sb_merge_after = 1, sb_latest_schema = None, sb_pinned = None\<rparr>"

lemma sample_scan:
  "\<exists>bs. lsm_scan table_lance (sql_eq ''item_id'' ''k'') (scan_columns Eager datagen_log_schema) (sb_lance sample_store) = Ok bs"
proof -
  let ?c = "row_content sample_codec sample_event"
  have "row_of datagen_log_schema ?c = event_cells sample_codec sample_event"
    by (simp add: row_of_def row_content_def content_def datagen_log_schema_def event_cells_def sample_event_def blob_of_def)
  then show ?thesis
    using row_content_key(2) [of sample_codec sample_event] row_fits_event [of sample_codec sample_event]
    by (simp add: table_lance_def tb_scan_def parse_filter_eq sample_store_def sample_table_def tb_rows_def
        batch_rows_def project_fields_def scan_columns_def Let_def row_content_def)
qed

theorem fold_item_reads_log_witness:
  "\<forall>lk. fold_item_with table_lance sample_codec ''k'' Eager sample_store = Ok lk \<longleftrightarrow>
    (\<exists>r. fold_datagen_events_with [sample_event] Eager = Ok r \<and> lk = as_lookup r)"
proof
  fix lk
  obtain bs where bs: "lsm_scan table_lance (sql_eq ''item_id'' ''k'') (scan_columns Eager datagen_log_schema)
      (sb_lance sample_store) = Ok bs" using sample_scan by blast
  have E: "same_content (set [sample_event])" "\<forall>e \<in> set [sample_event]. storable sample_codec e"
    by (simp_all add: same_content_def sample_event_ok)
  have tb: "table_schema table_lance (sb_lance sample_store) = datagen_log_schema"
    "visible (table_view (sb_lance sample_store)) = row_content sample_codec ` set [sample_event]"
    by (simp_all add: table_lance_def sample_store_def sample_table_def visible_def table_view_def contents_def
        row_content_def v_flushed_def)
  from fold_item_reads_log [OF table.lance_reads_axioms sample_codec_ok E tb bs]
  show "fold_item_with table_lance sample_codec ''k'' Eager sample_store = Ok lk \<longleftrightarrow>
    (\<exists>r. fold_datagen_events_with [sample_event] Eager = Ok r \<and> lk = as_lookup r)"
    by (simp add: sample_event_def)
qed


text \<open>
  C14. Appending events never loses or hides a row; if it reports success all its events are durable; and
  a batch the validation refuses is reported with that error and leaves the store untouched.
\<close>

theorem append_safe:
  assumes "lance_laws L view gen_of" "view_ok gen_of (view (sb_lance b))" "append L J es b = (r, b')"
  shows "visible (view (sb_lance b)) \<subseteq> visible (view (sb_lance b')) \<and>
    durable (view (sb_lance b)) \<subseteq> durable (view (sb_lance b')) \<and>
    (\<forall>v. r = Ok v \<longrightarrow> row_content J ` set es \<subseteq> durable (view (sb_lance b'))) \<and>
    (\<forall>err. es \<noteq> [] \<and> validate_write_batch es = Err err \<longrightarrow> r = Err err \<and> b' = b)"
  using lance_laws.append_outcome [OF assms] by blast

lemma sample_write_ok: "validate_write_batch [sample_event] = Ok ()"
  by (simp add: validate_write_batch_iff sample_event_ok blob_ok_def) (simp add: sample_event_def)

lemma sample_store_ok: "view_ok path_gen (table_view (sb_lance sample_store))"
  by (simp add: sample_store_def sample_table_def table_view_def view_ok_def v_flushed_def)

theorem append_safe_witness:
  "durable (table_view (sb_lance sample_store)) \<subseteq>
   durable (table_view (sb_lance (snd (append table_lance sample_codec [sample_event] sample_store))))"
  using append_safe [OF table.lance_laws_axioms sample_store_ok prod.collapse [symmetric]] by blast

text \<open>
  What the writer emits for a completed step is a checkpoint the store accepts: the field events and
  the completion marker share item, checkpoint, run, epoch, attempt and step, there is exactly one
  marker, ids and sequence numbers do not clash, and every event is valid.
\<close>

theorem step_batch_accepted:
  assumes "writer_ok w" "inj uuid" "\<And>s. uuid s \<noteq> []" "op_ok (OpCompleted pos fs)" "room w (Suc (length fs)) 1"
    and "\<forall>c \<in> set fs. \<forall>b. fc_value c = VBlob b \<longrightarrow>
      (\<exists>bytes. blob_bytes b = Some bytes \<and> blob_size b = int (length bytes))"
  shows "validate_checkpoint_batch (fst (step_completed uuid clock w pos fs)) = Ok ()"
proof -
  let ?x = "OpCompleted pos fs :: 'a writer_op"
  let ?es = "fst (step_completed uuid clock w pos fs)"
  have es: "fst (run_op uuid clock w ?x) = ?es" and r: "room w (op_events ?x) (op_ordinals ?x)"
    using assms(5) by (simp_all add: case_prod_unfold)
  note shape = step_completed_room [OF assms(5), of uuid clock pos]
  have st: "stamped w e" and v: "valid e" if "e \<in> set ?es" for e
    using run_op_stamped [OF r] run_op_valid [OF assms(1,4) r assms(3)] that es by auto
  have ck: "checkpoint_id e = step_ck w pos" "position_of e = pos" "blob_ok e"
    "event_type e \<in> {FieldSet, FieldAppend, StepCompleted}" if "e \<in> set ?es" for e
    using that assms(6) by (auto simp: shape blob_ok_def all_set_conv_all_nth position_of_def field_event_def split: field_op.splits)
  have "same_step a e" if "a \<in> set ?es" "e \<in> set ?es" for a e
    using that by (auto simp: shape same_step_def field_event_def)
  moreover have "same_checkpoint a e" if "a \<in> set ?es" "e \<in> set ?es" for a e
    using st [OF that(1)] st [OF that(2)] ck(1) that by (simp add: same_checkpoint_def stamped_def)
  moreover have "\<exists>c. filter (\<lambda>e. event_type e = StepCompleted) ?es = [c] \<and> c \<in> set ?es"
    by (auto simp: shape filter_empty_conv split: field_op.splits)
  moreover have "sorted_wrt compatible ?es"
  proof -
    have "distinct (map event_id ?es)" using run_op_distinct [OF assms(2,4) r] es by metis
    moreover have "distinct (map item_seq ?es)"
      unfolding es [symmetric] run_op_seqs [OF r] by (auto simp: distinct_map inj_on_def)
    ultimately show ?thesis
      by (auto simp: sorted_wrt_iff_nth_less compatible_def distinct_conv_nth nth_eq_iff_index_eq)
  qed
  ultimately show ?thesis
    using v ck by (auto simp: validate_checkpoint_batch_iff validate_write_batch_iff)
qed

theorem step_batch_accepted_witness:
  "validate_checkpoint_batch (fst (step_completed sample_uuid sample_clock sample_writer (sample_pos 0)
     [sample_change ''f'' OpSet 1])) = Ok ()"
  by (rule step_batch_accepted)
    (simp_all add: sample_uuid_ok sample_writer_eq writer_ok_def sample_defs plain_item_id_def plain_key_def
      change_ok_def room_def in_i64_def)

text \<open>
  A quoted value cannot break out of its SQL literal: reading the escaped text up to its closing
  quote, the way SQL reads a literal, gives back exactly the value, whatever characters it has.
\<close>

theorem sql_literal_round_trip: "read_literal (escape_sql_literal v @ [CHR 0x27]) = Some v"
  by (rule read_literal_escape)


text \<open>
  A field that was appended to can be set: \<open>FIELD_SET\<close> after \<open>FIELD_APPEND\<close> is accepted whatever the
  kinds, and replaces the list; only the opposite order is refused. The field's blob id is left as it
  was when the new value is no blob, so \<open>load_blob\<close> then still finds the bytes of the replaced value.
\<close>

theorem append_then_set_accepted:
  assumes "bt_sorted (fi_fields it)" "bt_get (fi_fields it) n = Some (FAppended vs)" "field_name e = Some n"
    and "ev_value e = Some v" "\<not> is_blob v" "bt_get (fi_blob_event_ids it) n = Some old"
  shows "\<exists>it'. apply_field_set it e = Ok it' \<and> bt_get (fi_fields it') n = Some (FSet v) \<and>
    load_blob get_blob it' n = get_blob old"
  using assms bt_get_insert [of "fi_fields it" n "FSet v" n]
  by (auto simp: apply_field_set_def record_blob_event_id_def load_blob_def)

theorem append_then_set_accepted_witness:
  "\<exists>it'. apply_field_set \<lparr>fi_item_id = sample_item, fi_root_item_id = sample_item, fi_parent_item_id = None,
       fi_status = Running, fi_last_item_seq = 1, fi_last_attempt = 0,
       fi_fields = [(''f'', FAppended [VBlob \<lparr>blob_bytes = None, blob_size = 3, blob_checksum = None\<rparr>])],
       fi_trajectory = \<lparr>tr_ordered = [], tr_completed = {}, tr_started = {}\<rparr>, fi_query_tags = None,
       fi_blob_event_ids = [(''f'', ''e0'')]\<rparr>
     (sample_event\<lparr>event_type := FieldSet, field_name := Some ''f'', ev_value := Some (VInt 1)\<rparr>) = Ok it' \<and>
   bt_get (fi_fields it') ''f'' = Some (FSet (VInt 1)) \<and> load_blob (\<lambda>i. Ok (Some [1])) it' ''f'' = (Ok (Some [1]) :: (unit, _) result)"
  by (rule append_then_set_accepted) (simp_all add: bt_sorted_def bt_get_def)

end
