(* ===== verification/Generic_Schema.thy ===== *)
theory Generic_Schema
  imports Arrow
begin

text \<open>
  User-declared schemas, \<open>crates/lance-context-api/src/schema_spec.rs\<close>: column types and specs, the
  validation that stands between a caller's declaration and the storage layer, the default scan
  projection, and the mapping to an Arrow schema with the key column first.
\<close>

section \<open>Declarations\<close>

datatype column_type =
    ColString bool
  | ColInt32 | ColInt64 | ColFloat32 | ColFloat64 | ColBool | ColTimestamp
  | ColBinary bool
  | ColVector int "string option"
  | ColList column_type

record column_spec =
  cs_type :: column_type
  cs_nullable :: bool

record schema_spec =
  ss_columns :: "(string \<times> column_spec) list"

datatype schema_error =
    NoColumns
  | TooManyColumns nat
  | EmptyColumnName
  | DuplicateColumn string
  | ReservedColumn string
  | VectorDimension string int
  | UnknownMetric string string
  | NestedList string
  | ListOfVectors string
  | MissingIdColumn
  | IdNotString column_type
  | IdNullable
  | ExpectFailed

definition ID_COLUMN :: string where "ID_COLUMN = ''id''"
definition UNENFORCED_PRIMARY_KEY :: string where "UNENFORCED_PRIMARY_KEY = ''lance-schema:unenforced-primary-key''"
definition DISTANCE_METRIC_KEY :: string where "DISTANCE_METRIC_KEY = ''lance-context:distance_metric''"
definition BLOB_COLUMN_KEY :: string where "BLOB_COLUMN_KEY = ''lance-context:blob''"
definition RESERVED_COLUMNS :: "string list" where
  "RESERVED_COLUMNS = [''_rowid'', ''_rowaddr'', ''_mem_wal'', ''_distance'']"
definition VALID_METRICS :: "string list" where
  "VALID_METRICS = [''l2'', ''euclidean'', ''cosine'', ''dot'', ''dot_product'']"
definition MAX_COLUMNS :: nat where "MAX_COLUMNS = 1024"

definition column_new :: "column_type \<Rightarrow> column_spec" where
  "column_new t = \<lparr>cs_type = t, cs_nullable = True\<rparr>"

definition column_required :: "column_type \<Rightarrow> column_spec" where
  "column_required t = \<lparr>cs_type = t, cs_nullable = False\<rparr>"

definition is_blob_column :: "column_spec \<Rightarrow> bool" where
  "is_blob_column c \<longleftrightarrow> cs_type c = ColBinary True"

definition column :: "schema_spec \<Rightarrow> string \<Rightarrow> column_spec option" where
  "column sp n = map_option snd (find (\<lambda>c. fst c = n) (ss_columns sp))"

definition blob_columns :: "schema_spec \<Rightarrow> string set" where
  "blob_columns sp = fst ` set (filter (\<lambda>c. is_blob_column (snd c)) (ss_columns sp))"

definition scan_columns :: "schema_spec \<Rightarrow> string list" where
  "scan_columns sp = map fst (filter (\<lambda>c. \<not> is_blob_column (snd c)) (ss_columns sp))"

definition vector_columns :: "schema_spec \<Rightarrow> (string \<times> int) list" where
  "vector_columns sp =
     List.map_filter (\<lambda>(n, c). case cs_type c of ColVector dim _ \<Rightarrow> Some (n, dim) | _ \<Rightarrow> None) (ss_columns sp)"

section \<open>Validation\<close>

definition to_ascii_lowercase :: "string \<Rightarrow> string" where
  "to_ascii_lowercase s =
     map (\<lambda>c. if 65 \<le> (of_char c :: nat) \<and> (of_char c :: nat) \<le> 90 then char_of (of_char c + 32 :: nat) else c) s"

definition validate_column_type :: "string \<Rightarrow> column_type \<Rightarrow> (schema_error, unit) result" where
  "validate_column_type name t =
     (case t of
        ColVector dim metric \<Rightarrow>
          if dim \<le> 0 then Err (VectorDimension name dim)
          else (case metric of
            Some m \<Rightarrow> if to_ascii_lowercase m \<in> set VALID_METRICS then Ok () else Err (UnknownMetric name m)
          | None \<Rightarrow> Ok ())
      | ColList item \<Rightarrow>
          (case item of
            ColList _ \<Rightarrow> Err (NestedList name)
          | ColVector _ _ \<Rightarrow> Err (ListOfVectors name)
          | _ \<Rightarrow> Ok ())
      | _ \<Rightarrow> Ok ())"

fun validate_columns :: "string set \<Rightarrow> (string \<times> column_spec) list \<Rightarrow> (schema_error, unit) result" where
  "validate_columns seen [] = Ok ()"
| "validate_columns seen ((name, spec) # cs) =
     (if name = [] then Err EmptyColumnName
      else if name \<in> seen then Err (DuplicateColumn name)
      else if hd name = CHR ''_'' \<or> name \<in> set RESERVED_COLUMNS then Err (ReservedColumn name)
      else res_bind (validate_column_type name (cs_type spec)) (\<lambda>_. validate_columns (insert name seen) cs))"

definition validate_spec :: "schema_spec \<Rightarrow> (schema_error, unit) result" where
  "validate_spec sp =
     (if ss_columns sp = [] then Err NoColumns
      else if MAX_COLUMNS < length (ss_columns sp) then Err (TooManyColumns (length (ss_columns sp)))
      else res_bind (validate_columns {} (ss_columns sp)) (\<lambda>_.
        case column sp ID_COLUMN of
          None \<Rightarrow> Err MissingIdColumn
        | Some c \<Rightarrow>
            (case cs_type c of
              ColString _ \<Rightarrow> if cs_nullable c then Err IdNullable else Ok ()
            | t \<Rightarrow> Err (IdNotString t))))"

section \<open>The Arrow schema\<close>

record meta_field = field_def +
  fd_metadata :: "string \<rightharpoonup> string"

record arrow_schema =
  as_fields :: "meta_field list"
  as_metadata :: "string \<rightharpoonup> string"

fun arrow_data_type :: "column_type \<Rightarrow> data_type" where
  "arrow_data_type (ColString False) = DUtf8"
| "arrow_data_type (ColString True) = DLargeUtf8"
| "arrow_data_type ColInt32 = DInt32"
| "arrow_data_type ColInt64 = DInt64"
| "arrow_data_type ColFloat32 = DFloat32"
| "arrow_data_type ColFloat64 = DFloat64"
| "arrow_data_type ColBool = DBoolean"
| "arrow_data_type ColTimestamp = DTimestampMicros"
| "arrow_data_type (ColBinary _) = DLargeBinary"
| "arrow_data_type (ColVector dim _) = DFixedSizeList DFloat32 dim"
| "arrow_data_type (ColList item) = DList (arrow_data_type item)"

definition arrow_field :: "string \<Rightarrow> column_spec \<Rightarrow> meta_field" where
  "arrow_field name spec =
     (let m1 = (if name = ID_COLUMN then Map.empty(UNENFORCED_PRIMARY_KEY \<mapsto> ''true'') else Map.empty);
          m2 = (if is_blob_column spec then m1(BLOB_COLUMN_KEY \<mapsto> ''true'') else m1)
      in \<lparr>fd_name = name, fd_type = arrow_data_type (cs_type spec), fd_nullable = cs_nullable spec, fd_metadata = m2\<rparr>)"

definition metric_metadata :: "(string \<times> column_spec) list \<Rightarrow> string \<rightharpoonup> string" where
  "metric_metadata cs = foldl (\<lambda>m (name, spec).
     case cs_type spec of
       ColVector _ metric \<Rightarrow>
         m(DISTANCE_METRIC_KEY @ '':'' @ name \<mapsto> (case metric of Some x \<Rightarrow> x | None \<Rightarrow> ''l2''))
     | _ \<Rightarrow> m) Map.empty cs"

definition to_arrow :: "schema_spec \<Rightarrow> (schema_error, arrow_schema) result" where
  "to_arrow sp =
     res_bind (validate_spec sp) (\<lambda>_.
     res_bind (ok_or ExpectFailed (column sp ID_COLUMN)) (\<lambda>i.
     Ok \<lparr>as_fields = arrow_field ID_COLUMN i #
           map (\<lambda>(name, spec). arrow_field name spec) (filter (\<lambda>c. fst c \<noteq> ID_COLUMN) (ss_columns sp)),
         as_metadata = metric_metadata (ss_columns sp)\<rparr>))"

text \<open>The schema of the batches of a table: its fields without their metadata.\<close>

definition plain_fields :: "arrow_schema \<Rightarrow> field_def list" where
  "plain_fields s = map field_def.truncate (as_fields s)"

section \<open>Lemmas\<close>

definition column_type_ok :: "column_type \<Rightarrow> bool" where
  "column_type_ok t \<longleftrightarrow> (case t of
     ColVector dim metric \<Rightarrow> 0 < dim \<and> (case metric of None \<Rightarrow> True | Some m \<Rightarrow> to_ascii_lowercase m \<in> set VALID_METRICS)
   | ColList (ColList _) \<Rightarrow> False
   | ColList (ColVector _ _) \<Rightarrow> False
   | _ \<Rightarrow> True)"

definition column_ok :: "string \<times> column_spec \<Rightarrow> bool" where
  "column_ok c \<longleftrightarrow> fst c \<noteq> [] \<and> hd (fst c) \<noteq> CHR ''_'' \<and> column_type_ok (cs_type (snd c))"

definition spec_ok :: "schema_spec \<Rightarrow> bool" where
  "spec_ok sp \<longleftrightarrow> length (ss_columns sp) \<le> MAX_COLUMNS \<and> distinct (map fst (ss_columns sp)) \<and>
     list_all column_ok (ss_columns sp) \<and>
     (\<exists>large. (ID_COLUMN, column_required (ColString large)) \<in> set (ss_columns sp))"

lemma column_type_ok_iff: "validate_column_type n t = Ok () \<longleftrightarrow> column_type_ok t"
  by (auto simp: validate_column_type_def column_type_ok_def split: column_type.split option.split)

lemma column_Some:
  assumes "distinct (map fst (ss_columns sp))"
  shows "column sp n = Some c \<longleftrightarrow> (n, c) \<in> set (ss_columns sp)"
proof -
  have "map_option snd (find (\<lambda>c. fst c = n) xs) = map_of xs n" for xs :: "(string \<times> column_spec) list"
    by (induction xs) auto
  then show ?thesis unfolding column_def using assms by (simp add: map_of_eq_Some_iff)
qed

lemma validate_columns_iff:
  "validate_columns seen cs = Ok () \<longleftrightarrow> list_all column_ok cs \<and> distinct (map fst cs) \<and> fst ` set cs \<inter> seen = {}"
proof (induction seen cs rule: validate_columns.induct)
  case (2 seen name spec cs)
  have "name \<in> set RESERVED_COLUMNS \<Longrightarrow> hd name = CHR ''_''" by (auto simp: RESERVED_COLUMNS_def)
  with 2 show ?case by (auto simp: column_ok_def column_type_ok_iff)
qed simp

lemma column_spec_eq: "c = column_required t \<longleftrightarrow> cs_type c = t \<and> \<not> cs_nullable c" for c :: column_spec
  by (cases c) (auto simp: column_required_def)

lemma validate_spec_iff: "validate_spec sp = Ok () \<longleftrightarrow> spec_ok sp"
proof -
  have "validate_spec sp = Ok () \<longleftrightarrow> spec_ok sp" if d: "distinct (map fst (ss_columns sp))"
    unfolding validate_spec_def spec_ok_def validate_columns_iff res_bind_Ok_iff
      column_Some [OF d, symmetric]
    using d by (cases "column sp ID_COLUMN"; cases "ss_columns sp")
      (auto simp: validate_columns_iff column_spec_eq column_def split: column_type.splits)
  moreover have "validate_spec sp \<noteq> Ok ()" if "\<not> distinct (map fst (ss_columns sp))"
    using that by (auto simp: validate_spec_def validate_columns_iff)
  ultimately show ?thesis by (auto simp: spec_ok_def)
qed

lemma spec_id: "spec_ok sp \<Longrightarrow> \<exists>large. column sp ID_COLUMN = Some (column_required (ColString large))"
  by (auto simp: spec_ok_def column_Some)

lemma spec_distinct: "spec_ok sp \<Longrightarrow> distinct (map fst (ss_columns sp))"
  by (simp add: spec_ok_def)

end
