(* ===== verification/Generic_Codec.thy ===== *)
theory Generic_Codec
  imports Generic_Schema
begin

text \<open>
  The schema-driven codec of \<open>crates/lance-context-core/src/generic_codec.rs\<close>: rows are JSON objects,
  columns come from a \<open>schema_spec\<close>. \<open>serde_json\<close>'s numbers, the base64 engine and \<open>chrono\<close>'s RFC 3339
  parser are parameters, gathered in the record \<open>json_ops\<close>; what the code relies on of them is the
  locale \<open>json_laws\<close>.
\<close>

section \<open>Rows\<close>

datatype 'n json =
    JNull | JBool bool | JNumber 'n | JString string | JArray "'n json list" | JObject "(string \<times> 'n json) list"

text \<open>\<open>serde_json::Map\<close>, in its default form a \<open>BTreeMap\<close>.\<close>

type_synonym 'n row = "(string, 'n json) btree_map"

record 'n json_ops =
  number_as_i64 :: "'n \<Rightarrow> int option"
  number_as_f64 :: "'n \<Rightarrow> f64 option"
  number_of_i64 :: "int \<Rightarrow> 'n"
  number_from_f64 :: "f64 \<Rightarrow> 'n option"
  base64_encode :: "8 word list \<Rightarrow> string"
  base64_decode :: "string \<Rightarrow> 8 word list option"
  rfc3339_micros :: "string \<Rightarrow> int option"

datatype 'n generic_error =
    UndeclaredColumn nat string
  | NotSupplied nat string
  | TypeError string nat string "'n json"
  | ElementError string string "'n json"
  | VectorLength nat string int nat
  | UnsupportedListElement string
  | DatasetColumnUndeclared string
  | ArrayTypeMismatch string data_type
  | NoIdColumn
  | IdColumnNotString
  | SchemaRejected schema_error
  | BatchRejected

section \<open>Encoding\<close>

definition value_for ::
  "string \<Rightarrow> column_spec \<Rightarrow> 'n row \<Rightarrow> nat \<Rightarrow> ('n generic_error, 'n json option) result" where
  "value_for name c row index =
     (case bt_get row name of
        Some v \<Rightarrow> if v \<noteq> JNull then Ok (Some v)
                  else if \<not> cs_nullable c then Err (NotSupplied index name) else Ok None
      | None \<Rightarrow> if \<not> cs_nullable c then Err (NotSupplied index name) else Ok None)"

definition as_i64 :: "'n json_ops \<Rightarrow> string \<Rightarrow> nat \<Rightarrow> 'n json \<Rightarrow> ('n generic_error, int) result" where
  "as_i64 P name index v =
     ok_or (TypeError name index ''an integer'' v) (case v of JNumber n \<Rightarrow> number_as_i64 P n | _ \<Rightarrow> None)"

definition as_f64 :: "'n json_ops \<Rightarrow> string \<Rightarrow> nat \<Rightarrow> 'n json \<Rightarrow> ('n generic_error, f64) result" where
  "as_f64 P name index v =
     ok_or (TypeError name index ''a number'' v) (case v of JNumber n \<Rightarrow> number_as_f64 P n | _ \<Rightarrow> None)"

definition as_timestamp_micros :: "'n json_ops \<Rightarrow> string \<Rightarrow> nat \<Rightarrow> 'n json \<Rightarrow> ('n generic_error, int) result" where
  "as_timestamp_micros P name index v =
     (case v of
        JNumber n \<Rightarrow> ok_or (TypeError name index ''microseconds since epoch'' v) (number_as_i64 P n)
      | JString s \<Rightarrow> ok_or (TypeError name index ''an RFC 3339 timestamp'' v) (rfc3339_micros P s)
      | _ \<Rightarrow> Err (TypeError name index ''microseconds since epoch or an RFC 3339 string'' v))"

definition as_bytes :: "'n json_ops \<Rightarrow> string \<Rightarrow> nat \<Rightarrow> 'n json \<Rightarrow> ('n generic_error, 8 word list) result" where
  "as_bytes P name index v =
     (case v of
        JString s \<Rightarrow> ok_or (TypeError name index ''base64-encoded bytes'' v) (base64_decode P s)
      | JArray items \<Rightarrow>
          collect_res (\<lambda>item. res_bind (as_i64 P name index item) (\<lambda>byte.
            if 0 \<le> byte \<and> byte \<le> 255 then Ok (word_of_int byte)
            else Err (TypeError name index ''an array of bytes (0-255)'' item))) items
      | _ \<Rightarrow> Err (TypeError name index ''base64-encoded bytes or an array of byte values'' v))"

definition as_string :: "'n generic_error \<Rightarrow> 'n json \<Rightarrow> ('n generic_error, string) result" where
  "as_string e v = (case v of JString s \<Rightarrow> Ok s | _ \<Rightarrow> Err e)"

definition as_bool :: "'n generic_error \<Rightarrow> 'n json \<Rightarrow> ('n generic_error, bool) result" where
  "as_bool e v = (case v of JBool b \<Rightarrow> Ok b | _ \<Rightarrow> Err e)"

definition as_i32 :: "'n generic_error \<Rightarrow> int \<Rightarrow> ('n generic_error, int) result" where
  "as_i32 e i = (if in_i32 i then Ok i else Err e)"

text \<open>One non-null value of a scalar or vector column; \<open>build_column\<close> runs it on every row.\<close>

fun encode_value ::
  "'n json_ops \<Rightarrow> string \<Rightarrow> nat \<Rightarrow> column_type \<Rightarrow> 'n json \<Rightarrow> ('n generic_error, cell) result" where
  "encode_value P name index (ColString False) v =
     res_bind (as_string (TypeError name index ''a string'' v) v) (\<lambda>s. Ok (CUtf8 s))"
| "encode_value P name index (ColString True) v =
     res_bind (as_string (TypeError name index ''a string'' v) v) (\<lambda>s. Ok (CLargeUtf8 s))"
| "encode_value P name index ColInt32 v =
     res_bind (as_i64 P name index v) (\<lambda>i.
     res_bind (as_i32 (TypeError name index ''a 32-bit integer'' v) i) (\<lambda>i. Ok (CInt32 i)))"
| "encode_value P name index ColInt64 v = res_bind (as_i64 P name index v) (\<lambda>i. Ok (CInt64 i))"
| "encode_value P name index ColFloat32 v = res_bind (as_f64 P name index v) (\<lambda>x. Ok (CFloat32 (f64_to_f32 x)))"
| "encode_value P name index ColFloat64 v = res_bind (as_f64 P name index v) (\<lambda>x. Ok (CFloat64 x))"
| "encode_value P name index ColBool v =
     res_bind (as_bool (TypeError name index ''a boolean'' v) v) (\<lambda>b. Ok (CBool b))"
| "encode_value P name index ColTimestamp v = res_bind (as_timestamp_micros P name index v) (\<lambda>t. Ok (CTimestamp t))"
| "encode_value P name index (ColBinary _) v = res_bind (as_bytes P name index v) (\<lambda>b. Ok (CLargeBinary b))"
| "encode_value P name index (ColVector dim _) v =
     (case v of
        JArray items \<Rightarrow>
          if int (length items) \<noteq> dim mod 2 ^ 64 then Err (VectorLength index name dim (length items))
          else res_bind (collect_res (\<lambda>item. res_bind (as_f64 P name index item) (\<lambda>x. Ok (CFloat32 (f64_to_f32 x)))) items)
            (\<lambda>cs. Ok (CFixedSizeList DFloat32 dim cs))
      | _ \<Rightarrow> Err (TypeError name index ''an array of numbers'' v))"
| "encode_value P name index (ColList _) v = Err (UnsupportedListElement name)"

text \<open>The append closures of \<open>build_list_column\<close>, by element type; the row index is not known there.\<close>

fun encode_element :: "'n json_ops \<Rightarrow> string \<Rightarrow> column_type \<Rightarrow> 'n json \<Rightarrow> ('n generic_error, cell) result" where
  "encode_element P name (ColString False) v =
     res_bind (as_string (ElementError name ''an array of strings'' v) v) (\<lambda>s. Ok (CUtf8 s))"
| "encode_element P name (ColString True) v =
     res_bind (as_string (ElementError name ''an array of strings'' v) v) (\<lambda>s. Ok (CLargeUtf8 s))"
| "encode_element P name ColInt32 v =
     res_bind (as_i64 P name 0 v) (\<lambda>i.
     res_bind (as_i32 (ElementError name ''an array of 32-bit integers'' v) i) (\<lambda>i. Ok (CInt32 i)))"
| "encode_element P name ColInt64 v = res_bind (as_i64 P name 0 v) (\<lambda>i. Ok (CInt64 i))"
| "encode_element P name ColFloat32 v = res_bind (as_f64 P name 0 v) (\<lambda>x. Ok (CFloat32 (f64_to_f32 x)))"
| "encode_element P name ColFloat64 v = res_bind (as_f64 P name 0 v) (\<lambda>x. Ok (CFloat64 x))"
| "encode_element P name ColBool v =
     res_bind (as_bool (ElementError name ''an array of booleans'' v) v) (\<lambda>b. Ok (CBool b))"
| "encode_element P name ColTimestamp v = res_bind (as_timestamp_micros P name 0 v) (\<lambda>t. Ok (CTimestamp t))"
| "encode_element P name (ColBinary _) v = res_bind (as_bytes P name 0 v) (\<lambda>b. Ok (CLargeBinary b))"
| "encode_element P name (ColVector _ _) v = Err (UnsupportedListElement name)"
| "encode_element P name (ColList _) v = Err (UnsupportedListElement name)"

text \<open>The loop all builders share: the value of each row in order, null where there is none.\<close>

definition build_cells ::
  "(nat \<Rightarrow> 'n json \<Rightarrow> ('n generic_error, cell) result) \<Rightarrow> string \<Rightarrow> column_spec \<Rightarrow> 'n row list \<Rightarrow>
   ('n generic_error, cell list) result" where
  "build_cells enc name c rows =
     collect_res (\<lambda>(index, row). res_bind (value_for name c row index) (\<lambda>v.
       case v of Some x \<Rightarrow> enc index x | None \<Rightarrow> Ok CNull)) (enumerate 0 rows)"

definition is_nested :: "column_type \<Rightarrow> bool" where
  "is_nested t \<longleftrightarrow> (case t of ColList _ \<Rightarrow> True | ColVector _ _ \<Rightarrow> True | _ \<Rightarrow> False)"

definition encode_list ::
  "'n json_ops \<Rightarrow> string \<Rightarrow> column_type \<Rightarrow> nat \<Rightarrow> 'n json \<Rightarrow> ('n generic_error, cell) result" where
  "encode_list P name item index v =
     (case v of
        JArray items \<Rightarrow>
          res_bind (collect_res (encode_element P name item) items) (\<lambda>cs. Ok (CList (arrow_data_type item) cs))
      | _ \<Rightarrow> Err (TypeError name index ''an array'' v))"

definition build_list_column ::
  "'n json_ops \<Rightarrow> string \<Rightarrow> column_spec \<Rightarrow> column_type \<Rightarrow> 'n row list \<Rightarrow> ('n generic_error, cell list) result" where
  "build_list_column P name c item rows =
     (if is_nested item then Err (UnsupportedListElement name)
      else build_cells (encode_list P name item) name c rows)"

definition build_column ::
  "'n json_ops \<Rightarrow> string \<Rightarrow> column_spec \<Rightarrow> 'n row list \<Rightarrow> ('n generic_error, cell list) result" where
  "build_column P name c rows =
     (case cs_type c of
        ColList item \<Rightarrow> build_list_column P name c item rows
      | t \<Rightarrow> build_cells (\<lambda>index. encode_value P name index t) name c rows)"

definition check_keys :: "schema_spec \<Rightarrow> 'n row list \<Rightarrow> ('n generic_error, unit) result" where
  "check_keys sp rows =
     res_bind (collect_res (\<lambda>(index, row).
       collect_res (\<lambda>key. guard_ok (column sp key \<noteq> None) (UndeclaredColumn index key)) (map fst row))
       (enumerate 0 rows)) (\<lambda>_. Ok ())"

text \<open>\<open>RecordBatch::try_new\<close> on columns: types, nullability and lengths as the schema says.\<close>

definition column_fits :: "nat \<Rightarrow> field_def \<Rightarrow> data_type \<times> cell list \<Rightarrow> bool" where
  "column_fits n f c \<longleftrightarrow> fst c = fd_type f \<and> length (snd c) = n \<and> (CNull \<in> set (snd c) \<longrightarrow> fd_nullable f)"

definition try_new_columns ::
  "field_def list \<Rightarrow> (data_type \<times> cell list) list \<Rightarrow> ('n generic_error, batch) result" where
  "try_new_columns sch cols =
     (case cols of
        [] \<Rightarrow> Err BatchRejected
      | c # _ \<Rightarrow>
          (let n = length (snd c) in
           if list_all2 (column_fits n) sch cols
           then Ok \<lparr>b_schema = sch, b_rows = map (\<lambda>i. map (\<lambda>c. snd c ! i) cols) [0..<n]\<rparr>
           else Err BatchRejected))"

definition rows_to_batch ::
  "'n json_ops \<Rightarrow> schema_spec \<Rightarrow> field_def list \<Rightarrow> 'n row list \<Rightarrow> ('n generic_error, batch) result" where
  "rows_to_batch P sp sch rows =
     res_bind (check_keys sp rows) (\<lambda>_.
     res_bind (collect_res (\<lambda>(name, c).
       res_bind (build_column P name c rows) (\<lambda>cs. Ok (name, arrow_data_type (cs_type c), cs))) (ss_columns sp)) (\<lambda>arrays.
     res_bind (collect_res (\<lambda>f. ok_or (DatasetColumnUndeclared (fd_name f)) (map_of (rev arrays) (fd_name f))) sch) (\<lambda>cols.
     try_new_columns sch cols)))"

section \<open>Decoding\<close>

definition number :: "'n json_ops \<Rightarrow> f64 \<Rightarrow> 'n json" where
  "number P x = (case number_from_f64 P x of None \<Rightarrow> JNull | Some n \<Rightarrow> JNumber n)"

text \<open>Which arrays \<open>downcast\<close> takes for a column type: only the array class is looked at.\<close>

fun downcast :: "column_type \<Rightarrow> data_type \<Rightarrow> bool" where
  "downcast (ColVector _ _) t = (case t of DFixedSizeList _ _ \<Rightarrow> True | _ \<Rightarrow> False)"
| "downcast (ColList _) t = (case t of DList _ \<Rightarrow> True | _ \<Rightarrow> False)"
| "downcast c t = (t = arrow_data_type c)"

text \<open>The \<open>$convert\<close> closures on one non-null slot of a scalar array.\<close>

fun decode_scalar :: "'n json_ops \<Rightarrow> cell \<Rightarrow> 'n json" where
  "decode_scalar P (CUtf8 s) = JString s"
| "decode_scalar P (CLargeUtf8 s) = JString s"
| "decode_scalar P (CInt32 i) = JNumber (number_of_i64 P i)"
| "decode_scalar P (CInt64 i) = JNumber (number_of_i64 P i)"
| "decode_scalar P (CFloat32 x) = number P (f32_to_f64 x)"
| "decode_scalar P (CFloat64 x) = number P x"
| "decode_scalar P (CBool b) = JBool b"
| "decode_scalar P (CTimestamp t) = JNumber (number_of_i64 P t)"
| "decode_scalar P (CLargeBinary b) = JString (base64_encode P b)"
| "decode_scalar P _ = JNull"

text \<open>An element of a vector; \<open>value\<close> of a null slot is the zero its builder left there.\<close>

fun vector_slot :: "'n json_ops \<Rightarrow> cell \<Rightarrow> 'n json" where
  "vector_slot P (CFloat32 x) = number P (f32_to_f64 x)"
| "vector_slot P _ = number P (f32_to_f64 0)"

definition decode_list_values ::
  "'n json_ops \<Rightarrow> string \<Rightarrow> column_type \<Rightarrow> data_type \<Rightarrow> cell list \<Rightarrow> ('n generic_error, 'n json list) result" where
  "decode_list_values P name item t cs =
     (if is_nested item then Err (UnsupportedListElement name)
      else if \<not> downcast item t then Err (ArrayTypeMismatch name t)
      else Ok (map (decode_scalar P) cs))"

definition decode_value ::
  "'n json_ops \<Rightarrow> string \<Rightarrow> column_type \<Rightarrow> cell \<Rightarrow> ('n generic_error, 'n json) result" where
  "decode_value P name t x =
     (case (t, x) of
        (ColVector _ _, CFixedSizeList item _ cs) \<Rightarrow>
          if item = DFloat32 then Ok (JArray (map (vector_slot P) cs)) else Err (ArrayTypeMismatch name item)
      | (ColList item, CList u cs) \<Rightarrow> res_bind (decode_list_values P name item u cs) (\<lambda>vs. Ok (JArray vs))
      | _ \<Rightarrow> Ok (decode_scalar P x))"

definition decode_column ::
  "'n json_ops \<Rightarrow> string \<Rightarrow> column_spec \<Rightarrow> data_type \<Rightarrow> cell list \<Rightarrow> 'n row list \<Rightarrow> ('n generic_error, 'n row list) result"
where
  "decode_column P name c t cs rows =
     (if \<not> downcast (cs_type c) t then Err (ArrayTypeMismatch name t)
      else collect_res (\<lambda>(x, row). if x = CNull then Ok row
        else res_bind (decode_value P name (cs_type c) x) (\<lambda>v. Ok (bt_insert name v row))) (zip cs rows))"

definition batch_to_rows :: "'n json_ops \<Rightarrow> schema_spec \<Rightarrow> batch \<Rightarrow> ('n generic_error, 'n row list) result" where
  "batch_to_rows P sp b =
     fold_res (\<lambda>rows (name, c).
       case field_with_name (b_schema b) name of
         None \<Rightarrow> Ok rows
       | Some f \<Rightarrow> decode_column P name c (fd_type f) (map (\<lambda>r. the (cell_at (b_schema b) r name)) (b_rows b)) rows)
     (replicate (length (b_rows b)) []) (ss_columns sp)"

definition ids_from_batch :: "batch \<Rightarrow> ('n generic_error, string list) result" where
  "ids_from_batch b =
     (case field_with_name (b_schema b) ID_COLUMN of
        None \<Rightarrow> Err NoIdColumn
      | Some f \<Rightarrow>
          if fd_type f \<noteq> DUtf8 then Err IdColumnNotString
          else Ok (map (\<lambda>r. case cell_at (b_schema b) r ID_COLUMN of Some (CUtf8 s) \<Rightarrow> s | _ \<Rightarrow> []) (b_rows b)))"

end
