(* ===== verification/Generic_Correct.thy ===== *)
theory Generic_Correct
  imports Generic_Codec
begin

text \<open>
  Correctness of the schema-driven codec. \<open>json_laws\<close> states what the code relies on of the JSON number
  type, of base64 and of the timestamp parser; inside it one value, one column and one batch are shown
  to survive decoding and encoding again.
\<close>

section \<open>What can be stored and read back\<close>

text \<open>A cell JSON can carry: \<open>number\<close> turns the other floats into null.\<close>

fun cell_finite :: "cell \<Rightarrow> bool" where
  "cell_finite (CFloat32 x) = f32_finite x"
| "cell_finite (CFloat64 x) = f64_finite x"
| "cell_finite (CFixedSizeList _ _ cs) = list_all cell_finite cs"
| "cell_finite (CList _ cs) = list_all cell_finite cs"
| "cell_finite _ = True"

definition batch_finite :: "batch \<Rightarrow> bool" where
  "batch_finite b \<longleftrightarrow> list_all (list_all cell_finite) (b_rows b)"

definition encode_cell ::
  "'n json_ops \<Rightarrow> string \<Rightarrow> column_type \<Rightarrow> nat \<Rightarrow> 'n json \<Rightarrow> ('n generic_error, cell) result" where
  "encode_cell P name t index v = (case t of ColList item \<Rightarrow> encode_list P name item index v | _ \<Rightarrow> encode_value P name index t v)"

lemma encode_cell_eq:
  "encode_cell P name t = (case t of ColList item \<Rightarrow> encode_list P name item | _ \<Rightarrow> (\<lambda>index. encode_value P name index t))"
  by (cases t) (simp_all add: encode_cell_def fun_eq_iff del: encode_value.simps)

lemma build_column_cells:
  assumes "column_type_ok (cs_type c)"
  shows "build_column P name c rows = build_cells (encode_cell P name (cs_type c)) name c rows"
proof (cases "cs_type c")
  case (ColList item)
  then have "\<not> is_nested item" using assms by (cases item) (simp_all add: column_type_ok_def is_nested_def)
  with ColList show ?thesis by (simp add: build_column_def build_list_column_def encode_cell_eq)
qed (simp_all add: build_column_def encode_cell_eq del: encode_value.simps)

text \<open>One cell of a column, as \<open>build_cells\<close> computes it.\<close>

definition cell_for ::
  "'n json_ops \<Rightarrow> string \<Rightarrow> column_spec \<Rightarrow> nat \<Rightarrow> 'n row \<Rightarrow> ('n generic_error, cell) result" where
  "cell_for P name c index row = res_bind (value_for name c row index) (\<lambda>v.
     case v of Some x \<Rightarrow> encode_cell P name (cs_type c) index x | None \<Rightarrow> Ok CNull)"

lemma collect_res_nth:
  "collect_res f (enumerate 0 xs) = Ok ys \<longleftrightarrow> length ys = length xs \<and> (\<forall>i < length xs. f (i, xs ! i) = Ok (ys ! i))"
  by (auto simp: collect_res_Ok_iff list_all2_conv_all_nth nth_enumerate_eq)

lemma build_cells_Ok:
  "build_cells (encode_cell P name (cs_type c)) name c rows = Ok cs \<longleftrightarrow>
     length cs = length rows \<and> (\<forall>i < length rows. cell_for P name c i (rows ! i) = Ok (cs ! i))"
  unfolding build_cells_def collect_res_nth by (simp add: cell_for_def)

lemma check_keys_Ok: "check_keys sp rows = Ok () \<longleftrightarrow> (\<forall>row \<in> set rows. \<forall>n \<in> fst ` set row. column sp n \<noteq> None)"
proof -
  have g: "guard_ok b e = Ok u \<longleftrightarrow> b" for b and e :: "'e" and u by (cases b) auto
  have inner: "(\<exists>us. collect_res (\<lambda>k. guard_ok (column sp k \<noteq> None) (UndeclaredColumn i k)) ks = Ok us) \<longleftrightarrow>
      (\<forall>k \<in> set ks. column sp k \<noteq> None)" for i ks
    by (induction ks) (auto simp: g)
  have "(\<exists>us. collect_res (\<lambda>(i, row). collect_res (\<lambda>k. guard_ok (column sp k \<noteq> None) (UndeclaredColumn i k)) (map fst row))
      (enumerate n rows) = Ok us) \<longleftrightarrow> (\<forall>row \<in> set rows. \<forall>k \<in> fst ` set row. column sp k \<noteq> None)" for n
  proof (induction rows arbitrary: n)
    case (Cons row rows)
    then show ?case using inner [of n "map fst row"] by auto
  qed simp
  then show ?thesis unfolding check_keys_def by (simp add: res_bind_Ok_iff)
qed

text \<open>The result depends on the rows only through the columns built from them.\<close>

lemma rows_to_batch_cong:
  assumes "check_keys sp rows = Ok ()" "check_keys sp rows' = Ok ()"
    and "\<And>n c. (n, c) \<in> set (ss_columns sp) \<Longrightarrow> build_column P n c rows' = build_column P n c rows"
  shows "rows_to_batch P sp sch rows' = rows_to_batch P sp sch rows"
proof -
  have "collect_res (\<lambda>(n, c). res_bind (build_column P n c rows') (\<lambda>cs. Ok (n, arrow_data_type (cs_type c), cs))) xs =
      collect_res (\<lambda>(n, c). res_bind (build_column P n c rows) (\<lambda>cs. Ok (n, arrow_data_type (cs_type c), cs))) xs"
    if "set xs \<subseteq> set (ss_columns sp)" for xs
    using that
  proof (induction xs)
    case (Cons x xs)
    then show ?case using assms(3) [of "fst x" "snd x"] by (cases x) simp
  qed simp
  then show ?thesis using assms(1,2) by (simp add: rows_to_batch_def)
qed

text \<open>What a batch that was built holds.\<close>

lemma cell_at_columns:
  "length sch = length cols \<Longrightarrow> distinct (map fd_name sch) \<Longrightarrow> k < length sch \<Longrightarrow>
   cell_at sch (map g cols) (fd_name (sch ! k)) = Some (g (cols ! k))"
proof (induction sch cols arbitrary: k rule: list_induct2)
  case (Cons f fs c cs)
  then show ?case by (cases k) auto
qed simp

lemma map_of_rev_distinct: "distinct (map fst xs) \<Longrightarrow> map_of (rev xs) = map_of xs"
  by (simp add: map_of_inject_set flip: rev_map)

lemma rows_to_batch_columns:
  fixes P :: "'n json_ops"
  assumes "spec_ok sp" "rows_to_batch P sp sch rows = Ok b"
  obtains cols where "list_all2 (column_fits (length rows)) sch cols"
    "b = \<lparr>b_schema = sch, b_rows = map (\<lambda>i. map (\<lambda>c. snd c ! i) cols) [0..<length rows]\<rparr>"
    "\<And>k. k < length sch \<Longrightarrow> \<exists>c cs. (fd_name (sch ! k), c) \<in> set (ss_columns sp) \<and> column_type_ok (cs_type c) \<and>
      cols ! k = (arrow_data_type (cs_type c), cs) \<and> build_column P (fd_name (sch ! k)) c rows = Ok cs"
proof -
  let ?arr = "\<lambda>(n, c). res_bind (build_column P n c rows) (\<lambda>cs. Ok (n, arrow_data_type (cs_type c), cs))"
  obtain arrays cols where arrays: "collect_res ?arr (ss_columns sp) = Ok arrays"
    and cols: "collect_res (\<lambda>f. ok_or (DatasetColumnUndeclared (fd_name f) :: 'n generic_error)
      (map_of (rev arrays) (fd_name f))) sch = Ok cols"
    and new: "(try_new_columns sch cols :: ('n generic_error, batch) result) = Ok b"
    using assms(2) by (auto simp: rows_to_batch_def)
  have "list_all2 (\<lambda>x a. ?arr x = Ok a) (ss_columns sp) arrays" using arrays by (simp add: collect_res_Ok_iff)
  then have "map fst arrays = map fst (ss_columns sp)" by (induction rule: list_all2_induct) auto
  then have dist: "distinct (map fst arrays)" using spec_distinct [OF assms(1)] by simp
  have col: "\<exists>c cs. (fd_name (sch ! k), c) \<in> set (ss_columns sp) \<and> column_type_ok (cs_type c) \<and>
      cols ! k = (arrow_data_type (cs_type c), cs) \<and> build_column P (fd_name (sch ! k)) c rows = Ok cs" if "k < length sch" for k
  proof -
    have "map_of (rev arrays) (fd_name (sch ! k)) = Some (cols ! k)"
      using cols that by (auto simp: collect_res_Ok_iff list_all2_conv_all_nth split: option.splits)
    then have "(fd_name (sch ! k), cols ! k) \<in> set arrays"
      using dist by (simp add: map_of_rev_distinct map_of_eq_Some_iff)
    then obtain c cs where c: "(fd_name (sch ! k), c) \<in> set (ss_columns sp)" "cols ! k = (arrow_data_type (cs_type c), cs)"
      "build_column P (fd_name (sch ! k)) c rows = Ok cs"
      using collect_res_mem [OF arrays, of "(fd_name (sch ! k), cols ! k)"] by (auto 0 3 split: prod.splits dest: sym)
    moreover have "column_type_ok (cs_type c)" using c(1) assms(1) by (auto simp: spec_ok_def list_all_iff column_ok_def)
    ultimately show ?thesis by blast
  qed
  obtain c0 cs0 where c0: "cols = c0 # cs0" using new by (auto simp: try_new_columns_def split: list.splits)
  have fits: "list_all2 (column_fits (length (snd c0))) sch cols"
    and b: "b = \<lparr>b_schema = sch, b_rows = map (\<lambda>i. map (\<lambda>c. snd c ! i) cols) [0..<length (snd c0)]\<rparr>"
    using new by (auto simp: try_new_columns_def c0 Let_def split: if_splits)
  have "length (snd c0) = length rows"
    using col [of 0] fits c0 by (auto simp: list_all2_Cons2 build_column_cells build_cells_Ok)
  with fits b col show ?thesis by (intro that [of cols]) simp_all
qed

lemma rows_to_batch_holds:
  assumes "spec_ok sp" "distinct (map fd_name sch)" "rows_to_batch P sp sch rows = Ok b"
  shows "check_keys sp rows = Ok ()" "b_schema b = sch" "length (b_rows b) = length rows"
    "\<And>f. f \<in> set sch \<Longrightarrow> \<exists>c cs. (fd_name f, c) \<in> set (ss_columns sp) \<and> fd_type f = arrow_data_type (cs_type c) \<and>
       build_column P (fd_name f) c rows = Ok cs \<and> length cs = length rows \<and>
       (\<forall>i < length rows. cell_at sch (b_rows b ! i) (fd_name f) = Some (cs ! i))"
proof -
  obtain cols where fits: "list_all2 (column_fits (length rows)) sch cols"
    and b: "b = \<lparr>b_schema = sch, b_rows = map (\<lambda>i. map (\<lambda>c. snd c ! i) cols) [0..<length rows]\<rparr>"
    and col: "\<And>k. k < length sch \<Longrightarrow> \<exists>c cs. (fd_name (sch ! k), c) \<in> set (ss_columns sp) \<and> column_type_ok (cs_type c) \<and>
      cols ! k = (arrow_data_type (cs_type c), cs) \<and> build_column P (fd_name (sch ! k)) c rows = Ok cs"
    using rows_to_batch_columns [OF assms(1,3)] by blast
  show "check_keys sp rows = Ok ()" using assms(3) by (simp add: rows_to_batch_def)
  show "b_schema b = sch" "length (b_rows b) = length rows" by (simp_all add: b)
  fix f assume "f \<in> set sch"
  then obtain k where k: "k < length sch" "f = sch ! k" by (auto simp: in_set_conv_nth)
  then obtain c cs where c: "(fd_name f, c) \<in> set (ss_columns sp)" "cols ! k = (arrow_data_type (cs_type c), cs)"
    "build_column P (fd_name f) c rows = Ok cs" using col by blast
  have f: "column_fits (length rows) f (cols ! k)" using list_all2_nthD [OF fits k(1)] k(2) by simp
  have ls: "length sch = length cols" using fits by (rule list_all2_lengthD)
  have "cell_at sch (b_rows b ! i) (fd_name f) = Some (cs ! i)" if "i < length rows" for i
    using that cell_at_columns [OF ls assms(2) k(1), of "\<lambda>c. snd c ! i"] c(2) k(2) by (simp add: b)
  with c f show "\<exists>c cs. (fd_name f, c) \<in> set (ss_columns sp) \<and> fd_type f = arrow_data_type (cs_type c) \<and>
       build_column P (fd_name f) c rows = Ok cs \<and> length cs = length rows \<and>
       (\<forall>i < length rows. cell_at sch (b_rows b ! i) (fd_name f) = Some (cs ! i))"
    by (auto simp: column_fits_def)
qed

section \<open>Every batch built is well typed\<close>

definition vectors_i32 :: "schema_spec \<Rightarrow> bool" where
  "vectors_i32 sp \<longleftrightarrow> (\<forall>n c dim m. (n, c) \<in> set (ss_columns sp) \<longrightarrow> cs_type c = ColVector dim m \<longrightarrow> in_i32 dim)"

lemma collect_fits:
  assumes "collect_res f vs = Ok xs" "\<And>v x. f v = Ok x \<Longrightarrow> cell_fits t x"
  shows "list_all (cell_fits t) xs \<and> length xs = length vs"
  using collect_res_mem [OF assms(1)] assms by (auto simp: list_all_iff collect_res_Ok_iff dest: list_all2_lengthD)

lemma element_fits: "\<not> is_nested t \<Longrightarrow> encode_element P n t v = Ok x \<Longrightarrow> cell_fits (arrow_data_type t) x"
  by (cases "(P, n, t, v)" rule: encode_element.cases) (auto simp: is_nested_def)

lemma encode_cell_fits:
  assumes "column_type_ok t" "\<And>dim m. t = ColVector dim m \<Longrightarrow> in_i32 dim" "encode_cell P n t i v = Ok x"
  shows "cell_fits (arrow_data_type t) x"
proof (cases t)
  case (ColVector dim m)
  then have dim: "dim mod 2 ^ 64 = dim" using assms(1,2) by (auto simp: column_type_ok_def in_i32_def)
  then obtain items cs where x: "x = CFixedSizeList DFloat32 dim cs" "int (length items) = dim"
    and cs: "collect_res (\<lambda>item. res_bind (as_f64 P n i item) (\<lambda>x. Ok (CFloat32 (f64_to_f32 x)))) items = Ok cs"
    using assms(3) by (auto simp: ColVector encode_cell_eq split: json.splits if_splits)
  have "list_all (cell_fits DFloat32) cs \<and> length cs = length items" by (rule collect_fits [OF cs]) auto
  then show ?thesis using x by (simp add: ColVector)
next
  case (ColList item)
  have "\<not> is_nested item" using assms(1) ColList by (cases item) (auto simp: is_nested_def column_type_ok_def)
  then show ?thesis
    using assms(3) collect_fits [where t = "arrow_data_type item"] element_fits
    by (fastforce simp: ColList encode_cell_eq encode_list_def split: json.splits)
next
  case (ColString l)
  then show ?thesis using assms(3) by (cases l) (auto simp: encode_cell_eq)
qed (use assms(3) in \<open>auto simp: encode_cell_eq\<close>)

lemma rows_to_batch_typed:
  assumes "spec_ok sp" "vectors_i32 sp" "rows_to_batch P sp sch rows = Ok b"
  shows "batch_ok b"
proof -
  obtain cols where fits: "list_all2 (column_fits (length rows)) sch cols"
    and b: "b = \<lparr>b_schema = sch, b_rows = map (\<lambda>i. map (\<lambda>c. snd c ! i) cols) [0..<length rows]\<rparr>"
    and col: "\<And>k. k < length sch \<Longrightarrow> \<exists>c cs. (fd_name (sch ! k), c) \<in> set (ss_columns sp) \<and> column_type_ok (cs_type c) \<and>
      cols ! k = (arrow_data_type (cs_type c), cs) \<and> build_column P (fd_name (sch ! k)) c rows = Ok cs"
    using rows_to_batch_columns [OF assms(1,3)] by blast
  have ls: "length sch = length cols" using fits by (rule list_all2_lengthD)
  have "field_fits (sch ! k) (snd (cols ! k) ! i)" if k: "k < length sch" and i: "i < length rows" for k i
  proof -
    obtain c cs where c: "(fd_name (sch ! k), c) \<in> set (ss_columns sp)" "column_type_ok (cs_type c)"
      "cols ! k = (arrow_data_type (cs_type c), cs)" "build_column P (fd_name (sch ! k)) c rows = Ok cs" using col [OF k] by blast
    have f: "column_fits (length rows) (sch ! k) (cols ! k)" using list_all2_nthD [OF fits k] by simp
    have "cell_for P (fd_name (sch ! k)) c i (rows ! i) = Ok (cs ! i)" using c i by (simp add: build_column_cells build_cells_Ok)
    moreover have "cell_fits (arrow_data_type (cs_type c)) x"
      if "encode_cell P (fd_name (sch ! k)) (cs_type c) i v = Ok x" for v x
      by (rule encode_cell_fits [OF c(2) _ that]) (use assms(2) c(1) in \<open>auto simp: vectors_i32_def\<close>)
    ultimately have "cs ! i = CNull \<or> cell_fits (arrow_data_type (cs_type c)) (cs ! i)"
      by (auto simp: cell_for_def split: option.splits)
    moreover have "cs ! i \<in> set cs" using f c(3) i by (simp add: column_fits_def)
    ultimately show ?thesis using f c(3) by (auto simp: column_fits_def field_fits_def)
  qed
  then show ?thesis using ls by (auto simp: batch_ok_def row_fits_def list_all_iff b list_all2_conv_all_nth)
qed

text \<open>Decoding a batch column by column amounts to filling each row on its own.\<close>

definition fill_row :: "(string \<Rightarrow> 'n json option) \<Rightarrow> string list \<Rightarrow> 'n row \<Rightarrow> 'n row" where
  "fill_row D ns row = foldl (\<lambda>r n. case D n of None \<Rightarrow> r | Some v \<Rightarrow> bt_insert n v r) row ns"

lemma fill_row_get:
  assumes "bt_sorted row"
  shows "bt_sorted (fill_row D ns row) \<and>
    bt_get (fill_row D ns row) n = (if n \<in> set ns \<and> D n \<noteq> None then D n else bt_get row n)"
  using assms
proof (induction ns arbitrary: row)
  case (Cons m ns)
  show ?case
  proof (cases "D m")
    case (Some v)
    then show ?thesis
      using Cons.IH [OF bt_sorted_insert [OF Cons.prems], of m v] bt_get_insert [OF Cons.prems, of m v n]
      by (auto simp: fill_row_def)
  qed (use Cons in \<open>auto simp: fill_row_def\<close>)
qed (simp add: fill_row_def)

lemma decode_column_fill:
  assumes "downcast (cs_type c) t" "length cs = length rows"
    and "\<And>i. i < length rows \<Longrightarrow> (if cs ! i = CNull then D i = None else decode_value P name (cs_type c) (cs ! i) = Ok (the (D i)) \<and> D i \<noteq> None)"
  shows "decode_column P name c t cs rows = Ok (map (\<lambda>i. fill_row (\<lambda>_. D i) [name] (rows ! i)) [0..<length rows])"
proof -
  have "collect_res (\<lambda>(x, row). if x = CNull then Ok row
      else res_bind (decode_value P name (cs_type c) x) (\<lambda>v. Ok (bt_insert name v row))) (zip cs rows) =
      Ok (map (\<lambda>i. fill_row (\<lambda>_. D i) [name] (rows ! i)) [0..<length rows])"
    unfolding collect_res_Ok_iff list_all2_conv_all_nth
  proof (intro conjI allI impI)
    fix i assume "i < length (zip cs rows)"
    then show "(case zip cs rows ! i of (x, row) \<Rightarrow> if x = CNull then Ok row
        else res_bind (decode_value P name (cs_type c) x) (\<lambda>v. Ok (bt_insert name v row))) =
      Ok (map (\<lambda>i. fill_row (\<lambda>_. D i) [name] (rows ! i)) [0..<length rows] ! i)"
      using assms(2) assms(3) [of i] by (auto simp: fill_row_def)
  qed (use assms(2) in simp)
  then show ?thesis using assms(1) by (simp add: decode_column_def)
qed

lemma downcast_arrow: "downcast t (arrow_data_type t)"
  by (cases t) simp_all

lemma field_with_name_mem: "n \<in> fd_name ` set sch \<Longrightarrow> \<exists>f \<in> set sch. field_with_name sch n = Some f \<and> fd_name f = n"
  by (induction sch) (auto simp: field_with_name_def)

locale json_laws =
  fixes P :: "'n json_ops"
  assumes i64_range: "number_as_i64 P n = Some i \<Longrightarrow> in_i64 i"
    and i64_round: "in_i64 i \<Longrightarrow> number_as_i64 P (number_of_i64 P i) = Some i"
    and f64_defined: "f64_finite x \<Longrightarrow> number_from_f64 P x \<noteq> None"
    and f64_undefined: "\<not> f64_finite x \<Longrightarrow> number_from_f64 P x = None"
    and f64_round: "number_from_f64 P x = Some n \<Longrightarrow> number_as_f64 P n = Some x"
    and base64_round: "base64_decode P (base64_encode P b) = Some b"
    and rfc3339_range: "rfc3339_micros P s = Some t \<Longrightarrow> in_i64 t"
begin

lemma as_i64_range: "as_i64 P n i v = Ok x \<Longrightarrow> in_i64 x"
  by (auto simp: as_i64_def i64_range split: json.splits option.splits)

lemma as_i64_number: "in_i64 x \<Longrightarrow> as_i64 P n i (JNumber (number_of_i64 P x)) = Ok x"
  by (simp add: as_i64_def i64_round)

lemma as_f64_number: "f64_finite x \<Longrightarrow> number P x \<noteq> JNull \<and> as_f64 P n i (number P x) = Ok x"
  using f64_defined [of x] by (auto simp: number_def as_f64_def f64_round)

lemma as_f32_number:
  assumes "f32_finite x"
  shows "number P (f32_to_f64 x) \<noteq> JNull" "as_f64 P n i (number P (f32_to_f64 x)) = Ok (f32_to_f64 x)"
  using as_f64_number [OF widen_finite [OF assms]] by blast+

lemma as_timestamp_range: "as_timestamp_micros P n i v = Ok x \<Longrightarrow> in_i64 x"
  by (auto simp: as_timestamp_micros_def i64_range rfc3339_range split: json.splits option.splits)

lemma as_micros_number: "in_i64 x \<Longrightarrow> as_timestamp_micros P n i (JNumber (number_of_i64 P x)) = Ok x"
  by (simp add: as_timestamp_micros_def i64_round)

lemma as_bytes_string: "as_bytes P n i (JString (base64_encode P b)) = Ok b"
  by (simp add: as_bytes_def base64_round)

lemmas scalar_simps = as_string_def as_bool_def as_i32_def as_i64_number as_micros_number as_bytes_string
  as_f64_number as_f32_number narrow_widen is_nested_def

text \<open>A value read back is not null and encodes to the cell it was read from.\<close>

definition restores :: "('n json \<Rightarrow> ('n generic_error, cell) result) \<Rightarrow> cell \<Rightarrow> 'n json \<Rightarrow> bool" where
  "restores enc x v \<longleftrightarrow> v \<noteq> JNull \<and> enc v = Ok x"

lemma scalar_restores:
  assumes "\<not> is_nested t" "encode_value P n i t v = Ok x" "cell_finite x"
  shows "restores (encode_value P n j t) x (decode_scalar P x) \<and> x \<noteq> CNull"
proof (cases t)
  case (ColString l)
  then show ?thesis using assms(2) by (cases l) (auto simp: restores_def scalar_simps split: json.splits)
qed (use assms as_i64_range as_timestamp_range in \<open>force simp: restores_def scalar_simps split: json.splits if_splits\<close>)+

lemma element_restores:
  assumes "\<not> is_nested t" "encode_element P n t v = Ok x" "cell_finite x"
  shows "restores (encode_element P n t) x (decode_scalar P x) \<and> x \<noteq> CNull"
proof (cases t)
  case (ColString l)
  then show ?thesis using assms(2) by (cases l) (auto simp: restores_def scalar_simps split: json.splits)
qed (use assms as_i64_range as_timestamp_range in \<open>force simp: restores_def scalar_simps split: json.splits if_splits\<close>)+

lemma collect_restores:
  assumes "collect_res enc vs = Ok xs" "list_all cell_finite xs"
    and "\<And>v x. enc v = Ok x \<Longrightarrow> cell_finite x \<Longrightarrow> restores enc' x (dec x)"
  shows "collect_res enc' (map dec xs) = Ok xs"
  using assms(1,2)
proof (induction vs arbitrary: xs)
  case (Cons v vs)
  then obtain y ys where "xs = y # ys" "enc v = Ok y" "collect_res enc vs = Ok ys" by auto
  then show ?case using Cons assms(3) [of v y] by (simp add: restores_def)
qed simp

lemma vector_restores:
  assumes "encode_value P n i (ColVector dim m) v = Ok x" "cell_finite x"
  shows "\<exists>v'. decode_value P n (ColVector dim m) x = Ok v' \<and> restores (encode_value P n j (ColVector dim m)) x v' \<and> x \<noteq> CNull"
proof -
  obtain items cs where v: "v = JArray items" "x = CFixedSizeList DFloat32 dim cs" "int (length items) = dim mod 2 ^ 64"
    and cs: "collect_res (\<lambda>item. res_bind (as_f64 P n i item) (\<lambda>x. Ok (CFloat32 (f64_to_f32 x)))) items = Ok cs"
    using assms(1) by (auto split: json.splits if_splits)
  have "collect_res (\<lambda>item. res_bind (as_f64 P n j item) (\<lambda>x. Ok (CFloat32 (f64_to_f32 x)))) (map (vector_slot P) cs) = Ok cs"
    using assms(2) by (intro collect_restores [OF cs]) (auto simp: v restores_def as_f32_number narrow_widen)
  moreover have "length cs = length items" using cs by (auto simp: collect_res_Ok_iff dest: list_all2_lengthD)
  ultimately show ?thesis using v by (simp add: decode_value_def restores_def)
qed

lemma list_restores:
  assumes "\<not> is_nested item" "encode_list P n item i v = Ok x" "cell_finite x"
  shows "\<exists>v'. decode_value P n (ColList item) x = Ok v' \<and> restores (encode_list P n item j) x v' \<and> x \<noteq> CNull"
proof -
  obtain items cs where v: "v = JArray items" "x = CList (arrow_data_type item) cs"
    and cs: "collect_res (encode_element P n item) items = Ok cs"
    using assms(2) by (auto simp: encode_list_def split: json.splits)
  have "collect_res (encode_element P n item) (map (decode_scalar P) cs) = Ok cs"
    using assms(1,3) by (intro collect_restores [OF cs]) (auto simp: v element_restores)
  moreover have "downcast item (arrow_data_type item)" using assms(1) by (cases item) (auto simp: is_nested_def)
  ultimately show ?thesis using v assms(1) by (simp add: decode_value_def decode_list_values_def restores_def encode_list_def)
qed

lemma cell_restores:
  assumes "column_type_ok t" "encode_cell P n t i v = Ok x" "cell_finite x"
  shows "\<exists>v'. decode_value P n t x = Ok v' \<and> restores (encode_cell P n t j) x v' \<and> x \<noteq> CNull"
proof (cases t)
  case (ColVector dim m)
  then show ?thesis using vector_restores [of n i dim m v x j] assms by (simp add: encode_cell_eq del: encode_value.simps)
next
  case (ColList item)
  have "\<not> is_nested item" using assms(1) ColList by (cases item) (auto simp: is_nested_def column_type_ok_def)
  then show ?thesis using list_restores [of item n i v x j] assms ColList by (simp add: encode_cell_eq)
qed (use scalar_restores [of t n i v x j] assms in
    \<open>simp_all add: encode_cell_eq decode_value_def is_nested_def del: encode_value.simps\<close>)

text \<open>One cell of a batch that was built, and the value it decodes to.\<close>

lemma cell_for_restores:
  assumes "column_type_ok (cs_type c)" "cell_for P n c i row = Ok x" "cell_finite x"
  shows "if x = CNull then cs_nullable c
    else \<exists>v. decode_value P n (cs_type c) x = Ok v \<and> restores (encode_cell P n (cs_type c) i) x v"
proof -
  obtain o1 where v: "value_for n c row i = Ok o1"
    and x: "(case o1 of Some v \<Rightarrow> encode_cell P n (cs_type c) i v | None \<Rightarrow> Ok CNull) = Ok x"
    using assms(2) by (auto simp: cell_for_def)
  show ?thesis
  proof (cases o1)
    case None
    then show ?thesis using v x by (auto simp: value_for_def split: option.splits if_splits)
  next
    case (Some w)
    then show ?thesis using x cell_restores [OF assms(1) _ assms(3), of n i w i] by auto
  qed
qed

definition slot_value :: "schema_spec \<Rightarrow> batch \<Rightarrow> nat \<Rightarrow> string \<Rightarrow> 'n json option" where
  "slot_value sp b i n = (case (column sp n, cell_at (b_schema b) (b_rows b ! i) n) of
     (Some c, Some x) \<Rightarrow> if x = CNull then None
       else (case decode_value P n (cs_type c) x of Ok v \<Rightarrow> Some v | Err _ \<Rightarrow> None)
   | _ \<Rightarrow> None)"

lemma batch_to_rows_fill:
  assumes "\<And>n c. (n, c) \<in> set xs \<Longrightarrow> \<exists>f. field_with_name (b_schema b) n = Some f \<and> downcast (cs_type c) (fd_type f)"
    and "\<And>n c i. (n, c) \<in> set xs \<Longrightarrow> i < length (b_rows b) \<Longrightarrow> \<exists>x. cell_at (b_schema b) (b_rows b ! i) n = Some x \<and>
      (if x = CNull then D i n = None else decode_value P n (cs_type c) x = Ok (the (D i n)) \<and> D i n \<noteq> None)"
    and "length R = length (b_rows b)"
  shows "fold_res (\<lambda>rows (name, c).
       case field_with_name (b_schema b) name of
         None \<Rightarrow> Ok rows
       | Some f \<Rightarrow> decode_column P name c (fd_type f) (map (\<lambda>r. the (cell_at (b_schema b) r name)) (b_rows b)) rows) R xs =
     Ok (map (\<lambda>i. fill_row (D i) (map fst xs) (R ! i)) [0..<length R])"
  using assms
proof (induction xs arbitrary: R)
  case Nil
  then show ?case using map_nth [of R] by (simp add: fill_row_def)
next
  case (Cons x xs)
  obtain n c where x: "x = (n, c)" by (cases x)
  obtain f where f: "field_with_name (b_schema b) n = Some f" "downcast (cs_type c) (fd_type f)"
    using Cons.prems(1) [of n c] by (auto simp: x)
  let ?R = "map (\<lambda>i. fill_row (\<lambda>_. D i n) [n] (R ! i)) [0..<length R]"
  have "decode_column P n c (fd_type f) (map (\<lambda>r. the (cell_at (b_schema b) r n)) (b_rows b)) R = Ok ?R"
  proof (rule decode_column_fill [OF f(2)])
    fix i assume i: "i < length R"
    then have "i < length (b_rows b)" using Cons.prems(3) by simp
    then obtain x where "cell_at (b_schema b) (b_rows b ! i) n = Some x"
      "if x = CNull then D i n = None else decode_value P n (cs_type c) x = Ok (the (D i n)) \<and> D i n \<noteq> None"
      using Cons.prems(2) [of n c i] by (auto simp: x)
    then show "if map (\<lambda>r. the (cell_at (b_schema b) r n)) (b_rows b) ! i = CNull then D i n = None
      else decode_value P n (cs_type c) (map (\<lambda>r. the (cell_at (b_schema b) r n)) (b_rows b) ! i) = Ok (the (D i n)) \<and> D i n \<noteq> None"
      using \<open>i < length (b_rows b)\<close> by simp
  qed (use Cons.prems(3) in simp)
  moreover have "fold_res (\<lambda>rows (name, c).
       case field_with_name (b_schema b) name of
         None \<Rightarrow> Ok rows
       | Some f \<Rightarrow> decode_column P name c (fd_type f) (map (\<lambda>r. the (cell_at (b_schema b) r name)) (b_rows b)) rows) ?R xs =
     Ok (map (\<lambda>i. fill_row (D i) (map fst xs) (?R ! i)) [0..<length ?R])"
    by (rule Cons.IH) (use Cons.prems in \<open>auto simp: x\<close>)
  moreover have "map (\<lambda>i. fill_row (D i) (map fst xs) (?R ! i)) [0..<length ?R] =
      map (\<lambda>i. fill_row (D i) (map fst (x # xs)) (R ! i)) [0..<length R]"
    by (auto simp: x fill_row_def split: option.split)
  ultimately show ?case using f(1) by (simp add: x)
qed

text \<open>Every declared column of a batch that was built, cell by cell.\<close>

lemma built_column:
  assumes "spec_ok sp" "distinct (map fd_name sch)" "fd_name ` set sch = fst ` set (ss_columns sp)"
    and "rows_to_batch P sp sch rows = Ok b" "(n, c) \<in> set (ss_columns sp)"
  obtains f cs where "column sp n = Some c" "column_type_ok (cs_type c)" "field_with_name sch n = Some f"
    "fd_type f = arrow_data_type (cs_type c)" "build_column P n c rows = Ok cs" "length cs = length rows"
    "\<And>i. i < length rows \<Longrightarrow> cell_at sch (b_rows b ! i) n = Some (cs ! i)"
    "\<And>i. i < length rows \<Longrightarrow> cell_for P n c i (rows ! i) = Ok (cs ! i)"
proof -
  note H = rows_to_batch_holds [OF assms(1,2,4)]
  have col: "column sp m = Some d" if "(m, d) \<in> set (ss_columns sp)" for m d
    using that spec_distinct [OF assms(1)] by (simp add: column_Some)
  have ok: "column_type_ok (cs_type c)" using assms(1,5) by (auto simp: spec_ok_def list_all_iff column_ok_def)
  have "n \<in> fd_name ` set sch" using assms(3,5) by force
  then obtain f where f: "f \<in> set sch" "field_with_name sch n = Some f" "fd_name f = n" using field_with_name_mem by metis
  then obtain c' cs where c': "(n, c') \<in> set (ss_columns sp)" "fd_type f = arrow_data_type (cs_type c')"
    "build_column P n c' rows = Ok cs" "length cs = length rows" "\<forall>i < length rows. cell_at sch (b_rows b ! i) n = Some (cs ! i)"
    using H(4) [OF f(1)] by auto
  have "c' = c" using col [OF c'(1)] col [OF assms(5)] by simp
  then show ?thesis
    using f c' ok col [OF assms(5)] by (intro that [of f cs]) (auto simp: build_column_cells build_cells_Ok)
qed

lemma batch_column:
  assumes "spec_ok sp" "distinct (map fd_name sch)" "fd_name ` set sch = fst ` set (ss_columns sp)"
    and "rows_to_batch P sp sch rows = Ok b" "batch_finite b" "(n, c) \<in> set (ss_columns sp)"
  obtains f cs where "column sp n = Some c" "column_type_ok (cs_type c)" "field_with_name sch n = Some f"
    "fd_type f = arrow_data_type (cs_type c)" "build_column P n c rows = Ok cs" "length cs = length rows"
    "\<And>i. i < length rows \<Longrightarrow> cell_at sch (b_rows b ! i) n = Some (cs ! i)"
    "\<And>i. i < length rows \<Longrightarrow> cell_for P n c i (rows ! i) = Ok (cs ! i)"
    "\<And>i. i < length rows \<Longrightarrow> cell_finite (cs ! i)"
proof (rule built_column [OF assms(1-4,6)])
  fix f cs
  assume f: "column sp n = Some c" "column_type_ok (cs_type c)" "field_with_name sch n = Some f"
    "fd_type f = arrow_data_type (cs_type c)" "build_column P n c rows = Ok cs" "length cs = length rows"
    "\<And>i. i < length rows \<Longrightarrow> cell_at sch (b_rows b ! i) n = Some (cs ! i)"
    "\<And>i. i < length rows \<Longrightarrow> cell_for P n c i (rows ! i) = Ok (cs ! i)"
  have mem: "cell_at fs r n = Some x \<Longrightarrow> x \<in> set r" for fs r x by (induction fs r n rule: cell_at.induct) (auto split: if_splits)
  have "cell_finite (cs ! i)" if "i < length rows" for i
  proof -
    have "b_rows b ! i \<in> set (b_rows b)" using that rows_to_batch_holds(3) [OF assms(1,2,4)] by (metis nth_mem)
    then show ?thesis using assms(5) mem f(7) [OF that] by (auto simp: batch_finite_def list_all_iff)
  qed
  with f show thesis by (rule that)
qed

text \<open>What was encoded decodes, if not always to what it was.\<close>

lemma decode_encoded:
  assumes "encode_cell P n t i v = Ok x" "column_type_ok t"
  shows "\<exists>w. decode_value P n t x = Ok w"
proof (cases t)
  case (ColList item)
  then have "\<not> is_nested item" using assms(2) by (cases item) (simp_all add: column_type_ok_def is_nested_def)
  then show ?thesis
    using assms(1) ColList by (auto simp: encode_cell_def encode_list_def decode_value_def decode_list_values_def downcast_arrow split: json.splits)
qed (use assms(1) in \<open>auto simp: encode_cell_def decode_value_def split: json.splits if_splits\<close>)

lemma built_slot:
  assumes "spec_ok sp" "distinct (map fd_name sch)" "fd_name ` set sch = fst ` set (ss_columns sp)"
    and "rows_to_batch P sp sch rows = Ok b" "(n, c) \<in> set (ss_columns sp)" "i < length rows"
  shows "\<exists>x. cell_at sch (b_rows b ! i) n = Some x \<and> cell_for P n c i (rows ! i) = Ok x \<and>
    (if x = CNull then slot_value sp b i n = None
     else decode_value P n (cs_type c) x = Ok (the (slot_value sp b i n)) \<and> slot_value sp b i n \<noteq> None)"
proof -
  obtain cs where cs: "column sp n = Some c" "column_type_ok (cs_type c)"
    "cell_at sch (b_rows b ! i) n = Some (cs ! i)" "cell_for P n c i (rows ! i) = Ok (cs ! i)"
    using built_column [OF assms(1-5)] assms(6) by metis
  have "\<exists>w. decode_value P n (cs_type c) (cs ! i) = Ok w" if "cs ! i \<noteq> CNull"
    using cs(4) that decode_encoded [OF _ cs(2)] by (auto simp: cell_for_def split: option.splits)
  then show ?thesis
    using cs(1,3,4) by (auto simp: slot_value_def rows_to_batch_holds(2) [OF assms(1,2,4)])
qed

lemma batch_slot:
  assumes "spec_ok sp" "distinct (map fd_name sch)" "fd_name ` set sch = fst ` set (ss_columns sp)"
    and "rows_to_batch P sp sch rows = Ok b" "batch_finite b" "(n, c) \<in> set (ss_columns sp)" "i < length rows"
    and "build_column P n c rows = Ok cs"
  shows "if cs ! i = CNull then slot_value sp b i n = None \<and> cs_nullable c
    else \<exists>v. slot_value sp b i n = Some v \<and> decode_value P n (cs_type c) (cs ! i) = Ok v \<and>
      restores (encode_cell P n (cs_type c) i) (cs ! i) v"
proof -
  obtain cs' where "column sp n = Some c" "column_type_ok (cs_type c)" "build_column P n c rows = Ok cs'"
    "cell_at sch (b_rows b ! i) n = Some (cs' ! i)" "cell_for P n c i (rows ! i) = Ok (cs' ! i)" "cell_finite (cs' ! i)"
    using batch_column [OF assms(1-6)] assms(7) by metis
  moreover have "cs' = cs" using calculation(3) assms(8) by simp
  moreover have "b_schema b = sch" by (rule rows_to_batch_holds(2) [OF assms(1,2,4)])
  ultimately show ?thesis
    using cell_for_restores [of c n i "rows ! i" "cs ! i"] by (auto simp: slot_value_def)
qed

lemma decode_batch:
  assumes "spec_ok sp" "distinct (map fd_name sch)" "fd_name ` set sch = fst ` set (ss_columns sp)"
    and "rows_to_batch P sp sch rows = Ok b"
  shows "batch_to_rows P sp b =
    Ok (map (\<lambda>i. fill_row (slot_value sp b i) (map fst (ss_columns sp)) []) [0..<length rows])"
proof -
  note H = rows_to_batch_holds [OF assms(1,2,4)]
  have "\<exists>f. field_with_name sch n = Some f \<and> downcast (cs_type c) (fd_type f)"
    if "(n, c) \<in> set (ss_columns sp)" for n c
    using built_column [OF assms that] downcast_arrow by metis
  moreover have "\<exists>x. cell_at sch (b_rows b ! i) n = Some x \<and> (if x = CNull then slot_value sp b i n = None
      else decode_value P n (cs_type c) x = Ok (the (slot_value sp b i n)) \<and> slot_value sp b i n \<noteq> None)"
    if "(n, c) \<in> set (ss_columns sp)" "i < length rows" for n c i
    using built_slot [OF assms that] by blast
  ultimately show ?thesis
    using batch_to_rows_fill [of "ss_columns sp" b "slot_value sp b" "replicate (length (b_rows b)) []"]
    by (simp add: batch_to_rows_def H(2,3) cong: map_cong)
qed

lemma decoded_value:
  assumes "spec_ok sp" "distinct (map fd_name sch)" "fd_name ` set sch = fst ` set (ss_columns sp)"
    and "rows_to_batch P sp sch rows = Ok b" "batch_to_rows P sp b = Ok rows'" "i < length rows"
  shows "bt_get (rows' ! i) n = (if n \<in> fst ` set (ss_columns sp) then slot_value sp b i n else None)"
proof -
  have "rows' ! i = fill_row (slot_value sp b i) (map fst (ss_columns sp)) []"
    using assms(5,6) by (auto simp: decode_batch [OF assms(1-4)])
  then show ?thesis
    using fill_row_get [of "[]" "slot_value sp b i" "map fst (ss_columns sp)" n] by (auto simp: bt_sorted_def bt_get_def)
qed

text \<open>Reading a batch back and writing what was read gives the same batch.\<close>

lemma batch_fixpoint:
  assumes "spec_ok sp" "distinct (map fd_name sch)" "fd_name ` set sch = fst ` set (ss_columns sp)"
    and "rows_to_batch P sp sch rows = Ok b" "batch_finite b" "batch_to_rows P sp b = Ok rows'"
  shows "length rows' = length rows" "rows_to_batch P sp sch rows' = Ok b"
proof -
  have rows': "rows' = map (\<lambda>i. fill_row (slot_value sp b i) (map fst (ss_columns sp)) []) [0..<length rows]"
    using decode_batch [OF assms(1-4)] assms(6) by simp
  then show len: "length rows' = length rows" by simp
  have get: "bt_get (rows' ! i) n = (if n \<in> fst ` set (ss_columns sp) then slot_value sp b i n else None)"
    if "i < length rows" for i n
    by (rule decoded_value [OF assms(1-4,6) that])
  have "column sp n \<noteq> None" if "row \<in> set rows'" "n \<in> fst ` set row" for row n
  proof -
    obtain i where i: "i < length rows" "row = rows' ! i" using \<open>row \<in> set rows'\<close> len by (auto simp: in_set_conv_nth)
    have "bt_get row n \<noteq> None" using that(2) by (auto simp: bt_get_def map_of_eq_None_iff)
    then have "n \<in> fst ` set (ss_columns sp)" using get [OF i(1), of n] i(2) by (auto split: if_splits)
    then show ?thesis using spec_distinct [OF assms(1)] by (auto simp: column_Some)
  qed
  then have keys: "check_keys sp rows' = Ok ()" by (simp add: check_keys_Ok)
  have "build_column P n c rows' = build_column P n c rows" if n: "(n, c) \<in> set (ss_columns sp)" for n c
  proof -
    obtain cs where cs: "column_type_ok (cs_type c)" "build_column P n c rows = Ok cs" "length cs = length rows"
      using batch_column [OF assms(1-5) n] by metis
    have "cell_for P n c i (rows' ! i) = Ok (cs ! i)" if i: "i < length rows" for i
    proof -
      have "bt_get (rows' ! i) n = slot_value sp b i n" using get [OF i, of n] n by force
      then show ?thesis
        using batch_slot [OF assms(1-5) n i cs(2)]
        by (cases "cs ! i = CNull") (auto simp: cell_for_def value_for_def restores_def)
    qed
    then have "build_column P n c rows' = Ok cs" using cs(1,3) len by (simp add: build_column_cells build_cells_Ok)
    with cs(2) show ?thesis by simp
  qed
  then show "rows_to_batch P sp sch rows' = Ok b"
    using rows_to_batch_cong [OF rows_to_batch_holds(1) [OF assms(1,2,4)] keys, where P = P and sch = sch] assms(4) by simp
qed

end

end
