(* ===== verification/Generic_Properties.thy ===== *)
theory Generic_Properties
  imports Generic_Correct
begin

text \<open>The claims of the schema-driven store's schema and codec, with reference JSON operations on which the laws hold.\<close>

section \<open>Reference operations\<close>

datatype ref_number = RefInt int | RefFloat f64

definition ref_ops :: "ref_number json_ops" where
  "ref_ops =
     \<lparr>number_as_i64 = (\<lambda>n. case n of RefInt i \<Rightarrow> if in_i64 i then Some i else None | RefFloat _ \<Rightarrow> None),
      number_as_f64 = (\<lambda>n. case n of RefInt _ \<Rightarrow> None | RefFloat x \<Rightarrow> Some x),
      number_of_i64 = RefInt,
      number_from_f64 = (\<lambda>x. if f64_finite x then Some (RefFloat x) else None),
      base64_encode = map (\<lambda>w. char_of (unat w)),
      base64_decode = (\<lambda>s. Some (map (\<lambda>c. of_nat (of_char c)) s)),
      rfc3339_micros = parse_i64\<rparr>"

interpretation ref_json: json_laws ref_ops
proof unfold_locales
  have "of_nat (of_char (char_of (unat w) :: char)) = w" for w :: "8 word"
  proof -
    have "unat w < 2 ^ LENGTH(8)" by (rule unsigned_less)
    then show ?thesis by simp
  qed
  then show "base64_decode ref_ops (base64_encode ref_ops b) = Some b" for b
    by (simp add: ref_ops_def comp_def)
qed (auto simp: ref_ops_def parse_i64_range split: ref_number.splits if_splits)

section \<open>The schema\<close>

lemma to_arrow_Ok:
  assumes "to_arrow sp = Ok s"
  obtains large where "spec_ok sp" "column sp ID_COLUMN = Some (column_required (ColString large))"
    "as_fields s = arrow_field ID_COLUMN (column_required (ColString large)) #
       map (\<lambda>(name, spec). arrow_field name spec) (filter (\<lambda>c. fst c \<noteq> ID_COLUMN) (ss_columns sp))"
    "as_metadata s = metric_metadata (ss_columns sp)"
proof -
  have ok: "spec_ok sp" using assms by (auto simp: to_arrow_def validate_spec_iff)
  then obtain large where "column sp ID_COLUMN = Some (column_required (ColString large))" using spec_id by blast
  with ok assms show ?thesis by (intro that [of large]) (auto simp: to_arrow_def)
qed

lemma plain_fields_names:
  assumes "to_arrow sp = Ok s"
  shows "map fd_name (plain_fields s) = ID_COLUMN # filter (\<lambda>n. n \<noteq> ID_COLUMN) (map fst (ss_columns sp))"
proof -
  obtain large where "as_fields s = arrow_field ID_COLUMN (column_required (ColString large)) #
      map (\<lambda>(name, spec). arrow_field name spec) (filter (\<lambda>c. fst c \<noteq> ID_COLUMN) (ss_columns sp))"
    using to_arrow_Ok [OF assms] by metis
  then show ?thesis
    by (auto simp: plain_fields_def field_def.defs arrow_field_def Let_def filter_map comp_def)
qed

lemma plain_fields_cover:
  assumes "to_arrow sp = Ok s"
  shows "fd_name ` set (plain_fields s) = fst ` set (ss_columns sp)" "distinct (map fd_name (plain_fields s))"
proof -
  obtain large where sp: "spec_ok sp" "column sp ID_COLUMN = Some (column_required (ColString large))"
    using to_arrow_Ok [OF assms] by metis
  then have "(ID_COLUMN, column_required (ColString large)) \<in> set (ss_columns sp)" by (simp add: column_Some spec_distinct)
  moreover have "set (map fd_name (plain_fields s)) = set (ID_COLUMN # filter (\<lambda>n. n \<noteq> ID_COLUMN) (map fst (ss_columns sp)))"
    by (simp only: plain_fields_names [OF assms])
  ultimately show "fd_name ` set (plain_fields s) = fst ` set (ss_columns sp)" by (auto simp: image_iff) force
  show "distinct (map fd_name (plain_fields s))"
    using spec_distinct [OF sp(1)] by (simp add: plain_fields_names [OF assms])
qed

definition sample_spec :: schema_spec where
  "sample_spec = \<lparr>ss_columns = [(''score'', column_new ColFloat32), (''id'', column_required (ColString False)),
     (''tags'', column_new (ColList ColInt32)), (''emb'', column_new (ColVector 2 (Some ''Cosine''))),
     (''payload'', column_new (ColBinary True))]\<rparr>"

definition sample_schema :: arrow_schema where
  "sample_schema = (case to_arrow sample_spec of Ok s \<Rightarrow> s | Err _ \<Rightarrow> \<lparr>as_fields = [], as_metadata = Map.empty\<rparr>)"

lemma sample_spec_ok: "spec_ok sample_spec" "to_arrow sample_spec = Ok sample_schema" "vectors_i32 sample_spec"
proof -
  have metric: "to_ascii_lowercase ''Cosine'' = ''cosine''" by code_simp
  show "spec_ok sample_spec"
    by (auto simp: spec_ok_def sample_spec_def column_ok_def column_type_ok_def column_new_def column_required_def
        MAX_COLUMNS_def ID_COLUMN_def metric VALID_METRICS_def)
  then show "to_arrow sample_spec = Ok sample_schema"
    using spec_id [of sample_spec] iffD2 [OF validate_spec_iff, of sample_spec] by (auto simp: sample_schema_def to_arrow_def)
  show "vectors_i32 sample_spec"
    by (auto simp: vectors_i32_def sample_spec_def column_new_def column_required_def in_i32_def)
qed

lemma validate_columns_no_expect: "validate_columns seen cs \<noteq> Err ExpectFailed"
  by (induction seen cs rule: validate_columns.induct)
    (auto simp: res_bind_Err_iff validate_column_type_def split: column_type.splits option.splits if_splits)

lemma validate_spec_no_expect: "validate_spec sp \<noteq> Err ExpectFailed"
  by (auto simp: validate_spec_def res_bind_Err_iff validate_columns_no_expect split: option.splits column_type.splits)

lemma plain_fields_shape:
  assumes "to_arrow sp = Ok s"
  obtains large rest where "plain_fields s = \<lparr>fd_name = ID_COLUMN, fd_type = arrow_data_type (ColString large), fd_nullable = False\<rparr> # rest"
    "\<And>n c. (n, c) \<in> set (ss_columns sp) \<Longrightarrow> \<lparr>fd_name = n, fd_type = arrow_data_type (cs_type c), fd_nullable = cs_nullable c\<rparr> \<in> set (plain_fields s)"
proof -
  obtain large where sp: "spec_ok sp" "column sp ID_COLUMN = Some (column_required (ColString large))"
    and fs: "as_fields s = arrow_field ID_COLUMN (column_required (ColString large)) #
      map (\<lambda>(name, spec). arrow_field name spec) (filter (\<lambda>c. fst c \<noteq> ID_COLUMN) (ss_columns sp))"
    using to_arrow_Ok [OF assms] by metis
  have t: "field_def.truncate (arrow_field n c) = \<lparr>fd_name = n, fd_type = arrow_data_type (cs_type c), fd_nullable = cs_nullable c\<rparr>" for n c
    by (simp add: arrow_field_def Let_def field_def.defs)
  have id: "column_required (ColString large) = c" if "(ID_COLUMN, c) \<in> set (ss_columns sp)" for c
    using that sp by (simp add: column_Some [OF spec_distinct, symmetric])
  show ?thesis
  proof (rule that)
    show "plain_fields s = \<lparr>fd_name = ID_COLUMN, fd_type = arrow_data_type (ColString large), fd_nullable = False\<rparr> #
        map (\<lambda>(n, c). field_def.truncate (arrow_field n c)) (filter (\<lambda>c. fst c \<noteq> ID_COLUMN) (ss_columns sp))"
      by (simp add: plain_fields_def fs t column_required_def case_prod_unfold comp_def)
    show "\<lparr>fd_name = n, fd_type = arrow_data_type (cs_type c), fd_nullable = cs_nullable c\<rparr> \<in> set (plain_fields s)"
      if "(n, c) \<in> set (ss_columns sp)" for n c
      using that id by (cases "n = ID_COLUMN") (auto simp: plain_fields_def fs t [symmetric] intro!: rev_image_eqI)
  qed
qed

text \<open>
  The Arrow schema of a declaration exists exactly if the declaration is valid, and then has the
  non-null string key first, followed by the other declared columns in order with their types and
  nullability; no name occurs twice or starts with an underscore. The \<open>expect\<close> in \<open>to_arrow\<close> never fails.
\<close>

theorem to_arrow_contract:
  "((\<exists>s. to_arrow sp = Ok s) \<longleftrightarrow> validate_spec sp = Ok ()) \<and> to_arrow sp \<noteq> Err ExpectFailed \<and>
   (\<forall>s. to_arrow sp = Ok s \<longrightarrow>
      map fd_name (plain_fields s) = ''id'' # filter (\<lambda>n. n \<noteq> ''id'') (map fst (ss_columns sp)) \<and>
      \<not> fd_nullable (hd (plain_fields s)) \<and> fd_type (hd (plain_fields s)) \<in> {DUtf8, DLargeUtf8} \<and>
      distinct (map fd_name (plain_fields s)) \<and> (\<forall>f \<in> set (plain_fields s). hd (fd_name f) \<noteq> CHR ''_'') \<and>
      (\<forall>n c. (n, c) \<in> set (ss_columns sp) \<longrightarrow>
         \<lparr>fd_name = n, fd_type = arrow_data_type (cs_type c), fd_nullable = cs_nullable c\<rparr> \<in> set (plain_fields s)))"
proof (intro conjI allI impI)
  show "(\<exists>s. to_arrow sp = Ok s) \<longleftrightarrow> validate_spec sp = Ok ()"
    using spec_id [of sp] by (auto simp: to_arrow_def validate_spec_iff)
  show "to_arrow sp \<noteq> Err ExpectFailed"
  proof
    assume "to_arrow sp = Err ExpectFailed"
    then have "validate_spec sp = Err ExpectFailed \<or> validate_spec sp = Ok () \<and> column sp ID_COLUMN = None"
      by (auto simp: to_arrow_def res_bind_Err_iff ok_or_def split: option.splits)
    then show False using spec_id [of sp] validate_spec_no_expect by (auto simp: validate_spec_iff)
  qed
  fix s assume s: "to_arrow sp = Ok s"
  show "map fd_name (plain_fields s) = ''id'' # filter (\<lambda>n. n \<noteq> ''id'') (map fst (ss_columns sp))"
    using plain_fields_names [OF s] by (simp add: ID_COLUMN_def)
  show "distinct (map fd_name (plain_fields s))" by (rule plain_fields_cover(2) [OF s])
  obtain large rest where shape: "plain_fields s =
      \<lparr>fd_name = ID_COLUMN, fd_type = arrow_data_type (ColString large), fd_nullable = False\<rparr> # rest"
    using plain_fields_shape [OF s] by metis
  then show "\<not> fd_nullable (hd (plain_fields s))" "fd_type (hd (plain_fields s)) \<in> {DUtf8, DLargeUtf8}"
    by (cases large; simp)+
  show "\<forall>f \<in> set (plain_fields s). hd (fd_name f) \<noteq> CHR ''_''"
  proof
    fix f assume "f \<in> set (plain_fields s)"
    then have "fd_name f \<in> fst ` set (ss_columns sp)" using plain_fields_cover(1) [OF s] by blast
    moreover have "spec_ok sp" using to_arrow_Ok [OF s] by metis
    ultimately show "hd (fd_name f) \<noteq> CHR ''_''" by (auto simp: spec_ok_def list_all_iff column_ok_def)
  qed
  show "\<lparr>fd_name = n, fd_type = arrow_data_type (cs_type c), fd_nullable = cs_nullable c\<rparr> \<in> set (plain_fields s)"
    if "(n, c) \<in> set (ss_columns sp)" for n c
    using plain_fields_shape [OF s] that by metis
qed

theorem to_arrow_contract_witness:
  "map fd_name (plain_fields sample_schema) = [''id'', ''score'', ''tags'', ''emb'', ''payload'']"
  using to_arrow_contract [of sample_spec] sample_spec_ok(2) by (simp add: sample_spec_def)

section \<open>The codec\<close>

text \<open>
  C39. Whatever rows the encoder accepts, the batch it builds is well typed for the table: one row of
  cells per row, every cell of the type of its column, null only where the column may be null.
\<close>

theorem generic_batch_typed:
  assumes "to_arrow sp = Ok s" "vectors_i32 sp" "distinct (map fd_name sch)" "rows_to_batch P sp sch rows = Ok b"
  shows "batch_ok b \<and> b_schema b = sch \<and> length (b_rows b) = length rows"
proof -
  have "spec_ok sp" using to_arrow_Ok [OF assms(1)] by metis
  then show ?thesis using rows_to_batch_typed assms(2,4) rows_to_batch_holds(2,3) [OF _ assms(3,4)] by blast
qed

definition sample_row :: "ref_number row" where
  "sample_row = [(''id'', JString ''r1''), (''score'', JNull), (''tags'', JArray [JNumber (RefInt 7)])]"

lemma plain_field_column:
  assumes "to_arrow sp = Ok s" "f \<in> set (plain_fields s)"
  obtains c where "(fd_name f, c) \<in> set (ss_columns sp)" "fd_type f = arrow_data_type (cs_type c)" "fd_nullable f = cs_nullable c"
proof -
  have "fd_name f \<in> fst ` set (ss_columns sp)" using plain_fields_cover(1) [OF assms(1)] assms(2) by blast
  then obtain c where c: "(fd_name f, c) \<in> set (ss_columns sp)" by auto
  then have "\<lparr>fd_name = fd_name f, fd_type = arrow_data_type (cs_type c), fd_nullable = cs_nullable c\<rparr> \<in> set (plain_fields s)"
    using plain_fields_shape [OF assms(1)] by metis
  then have "f = \<lparr>fd_name = fd_name f, fd_type = arrow_data_type (cs_type c), fd_nullable = cs_nullable c\<rparr>"
    using plain_fields_cover(2) [OF assms(1)] assms(2) by (auto simp: distinct_map inj_on_def)
  then have "fd_type f = arrow_data_type (cs_type c)" "fd_nullable f = cs_nullable c" by (metis field_def.simps)+
  with c show ?thesis by (rule that)
qed

lemma built_nulls:
  assumes "column_type_ok (cs_type c)" "build_column P n c rows = Ok cs" "CNull \<in> set cs"
  shows "cs_nullable c"
proof -
  obtain i where i: "i < length rows" "cs ! i = CNull" and cells: "cell_for P n c i (rows ! i) = Ok (cs ! i)"
    using assms by (auto simp: build_column_cells build_cells_Ok in_set_conv_nth)
  have "encode_cell P n (cs_type c) i v \<noteq> Ok CNull" for v
    by (cases "(P, n, i, cs_type c, v)" rule: encode_value.cases)
      (auto simp: encode_cell_eq encode_list_def split: json.splits if_splits)
  then show ?thesis
    using cells i by (auto simp: cell_for_def value_for_def split: option.splits if_splits)
qed

lemma rows_to_batch_accepts:
  fixes P :: "'n json_ops"
  assumes "to_arrow sp = Ok s" "check_keys sp rows = Ok ()"
    and built: "\<And>n c. (n, c) \<in> set (ss_columns sp) \<Longrightarrow> is_ok (build_column P n c rows)"
  shows "\<exists>b. rows_to_batch P sp (plain_fields s) rows = Ok b"
proof -
  have ok: "spec_ok sp" using to_arrow_Ok [OF assms(1)] by metis
  define cells where "cells = (\<lambda>n c. case build_column P n c rows of Ok x \<Rightarrow> x | Err _ \<Rightarrow> [])"
  define arrays where "arrays = map (\<lambda>(n, c). (n, arrow_data_type (cs_type c), cells n c)) (ss_columns sp)"
  have b: "build_column P n c rows = Ok (cells n c)" if "(n, c) \<in> set (ss_columns sp)" for n c
    using built [OF that] by (auto simp: cells_def is_ok_iff)
  have arr: "collect_res (\<lambda>(n, c). res_bind (build_column P n c rows) (\<lambda>cs. Ok (n, arrow_data_type (cs_type c), cs))) (ss_columns sp) = Ok arrays"
    unfolding arrays_def by (rule collect_res_map_Ok) (auto simp: b)
  have dist: "distinct (map fst arrays)" using spec_distinct [OF ok] by (simp add: arrays_def case_prod_unfold comp_def)
  have col: "\<exists>c. map_of (rev arrays) (fd_name f) = Some (arrow_data_type (cs_type c), cells (fd_name f) c) \<and>
      column_fits (length rows) f (arrow_data_type (cs_type c), cells (fd_name f) c)" if f: "f \<in> set (plain_fields s)" for f
  proof -
    obtain c where c: "(fd_name f, c) \<in> set (ss_columns sp)" "fd_type f = arrow_data_type (cs_type c)" "fd_nullable f = cs_nullable c"
      by (rule plain_field_column [OF assms(1) f])
    have t: "column_type_ok (cs_type c)" using c(1) ok by (auto simp: spec_ok_def list_all_iff column_ok_def)
    have "(fd_name f, arrow_data_type (cs_type c), cells (fd_name f) c) \<in> set arrays" using c(1) by (force simp: arrays_def)
    then have "map_of (rev arrays) (fd_name f) = Some (arrow_data_type (cs_type c), cells (fd_name f) c)"
      using dist by (simp add: map_of_rev_distinct map_of_eq_Some_iff)
    moreover have "column_fits (length rows) f (arrow_data_type (cs_type c), cells (fd_name f) c)"
      using c(2,3) b [OF c(1)] built_nulls [OF t b [OF c(1)]] t by (auto simp: column_fits_def build_column_cells build_cells_Ok)
    ultimately show ?thesis by blast
  qed
  define cols where "cols = map (\<lambda>f. the (map_of (rev arrays) (fd_name f))) (plain_fields s)"
  have cs: "collect_res (\<lambda>f. ok_or (DatasetColumnUndeclared (fd_name f) :: 'n generic_error) (map_of (rev arrays) (fd_name f)))
      (plain_fields s) = Ok cols"
    unfolding cols_def by (rule collect_res_map_Ok) (use col in fastforce)
  have fits: "list_all2 (column_fits (length rows)) (plain_fields s) cols"
    unfolding cols_def list_all2_map2 by (rule list_all2I) (use col in \<open>auto simp: zip_same dest!: col\<close>)
  moreover obtain f fs where "plain_fields s = f # fs" using plain_fields_shape [OF assms(1)] by metis
  ultimately obtain c0 cs0 where "cols = c0 # cs0" "length (snd c0) = length rows" by (auto simp: list_all2_Cons1 column_fits_def)
  then have "\<exists>b. (try_new_columns (plain_fields s) cols :: ('n generic_error, batch) result) = Ok b"
    using fits by (simp add: try_new_columns_def Let_def)
  then show ?thesis using assms(2) arr cs by (simp add: rows_to_batch_def)
qed

text \<open>
  C38. The encoder accepts a list of rows exactly if every key is a declared column and every value
  converts to its column's type, no value being missing where null is not allowed; nothing else can fail.
\<close>

theorem generic_rows_accepted_iff:
  assumes "to_arrow sp = Ok s"
  shows "(\<exists>b. rows_to_batch P sp (plain_fields s) rows = Ok b) \<longleftrightarrow>
    (\<forall>row \<in> set rows. \<forall>key \<in> fst ` set row. column sp key \<noteq> None) \<and>
    (\<forall>(n, c) \<in> set (ss_columns sp). is_ok (build_column P n c rows))"
proof -
  have "is_ok (build_column P n c rows)"
    if b: "rows_to_batch P sp (plain_fields s) rows = Ok b" and n: "(n, c) \<in> set (ss_columns sp)" for b n c
  proof -
    obtain arrays where "collect_res (\<lambda>(n, c). res_bind (build_column P n c rows) (\<lambda>cs. Ok (n, arrow_data_type (cs_type c), cs)))
        (ss_columns sp) = Ok arrays" using b by (auto simp: rows_to_batch_def)
    then show ?thesis using list_all2_mem [OF _ n] by (force simp: collect_res_Ok_iff is_ok_iff)
  qed
  moreover have "check_keys sp rows = Ok ()" if "rows_to_batch P sp (plain_fields s) rows = Ok b" for b
    using that by (auto simp: rows_to_batch_def)
  ultimately show ?thesis
    using rows_to_batch_accepts [OF assms, of rows P] unfolding check_keys_Ok by (fastforce)
qed

lemma rows_to_batch_finite:
  assumes "spec_ok sp" "rows_to_batch P sp sch rows = Ok b"
    and fin: "\<And>n c cs. (n, c) \<in> set (ss_columns sp) \<Longrightarrow> build_column P n c rows = Ok cs \<Longrightarrow> list_all cell_finite cs"
  shows "batch_finite b"
proof -
  obtain cols where fits: "list_all2 (column_fits (length rows)) sch cols"
    and b: "b = \<lparr>b_schema = sch, b_rows = map (\<lambda>i. map (\<lambda>c. snd c ! i) cols) [0..<length rows]\<rparr>"
    and col: "\<And>k. k < length sch \<Longrightarrow> \<exists>c cs. (fd_name (sch ! k), c) \<in> set (ss_columns sp) \<and> column_type_ok (cs_type c) \<and>
      cols ! k = (arrow_data_type (cs_type c), cs) \<and> build_column P (fd_name (sch ! k)) c rows = Ok cs"
    using rows_to_batch_columns [OF assms(1,2)] by blast
  have "cell_finite (snd c ! i)" if c: "c \<in> set cols" and i: "i < length rows" for c i
  proof -
    obtain k where "k < length cols" "c = cols ! k" using c unfolding in_set_conv_nth by auto
    then have k: "k < length sch" "c = cols ! k" using list_all2_lengthD [OF fits] by simp_all
    from col [OF k(1)] obtain d cs where d: "(fd_name (sch ! k), d) \<in> set (ss_columns sp)"
      "cols ! k = (arrow_data_type (cs_type d), cs)" "build_column P (fd_name (sch ! k)) d rows = Ok cs" by (elim exE conjE)
    then have "list_all cell_finite (snd c)" using fin [OF d(1,3)] k(2) by simp
    moreover have "length (snd c) = length rows" using list_all2_nthD [OF fits k(1)] k(2) by (simp add: column_fits_def)
    ultimately show ?thesis using i by (simp add: list_all_length)
  qed
  then show ?thesis by (auto simp: batch_finite_def list_all_iff b)
qed

lemma sample_rows_build:
  "check_keys sample_spec [sample_row] = Ok ()"
  "(n, c) \<in> set (ss_columns sample_spec) \<Longrightarrow>
     \<exists>cs. build_column ref_ops n c [sample_row] = Ok cs \<and> list_all cell_finite cs"
proof -
  show "check_keys sample_spec [sample_row] = Ok ()"
    by (auto simp: check_keys_Ok sample_row_def sample_spec_def column_def)
  show "\<exists>cs. build_column ref_ops n c [sample_row] = Ok cs \<and> list_all cell_finite cs" if "(n, c) \<in> set (ss_columns sample_spec)"
    using that by (auto simp: sample_spec_def sample_row_def build_column_def build_list_column_def build_cells_def is_nested_def
        column_new_def column_required_def value_for_def bt_get_def encode_list_def as_i64_def as_i32_def ref_ops_def in_i64_def
        in_i32_def as_string_def)
qed

lemma sample_rows_accepted:
  "\<exists>b. rows_to_batch ref_ops sample_spec (plain_fields sample_schema) [sample_row] = Ok b \<and> batch_finite b"
proof -
  obtain b where b: "rows_to_batch ref_ops sample_spec (plain_fields sample_schema) [sample_row] = Ok b"
    using rows_to_batch_accepts [OF sample_spec_ok(2) sample_rows_build(1)] sample_rows_build(2) by (metis is_ok_iff)
  moreover have "batch_finite b"
    using rows_to_batch_finite [OF sample_spec_ok(1) b] sample_rows_build(2) by (metis sum.inject(2))
  ultimately show ?thesis by blast
qed

theorem generic_rows_accepted_iff_witness:
  "\<exists>b. rows_to_batch ref_ops sample_spec (plain_fields sample_schema) [sample_row] = Ok b"
  using iffD2 [OF generic_rows_accepted_iff [OF sample_spec_ok(2), of ref_ops "[sample_row]"]] sample_rows_build
  unfolding check_keys_Ok by (fastforce simp: is_ok_iff)


theorem generic_batch_typed_witness:
  "\<exists>b. rows_to_batch ref_ops sample_spec (plain_fields sample_schema) [sample_row] = Ok b \<and> batch_ok b"
  using sample_rows_accepted generic_batch_typed [OF sample_spec_ok(2,3) plain_fields_cover(2) [OF sample_spec_ok(2)]] by metis

text \<open>
  C6. Rows survive storage: in whatever order the table keeps its columns, a batch built from accepted
  rows decodes, to as many rows, and writing what was read gives exactly the same batch, as long as no
  stored float is infinite or NaN (which JSON cannot carry).
\<close>

theorem generic_rows_round_trip:
  assumes "json_laws P" "to_arrow sp = Ok s" "set sch = set (plain_fields s)" "distinct (map fd_name sch)"
    and "rows_to_batch P sp sch rows = Ok b" "batch_finite b"
  shows "\<exists>rows'. batch_to_rows P sp b = Ok rows' \<and> length rows' = length rows \<and> rows_to_batch P sp sch rows' = Ok b"
proof -
  have ok: "spec_ok sp" using to_arrow_Ok [OF assms(2)] by metis
  have cover: "fd_name ` set sch = fst ` set (ss_columns sp)" using plain_fields_cover(1) [OF assms(2)] assms(3) by simp
  note J = json_laws.decode_batch [OF assms(1) ok assms(4) cover assms(5)]
  from J json_laws.batch_fixpoint [OF assms(1) ok assms(4) cover assms(5,6) J] show ?thesis by blast
qed

theorem generic_rows_round_trip_witness:
  "\<exists>b rows'. rows_to_batch ref_ops sample_spec (plain_fields sample_schema) [sample_row] = Ok b \<and>
     batch_to_rows ref_ops sample_spec b = Ok rows' \<and>
     rows_to_batch ref_ops sample_spec (plain_fields sample_schema) rows' = Ok b"
  using sample_rows_accepted generic_rows_round_trip [OF ref_json.json_laws_axioms sample_spec_ok(2) refl
      plain_fields_cover(2) [OF sample_spec_ok(2)]] by metis






text \<open>
  \<open>ids_from_batch\<close> returns the ids of the rows in order when the key is a plain string column. A key
  declared as a large string, which \<open>validate\<close> admits, makes it fail on every batch of the table.
\<close>

theorem ids_from_batch_by_key_type:
  assumes "to_arrow sp = Ok s" "column sp ''id'' = Some c" "distinct (map fd_name sch)" "set sch = set (plain_fields s)"
    and "rows_to_batch P sp sch rows = Ok b"
  shows "ids_from_batch b = (if cs_type c = ColString True then Err IdColumnNotString
    else Ok (map (\<lambda>row. case bt_get row ''id'' of Some (JString i) \<Rightarrow> i | _ \<Rightarrow> []) rows))"
proof -
  obtain large where ok: "spec_ok sp" and c: "c = column_required (ColString large)"
    using to_arrow_Ok [OF assms(1)] assms(2) by (metis ID_COLUMN_def option.inject)
  note H = rows_to_batch_holds [OF ok assms(3,5)]
  have "''id'' \<in> fd_name ` set sch"
    using plain_fields_cover(1) [OF assms(1)] assms(2,4) spec_distinct [OF ok] by (force simp: column_Some)
  then obtain f where f: "f \<in> set sch" "field_with_name sch ''id'' = Some f" "fd_name f = ''id''"
    using field_with_name_mem by metis
  then obtain d cs where d: "column sp ''id'' = Some d" "fd_type f = arrow_data_type (cs_type d)"
    "build_column P ''id'' d rows = Ok cs" "length cs = length rows"
    "\<forall>i < length rows. cell_at sch (b_rows b ! i) ''id'' = Some (cs ! i)"
    using H(4) [OF f(1)] spec_distinct [OF ok] by (auto simp: column_Some)
  have t: "cs_type d = ColString large" "\<not> cs_nullable d" using d(1) assms(2) c by (auto simp: column_required_def)
  show ?thesis
  proof (cases large)
    case True
    then show ?thesis using f(2) d(2) t c by (simp add: ids_from_batch_def H(2) ID_COLUMN_def column_required_def)
  next
    case False
    have "cell_for P ''id'' d i (rows ! i) = Ok (cs ! i)" if "i < length rows" for i
      using d(3) that t build_cells_Ok [of P "''id''" d rows cs] by (simp add: build_column_cells column_type_ok_def)
    moreover have "x = CUtf8 (case bt_get row ''id'' of Some (JString i) \<Rightarrow> i | _ \<Rightarrow> [])" if "cell_for P ''id'' d i row = Ok x" for i row x
      using that t False
      by (cases "bt_get row ''id''") (auto simp: cell_for_def value_for_def encode_cell_def as_string_def split: json.splits if_splits)
    ultimately have "cell_at sch (b_rows b ! i) ''id'' = Some (CUtf8 (case bt_get (rows ! i) ''id'' of Some (JString i) \<Rightarrow> i | _ \<Rightarrow> []))"
      if "i < length rows" for i
      using that d(5) by metis
    then show ?thesis
      using f(2) d(2) t c False H(3) by (auto simp: ids_from_batch_def H(2) ID_COLUMN_def column_required_def intro!: nth_equalityI)
  qed
qed

theorem ids_from_batch_by_key_type_witness:
  "\<exists>b. rows_to_batch ref_ops sample_spec (plain_fields sample_schema) [sample_row] = Ok b \<and>
     (ids_from_batch b :: (ref_number generic_error, string list) result) = Ok [''r1'']"
proof -
  have id: "column sample_spec ''id'' = Some (column_required (ColString False))" by (simp add: column_def sample_spec_def)
  from sample_rows_accepted obtain b where b: "rows_to_batch ref_ops sample_spec (plain_fields sample_schema) [sample_row] = Ok b" by blast
  from ids_from_batch_by_key_type [OF sample_spec_ok(2) id plain_fields_cover(2) [OF sample_spec_ok(2)] refl b] b show ?thesis
    by (simp add: column_required_def sample_row_def bt_get_def)
qed

end
