(* ===== verification/Task_Store.thy ===== *)
theory Task_Store
  imports Prelude
begin

text \<open>
  The durable scheduler queue of \<open>crates/lance-context-master/src/task_store.rs\<close>: enqueue with
  deduplication, dependency-aware claims under a lease and a per-target lock, completion, recovery of
  orphaned tasks, named coordination locks and pruning of the terminal history.

  \<open>etcd_client\<close>, \<open>serde_json\<close>, the UUID generator and the clock are the parameters \<open>etcd\<close> and \<open>serde\<close>: records
  of the calls the code makes. What the code relies on of them is the locale \<open>etcd_laws\<close> of
  \<open>Task_Safety\<close>. Dropping a keepalive handle stops the renewal of a lease; it does not touch the store
  and has no counterpart here.
\<close>

section \<open>Data\<close>

datatype task_kind = Compact | MergeWal | IndexId
datatype task_state = Queued | TaskRunning | Done | TaskFailed

record task =
  t_id :: string
  t_kind :: task_kind
  t_target :: string
  t_state :: task_state
  t_error :: "string option"
  t_detail :: "string option"
  t_enqueued_at :: int
  t_started_at :: "int option"
  t_finished_at :: "int option"
  t_depends_on :: "string list"

datatype compare = VersionZero string | VersionPositive string | ValueEqual string string
datatype txn_op = TxnPut string string "int option" | TxnDelete string

type_synonym etcd_fault = string

record 's etcd =
  etcd_txn :: "compare list \<Rightarrow> txn_op list \<Rightarrow> ('s, etcd_fault, bool) io"
  etcd_get :: "string \<Rightarrow> ('s, etcd_fault, string option) io"
  etcd_prefix :: "string \<Rightarrow> ('s, etcd_fault, (string \<times> string) list) io"
  etcd_count :: "string \<Rightarrow> ('s, etcd_fault, int) io"
  etcd_range :: "string \<Rightarrow> string \<Rightarrow> nat \<Rightarrow> ('s, etcd_fault, (string \<times> string) list \<times> bool) io"
  lease_grant :: "int \<Rightarrow> ('s, etcd_fault, int) io"
  lease_revoke :: "int \<Rightarrow> ('s, etcd_fault, unit) io"
  lease_keep_alive :: "int \<Rightarrow> ('s, etcd_fault, unit) io"
  fresh_uuid :: "'s \<Rightarrow> string \<times> 's"
  clock_ms :: "'s \<Rightarrow> int \<times> 's"

record serde =
  to_vec :: "task \<Rightarrow> string option"
  from_slice :: "string \<Rightarrow> task option"

datatype task_error =
    EtcdFailure string etcd_fault
  | EncodeFailure string
  | DecodeFailure string
  | EnqueueUnresolved
  | LostClaim string
  | InvalidCount
  | InvalidUtf8
  | PollBound
  | IoError string

type_synonym ('s, 'a) task_io = "('s, task_error, 'a) io"

record task_store =
  ts_prefix :: string
  ts_lease_ttl :: int
  ts_history_limit :: nat
  ts_history_ttl_secs :: int

record claim =
  cl_task :: task
  cl_token :: string
  cl_lease :: int
  cl_key :: string
  cl_target_key :: "string option"

record guard =
  gd_token :: string
  gd_lease :: int
  gd_key :: string

datatype dependency_status = Ready | Waiting | DependencyFailed string

definition TASK_POLL_BATCH :: nat where "TASK_POLL_BATCH = 256"

section \<open>Pure helpers\<close>

definition apply_outcome :: "int \<Rightarrow> task \<Rightarrow> (string, string) result \<Rightarrow> task" where
  "apply_outcome now t outcome =
     (let t1 = t\<lparr>t_finished_at := Some now\<rparr> in
      case outcome of
        Inr detail \<Rightarrow> t1\<lparr>t_state := Done, t_detail := Some detail, t_error := None\<rparr>
      | Inl error \<Rightarrow> t1\<lparr>t_state := TaskFailed, t_error := Some error, t_detail := None\<rparr>)"

definition requeue :: "task \<Rightarrow> task" where
  "requeue t = t\<lparr>t_state := Queued, t_started_at := None, t_finished_at := None, t_error := None, t_detail := None\<rparr>"

definition fail_dependency_record :: "int \<Rightarrow> task \<Rightarrow> string \<Rightarrow> task" where
  "fail_dependency_record now t dependency =
     apply_outcome now t (Err (''dependency '' @ dependency @ '' did not complete''))"

definition should_dedupe :: "task_kind \<Rightarrow> string list \<Rightarrow> bool" where
  "should_dedupe k deps \<longleftrightarrow> deps = [] \<and> (k = Compact \<or> k = IndexId \<or> k = MergeWal)"

definition requires_target_lock :: "task_kind \<Rightarrow> bool" where
  "requires_target_lock k \<longleftrightarrow> k = Compact \<or> k = IndexId"

fun kind_label :: "task_kind \<Rightarrow> string" where
  "kind_label Compact = ''compact''"
| "kind_label MergeWal = ''merge-wal''"
| "kind_label IndexId = ''index-id''"

definition hex_digit :: "nat \<Rightarrow> char" where
  "hex_digit n = (if n < 10 then char_of (48 + n) else char_of (87 + n))"

definition encode_segment :: "string \<Rightarrow> string" where
  "encode_segment s = concat (map (\<lambda>c. [hex_digit (of_char c div 16), hex_digit (of_char c mod 16)]) s)"

text \<open>\<open>prefix_range_end\<close>, on bytes: the loop from the last byte down.\<close>

fun range_end_rev :: "nat list \<Rightarrow> nat list" where
  "range_end_rev [] = [0]"
| "range_end_rev (b # bs) = (if b \<noteq> 255 then rev ((b + 1) # bs) else range_end_rev bs)"

definition prefix_range_end :: "string \<Rightarrow> string" where
  "prefix_range_end p = map char_of (range_end_rev (rev (map of_char p)))"

definition finish_time :: "task \<Rightarrow> int" where
  "finish_time t = (case t_finished_at t of Some f \<Rightarrow> f | None \<Rightarrow> t_enqueued_at t)"

definition is_live :: "task \<Rightarrow> bool" where
  "is_live t \<longleftrightarrow> t_state t = Queued \<or> t_state t = TaskRunning"

definition is_finished :: "task \<Rightarrow> bool" where
  "is_finished t \<longleftrightarrow> t_state t = Done \<or> t_state t = TaskFailed"

definition prunable_terminal_ids :: "task list \<Rightarrow> nat \<Rightarrow> int option \<Rightarrow> string list" where
  "prunable_terminal_ids tasks history_limit ttl_cutoff =
     (let protected = set (concat (map t_depends_on (filter is_live tasks)));
          terminal = filter (\<lambda>t. t_id t \<notin> protected) (filter is_finished tasks);
          newest = sort_key (\<lambda>t. - finish_time t) terminal
      in map (t_id \<circ> snd)
           (filter (\<lambda>(rank, t). history_limit \<le> rank \<or>
              (case ttl_cutoff of Some cutoff \<Rightarrow> finish_time t \<le> cutoff | None \<Rightarrow> False))
            (enumerate 0 newest)))"

section \<open>Keys\<close>

definition tasks_prefix :: "string \<Rightarrow> string" where "tasks_prefix p = p @ ''/tasks/''"
definition queue_prefix :: "string \<Rightarrow> string" where "queue_prefix p = p @ ''/queue/''"
definition running_prefix :: "string \<Rightarrow> string" where "running_prefix p = p @ ''/running/''"
definition task_key :: "string \<Rightarrow> string \<Rightarrow> string" where "task_key p i = tasks_prefix p @ i"
definition queue_key :: "string \<Rightarrow> string \<Rightarrow> string" where "queue_key p i = queue_prefix p @ i"
definition running_key :: "string \<Rightarrow> string \<Rightarrow> string" where "running_key p i = running_prefix p @ i"
definition claim_key :: "string \<Rightarrow> string \<Rightarrow> string" where "claim_key p i = p @ ''/claims/'' @ i"

definition target_lock_key :: "string \<Rightarrow> string \<Rightarrow> string" where
  "target_lock_key p target = p @ ''/target-locks/'' @ encode_segment target"

definition dedupe_key :: "string \<Rightarrow> task_kind \<Rightarrow> string \<Rightarrow> string list \<Rightarrow> string option" where
  "dedupe_key p k target deps =
     (if should_dedupe k deps then Some (p @ ''/dedupe/'' @ kind_label k @ ''/'' @ encode_segment target) else None)"

definition coordination_key :: "string \<Rightarrow> string \<Rightarrow> string" where
  "coordination_key p name = p @ ''/coordination/'' @ encode_segment name"

section \<open>Calls\<close>

definition etcd :: "string \<Rightarrow> ('s, etcd_fault, 'a) io \<Rightarrow> ('s, 'a) task_io" where
  "etcd action m = io_match m io_return (\<lambda>e. io_result (Err (EtcdFailure action e)))"

definition generate_id :: "'s etcd \<Rightarrow> ('s, string) task_io" where
  "generate_id E s = (case fresh_uuid E s of (i, s') \<Rightarrow> (Ok i, s'))"

definition now_ms :: "'s etcd \<Rightarrow> ('s, int) task_io" where
  "now_ms E s = (case clock_ms E s of (t, s') \<Rightarrow> (Ok t, s'))"

definition encode_task :: "serde \<Rightarrow> task \<Rightarrow> (task_error, string) result" where
  "encode_task J t = ok_or (EncodeFailure (t_id t)) (to_vec J t)"

definition decode_task :: "serde \<Rightarrow> string \<Rightarrow> string \<Rightarrow> (task_error, task) result" where
  "decode_task J v key = ok_or (DecodeFailure key) (from_slice J v)"

definition decode_all :: "serde \<Rightarrow> (string \<times> string) list \<Rightarrow> (task_error, task list) result" where
  "decode_all J kvs = collect_res (\<lambda>(k, v). decode_task J v k) kvs"

definition new_task :: "'s etcd \<Rightarrow> task_kind \<Rightarrow> string \<Rightarrow> string list \<Rightarrow> ('s, task) task_io" where
  "new_task E k target deps =
     io_bind (generate_id E) (\<lambda>i.
     io_bind (now_ms E) (\<lambda>now.
     io_return \<lparr>t_id = i, t_kind = k, t_target = target, t_state = Queued, t_error = None, t_detail = None,
       t_enqueued_at = now, t_started_at = None, t_finished_at = None, t_depends_on = deps\<rparr>))"

text \<open>\<open>std::str::from_utf8\<close>: the well-formed byte sequences of UTF-8.\<close>

fun utf8_valid :: "nat list \<Rightarrow> bool" where
  "utf8_valid [] = True"
| "utf8_valid (a # bs) =
     (if a < 128 then utf8_valid bs
      else case bs of
        [] \<Rightarrow> False
      | b # cs \<Rightarrow>
          if 194 \<le> a \<and> a \<le> 223 then 128 \<le> b \<and> b \<le> 191 \<and> utf8_valid cs
          else (case cs of
            [] \<Rightarrow> False
          | c # ds \<Rightarrow>
              if 224 \<le> a \<and> a \<le> 239
              then (if a = 224 then 160 else 128) \<le> b \<and> b \<le> (if a = 237 then 159 else 191) \<and>
                   128 \<le> c \<and> c \<le> 191 \<and> utf8_valid ds
              else (case ds of
                [] \<Rightarrow> False
              | d # es \<Rightarrow>
                  240 \<le> a \<and> a \<le> 244 \<and> (if a = 240 then 144 else 128) \<le> b \<and> b \<le> (if a = 244 then 143 else 191) \<and>
                  128 \<le> c \<and> c \<le> 191 \<and> 128 \<le> d \<and> d \<le> 191 \<and> utf8_valid es)))"

definition get_text :: "'s etcd \<Rightarrow> string \<Rightarrow> ('s, string option) task_io" where
  "get_text E key =
     io_bind (etcd ''read etcd key'' (etcd_get E key)) (\<lambda>r. io_result (case r of
         None \<Rightarrow> Ok None
       | Some v \<Rightarrow> if utf8_valid (map of_char v) then Ok (Some v) else Err InvalidUtf8))"

definition get_task :: "'s etcd \<Rightarrow> serde \<Rightarrow> task_store \<Rightarrow> string \<Rightarrow> ('s, task option) task_io" where
  "get_task E J c i =
     io_bind (etcd ''read task'' (etcd_get E (task_key (ts_prefix c) i))) (\<lambda>r. io_result (case r of
         None \<Rightarrow> Ok None
       | Some v \<Rightarrow> res_bind (decode_task J v i) (\<lambda>t. Ok (Some t))))"

definition list_tasks :: "'s etcd \<Rightarrow> serde \<Rightarrow> task_store \<Rightarrow> ('s, task list) task_io" where
  "list_tasks E J c =
     io_bind (etcd ''list tasks'' (etcd_prefix E (tasks_prefix (ts_prefix c)))) (\<lambda>kvs. io_result (decode_all J kvs))"

definition queue_depth :: "'s etcd \<Rightarrow> task_store \<Rightarrow> ('s, nat) task_io" where
  "queue_depth E c =
     io_bind (etcd ''count queued tasks'' (etcd_count E (queue_prefix (ts_prefix c)))) (\<lambda>n.
       io_result (if 0 \<le> n then Ok (nat n) else Err InvalidCount))"

definition delete_owned_key :: "'s etcd \<Rightarrow> string \<Rightarrow> string \<Rightarrow> ('s, unit) task_io" where
  "delete_owned_key E key owner =
     io_bind (etcd ''release owned key'' (etcd_txn E [ValueEqual key owner] [TxnDelete key])) (\<lambda>_. io_return ())"

definition grant_lease :: "'s etcd \<Rightarrow> task_store \<Rightarrow> ('s, int) task_io" where
  "grant_lease E c = etcd ''grant lease'' (lease_grant E (ts_lease_ttl c))"

definition revoke_lease :: "'s etcd \<Rightarrow> int \<Rightarrow> ('s, unit) task_io" where
  "revoke_lease E l = etcd ''revoke lease'' (lease_revoke E l)"

definition start_keepalive :: "'s etcd \<Rightarrow> int \<Rightarrow> ('s, unit) task_io" where
  "start_keepalive E l = etcd ''start lease keepalive'' (lease_keep_alive E l)"

section \<open>Enqueue\<close>

fun enqueue_deduped ::
  "'s etcd \<Rightarrow> serde \<Rightarrow> task_store \<Rightarrow> task \<Rightarrow> string \<Rightarrow> string \<Rightarrow> nat \<Rightarrow> ('s, task) task_io" where
  "enqueue_deduped E J c t v dk 0 = io_result (Err EnqueueUnresolved)"
| "enqueue_deduped E J c t v dk (Suc n) =
     io_bind (etcd ''enqueue task'' (etcd_txn E [VersionZero dk]
         [TxnPut (task_key (ts_prefix c) (t_id t)) v None, TxnPut (queue_key (ts_prefix c) (t_id t)) v None,
          TxnPut dk (t_id t) None])) (\<lambda>ok.
     if ok then io_return t
     else io_bind (get_text E dk) (\<lambda>existing_id.
       case existing_id of
         None \<Rightarrow> enqueue_deduped E J c t v dk n
       | Some i \<Rightarrow>
           io_bind (get_task E J c i) (\<lambda>existing.
           if (case existing of Some x \<Rightarrow> is_live x | None \<Rightarrow> False) then io_return (the existing)
           else io_bind (delete_owned_key E dk i) (\<lambda>_. enqueue_deduped E J c t v dk n))))"

definition enqueue ::
  "'s etcd \<Rightarrow> serde \<Rightarrow> task_store \<Rightarrow> task_kind \<Rightarrow> string \<Rightarrow> string list \<Rightarrow> ('s, task) task_io" where
  "enqueue E J c k target deps =
     io_bind (new_task E k target deps) (\<lambda>t.
     io_bind (io_result (encode_task J t)) (\<lambda>v.
     case dedupe_key (ts_prefix c) k target (t_depends_on t) of
       Some dk \<Rightarrow> enqueue_deduped E J c t v dk 4
     | None \<Rightarrow>
         io_bind (etcd ''enqueue task'' (etcd_txn E []
           [TxnPut (task_key (ts_prefix c) (t_id t)) v None, TxnPut (queue_key (ts_prefix c) (t_id t)) v None])) (\<lambda>_.
         io_return t)))"

section \<open>Claim\<close>

fun dependency_scan ::
  "'s etcd \<Rightarrow> serde \<Rightarrow> task_store \<Rightarrow> bool \<Rightarrow> string list \<Rightarrow> ('s, dependency_status) task_io" where
  "dependency_scan E J c waiting [] = io_return (if waiting then Waiting else Ready)"
| "dependency_scan E J c waiting (d # ds) =
     io_bind (get_task E J c d) (\<lambda>r.
       case r of
         None \<Rightarrow> io_return (DependencyFailed d)
       | Some x \<Rightarrow>
           if t_state x = Done then dependency_scan E J c waiting ds
           else if t_state x = TaskFailed then io_return (DependencyFailed d)
           else dependency_scan E J c True ds)"

definition dependency_status :: "'s etcd \<Rightarrow> serde \<Rightarrow> task_store \<Rightarrow> task \<Rightarrow> ('s, dependency_status) task_io" where
  "dependency_status E J c t = dependency_scan E J c False (t_depends_on t)"

definition fail_dependency :: "'s etcd \<Rightarrow> serde \<Rightarrow> task_store \<Rightarrow> task \<Rightarrow> string \<Rightarrow> ('s, bool) task_io" where
  "fail_dependency E J c t d =
     io_bind (io_result (encode_task J t)) (\<lambda>queued_value.
     io_bind (now_ms E) (\<lambda>now.
     io_bind (io_result (encode_task J (fail_dependency_record now t d))) (\<lambda>failed_value.
     etcd ''fail task with unsuccessful dependency'' (etcd_txn E
       [ValueEqual (task_key (ts_prefix c) (t_id t)) queued_value, VersionPositive (queue_key (ts_prefix c) (t_id t))]
       [TxnPut (task_key (ts_prefix c) (t_id t)) failed_value None, TxnDelete (queue_key (ts_prefix c) (t_id t))]))))"

definition lock_of :: "string \<Rightarrow> task \<Rightarrow> string option" where
  "lock_of p t = (if requires_target_lock (t_kind t) then Some (target_lock_key p (t_target t)) else None)"

definition claim_compares :: "string \<Rightarrow> task \<Rightarrow> string \<Rightarrow> compare list" where
  "claim_compares p t queued_value =
     [ValueEqual (task_key p (t_id t)) queued_value, VersionZero (claim_key p (t_id t)),
      VersionPositive (queue_key p (t_id t))] @
     (case lock_of p t of Some k \<Rightarrow> [VersionZero k] | None \<Rightarrow> [])"

definition claim_ops :: "string \<Rightarrow> task \<Rightarrow> string \<Rightarrow> string \<Rightarrow> int \<Rightarrow> txn_op list" where
  "claim_ops p t running_value token l =
     [TxnPut (task_key p (t_id t)) running_value None, TxnDelete (queue_key p (t_id t)),
      TxnPut (running_key p (t_id t)) running_value None, TxnPut (claim_key p (t_id t)) token (Some l)] @
     (case lock_of p t of Some k \<Rightarrow> [TxnPut k token (Some l)] | None \<Rightarrow> [])"

definition started :: "int \<Rightarrow> task \<Rightarrow> task" where
  "started now t = t\<lparr>t_state := TaskRunning, t_started_at := Some now\<rparr>"

definition claim_task :: "'s etcd \<Rightarrow> serde \<Rightarrow> task_store \<Rightarrow> task \<Rightarrow> ('s, claim option) task_io" where
  "claim_task E J c t =
     (let p = ts_prefix c in
      io_bind (generate_id E) (\<lambda>token.
      io_bind (grant_lease E c) (\<lambda>l.
      io_bind (io_result (encode_task J t)) (\<lambda>queued_value.
      io_bind (now_ms E) (\<lambda>now.
      io_bind (io_result (encode_task J (started now t))) (\<lambda>running_value.
      io_bind (etcd ''claim task'' (etcd_txn E (claim_compares p t queued_value)
          (claim_ops p t running_value token l))) (\<lambda>claimed.
      if claimed
      then io_bind (start_keepalive E l) (\<lambda>_. io_return (Some
             \<lparr>cl_task = started now t, cl_token = token, cl_lease = l, cl_key = claim_key p (t_id t),
              cl_target_key = lock_of p t\<rparr>))
      else io_bind (revoke_lease E l) (\<lambda>_. io_return None))))))))"

fun claim_first ::
  "'s etcd \<Rightarrow> serde \<Rightarrow> task_store \<Rightarrow> bool \<Rightarrow> task list \<Rightarrow> ('s, claim option \<times> bool) task_io" where
  "claim_first E J c failed [] = io_return (None, failed)"
| "claim_first E J c failed (t # ts) =
     io_bind (dependency_status E J c t) (\<lambda>st.
       case st of
         Waiting \<Rightarrow> claim_first E J c failed ts
       | DependencyFailed d \<Rightarrow>
           io_bind (fail_dependency E J c t d) (\<lambda>b. claim_first E J c (failed \<or> b) ts)
       | Ready \<Rightarrow>
           io_bind (claim_task E J c t) (\<lambda>r.
             case r of
               Some cl \<Rightarrow> io_return (Some cl, failed)
             | None \<Rightarrow> claim_first E J c failed ts))"

text \<open>
  The paging loop. Other masters may keep adding to the queue while it runs, so it carries fuel;
  \<open>PollBound\<close> stands for "still polling".
\<close>

fun claim_pages ::
  "'s etcd \<Rightarrow> serde \<Rightarrow> task_store \<Rightarrow> nat \<Rightarrow> string \<Rightarrow> bool \<Rightarrow> ('s, claim option \<times> bool) task_io" where
  "claim_pages E J c 0 start failed = io_result (Err PollBound)"
| "claim_pages E J c (Suc n) start failed =
     io_bind (etcd ''list queued tasks'' (etcd_range E start (prefix_range_end (queue_prefix (ts_prefix c)))
         TASK_POLL_BATCH)) (\<lambda>(kvs, more).
     io_bind (io_result (decode_all J kvs)) (\<lambda>queued.
     io_bind (claim_first E J c failed queued) (\<lambda>(cl, failed').
     case cl of
       Some x \<Rightarrow> io_return (Some x, failed')
     | None \<Rightarrow>
         if \<not> more \<or> kvs = [] then io_return (None, failed')
         else claim_pages E J c n (fst (last kvs) @ [char_of (0::nat)]) failed')))"

definition claim_next_inner :: "'s etcd \<Rightarrow> serde \<Rightarrow> task_store \<Rightarrow> nat \<Rightarrow> ('s, claim option \<times> bool) task_io" where
  "claim_next_inner E J c fuel = claim_pages E J c fuel (queue_prefix (ts_prefix c)) False"

section \<open>Finish and recover\<close>

definition finish_ops :: "string \<Rightarrow> task \<Rightarrow> string \<Rightarrow> string \<Rightarrow> string option \<Rightarrow> txn_op list" where
  "finish_ops p t v claim_k target_k =
     [TxnPut (task_key p (t_id t)) v None, TxnDelete claim_k, TxnDelete (running_key p (t_id t))] @
     (case target_k of Some k \<Rightarrow> [TxnDelete k] | None \<Rightarrow> []) @
     (case dedupe_key p (t_kind t) (t_target t) (t_depends_on t) of Some k \<Rightarrow> [TxnDelete k] | None \<Rightarrow> [])"

definition finish_inner ::
  "'s etcd \<Rightarrow> serde \<Rightarrow> task_store \<Rightarrow> claim \<Rightarrow> (string, string) result \<Rightarrow> ('s, unit) task_io" where
  "finish_inner E J c cl outcome =
     io_bind (now_ms E) (\<lambda>now.
     (let t = apply_outcome now (cl_task cl) outcome in
      io_bind (io_result (encode_task J t)) (\<lambda>v.
      io_bind (etcd ''complete task'' (etcd_txn E [ValueEqual (cl_key cl) (cl_token cl)]
          (finish_ops (ts_prefix c) t v (cl_key cl) (cl_target_key cl)))) (\<lambda>completed.
      io_bind (revoke_lease E (cl_lease cl)) (\<lambda>_.
      if completed then io_return () else io_result (Err (LostClaim (t_id t))))))))"

fun recover_each :: "'s etcd \<Rightarrow> serde \<Rightarrow> task_store \<Rightarrow> nat \<Rightarrow> task list \<Rightarrow> ('s, nat) task_io" where
  "recover_each E J c n [] = io_return n"
| "recover_each E J c n (t # ts) =
     (let p = ts_prefix c; i = t_id t in
      io_bind (io_result (encode_task J t)) (\<lambda>running_value.
      io_bind (io_result (encode_task J (requeue t))) (\<lambda>v.
      io_bind (etcd ''recover orphaned task'' (etcd_txn E
          [ValueEqual (task_key p i) running_value, VersionZero (claim_key p i), VersionPositive (running_key p i)]
          [TxnPut (task_key p i) v None, TxnPut (queue_key p i) v None, TxnDelete (running_key p i)])) (\<lambda>ok.
      recover_each E J c (if ok then n + 1 else n) ts))))"

definition recover_orphaned :: "'s etcd \<Rightarrow> serde \<Rightarrow> task_store \<Rightarrow> ('s, nat) task_io" where
  "recover_orphaned E J c =
     io_bind (etcd ''list running tasks'' (etcd_prefix E (running_prefix (ts_prefix c)))) (\<lambda>kvs.
     io_bind (io_result (decode_all J kvs)) (\<lambda>running. recover_each E J c 0 running))"

section \<open>Coordination locks and history\<close>

definition try_coordination_lock :: "'s etcd \<Rightarrow> task_store \<Rightarrow> string \<Rightarrow> ('s, guard option) task_io" where
  "try_coordination_lock E c name =
     io_bind (grant_lease E c) (\<lambda>l.
     io_bind (generate_id E) (\<lambda>token.
     (let key = coordination_key (ts_prefix c) name in
      io_bind (etcd ''acquire coordination lock'' (etcd_txn E [VersionZero key] [TxnPut key token (Some l)])) (\<lambda>ok.
      if \<not> ok then io_bind (revoke_lease E l) (\<lambda>_. io_return None)
      else io_bind (start_keepalive E l) (\<lambda>_. io_return (Some \<lparr>gd_token = token, gd_lease = l, gd_key = key\<rparr>))))))"

definition release_coordination_lock :: "'s etcd \<Rightarrow> guard \<Rightarrow> ('s, unit) task_io" where
  "release_coordination_lock E g =
     io_bind (delete_owned_key E (gd_key g) (gd_token g)) (\<lambda>_. revoke_lease E (gd_lease g))"

text \<open>\<open>ids.chunks(100)\<close>.\<close>

fun chunks :: "nat \<Rightarrow> 'a list \<Rightarrow> 'a list list" where
  "chunks n [] = []"
| "chunks n (x # xs) = take (Suc n) (x # xs) # chunks n (drop n xs)"

definition delete_many :: "'s etcd \<Rightarrow> task_store \<Rightarrow> string list \<Rightarrow> ('s, unit) task_io" where
  "delete_many E c ids =
     io_for (\<lambda>chunk. io_bind (etcd ''prune task history'' (etcd_txn E []
       (map (\<lambda>i. TxnDelete (task_key (ts_prefix c) i)) chunk))) (\<lambda>_. io_return ())) (chunks 99 ids)"

definition prune_terminal_history :: "'s etcd \<Rightarrow> serde \<Rightarrow> task_store \<Rightarrow> ('s, nat) task_io" where
  "prune_terminal_history E J c =
     io_bind (list_tasks E J c) (\<lambda>tasks.
     io_bind (if 0 < ts_history_ttl_secs c
              then io_bind (now_ms E) (\<lambda>now.
                io_return (Some (wrap_i64 (now - wrap_i64 (wrap_i64 (ts_history_ttl_secs c) * 1000)))))
              else io_return None) (\<lambda>ttl_cutoff.
     (let ids = prunable_terminal_ids tasks (ts_history_limit c) ttl_cutoff in
      if ids = [] then io_return 0
      else io_bind (delete_many E c ids) (\<lambda>_. io_return (length ids)))))"

definition claim_next :: "'s etcd \<Rightarrow> serde \<Rightarrow> task_store \<Rightarrow> nat \<Rightarrow> ('s, claim option) task_io" where
  "claim_next E J c fuel =
     io_bind (recover_orphaned E J c) (\<lambda>_.
     io_bind (claim_next_inner E J c fuel) (\<lambda>(cl, dependency_failed).
     if dependency_failed
     then io_match (prune_terminal_history E J c) (\<lambda>_. io_return cl) (\<lambda>_. io_return cl)
     else io_return cl))"

definition finish ::
  "'s etcd \<Rightarrow> serde \<Rightarrow> task_store \<Rightarrow> claim \<Rightarrow> (string, string) result \<Rightarrow> ('s, unit) task_io" where
  "finish E J c cl outcome =
     io_bind (finish_inner E J c cl outcome) (\<lambda>_.
     io_bind (prune_terminal_history E J c) (\<lambda>_. io_return ()))"

section \<open>Opening the store\<close>

text \<open>The part of \<open>MasterConfig\<close> that the task store reads.\<close>

record master_config =
  etcd_endpoints :: "string list"
  etcd_config_prefix :: string
  etcd_lease_ttl_secs :: int
  etcd_username :: "string option"
  etcd_password :: "string option"
  etcd_ca_cert :: "string option"
  etcd_client_cert :: "string option"
  etcd_client_key :: "string option"
  task_history_limit :: nat
  task_history_ttl_secs :: int

text \<open>What is set on \<open>ConnectOptions\<close> beside the constant timeouts: the user, the CA and the client identity.\<close>

record connect_options =
  co_user :: "(string \<times> string) option"
  co_ca :: "string option"
  co_identity :: "(string \<times> string) option"

text \<open>The file system and \<open>Client::connect\<close>.\<close>

record 's host =
  fs_read :: "string \<Rightarrow> ('s, string, string) io"
  client_connect :: "string list \<Rightarrow> connect_options \<Rightarrow> ('s, etcd_fault, unit) io"

definition read_pem :: "'s host \<Rightarrow> string \<Rightarrow> string \<Rightarrow> ('s, string) task_io" where
  "read_pem H var path = io_match (fs_read H path) io_return (\<lambda>err.
     io_result (Err (IoError (''failed to read '' @ var @ '' '' @ [char_of (39 :: nat)] @ path @ [char_of (39 :: nat)] @ '': '' @ err))))"

definition connect_user :: "master_config \<Rightarrow> (task_error, (string \<times> string) option) result" where
  "connect_user g = (case (etcd_username g, etcd_password g) of
     (Some u, Some p) \<Rightarrow> Ok (Some (u, p))
   | (None, None) \<Rightarrow> Ok None
   | _ \<Rightarrow> Err (IoError ''ETCD_USERNAME and ETCD_PASSWORD must be configured together''))"

definition connect_tls ::
  "'s host \<Rightarrow> master_config \<Rightarrow> ('s, string option \<times> (string \<times> string) option) task_io" where
  "connect_tls H g = (case etcd_ca_cert g of
     Some path \<Rightarrow>
       io_bind (read_pem H ''ETCD_CA_CERT'' path) (\<lambda>pem.
         case (etcd_client_cert g, etcd_client_key g) of
           (Some cert, Some key) \<Rightarrow>
             io_bind (read_pem H ''ETCD_CLIENT_CERT'' cert) (\<lambda>cert_pem.
             io_bind (read_pem H ''ETCD_CLIENT_KEY'' key) (\<lambda>key_pem.
             io_return (Some pem, Some (cert_pem, key_pem))))
         | (None, None) \<Rightarrow> io_return (Some pem, None)
         | _ \<Rightarrow> io_result (Err (IoError ''ETCD_CLIENT_CERT and ETCD_CLIENT_KEY must be configured together'')))
   | None \<Rightarrow>
       if etcd_client_cert g \<noteq> None \<or> etcd_client_key g \<noteq> None
       then io_result (Err (IoError ''ETCD_CA_CERT is required when configuring an etcd client certificate''))
       else io_return (None, None))"

definition trim_end_slashes :: "string \<Rightarrow> string" where
  "trim_end_slashes s = rev (dropWhile (\<lambda>c. c = CHR ''/'') (rev s))"

text \<open>\<open>EtcdTaskStore::connect\<close>: the prefix and the lease time of the connected store.\<close>

definition connect :: "'s host \<Rightarrow> master_config \<Rightarrow> ('s, string \<times> int) task_io" where
  "connect H g =
     (if etcd_endpoints g = [] then io_result (Err (IoError ''ETCD_ENDPOINTS is required to run the master''))
      else if etcd_lease_ttl_secs g < 5 then io_result (Err (IoError ''ETCD_LEASE_TTL_SECS must be at least 5''))
      else io_bind (io_result (connect_user g)) (\<lambda>user.
        io_bind (connect_tls H g) (\<lambda>(ca, identity).
        io_bind (etcd ''connect to etcd'' (client_connect H (etcd_endpoints g)
          \<lparr>co_user = user, co_ca = ca, co_identity = identity\<rparr>)) (\<lambda>_.
        io_return (trim_end_slashes (etcd_config_prefix g), etcd_lease_ttl_secs g)))))"

definition task_store_open :: "'s host \<Rightarrow> 's etcd \<Rightarrow> serde \<Rightarrow> master_config \<Rightarrow> ('s, task_store) task_io" where
  "task_store_open H E J g =
     io_bind (connect H g) (\<lambda>(prefix, ttl).
     (let c = \<lparr>ts_prefix = prefix, ts_lease_ttl = ttl, ts_history_limit = max (task_history_limit g) 1,
               ts_history_ttl_secs = task_history_ttl_secs g\<rparr> in
      io_bind (recover_orphaned E J c) (\<lambda>_.
      io_bind (prune_terminal_history E J c) (\<lambda>_. io_return c))))"

text \<open>
  The waiting lock: tries until the lock is free, so it may never return. Fuel bounds the attempts;
  \<open>PollBound\<close> stands for "still waiting". The sleep between attempts leaves the store alone.
\<close>

fun coordination_lock :: "'s etcd \<Rightarrow> task_store \<Rightarrow> string \<Rightarrow> nat \<Rightarrow> ('s, guard) task_io" where
  "coordination_lock E c name 0 = io_result (Err PollBound)"
| "coordination_lock E c name (Suc n) =
     io_bind (try_coordination_lock E c name) (\<lambda>r.
       case r of Some g \<Rightarrow> io_return g | None \<Rightarrow> coordination_lock E c name n)"

end
