(* ===== verification/Task_Safety.thy ===== *)
theory Task_Safety
  imports Task_Store
begin

text \<open>
  Safety of the scheduler queue under concurrent masters. The etcd transactions of \<open>Task_Store\<close> are the
  rules of a step relation on a world: the key-value store and, as history variables, the ids created
  and finished, the claims handed out and the ids this process has drawn and not yet used. The
  invariant ties the six key families together; the locale \<open>etcd_laws\<close> states what the code relies on of
  etcd, with other masters taking steps between any two calls, and in it every operation of the store
  is shown to take only such steps.
\<close>

section \<open>The key-value store\<close>

type_synonym kv = "string \<rightharpoonup> string \<times> int option"

fun holds :: "kv \<Rightarrow> compare \<Rightarrow> bool" where
  "holds m (VersionZero k) = (m k = None)"
| "holds m (VersionPositive k) = (m k \<noteq> None)"
| "holds m (ValueEqual k v) = (case m k of Some (v', l) \<Rightarrow> v' = v | None \<Rightarrow> False)"

fun apply_op :: "kv \<Rightarrow> txn_op \<Rightarrow> kv" where
  "apply_op m (TxnPut k v l) = m(k \<mapsto> (v, l))"
| "apply_op m (TxnDelete k) = m(k := None)"

definition apply_ops :: "kv \<Rightarrow> txn_op list \<Rightarrow> kv" where
  "apply_ops m ops = foldl apply_op m ops"

definition drop_lease :: "int \<Rightarrow> kv \<Rightarrow> kv" where
  "drop_lease l m = (\<lambda>k. case m k of Some (v, Some l') \<Rightarrow> if l' = l then None else Some (v, Some l') | x \<Rightarrow> x)"

lemma apply_ops_simps [simp]:
  "apply_ops m [] = m" "apply_ops m (x # xs) = apply_ops (apply_op m x) xs"
  by (simp_all add: apply_ops_def)

lemma apply_ops_append [simp]: "apply_ops m (xs @ ys) = apply_ops (apply_ops m xs) ys"
  by (simp add: apply_ops_def)

lemma apply_deletes: "apply_ops m (map (\<lambda>i. TxnDelete (f i)) is) k = (if k \<in> f ` set is then None else m k)"
  by (induction "is" arbitrary: m) auto

record world =
  w_kv :: kv
  w_created :: "string set"
  w_finished :: "string set"
  w_claims :: "(string \<times> task) set"
  w_reserved :: "string set"

section \<open>Keys never clash\<close>

lemmas key_defs = task_key_def queue_key_def running_key_def claim_key_def target_lock_key_def coordination_key_def
  tasks_prefix_def queue_prefix_def running_prefix_def

lemma key_inject [simp]:
  "task_key p i = task_key p j \<longleftrightarrow> i = j" "queue_key p i = queue_key p j \<longleftrightarrow> i = j"
  "running_key p i = running_key p j \<longleftrightarrow> i = j" "claim_key p i = claim_key p j \<longleftrightarrow> i = j"
  by (simp_all add: key_defs)

lemma key_disjoint [simp]:
  "task_key p i \<noteq> queue_key p j" "queue_key p j \<noteq> task_key p i"
  "task_key p i \<noteq> running_key p j" "running_key p j \<noteq> task_key p i"
  "task_key p i \<noteq> claim_key p j" "claim_key p j \<noteq> task_key p i"
  "task_key p i \<noteq> target_lock_key p j" "target_lock_key p j \<noteq> task_key p i"
  "task_key p i \<noteq> coordination_key p j" "coordination_key p j \<noteq> task_key p i"
  "queue_key p i \<noteq> running_key p j" "running_key p j \<noteq> queue_key p i"
  "queue_key p i \<noteq> claim_key p j" "claim_key p j \<noteq> queue_key p i"
  "queue_key p i \<noteq> target_lock_key p j" "target_lock_key p j \<noteq> queue_key p i"
  "queue_key p i \<noteq> coordination_key p j" "coordination_key p j \<noteq> queue_key p i"
  "running_key p i \<noteq> claim_key p j" "claim_key p j \<noteq> running_key p i"
  "running_key p i \<noteq> target_lock_key p j" "target_lock_key p j \<noteq> running_key p i"
  "running_key p i \<noteq> coordination_key p j" "coordination_key p j \<noteq> running_key p i"
  "claim_key p i \<noteq> target_lock_key p j" "target_lock_key p j \<noteq> claim_key p i"
  "claim_key p i \<noteq> coordination_key p j" "coordination_key p j \<noteq> claim_key p i"
  "target_lock_key p i \<noteq> coordination_key p j" "coordination_key p j \<noteq> target_lock_key p i"
  by (simp_all add: key_defs)

lemma dedupe_key_Some:
  "dedupe_key p k tgt deps = Some dk \<longleftrightarrow>
     deps = [] \<and> dk = p @ ''/dedupe/'' @ kind_label k @ ''/'' @ encode_segment tgt"
  by (cases k) (auto simp: dedupe_key_def should_dedupe_def)

lemma dedupe_disjoint:
  assumes "dedupe_key p k tgt deps = Some dk"
  shows "dk \<noteq> task_key p i" "dk \<noteq> queue_key p i" "dk \<noteq> running_key p i" "dk \<noteq> claim_key p i"
    "dk \<noteq> target_lock_key p i" "dk \<noteq> coordination_key p i"
  using assms by (simp_all add: dedupe_key_Some key_defs)

lemma dedupe_not [simp]:
  "dedupe_key p k tgt deps \<noteq> Some (task_key p i)" "dedupe_key p k tgt deps \<noteq> Some (queue_key p i)"
  "dedupe_key p k tgt deps \<noteq> Some (running_key p i)" "dedupe_key p k tgt deps \<noteq> Some (claim_key p i)"
  "dedupe_key p k tgt deps \<noteq> Some (target_lock_key p i)" "dedupe_key p k tgt deps \<noteq> Some (coordination_key p i)"
  by (auto dest: dedupe_disjoint)

lemma hex_digit_inject: "a < 16 \<Longrightarrow> b < 16 \<Longrightarrow> hex_digit a = hex_digit b \<longleftrightarrow> a = b"
  by (auto simp: hex_digit_def of_char_eq_iff [symmetric] split: if_splits)

lemma hex_pair_inject:
  "hex_digit (of_char c div 16) = hex_digit (of_char d div 16) \<Longrightarrow>
   hex_digit (of_char c mod 16) = hex_digit (of_char d mod 16) \<Longrightarrow> c = (d :: char)"
proof -
  have lt: "(of_char x :: nat) div 16 < 16" "(of_char x :: nat) mod 16 < 16" for x :: char
    using nat_of_char_less_256 [of x] by (simp_all add: less_mult_imp_div_less)
  assume "hex_digit (of_char c div 16) = hex_digit (of_char d div 16)"
    "hex_digit (of_char c mod 16) = hex_digit (of_char d mod 16)"
  then have "(of_char c :: nat) div 16 = of_char d div 16" "(of_char c :: nat) mod 16 = of_char d mod 16"
    using lt hex_digit_inject by blast+
  then have "(of_char c :: nat) = of_char d" by (metis div_mult_mod_eq)
  then show ?thesis by simp
qed

lemma encode_segment_inject [simp]: "encode_segment a = encode_segment b \<longleftrightarrow> a = b"
proof (induction a arbitrary: b)
  case Nil
  then show ?case by (cases b) (simp_all add: encode_segment_def)
next
  case (Cons c a)
  then show ?case
    by (cases b) (auto simp: encode_segment_def dest: hex_pair_inject)
qed

lemma dedupe_inject:
  assumes "dedupe_key p k tgt ds = Some dk" "dedupe_key p k' tgt' ds' = Some dk"
  shows "k' = k \<and> tgt' = tgt"
  using assms unfolding dedupe_key_Some by (cases k; cases k'; auto)

section \<open>Transactions as steps\<close>

definition serde_ok :: "serde \<Rightarrow> bool" where
  "serde_ok J \<longleftrightarrow> (\<forall>t v. to_vec J t = Some v \<longrightarrow> from_slice J v = Some t)"

definition enqueue_ops :: "string \<Rightarrow> task \<Rightarrow> string \<Rightarrow> txn_op list" where
  "enqueue_ops p t v =
     [TxnPut (task_key p (t_id t)) v None, TxnPut (queue_key p (t_id t)) v None] @
     (case dedupe_key p (t_kind t) (t_target t) (t_depends_on t) of Some k \<Rightarrow> [TxnPut k (t_id t) None] | None \<Rightarrow> [])"

inductive task_step :: "string \<Rightarrow> serde \<Rightarrow> world \<Rightarrow> world \<Rightarrow> bool" for p J where
  enqueue:
    "t_id t \<notin> w_created w \<Longrightarrow> t_state t = Queued \<Longrightarrow> to_vec J t = Some v \<Longrightarrow>
     (\<forall>k. dedupe_key p (t_kind t) (t_target t) (t_depends_on t) = Some k \<longrightarrow> w_kv w k = None) \<Longrightarrow>
     task_step p J w (w\<lparr>w_kv := apply_ops (w_kv w) (enqueue_ops p t v),
       w_created := insert (t_id t) (w_created w), w_reserved := w_reserved w - {t_id t}\<rparr>)"
| claim:
    "to_vec J t = Some qv \<Longrightarrow> to_vec J (started now t) = Some rv \<Longrightarrow>
     list_all (holds (w_kv w)) (claim_compares p t qv) \<Longrightarrow> token \<notin> fst ` w_claims w \<Longrightarrow>
     task_step p J w (w\<lparr>w_kv := apply_ops (w_kv w) (claim_ops p t rv token l),
       w_claims := insert (token, started now t) (w_claims w), w_reserved := w_reserved w - {token}\<rparr>)"
| finish:
    "(token, t) \<in> w_claims w \<Longrightarrow> to_vec J (apply_outcome now t out) = Some v \<Longrightarrow>
     holds (w_kv w) (ValueEqual (claim_key p (t_id t)) token) \<Longrightarrow>
     task_step p J w (w\<lparr>w_kv := apply_ops (w_kv w)
         (finish_ops p (apply_outcome now t out) v (claim_key p (t_id t)) (lock_of p t)),
       w_finished := insert (t_id t) (w_finished w)\<rparr>)"
| recover:
    "to_vec J t = Some rv \<Longrightarrow> to_vec J (requeue t) = Some v \<Longrightarrow>
     list_all (holds (w_kv w)) [ValueEqual (task_key p (t_id t)) rv, VersionZero (claim_key p (t_id t)),
       VersionPositive (running_key p (t_id t))] \<Longrightarrow>
     task_step p J w (w\<lparr>w_kv := apply_ops (w_kv w) [TxnPut (task_key p (t_id t)) v None,
       TxnPut (queue_key p (t_id t)) v None, TxnDelete (running_key p (t_id t))]\<rparr>)"
| fail_dependency:
    "to_vec J t = Some qv \<Longrightarrow> to_vec J (fail_dependency_record now t d) = Some v \<Longrightarrow> t_depends_on t \<noteq> [] \<Longrightarrow>
     list_all (holds (w_kv w)) [ValueEqual (task_key p (t_id t)) qv, VersionPositive (queue_key p (t_id t))] \<Longrightarrow>
     task_step p J w (w\<lparr>w_kv := apply_ops (w_kv w) [TxnPut (task_key p (t_id t)) v None,
       TxnDelete (queue_key p (t_id t))], w_finished := insert (t_id t) (w_finished w)\<rparr>)"
| prune:
    "set is \<subseteq> w_finished w \<Longrightarrow>
     task_step p J w (w\<lparr>w_kv := apply_ops (w_kv w) (map (\<lambda>i. TxnDelete (task_key p i)) is)\<rparr>)"
| release:
    "dedupe_key p k tgt ds = Some dk \<Longrightarrow> i \<in> w_finished w \<Longrightarrow> holds (w_kv w) (ValueEqual dk i) \<Longrightarrow>
     task_step p J w (w\<lparr>w_kv := apply_ops (w_kv w) [TxnDelete dk]\<rparr>)"
| expire: "task_step p J w (w\<lparr>w_kv := drop_lease l (w_kv w)\<rparr>)"
| lock:
    "w_kv w (coordination_key p name) = None \<Longrightarrow>
     task_step p J w (w\<lparr>w_kv := apply_ops (w_kv w) [TxnPut (coordination_key p name) token (Some l)]\<rparr>)"
| unlock: "task_step p J w (w\<lparr>w_kv := apply_ops (w_kv w) [TxnDelete (coordination_key p name)]\<rparr>)"
| reserve:
    "i \<notin> w_created w \<Longrightarrow> i \<notin> fst ` w_claims w \<Longrightarrow> task_step p J w (w\<lparr>w_reserved := insert i (w_reserved w)\<rparr>)"

section \<open>The invariant\<close>

definition stored :: "string \<Rightarrow> serde \<Rightarrow> world \<Rightarrow> string \<Rightarrow> task \<Rightarrow> bool" where
  "stored p J w i t \<longleftrightarrow> (\<exists>v. w_kv w (task_key p i) = Some (v, None) \<and> to_vec J t = Some v)"

text \<open>What the keys of one task id say, by the state of its record.\<close>

definition queued_slot :: "string \<Rightarrow> world \<Rightarrow> string \<Rightarrow> string \<Rightarrow> bool" where
  "queued_slot p w i v \<longleftrightarrow> w_kv w (queue_key p i) = Some (v, None) \<and> w_kv w (running_key p i) = None \<and>
     w_kv w (claim_key p i) = None \<and> i \<notin> w_finished w"

definition running_slot :: "string \<Rightarrow> world \<Rightarrow> string \<Rightarrow> string \<Rightarrow> task \<Rightarrow> bool" where
  "running_slot p w i v t \<longleftrightarrow> w_kv w (queue_key p i) = None \<and> w_kv w (running_key p i) = Some (v, None) \<and>
     i \<notin> w_finished w \<and>
     (\<forall>tok l. w_kv w (claim_key p i) = Some (tok, l) \<longrightarrow> (tok, t) \<in> w_claims w \<and>
        (\<forall>k. lock_of p t = Some k \<longrightarrow> w_kv w k = Some (tok, l)))"

definition idle_slot :: "string \<Rightarrow> world \<Rightarrow> string \<Rightarrow> bool" where
  "idle_slot p w i \<longleftrightarrow> w_kv w (queue_key p i) = None \<and> w_kv w (running_key p i) = None \<and> w_kv w (claim_key p i) = None"

fun state_slot :: "string \<Rightarrow> world \<Rightarrow> string \<Rightarrow> string \<Rightarrow> task \<Rightarrow> task_state \<Rightarrow> bool" where
  "state_slot p w i v t Queued = queued_slot p w i v"
| "state_slot p w i v t TaskRunning = running_slot p w i v t"
| "state_slot p w i v t Done = (idle_slot p w i \<and> i \<in> w_finished w)"
| "state_slot p w i v t TaskFailed = (idle_slot p w i \<and> i \<in> w_finished w)"

definition slot_ok :: "string \<Rightarrow> serde \<Rightarrow> world \<Rightarrow> string \<Rightarrow> bool" where
  "slot_ok p J w i \<longleftrightarrow>
     (case w_kv w (task_key p i) of
        None \<Rightarrow> idle_slot p w i \<and> (i \<in> w_created w \<longrightarrow> i \<in> w_finished w)
      | Some (v, l) \<Rightarrow> l = None \<and> i \<in> w_created w \<and>
          (\<exists>t. to_vec J t = Some v \<and> t_id t = i \<and> state_slot p w i v t (t_state t)))"

text \<open>A dedupe key names the one live task without dependencies of its kind and target, and is there exactly if there is one.\<close>

definition live_at :: "string \<Rightarrow> serde \<Rightarrow> world \<Rightarrow> string \<Rightarrow> task_kind \<Rightarrow> string \<Rightarrow> bool" where
  "live_at p J w i k tgt \<longleftrightarrow>
     (\<exists>t. stored p J w i t \<and> is_live t \<and> t_kind t = k \<and> t_target t = tgt \<and> t_depends_on t = [])"

definition dedupe_ok :: "string \<Rightarrow> serde \<Rightarrow> world \<Rightarrow> bool" where
  "dedupe_ok p J w \<longleftrightarrow>
     (\<forall>k tgt dk i l. dedupe_key p k tgt [] = Some dk \<longrightarrow>
        (w_kv w dk = Some (i, l) \<longleftrightarrow> l = None \<and> live_at p J w i k tgt))"

definition ghosts_ok :: "world \<Rightarrow> bool" where
  "ghosts_ok w \<longleftrightarrow> w_finished w \<subseteq> w_created w \<and> w_reserved w \<inter> w_created w = {} \<and>
     w_reserved w \<inter> fst ` w_claims w = {} \<and>
     (\<forall>tok t t'. (tok, t) \<in> w_claims w \<and> (tok, t') \<in> w_claims w \<longrightarrow> t = t')"

definition task_inv :: "string \<Rightarrow> serde \<Rightarrow> world \<Rightarrow> bool" where
  "task_inv p J w \<longleftrightarrow> (\<forall>i. slot_ok p J w i) \<and> dedupe_ok p J w \<and> ghosts_ok w"


section \<open>Lemmas: every step keeps the invariant\<close>

lemma outcome_fields [simp]:
  "t_id (apply_outcome n t r) = t_id t" "t_kind (apply_outcome n t r) = t_kind t"
  "t_target (apply_outcome n t r) = t_target t" "t_depends_on (apply_outcome n t r) = t_depends_on t"
  "t_state (apply_outcome n t r) \<in> {Done, TaskFailed}"
  by (cases r; simp add: apply_outcome_def)+

lemma outcome_not_live [simp]: "\<not> is_live (apply_outcome n t r)"
  using outcome_fields(5) [of n t r] by (auto simp: is_live_def)

lemma started_fields [simp]:
  "t_id (started n t) = t_id t" "t_kind (started n t) = t_kind t" "t_target (started n t) = t_target t"
  "t_depends_on (started n t) = t_depends_on t" "t_state (started n t) = TaskRunning" "lock_of p (started n t) = lock_of p t"
  by (simp_all add: started_def lock_of_def)

lemma requeue_fields [simp]:
  "t_id (requeue t) = t_id t" "t_kind (requeue t) = t_kind t" "t_target (requeue t) = t_target t"
  "t_depends_on (requeue t) = t_depends_on t" "t_state (requeue t) = Queued"
  by (simp_all add: requeue_def)

lemma lock_of_Some: "lock_of p t = Some k \<longleftrightarrow> requires_target_lock (t_kind t) \<and> k = target_lock_key p (t_target t)"
  by (auto simp: lock_of_def)

lemma holds_Value [simp]: "holds m (ValueEqual k v) \<longleftrightarrow> (\<exists>l. m k = Some (v, l))"
  by (auto split: option.splits)

declare holds.simps(3) [simp del]

locale serde_laws =
  fixes J :: serde
  assumes serde_ok: "serde_ok J"
begin

lemma to_vec_inject: "to_vec J t = Some v \<Longrightarrow> to_vec J t' = Some v \<Longrightarrow> t = t'"
  using serde_ok unfolding serde_ok_def by (metis option.inject)

lemma stored_unique: "stored p J w i t \<Longrightarrow> stored p J w i t' \<Longrightarrow> t = t'"
  by (auto simp: stored_def intro: to_vec_inject)

text \<open>Reading the invariant off a stored record.\<close>

lemma slot_stored:
  assumes "slot_ok p J w i" "w_kv w (task_key p i) = Some (v, l)" "to_vec J t = Some v"
  shows "l = None" "stored p J w i t" "t_id t = i" "i \<in> w_created w" "state_slot p w i v t (t_state t)"
proof -
  from assms(1,2) obtain t' where t': "l = None" "i \<in> w_created w" "to_vec J t' = Some v" "t_id t' = i"
    "state_slot p w i v t' (t_state t')"
    unfolding slot_ok_def by auto
  have "t' = t" by (rule to_vec_inject [OF t'(3) assms(3)])
  with t' assms(2) show "l = None" "stored p J w i t" "t_id t = i" "i \<in> w_created w" "state_slot p w i v t (t_state t)"
    by (auto simp: stored_def)
qed

lemma slot_present:
  assumes "slot_ok p J w i" "\<not> idle_slot p w i"
  obtains v t where "w_kv w (task_key p i) = Some (v, None)" "to_vec J t = Some v" "t_id t = i"
    "state_slot p w i v t (t_state t)"
  using assms by (auto simp: slot_ok_def split: option.splits)

lemma slot_frame:
  assumes "slot_ok p J w j"
    and keys: "w_kv w' (task_key p j) = w_kv w (task_key p j)" "w_kv w' (queue_key p j) = w_kv w (queue_key p j)"
    "w_kv w' (running_key p j) = w_kv w (running_key p j)" "w_kv w' (claim_key p j) = w_kv w (claim_key p j)"
    and ghosts: "j \<in> w_created w' \<longleftrightarrow> j \<in> w_created w" "j \<in> w_finished w' \<longleftrightarrow> j \<in> w_finished w"
    and claims: "w_claims w \<subseteq> w_claims w'"
    and locks: "\<And>t tok l k. t_id t = j \<Longrightarrow> w_kv w (claim_key p j) = Some (tok, l) \<Longrightarrow> lock_of p t = Some k \<Longrightarrow>
      w_kv w k = Some (tok, l) \<Longrightarrow> (tok, t) \<in> w_claims w \<Longrightarrow> w_kv w' k = w_kv w k"
  shows "slot_ok p J w' j"
proof -
  have idle: "idle_slot p w' j = idle_slot p w j" by (simp add: idle_slot_def keys)
  have run: "running_slot p w' j v t" if "running_slot p w j v t" "t_id t = j" for v t
    using that(1) claims locks [OF that(2)] unfolding running_slot_def keys ghosts by (metis subsetD)
  have "state_slot p w' j v t (t_state t)" if "state_slot p w j v t (t_state t)" "t_id t = j" for v t
    using that run by (cases "t_state t") (simp_all add: queued_slot_def idle keys ghosts)
  then show ?thesis
    using assms(1) unfolding slot_ok_def keys(1) ghosts idle by (auto split: option.splits)
qed


lemma dedupe_frame:
  assumes "dedupe_ok p J w"
    and "\<And>k tgt dk. dedupe_key p k tgt [] = Some dk \<Longrightarrow> w_kv w' dk = w_kv w dk"
    and "\<And>i k tgt. live_at p J w' i k tgt \<longleftrightarrow> live_at p J w i k tgt"
  shows "dedupe_ok p J w'"
  using assms unfolding dedupe_ok_def by auto

lemma live_at_stored: "stored p J w i t \<Longrightarrow>
    live_at p J w i k tgt \<longleftrightarrow> is_live t \<and> t_kind t = k \<and> t_target t = tgt \<and> t_depends_on t = []"
  unfolding live_at_def by (metis stored_unique)

lemma live_at_cong: "w_kv w' (task_key p i) = w_kv w (task_key p i) \<Longrightarrow> live_at p J w' i = live_at p J w i"
  by (auto simp: live_at_def stored_def fun_eq_iff)

lemma live_at_replace:
  assumes "stored p J w i t" "stored p J w' i t'" "is_live t' = is_live t" "t_kind t' = t_kind t"
    "t_target t' = t_target t" "t_depends_on t' = t_depends_on t"
    and "\<And>j. j \<noteq> i \<Longrightarrow> w_kv w' (task_key p j) = w_kv w (task_key p j)"
  shows "live_at p J w' j k tgt \<longleftrightarrow> live_at p J w j k tgt"
  using live_at_stored [OF assms(1)] live_at_stored [OF assms(2)] live_at_cong [OF assms(7)] assms(3-6)
  by (cases "j = i") auto

lemma slot_okI:
  "w_kv w (task_key p (t_id t)) = Some (v, None) \<Longrightarrow> to_vec J t = Some v \<Longrightarrow> t_id t \<in> w_created w \<Longrightarrow>
     state_slot p w (t_id t) v t (t_state t) \<Longrightarrow> slot_ok p J w (t_id t)"
  by (auto simp: slot_ok_def)

lemma inv_enqueue:
  assumes "task_inv p J w" "t_id t \<notin> w_created w" "t_state t = Queued" "to_vec J t = Some v"
    and "\<forall>k. dedupe_key p (t_kind t) (t_target t) (t_depends_on t) = Some k \<longrightarrow> w_kv w k = None"
    and w': "w' = w\<lparr>w_kv := apply_ops (w_kv w) (enqueue_ops p t v),
      w_created := insert (t_id t) (w_created w), w_reserved := w_reserved w - {t_id t}\<rparr>"
  shows "task_inv p J w'"
proof -
  let ?i = "t_id t" and ?dk = "dedupe_key p (t_kind t) (t_target t) (t_depends_on t)"
  have kv: "w_kv w' k = (if k = task_key p ?i \<or> k = queue_key p ?i then Some (v, None)
      else if ?dk = Some k then Some (?i, None) else w_kv w k)" for k
  proof (cases ?dk)
    case (Some d)
    then show ?thesis using dedupe_disjoint(1,2) [OF Some, of ?i] by (auto simp: w' enqueue_ops_def)
  qed (auto simp: w' enqueue_ops_def)
  have gs: "w_created w' = insert ?i (w_created w)" "w_finished w' = w_finished w" "w_claims w' = w_claims w"
    by (simp_all add: w')
  have s: "slot_ok p J w ?i" using assms(1) by (simp add: task_inv_def)
  have absent: "w_kv w (task_key p ?i) = None" using s assms(2) by (auto simp: slot_ok_def split: option.splits)
  then have idle: "idle_slot p w ?i" "?i \<notin> w_finished w"
    using s assms(1,2) by (auto simp: slot_ok_def task_inv_def ghosts_ok_def)
  have "slot_ok p J w' j" for j
  proof (cases "j = ?i")
    case True
    have "state_slot p w' ?i v t (t_state t)"
      using assms(3) idle by (simp add: queued_slot_def idle_slot_def kv gs)
    then show ?thesis unfolding True using assms(4) by (intro slot_okI) (simp_all add: kv gs)
  next
    case False
    then show ?thesis
      using assms(1) by (intro slot_frame [of p w j w']) (auto simp: task_inv_def lock_of_Some kv gs)
  qed
  moreover have "dedupe_ok p J w'"
    unfolding dedupe_ok_def
  proof (intro allI impI)
    fix k tgt dk i l
    assume dk: "dedupe_key p k tgt [] = Some dk"
    have "stored p J w' ?i t" using assms(4) by (simp add: stored_def kv)
    then have new: "live_at p J w' ?i k tgt \<longleftrightarrow> ?dk = Some dk"
      using assms(3) dk dedupe_inject [OF dk] by (auto simp: live_at_stored is_live_def dedupe_key_Some)
    have old: "live_at p J w' j k tgt = live_at p J w j k tgt" if "j \<noteq> ?i" for j
      using that by (simp add: live_at_cong [of w' p j w] kv)
    have "\<not> live_at p J w ?i k tgt" using absent by (simp add: live_at_def stored_def)
    moreover have "w_kv w dk = Some (i, l) \<longleftrightarrow> l = None \<and> live_at p J w i k tgt"
      using assms(1) dk by (simp add: task_inv_def dedupe_ok_def)
    moreover have "w_kv w' dk = (if ?dk = Some dk then Some (?i, None) else w_kv w dk)"
      using dedupe_disjoint [OF dk] by (simp add: kv)
    ultimately show "w_kv w' dk = Some (i, l) \<longleftrightarrow> l = None \<and> live_at p J w' i k tgt"
      using new old assms(5) by (cases "i = ?i") auto
  qed
  moreover have "ghosts_ok w'" using assms(1) by (auto simp: task_inv_def ghosts_ok_def w')
  ultimately show ?thesis by (simp add: task_inv_def)
qed


lemma inv_claim:
  assumes "task_inv p J w" "to_vec J t = Some qv" "to_vec J (started now t) = Some rv"
    and "list_all (holds (w_kv w)) (claim_compares p t qv)" "token \<notin> fst ` w_claims w"
    and w': "w' = w\<lparr>w_kv := apply_ops (w_kv w) (claim_ops p t rv token l),
      w_claims := insert (token, started now t) (w_claims w), w_reserved := w_reserved w - {token}\<rparr>"
  shows "task_inv p J w'"
proof -
  let ?i = "t_id t" and ?t = "started now t"
  have pre: "\<exists>l. w_kv w (task_key p ?i) = Some (qv, l)" "w_kv w (claim_key p ?i) = None" "w_kv w (queue_key p ?i) \<noteq> None"
    and free: "\<And>k. lock_of p t = Some k \<Longrightarrow> w_kv w k = None"
    using assms(4) by (auto simp: claim_compares_def)
  have kv: "w_kv w' k = (if k = task_key p ?i \<or> k = running_key p ?i then Some (rv, None)
      else if k = queue_key p ?i then None
      else if k = claim_key p ?i \<or> lock_of p t = Some k then Some (token, Some l) else w_kv w k)" for k
    by (auto simp: w' claim_ops_def lock_of_def)
  have gs: "w_created w' = w_created w" "w_finished w' = w_finished w"
    "w_claims w' = insert (token, ?t) (w_claims w)" by (simp_all add: w')
  have ok: "slot_ok p J w j" for j using assms(1) by (simp add: task_inv_def)
  obtain l0 where "w_kv w (task_key p ?i) = Some (qv, l0)" using pre(1) by blast
  note s = slot_stored [OF ok this assms(2)]
  have q: "t_state t = Queued" using s(5) pre(3)
    by (cases "t_state t") (simp_all add: running_slot_def idle_slot_def)
  have lk: "lock_of p t \<noteq> Some (task_key p j)" "lock_of p t \<noteq> Some (queue_key p j)"
    "lock_of p t \<noteq> Some (running_key p j)" "lock_of p t \<noteq> Some (claim_key p j)" for j
    by (simp_all add: lock_of_Some)
  have "slot_ok p J w' j" for j
  proof (cases "j = ?i")
    case True
    have "state_slot p w' ?i rv ?t (t_state ?t)"
      using s(5) q by (auto simp: queued_slot_def running_slot_def kv gs lk lock_of_Some)
    then show ?thesis unfolding True using assms(3) s(4) slot_okI [of w' p ?t rv] by (simp add: kv gs)
  next
    case False
    show ?thesis
      by (rule slot_frame [OF ok]) (use False free in \<open>auto simp: kv gs lk lock_of_Some\<close>)
  qed
  moreover have "dedupe_ok p J w'"
  proof (rule dedupe_frame)
    show "dedupe_ok p J w" using assms(1) by (simp add: task_inv_def)
    show "w_kv w' dk = w_kv w dk" if "dedupe_key p k tgt [] = Some dk" for k tgt dk
      using dedupe_disjoint [OF that] by (auto simp: kv lock_of_Some)
    have "stored p J w' ?i ?t" using assms(3) by (simp add: stored_def kv)
    then show "live_at p J w' j k tgt \<longleftrightarrow> live_at p J w j k tgt" for j k tgt
      by (rule live_at_replace [OF s(2)]) (simp_all add: q is_live_def kv lk)
  qed
  moreover have "ghosts_ok w'"
    using assms(1,5) unfolding task_inv_def ghosts_ok_def w' by (auto simp: image_iff)
  ultimately show ?thesis by (simp add: task_inv_def)
qed

lemma claimed_slot:
  assumes "task_inv p J w" "(token, t) \<in> w_claims w" "w_kv w (claim_key p i) = Some (token, l)"
  obtains v where "w_kv w (task_key p i) = Some (v, None)" "to_vec J t = Some v" "t_id t = i"
    "t_state t = TaskRunning" "running_slot p w i v t"
proof -
  have ok: "slot_ok p J w i" using assms(1) by (simp add: task_inv_def)
  obtain v t0 where s: "w_kv w (task_key p i) = Some (v, None)" "to_vec J t0 = Some v" "t_id t0 = i"
    "state_slot p w i v t0 (t_state t0)"
    using slot_present [OF ok] assms(3) by (auto simp: idle_slot_def)
  then have r: "t_state t0 = TaskRunning" "running_slot p w i v t0"
    using assms(3) by (cases "t_state t0"; simp add: queued_slot_def idle_slot_def)+
  then have "(token, t0) \<in> w_claims w" using assms(3) by (simp add: running_slot_def)
  then have "t0 = t" using assms(1,2) by (auto simp: task_inv_def ghosts_ok_def)
  with s r show ?thesis using that by blast
qed

text \<open>Mutual exclusion: one claim per lock.\<close>

lemma lock_exclusive:
  assumes "task_inv p J w" "w_kv w (claim_key p i) = Some (tok, l)" "w_kv w (claim_key p j) = Some (tok', l')"
    and "stored p J w i t" "stored p J w j t'" "lock_of p t = Some k" "lock_of p t' = Some k"
  shows "i = j"
proof -
  have run: "w_kv w k = Some (tok, l) \<and> (tok, t) \<in> w_claims w \<and> t_id t = i"
    if h: "w_kv w (claim_key p i) = Some (tok, l)" "stored p J w i t" "lock_of p t = Some k" for i tok l t
  proof -
    obtain v where v: "w_kv w (task_key p i) = Some (v, None)" "to_vec J t = Some v" using h(2) by (auto simp: stored_def)
    have ok: "slot_ok p J w i" using assms(1) by (simp add: task_inv_def)
    note s = slot_stored [OF ok v]
    have "running_slot p w i v t" using s(5) h(1)
      by (cases "t_state t") (simp_all add: queued_slot_def idle_slot_def)
    with h s(3) show ?thesis by (simp add: running_slot_def)
  qed
  have "tok' = tok" "(tok, t) \<in> w_claims w" "(tok', t') \<in> w_claims w" "t_id t = i" "t_id t' = j"
    using run [OF assms(2,4,6)] run [OF assms(3,5,7)] by auto
  then show ?thesis using assms(1) unfolding task_inv_def ghosts_ok_def by metis
qed


lemma inv_finish:
  assumes "task_inv p J w" "(token, t) \<in> w_claims w" "to_vec J (apply_outcome now t out) = Some v"
    and "holds (w_kv w) (ValueEqual (claim_key p (t_id t)) token)"
    and w': "w' = w\<lparr>w_kv := apply_ops (w_kv w)
        (finish_ops p (apply_outcome now t out) v (claim_key p (t_id t)) (lock_of p t)),
      w_finished := insert (t_id t) (w_finished w)\<rparr>"
  shows "task_inv p J w'"
proof -
  let ?i = "t_id t" and ?t = "apply_outcome now t out" and ?dk = "dedupe_key p (t_kind t) (t_target t) (t_depends_on t)"
  obtain l where cl: "w_kv w (claim_key p ?i) = Some (token, l)" using assms(4) by auto
  obtain v0 where s: "w_kv w (task_key p ?i) = Some (v0, None)" "to_vec J t = Some v0"
    "t_state t = TaskRunning" "running_slot p w ?i v0 t"
    using claimed_slot [OF assms(1,2) cl] by metis
  have st: "stored p J w ?i t" using s by (simp add: stored_def)
  have kv: "w_kv w' k = (if k = task_key p ?i then Some (v, None)
      else if k = claim_key p ?i \<or> k = running_key p ?i \<or> lock_of p t = Some k \<or> ?dk = Some k then None else w_kv w k)" for k
    by (cases ?dk) (auto simp: w' finish_ops_def lock_of_def dest: dedupe_disjoint(1))
  have gs: "w_created w' = w_created w" "w_finished w' = insert ?i (w_finished w)" "w_claims w' = w_claims w"
    by (simp_all add: w')
  have ok: "slot_ok p J w j" for j using assms(1) by (simp add: task_inv_def)
  have cr: "?i \<in> w_created w" by (rule slot_stored(4) [OF ok s(1,2)])
  have lk: "lock_of p t \<noteq> Some (task_key p j)" "lock_of p t \<noteq> Some (queue_key p j)"
    "lock_of p t \<noteq> Some (running_key p j)" "lock_of p t \<noteq> Some (claim_key p j)" for j
    by (simp_all add: lock_of_Some)
  have "slot_ok p J w' j" for j
  proof (cases "j = ?i")
    case True
    have "state_slot p w' ?i v ?t (t_state ?t)"
      using outcome_fields(5) [of now t out] s(4)
      by (cases "t_state ?t") (simp_all add: idle_slot_def running_slot_def kv gs lk)
    then show ?thesis unfolding True using assms(3) cr slot_okI [of w' p ?t v] by (simp add: kv gs)
  next
    case False
    show ?thesis
    proof (rule slot_frame [OF ok])
      show "w_kv w' k = w_kv w k" if h: "t_id tj = j" "w_kv w (claim_key p j) = Some (tok, lj)" "lock_of p tj = Some k"
        "w_kv w k = Some (tok, lj)" "(tok, tj) \<in> w_claims w" for tj tok lj k
      proof -
        obtain vj where "w_kv w (task_key p j) = Some (vj, None)" "to_vec J tj = Some vj"
          using claimed_slot [OF assms(1) h(5,2)] by metis
        then have "stored p J w j tj" by (simp add: stored_def)
        then have "lock_of p t \<noteq> Some k"
          using lock_exclusive [OF assms(1) cl h(2) st] h(3) False by blast
        moreover have "?dk \<noteq> Some k" using h(3) by (auto simp: lock_of_Some)
        ultimately show ?thesis using h(3) by (auto simp: kv lock_of_Some)
      qed
    qed (use False in \<open>simp_all add: kv gs lk\<close>)
  qed
  moreover have "dedupe_ok p J w'"
    unfolding dedupe_ok_def
  proof (intro allI impI)
    fix k tgt dk i l
    assume dk: "dedupe_key p k tgt [] = Some dk"
    have d: "w_kv w dk = Some (i, l) \<longleftrightarrow> l = None \<and> live_at p J w i k tgt" for i l
      using assms(1) dk by (simp add: task_inv_def dedupe_ok_def)
    have "stored p J w' ?i ?t" using assms(3) by (simp add: stored_def kv)
    then have new: "\<not> live_at p J w' ?i k tgt" by (simp add: live_at_stored)
    have old: "live_at p J w' j k tgt = live_at p J w j k tgt" if "j \<noteq> ?i" for j
      using that by (simp add: live_at_cong [of w' p j w] kv lk)
    have was: "live_at p J w ?i k tgt \<longleftrightarrow> ?dk = Some dk"
      using s(3) dk dedupe_inject [OF dk] by (auto simp: live_at_stored [OF st] is_live_def dedupe_key_Some)
    have kvd: "w_kv w' dk = (if ?dk = Some dk then None else w_kv w dk)"
      using dedupe_disjoint [OF dk] by (auto simp: kv lock_of_Some)
    show "w_kv w' dk = Some (i, l) \<longleftrightarrow> l = None \<and> live_at p J w' i k tgt"
    proof (cases "?dk = Some dk")
      case True
      then have "w_kv w dk = Some (?i, None)" using d was by simp
      then have "\<not> live_at p J w i k tgt" if "i \<noteq> ?i" using d [of i None] that by simp
      then show ?thesis using kvd True new old by (cases "i = ?i") auto
    next
      case False
      then show ?thesis using kvd d was new old by (cases "i = ?i") auto
    qed
  qed
  moreover have "ghosts_ok w'" using assms(1) cr by (auto simp: task_inv_def ghosts_ok_def w')
  ultimately show ?thesis by (simp add: task_inv_def)
qed

lemma inv_recover:
  assumes "task_inv p J w" "to_vec J t = Some rv" "to_vec J (requeue t) = Some v"
    and "list_all (holds (w_kv w)) [ValueEqual (task_key p (t_id t)) rv, VersionZero (claim_key p (t_id t)),
      VersionPositive (running_key p (t_id t))]"
    and w': "w' = w\<lparr>w_kv := apply_ops (w_kv w) [TxnPut (task_key p (t_id t)) v None,
      TxnPut (queue_key p (t_id t)) v None, TxnDelete (running_key p (t_id t))]\<rparr>"
  shows "task_inv p J w'"
proof -
  let ?i = "t_id t" and ?t = "requeue t"
  obtain l0 where l0: "w_kv w (task_key p ?i) = Some (rv, l0)" using assms(4) by auto
  have pre: "w_kv w (claim_key p ?i) = None" "w_kv w (running_key p ?i) \<noteq> None" using assms(4) by auto
  have kv: "w_kv w' k = (if k = task_key p ?i \<or> k = queue_key p ?i then Some (v, None)
      else if k = running_key p ?i then None else w_kv w k)" for k by (auto simp: w')
  have gs: "w_created w' = w_created w" "w_finished w' = w_finished w" "w_claims w' = w_claims w" by (simp_all add: w')
  have ok: "slot_ok p J w j" for j using assms(1) by (simp add: task_inv_def)
  note s = slot_stored [OF ok l0 assms(2)]
  have r: "t_state t = TaskRunning" using s(5) pre(2)
    by (cases "t_state t") (simp_all add: queued_slot_def idle_slot_def)
  have "slot_ok p J w' j" for j
  proof (cases "j = ?i")
    case True
    have "state_slot p w' ?i v ?t (t_state ?t)"
      using s(5) r pre by (auto simp: queued_slot_def running_slot_def kv gs)
    then show ?thesis unfolding True using assms(3) s(4) slot_okI [of w' p ?t v] by (simp add: kv gs)
  next
    case False
    show ?thesis by (rule slot_frame [OF ok]) (use False in \<open>auto simp: kv gs lock_of_Some\<close>)
  qed
  moreover have "dedupe_ok p J w'"
  proof (rule dedupe_frame)
    show "dedupe_ok p J w" using assms(1) by (simp add: task_inv_def)
    show "w_kv w' dk = w_kv w dk" if "dedupe_key p k tgt [] = Some dk" for k tgt dk
      using dedupe_disjoint [OF that] by (auto simp: kv)
    have "stored p J w' ?i ?t" using assms(3) by (simp add: stored_def kv)
    then show "live_at p J w' j k tgt \<longleftrightarrow> live_at p J w j k tgt" for j k tgt
      by (rule live_at_replace [OF s(2)]) (simp_all add: r is_live_def kv)
  qed
  moreover have "ghosts_ok w'" using assms(1) by (simp add: task_inv_def ghosts_ok_def w')
  ultimately show ?thesis by (simp add: task_inv_def)
qed


lemma inv_fail_dependency:
  assumes "task_inv p J w" "to_vec J t = Some qv" "to_vec J (fail_dependency_record now t d) = Some v"
    "t_depends_on t \<noteq> []"
    and "list_all (holds (w_kv w)) [ValueEqual (task_key p (t_id t)) qv, VersionPositive (queue_key p (t_id t))]"
    and w': "w' = w\<lparr>w_kv := apply_ops (w_kv w) [TxnPut (task_key p (t_id t)) v None,
      TxnDelete (queue_key p (t_id t))], w_finished := insert (t_id t) (w_finished w)\<rparr>"
  shows "task_inv p J w'"
proof -
  let ?i = "t_id t" and ?t = "fail_dependency_record now t d"
  have out: "t_id ?t = ?i" "t_depends_on ?t = t_depends_on t" "t_state ?t \<in> {Done, TaskFailed}"
    unfolding fail_dependency_record_def by (simp_all del: insert_iff)
  obtain l0 where l0: "w_kv w (task_key p ?i) = Some (qv, l0)" using assms(5) by auto
  have pre: "w_kv w (queue_key p ?i) \<noteq> None" using assms(5) by auto
  have kv: "w_kv w' k = (if k = task_key p ?i then Some (v, None)
      else if k = queue_key p ?i then None else w_kv w k)" for k by (auto simp: w')
  have gs: "w_created w' = w_created w" "w_finished w' = insert ?i (w_finished w)" "w_claims w' = w_claims w"
    by (simp_all add: w')
  have ok: "slot_ok p J w j" for j using assms(1) by (simp add: task_inv_def)
  note s = slot_stored [OF ok l0 assms(2)]
  have q: "queued_slot p w ?i qv" using s(5) pre
    by (cases "t_state t") (simp_all add: running_slot_def idle_slot_def)
  have "slot_ok p J w' j" for j
  proof (cases "j = ?i")
    case True
    have "state_slot p w' ?i v ?t (t_state ?t)"
      using out(3) q by (cases "t_state ?t") (simp_all add: idle_slot_def queued_slot_def kv gs)
    then show ?thesis unfolding True using assms(3) s(4) slot_okI [of w' p ?t v] out(1) by (simp add: kv gs)
  next
    case False
    show ?thesis by (rule slot_frame [OF ok]) (use False in \<open>auto simp: kv gs lock_of_Some\<close>)
  qed
  moreover have "dedupe_ok p J w'"
  proof (rule dedupe_frame)
    show "dedupe_ok p J w" using assms(1) by (simp add: task_inv_def)
    show "w_kv w' dk = w_kv w dk" if "dedupe_key p k tgt [] = Some dk" for k tgt dk
      using dedupe_disjoint [OF that] by (auto simp: kv)
    have "stored p J w' ?i ?t" using assms(3) by (simp add: stored_def kv)
    then show "live_at p J w' j k tgt \<longleftrightarrow> live_at p J w j k tgt" for j k tgt
      using assms(4) out(2) live_at_cong [of w' p j w]
      by (cases "j = ?i") (auto simp: live_at_stored live_at_stored [OF s(2)] kv)
  qed
  moreover have "ghosts_ok w'" using assms(1) s(4) by (auto simp: task_inv_def ghosts_ok_def w')
  ultimately show ?thesis by (simp add: task_inv_def)
qed

text \<open>A step that leaves the keys of every task, of locks and of dedupe entries alone.\<close>

lemma inv_frame:
  assumes "task_inv p J w" "ghosts_ok w'"
    and "w_created w' = w_created w" "w_finished w' = w_finished w" "w_claims w' = w_claims w"
    and "\<And>i. w_kv w' (task_key p i) = w_kv w (task_key p i)" "\<And>i. w_kv w' (queue_key p i) = w_kv w (queue_key p i)"
    "\<And>i. w_kv w' (running_key p i) = w_kv w (running_key p i)" "\<And>i. w_kv w' (claim_key p i) = w_kv w (claim_key p i)"
    "\<And>x. w_kv w' (target_lock_key p x) = w_kv w (target_lock_key p x)"
    "\<And>k tgt dk. dedupe_key p k tgt [] = Some dk \<Longrightarrow> w_kv w' dk = w_kv w dk"
  shows "task_inv p J w'"
proof -
  have "slot_ok p J w' j" for j
    by (rule slot_frame [of p w]) (use assms in \<open>auto simp: task_inv_def lock_of_Some\<close>)
  moreover have "dedupe_ok p J w'"
    by (rule dedupe_frame [of p w]) (use assms live_at_cong [of w' p _ w] in \<open>auto simp: task_inv_def\<close>)
  ultimately show ?thesis using assms(2) by (simp add: task_inv_def)
qed

lemma inv_prune:
  assumes "task_inv p J w" "set is \<subseteq> w_finished w"
    and w': "w' = w\<lparr>w_kv := apply_ops (w_kv w) (map (\<lambda>i. TxnDelete (task_key p i)) is)\<rparr>"
  shows "task_inv p J w'"
proof -
  have kv: "w_kv w' k = (if k \<in> task_key p ` set is then None else w_kv w k)" for k
    by (simp add: w' apply_deletes)
  have gs: "w_created w' = w_created w" "w_finished w' = w_finished w" "w_claims w' = w_claims w" by (simp_all add: w')
  have ok: "slot_ok p J w j" for j using assms(1) by (simp add: task_inv_def)
  have fin: "idle_slot p w i \<and> (\<forall>t. stored p J w i t \<longrightarrow> \<not> is_live t)" if "i \<in> w_finished w" for i
  proof (cases "w_kv w (task_key p i)")
    case None
    then show ?thesis using ok [of i] by (simp add: slot_ok_def stored_def)
  next
    case (Some a)
    then obtain v t where a: "w_kv w (task_key p i) = Some (v, None)" "to_vec J t = Some v"
      using ok [of i] by (auto simp: slot_ok_def)
    note s = slot_stored [OF ok a]
    have "idle_slot p w i \<and> \<not> is_live t"
      using s(5) that by (cases "t_state t") (simp_all add: queued_slot_def running_slot_def is_live_def)
    then show ?thesis using stored_unique [OF s(2)] by blast
  qed
  have "slot_ok p J w' j" for j
  proof (cases "j \<in> set is")
    case True
    then have "w_kv w' (task_key p j) = None" by (auto simp: kv)
    moreover have "idle_slot p w' j" using fin True assms(2) by (auto simp: idle_slot_def kv)
    moreover have "j \<in> w_finished w" using True assms(2) by blast
    ultimately show ?thesis by (simp add: slot_ok_def gs)
  next
    case False
    then show ?thesis by (intro slot_frame [OF ok]) (auto simp: kv gs lock_of_Some)
  qed
  moreover have "dedupe_ok p J w'"
  proof (rule dedupe_frame)
    show "dedupe_ok p J w" using assms(1) by (simp add: task_inv_def)
    show "w_kv w' dk = w_kv w dk" if "dedupe_key p k tgt [] = Some dk" for k tgt dk
      using dedupe_disjoint [OF that] by (auto simp: kv)
    show "live_at p J w' j k tgt \<longleftrightarrow> live_at p J w j k tgt" for j k tgt
    proof (cases "j \<in> set is")
      case True
      then have "\<not> live_at p J w j k tgt" "\<not> live_at p J w' j k tgt"
        using fin assms(2) by (auto simp: live_at_def stored_def [of p J w'] kv)
      then show ?thesis by simp
    next
      case False
      then show ?thesis by (simp add: live_at_cong [of w' p j w] kv image_iff)
    qed
  qed
  moreover have "ghosts_ok w'" using assms(1) by (simp add: task_inv_def ghosts_ok_def w')
  ultimately show ?thesis by (simp add: task_inv_def)
qed

text \<open>The owner of a dedupe key is live, so releasing the key of a finished task never happens.\<close>

lemma no_release:
  assumes "task_inv p J w" "dedupe_key p k tgt ds = Some dk" "i \<in> w_finished w"
  shows "\<not> holds (w_kv w) (ValueEqual dk i)"
proof
  assume "holds (w_kv w) (ValueEqual dk i)"
  then obtain l where "w_kv w dk = Some (i, l)" by auto
  moreover have "dedupe_key p k tgt [] = Some dk" using assms(2) by (simp add: dedupe_key_Some)
  ultimately obtain t where t: "stored p J w i t" "is_live t"
    using assms(1) by (auto simp: task_inv_def dedupe_ok_def live_at_def)
  then obtain v where v: "w_kv w (task_key p i) = Some (v, None)" "to_vec J t = Some v" by (auto simp: stored_def)
  have ok: "slot_ok p J w i" using assms(1) by (simp add: task_inv_def)
  show False
    using slot_stored(5) [OF ok v] t(2) assms(3)
    by (cases "t_state t") (simp_all add: queued_slot_def running_slot_def is_live_def)
qed


lemma drop_lease_simps:
  "m k = None \<Longrightarrow> drop_lease l m k = None" "m k = Some (v, None) \<Longrightarrow> drop_lease l m k = Some (v, None)"
  "drop_lease l m k = Some (v, Some l') \<Longrightarrow> m k = Some (v, Some l') \<and> l' \<noteq> l"
  "drop_lease l m k = Some x \<Longrightarrow> m k = Some x"
  by (auto simp: drop_lease_def split: option.splits if_splits)

lemma drop_lease_other: "m k = Some (v, l') \<Longrightarrow> l' \<noteq> Some l \<Longrightarrow> drop_lease l m k = Some (v, l')"
  by (auto simp: drop_lease_def split: option.splits)

lemma inv_coordination:
  assumes "task_inv p J w"
  shows "task_inv p J (w\<lparr>w_kv := (w_kv w)(coordination_key p name := x)\<rparr>)" (is "task_inv p J ?w")
proof (rule inv_frame [OF assms])
  show "ghosts_ok ?w" using assms by (simp add: task_inv_def ghosts_ok_def)
  show "w_kv ?w dk = w_kv w dk" if "dedupe_key p k tgt [] = Some dk" for k tgt dk
    using dedupe_disjoint(6) [OF that, of name] by simp
qed simp_all

text \<open>A claim and its lock ride the same lease, so they expire together.\<close>

lemma inv_expire:
  assumes "task_inv p J w" and w': "w' = w\<lparr>w_kv := drop_lease l (w_kv w)\<rparr>"
  shows "task_inv p J w'"
proof -
  have kv: "w_kv w' = drop_lease l (w_kv w)" by (simp add: w')
  have gs: "w_created w' = w_created w" "w_finished w' = w_finished w" "w_claims w' = w_claims w" by (simp_all add: w')
  have ok: "slot_ok p J w j" for j using assms(1) by (simp add: task_inv_def)
  have same: "w_kv w' (task_key p j) = w_kv w (task_key p j)" for j
  proof (cases "w_kv w (task_key p j)")
    case (Some a)
    then have "snd a = None" using ok [of j] by (cases a) (simp add: slot_ok_def)
    with Some show ?thesis by (cases a) (simp add: kv drop_lease_simps(1,2))
  qed (simp add: kv drop_lease_simps(1,2))
  have idle: "idle_slot p w j \<Longrightarrow> idle_slot p w' j" for j by (simp add: idle_slot_def kv drop_lease_simps(1,2))
  have run: "running_slot p w j v t \<Longrightarrow> running_slot p w' j v t" for j v t
  proof -
    assume r: "running_slot p w j v t"
    have "(tok, t) \<in> w_claims w \<and> (\<forall>k. lock_of p t = Some k \<longrightarrow> w_kv w' k = Some (tok, l'))"
      if "w_kv w' (claim_key p j) = Some (tok, l')" for tok l'
    proof -
      have "w_kv w (claim_key p j) = Some (tok, l')" using that drop_lease_simps(4) by (simp add: kv)
      then have "(tok, t) \<in> w_claims w" "\<And>k. lock_of p t = Some k \<Longrightarrow> w_kv w k = Some (tok, l')"
        using r by (simp_all add: running_slot_def)
      moreover have "l' \<noteq> Some l"
      proof
        assume "l' = Some l"
        then show False using that drop_lease_simps(3) [of l "w_kv w" "claim_key p j" tok l] by (simp add: kv)
      qed
      ultimately show ?thesis unfolding kv using drop_lease_other by metis
    qed
    moreover have "w_kv w' (queue_key p j) = None \<and> w_kv w' (running_key p j) = Some (v, None) \<and> j \<notin> w_finished w'"
      using r by (simp add: running_slot_def gs kv drop_lease_simps(1,2))
    ultimately show "running_slot p w' j v t" unfolding running_slot_def gs by blast
  qed
  have "state_slot p w j v t st \<Longrightarrow> state_slot p w' j v t st" for j v t st
    using run idle by (cases st) (auto simp: queued_slot_def gs kv drop_lease_simps(1,2))
  then have "slot_ok p J w' j" for j
    using ok [of j] idle [of j] unfolding slot_ok_def same gs by (auto split: option.splits)
  moreover have "dedupe_ok p J w'"
  proof (rule dedupe_frame)
    show "dedupe_ok p J w" using assms(1) by (simp add: task_inv_def)
    show "w_kv w' dk = w_kv w dk" if "dedupe_key p k tgt [] = Some dk" for k tgt dk
    proof (cases "w_kv w dk")
      case (Some a)
      then have "snd a = None" using that assms(1) by (cases a) (auto simp: task_inv_def dedupe_ok_def)
      with Some show ?thesis by (cases a) (simp add: kv drop_lease_simps(1,2))
    qed (simp add: kv drop_lease_simps(1,2))
  qed (simp add: live_at_cong [OF same])
  moreover have "ghosts_ok w'" using assms(1) by (simp add: task_inv_def ghosts_ok_def w')
  ultimately show ?thesis by (simp add: task_inv_def)
qed

lemma task_step_inv:
  assumes "task_step p J w w'" "task_inv p J w"
  shows "task_inv p J w'"
  using assms
proof (induction rule: task_step.induct)
  case (enqueue t w v)
  then show ?case using inv_enqueue by blast
next
  case (claim t qv now rv w token l)
  then show ?case using inv_claim by blast
next
  case (finish token t w now out v)
  then show ?case using inv_finish by blast
next
  case (recover t rv v w)
  then show ?case using inv_recover by blast
next
  case (fail_dependency t qv now d v w)
  then show ?case using inv_fail_dependency by blast
next
  case (prune "is" w)
  then show ?case using inv_prune by blast
next
  case (release k tgt ds dk i w)
  then show ?case using no_release by blast
next
  case (expire w l)
  then show ?case using inv_expire by blast
next
  case (lock w name token l)
  then show ?case using inv_coordination [of p w name] by (simp add: fun_upd_def)
next
  case (unlock w name)
  then show ?case using inv_coordination [of p w name] by (simp add: fun_upd_def)
next
  case (reserve i w)
  then have "ghosts_ok (w\<lparr>w_reserved := insert i (w_reserved w)\<rparr>)" by (simp add: task_inv_def ghosts_ok_def)
  then show ?case by (rule inv_frame [OF reserve(3)]) simp_all
qed

lemma task_steps_inv: "(task_step p J)\<^sup>*\<^sup>* w w' \<Longrightarrow> task_inv p J w \<Longrightarrow> task_inv p J w'"
  by (induction rule: rtranclp_induct) (auto intro: task_step_inv)

end

end
