(* ===== verification/Task_Handlers.thy ===== *)
theory Task_Handlers
  imports Task_Safety
begin

text \<open>
  The operations of \<open>Task_Store\<close> against the step relation of \<open>Task_Safety\<close>, by rely and guarantee: between
  any two etcd calls other masters and expiring leases may take steps that do not touch the ids this
  process has drawn; every operation then takes such steps itself, whatever each call returns and also
  when a call fails and it is not known whether its transaction was applied.
\<close>

section \<open>What is relied on of etcd\<close>

definition others :: "string \<Rightarrow> serde \<Rightarrow> world \<Rightarrow> world \<Rightarrow> bool" where
  "others p J = (\<lambda>w w'. task_step p J w w' \<and> w_reserved w' = w_reserved w)\<^sup>*\<^sup>*"

definition own_step :: "string \<Rightarrow> serde \<Rightarrow> world \<Rightarrow> world \<Rightarrow> bool" where
  "own_step p J w w' \<longleftrightarrow> task_step p J w w' \<and> w_created w' \<subseteq> w_created w \<union> w_reserved w \<and>
     fst ` w_claims w' \<subseteq> fst ` w_claims w \<union> w_reserved w \<and> w_reserved w' \<subseteq> w_reserved w"

text \<open>
  \<open>R s w\<close>: the world \<open>w\<close> is an account of the state \<open>s\<close> of the outside. A read sees the store at one moment;
  a transaction compares and applies at one moment; a failed call may or may not have been applied;
  a UUID is new to everybody.
\<close>

locale etcd_laws = serde_laws J for J :: serde +
  fixes E :: "'s etcd" and p :: string and R :: "'s \<Rightarrow> world \<Rightarrow> bool"
  assumes get_law: "R s w \<Longrightarrow> etcd_get E k s = (r, s') \<Longrightarrow>
      \<exists>w'. others p J w w' \<and> R s' w' \<and> (\<forall>v. r = Ok v \<longrightarrow> v = map_option fst (w_kv w' k))"
    and prefix_law: "R s w \<Longrightarrow> etcd_prefix E k s = (r', s') \<Longrightarrow>
      \<exists>w'. others p J w w' \<and> R s' w' \<and>
        (\<forall>kvs. r' = Ok kvs \<longrightarrow> (\<forall>(x, v) \<in> set kvs. (\<exists>y. x = k @ y) \<and> map_option fst (w_kv w' x) = Some v))"
    and range_law: "R s w \<Longrightarrow> etcd_range E k k' n s = (r'', s') \<Longrightarrow> \<exists>w'. others p J w w' \<and> R s' w'"
    and count_law: "R s w \<Longrightarrow> etcd_count E k s = (rc, s') \<Longrightarrow> \<exists>w'. others p J w w' \<and> R s' w'"
    and grant_law: "R s w \<Longrightarrow> lease_grant E ttl s = (rg, s') \<Longrightarrow> \<exists>w'. others p J w w' \<and> R s' w'"
    and keep_law: "R s w \<Longrightarrow> lease_keep_alive E l s = (rk, s') \<Longrightarrow> \<exists>w'. others p J w w' \<and> R s' w'"
    and clock_law: "R s w \<Longrightarrow> clock_ms E s = (now, s') \<Longrightarrow> \<exists>w'. others p J w w' \<and> R s' w'"
    and revoke_law: "R s w \<Longrightarrow> lease_revoke E l s = (rv, s') \<Longrightarrow>
      \<exists>w'. others p J w w' \<and> (R s' w' \<or> R s' (w'\<lparr>w_kv := drop_lease l (w_kv w')\<rparr>))"
    and uuid_law: "R s w \<Longrightarrow> fresh_uuid E s = (i, s') \<Longrightarrow>
      \<exists>w'. others p J w w' \<and> i \<notin> w_created w' \<and> i \<notin> fst ` w_claims w' \<and> i \<notin> w_reserved w' \<and>
        R s' (w'\<lparr>w_reserved := insert i (w_reserved w')\<rparr>)"
    and txn_law: "R s w \<Longrightarrow> etcd_txn E cs ops s = (rt, s') \<Longrightarrow>
      \<exists>w' applied. others p J w w' \<and> (applied \<longrightarrow> list_all (holds (w_kv w')) cs) \<and>
        (\<forall>b. rt = Ok b \<longrightarrow> b = applied \<and> b = list_all (holds (w_kv w')) cs) \<and>
        (\<not> applied \<longrightarrow> R s' w') \<and>
        (applied \<longrightarrow> (\<forall>w2. own_step p J w' w2 \<and> w_kv w2 = apply_ops (w_kv w') ops \<longrightarrow> R s' w2))"
begin

definition steps :: "world \<Rightarrow> world \<Rightarrow> bool" where "steps = (task_step p J)\<^sup>*\<^sup>*"

lemma others_steps: "others p J w w' \<Longrightarrow> steps w w' \<and> w_reserved w' = w_reserved w"
  unfolding others_def steps_def by (induction rule: rtranclp_induct) auto

lemma steps_inv: "steps w w' \<Longrightarrow> task_inv p J w \<Longrightarrow> task_inv p J w'"
  unfolding steps_def by (rule task_steps_inv)

lemma steps_trans: "steps a b \<Longrightarrow> steps b c \<Longrightarrow> steps a c"
  unfolding steps_def by (rule rtranclp_trans)

lemma steps_one: "task_step p J a b \<Longrightarrow> steps a b"
  unfolding steps_def by blast

lemma step_history:
  "task_step p J w w' \<Longrightarrow> w_created w \<subseteq> w_created w' \<and> w_finished w \<subseteq> w_finished w' \<and> w_claims w \<subseteq> w_claims w'"
  by (induction rule: task_step.induct) auto

lemma others_history:
  "others p J w w' \<Longrightarrow> w_created w \<subseteq> w_created w' \<and> w_finished w \<subseteq> w_finished w' \<and> w_claims w \<subseteq> w_claims w'"
  unfolding others_def
proof (induction rule: rtranclp_induct)
  case (step y z)
  then show ?case using step_history [of y z] by blast
qed simp

section \<open>Triples\<close>

definition stable :: "(world \<Rightarrow> bool) \<Rightarrow> bool" where
  "stable P \<longleftrightarrow> (\<forall>w w'. P w \<and> others p J w w' \<longrightarrow> P w')"

definition triple :: "(world \<Rightarrow> bool) \<Rightarrow> ('s, 'e, 'a) io \<Rightarrow> ('a \<Rightarrow> world \<Rightarrow> bool) \<Rightarrow> bool" where
  "triple P m Q \<longleftrightarrow> (\<forall>s w r s'. R s w \<and> task_inv p J w \<and> P w \<and> m s = (r, s') \<longrightarrow>
     (\<exists>w'. steps w w' \<and> R s' w' \<and> (\<forall>x. r = Ok x \<longrightarrow> Q x w')))"

lemma stable_history [intro]:
  "stable (\<lambda>w. True)" "stable (\<lambda>w. i \<in> w_created w)" "stable (\<lambda>w. i \<in> w_finished w)" "stable (\<lambda>w. c \<in> w_claims w)"
  "stable (\<lambda>w. i \<in> w_reserved w)" "stable P \<Longrightarrow> stable Q \<Longrightarrow> stable (\<lambda>w. P w \<and> Q w)" "stable (\<lambda>w. X)"
  using others_history others_steps unfolding stable_def by blast+

lemma tripleI:
  "(\<And>s w r s'. R s w \<Longrightarrow> task_inv p J w \<Longrightarrow> P w \<Longrightarrow> m s = (r, s') \<Longrightarrow>
     \<exists>w'. steps w w' \<and> R s' w' \<and> (\<forall>x. r = Ok x \<longrightarrow> Q x w')) \<Longrightarrow> triple P m Q"
  unfolding triple_def by (intro allI impI) (elim conjE)

lemma tripleD:
  "triple P m Q \<Longrightarrow> R s w \<Longrightarrow> task_inv p J w \<Longrightarrow> P w \<Longrightarrow> m s = (r, s') \<Longrightarrow>
     \<exists>w'. steps w w' \<and> R s' w' \<and> (\<forall>x. r = Ok x \<longrightarrow> Q x w')"
  unfolding triple_def by (elim allE impE) (intro conjI)

lemma triple_bind:
  assumes m: "triple P m Q" and f: "\<And>x. triple (Q x) (f x) S"
  shows "triple P (io_bind m f) S"
proof (rule tripleI)
  fix s w r s'
  assume h: "R s w" "task_inv p J w" "P w" "io_bind m f s = (r, s')"
  obtain r1 s1 where m1: "m s = (r1, s1)" by (cases "m s")
  obtain w1 where w1: "steps w w1" "R s1 w1" "\<forall>x. r1 = Ok x \<longrightarrow> Q x w1" using tripleD [OF m h(1-3) m1] by blast
  show "\<exists>w'. steps w w' \<and> R s' w' \<and> (\<forall>x. r = Ok x \<longrightarrow> S x w')"
  proof (cases r1)
    case (Inl e)
    then have "r = Err e" "s' = s1" using h(4) m1 by (simp_all add: io_bind_def)
    then show ?thesis using w1 by auto
  next
    case (Inr x)
    then have fx: "f x s1 = (r, s')" "Q x w1" using h(4) m1 w1(3) by (simp_all add: io_bind_def)
    obtain w2 where "steps w1 w2" "R s' w2" "\<forall>y. r = Ok y \<longrightarrow> S y w2"
      using tripleD [OF f w1(2) steps_inv [OF w1(1) h(2)] fx(2,1)] by blast
    then show ?thesis using steps_trans [OF w1(1)] by blast
  qed
qed

lemma triple_result: "(\<And>x w. P w \<Longrightarrow> r = Ok x \<Longrightarrow> Q x w) \<Longrightarrow> triple P (io_result r) Q"
  by (auto simp: triple_def io_result_def steps_def)

lemma triple_return: "(\<And>w. P w \<Longrightarrow> Q x w) \<Longrightarrow> triple P (io_return x) Q"
  by (auto simp: triple_def io_return_def steps_def)

lemma triple_post: "triple P m Q \<Longrightarrow> (\<And>x w. Q x w \<Longrightarrow> Q' x w) \<Longrightarrow> triple P m Q'"
  unfolding triple_def by meson

lemma triple_pre: "triple P m Q \<Longrightarrow> (\<And>w. P' w \<Longrightarrow> P w) \<Longrightarrow> triple P' m Q"
  unfolding triple_def by meson

lemma triple_error: "triple P (io_result (Err e)) Q"
  by (rule triple_result) simp


section \<open>Rules for the calls\<close>

text \<open>A call that lets others step and otherwise leaves the world alone.\<close>

lemma triple_quiet:
  assumes "\<And>s w r s'. R s w \<Longrightarrow> m s = (r, s') \<Longrightarrow> \<exists>w'. others p J w w' \<and> R s' w' \<and> (\<forall>x. r = Ok x \<longrightarrow> Q x w')"
    and "stable P"
  shows "triple P m (\<lambda>x w. P w \<and> task_inv p J w \<and> Q x w)"
proof (rule tripleI)
  fix s w r s'
  assume h: "R s w" "task_inv p J w" "P w" "m s = (r, s')"
  obtain w' where w': "others p J w w'" "R s' w'" "\<forall>x. r = Ok x \<longrightarrow> Q x w'" using assms(1) [OF h(1,4)] by blast
  moreover have st: "steps w w'" using others_steps [OF w'(1)] by simp
  moreover have "P w'" using assms(2) h(3) w'(1) unfolding stable_def by blast
  moreover have "task_inv p J w'" by (rule steps_inv [OF st h(2)])
  ultimately show "\<exists>w'. steps w w' \<and> R s' w' \<and> (\<forall>x. r = Ok x \<longrightarrow> P w' \<and> task_inv p J w' \<and> Q x w')"
    by (intro exI [of _ w'] conjI) simp_all
qed

lemma triple_etcd:
  assumes "triple P m Q"
  shows "triple P (etcd a m) Q"
proof (rule tripleI)
  fix s w r s'
  assume h: "R s w" "task_inv p J w" "P w" "etcd a m s = (r, s')"
  obtain r1 s1 where m1: "m s = (r1, s1)" by (cases "m s")
  have e: "etcd a m s = (case r1 of Inl e \<Rightarrow> (Err (EtcdFailure a e), s1) | Inr x \<Rightarrow> (Ok x, s1))"
    by (cases r1) (simp_all add: etcd_def io_match_def io_return_def io_result_def m1)
  have s1: "s' = s1" using h(4) unfolding e by (cases r1) simp_all
  have ok: "r = Ok x \<Longrightarrow> r1 = Ok x" for x using h(4) unfolding e by (cases r1) simp_all
  show "\<exists>w'. steps w w' \<and> R s' w' \<and> (\<forall>x. r = Ok x \<longrightarrow> Q x w')" 
    using tripleD [OF assms h(1-3) m1] ok unfolding s1 by blast
qed

lemma triple_get:
  "stable P \<Longrightarrow> triple P (etcd_get E k) (\<lambda>v w. P w \<and> task_inv p J w \<and> v = map_option fst (w_kv w k))"
  by (rule triple_quiet) (rule get_law)

lemma triple_prefix:
  "stable P \<Longrightarrow> triple P (etcd_prefix E k) (\<lambda>kvs w. P w \<and> task_inv p J w \<and>
     (\<forall>(x, v) \<in> set kvs. (\<exists>y. x = k @ y) \<and> map_option fst (w_kv w x) = Some v))"
  by (rule triple_quiet) (rule prefix_law)

lemma triple_plain:
  assumes "stable P"
  shows "triple P (etcd_range E k k' n) (\<lambda>_. P)" "triple P (etcd_count E k) (\<lambda>_. P)"
    "triple P (lease_grant E ttl) (\<lambda>_. P)" "triple P (lease_keep_alive E l) (\<lambda>_. P)" "triple P (now_ms E) (\<lambda>_. P)"
proof -
  have q: "triple P m (\<lambda>_. P)" if "\<And>s w r s'. R s w \<Longrightarrow> m s = (r, s') \<Longrightarrow> \<exists>w'. others p J w w' \<and> R s' w'"
    for m :: "('s, 'x, 'y) io"
    by (rule triple_post [OF triple_quiet [where Q = "\<lambda>_ _. True", OF _ assms]]) (use that in auto)
  show "triple P (etcd_range E k k' n) (\<lambda>_. P)" by (rule q) (rule range_law)
  show "triple P (etcd_count E k) (\<lambda>_. P)" by (rule q) (rule count_law)
  show "triple P (lease_grant E ttl) (\<lambda>_. P)" by (rule q) (rule grant_law)
  show "triple P (lease_keep_alive E l) (\<lambda>_. P)" by (rule q) (rule keep_law)
  show "triple P (now_ms E) (\<lambda>_. P)"
    by (rule q) (auto simp: now_ms_def split: prod.splits dest: clock_law)
qed

lemma triple_revoke:
  assumes "stable P" "\<And>w l. P w \<Longrightarrow> P (w\<lparr>w_kv := drop_lease l (w_kv w)\<rparr>)"
  shows "triple P (lease_revoke E l) (\<lambda>_. P)"
proof (rule tripleI)
  fix s w r s'
  assume h: "R s w" "task_inv p J w" "P w" "lease_revoke E l s = (r, s')"
  obtain w' where w': "others p J w w'" "R s' w' \<or> R s' (w'\<lparr>w_kv := drop_lease l (w_kv w')\<rparr>)"
    using revoke_law [OF h(1,4)] by blast
  have s: "steps w w'" and P: "P w'" using others_steps [OF w'(1)] assms(1) h(3) w'(1) unfolding stable_def by blast+
  have "steps w' (w'\<lparr>w_kv := drop_lease l (w_kv w')\<rparr>)" by (rule steps_one [OF task_step.expire])
  then show "\<exists>w'. steps w w' \<and> R s' w' \<and> (\<forall>x. r = Ok x \<longrightarrow> P w')"
    using w'(2) s P assms(2) steps_trans by blast
qed

lemma triple_uuid:
  assumes "stable P" "\<And>w i. P w \<Longrightarrow> P (w\<lparr>w_reserved := insert i (w_reserved w)\<rparr>)"
  shows "triple P (generate_id E) (\<lambda>i w. P w \<and> i \<in> w_reserved w)"
proof (rule tripleI)
  fix s w r s'
  assume h: "R s w" "task_inv p J w" "P w" "generate_id E s = (r, s')"
  obtain i where i: "fresh_uuid E s = (i, s')" "r = Ok i"
    using h(4) by (auto simp: generate_id_def split: prod.splits)
  obtain w' where w': "others p J w w'" "i \<notin> w_created w'" "i \<notin> fst ` w_claims w'"
    "R s' (w'\<lparr>w_reserved := insert i (w_reserved w')\<rparr>)" using uuid_law [OF h(1) i(1)] by blast
  have "steps w (w'\<lparr>w_reserved := insert i (w_reserved w')\<rparr>)"
    using others_steps [OF w'(1)] steps_one [OF task_step.reserve [OF w'(2,3)]] steps_trans by blast
  moreover have "P w'" using assms(1) h(3) w'(1) unfolding stable_def by blast
  ultimately show "\<exists>w'. steps w w' \<and> R s' w' \<and> (\<forall>x. r = Ok x \<longrightarrow> P w' \<and> x \<in> w_reserved w')"
    using w'(4) assms(2) i(2) by (intro exI [of _ "w'\<lparr>w_reserved := insert i (w_reserved w')\<rparr>"]) auto
qed

lemma triple_txn:
  assumes "stable P" "\<And>w. P w \<Longrightarrow> task_inv p J w \<Longrightarrow> \<not> list_all (holds (w_kv w)) cs \<Longrightarrow> Q False w"
    and "\<And>w. P w \<Longrightarrow> task_inv p J w \<Longrightarrow> list_all (holds (w_kv w)) cs \<Longrightarrow>
      \<exists>w2. own_step p J w w2 \<and> w_kv w2 = apply_ops (w_kv w) ops \<and> Q True w2"
  shows "triple P (etcd_txn E cs ops) Q"
proof (rule tripleI)
  fix s w r s'
  assume h: "R s w" "task_inv p J w" "P w" "etcd_txn E cs ops s = (r, s')"
  obtain w' applied where w': "others p J w w'" "applied \<longrightarrow> list_all (holds (w_kv w')) cs"
    "\<forall>b. r = Ok b \<longrightarrow> b = applied \<and> b = list_all (holds (w_kv w')) cs" "\<not> applied \<longrightarrow> R s' w'"
    "applied \<longrightarrow> (\<forall>w2. own_step p J w' w2 \<and> w_kv w2 = apply_ops (w_kv w') ops \<longrightarrow> R s' w2)"
    using txn_law [OF h(1,4)] by (elim exE conjE) (rule that; assumption)
  have s: "steps w w'" and P: "P w'" using others_steps [OF w'(1)] assms(1) h(3) w'(1) unfolding stable_def by blast+
  have inv: "task_inv p J w'" by (rule steps_inv [OF s h(2)])
  have res: "x = applied \<and> x = list_all (holds (w_kv w')) cs" if "r = Ok x" for x
    by (rule mp [OF spec [OF w'(3)] that])
  show "\<exists>w'. steps w w' \<and> R s' w' \<and> (\<forall>x. r = Ok x \<longrightarrow> Q x w')"
  proof (cases applied)
    case True
    then obtain w2 where w2: "own_step p J w' w2" "w_kv w2 = apply_ops (w_kv w') ops" "Q True w2"
      using assms(3) [OF P inv] w'(2) by blast
    have "steps w w2" using w2(1) steps_trans [OF s steps_one] by (simp add: own_step_def)
    moreover have "R s' w2" using w'(5) True w2 by blast
    moreover have "r = Ok x \<longrightarrow> Q x w2" for x using res [of x] True w2(3) by (intro impI) simp
    ultimately show ?thesis by blast
  next
    case False
    have "r = Ok x \<longrightarrow> Q x w'" for x using res [of x] False assms(2) [OF P inv] by (intro impI) auto
    moreover have "R s' w'" using False w'(4) by blast
    ultimately show ?thesis using s by blast
  qed
qed


section \<open>The operations\<close>

lemma triple_encode:
  "triple P (io_result (encode_task J t)) (\<lambda>v w. P w \<and> to_vec J t = Some v)"
  by (rule triple_result) (simp add: encode_task_def)

text \<open>Reading a task: an absent one that was once created has finished, and so has one not live.\<close>

lemma triple_get_task:
  assumes "stable P"
  shows "triple P (get_task E J c i) (\<lambda>r w. P w \<and>
    (ts_prefix c = p \<longrightarrow> i \<in> w_created w \<longrightarrow> (case r of None \<Rightarrow> True | Some x \<Rightarrow> \<not> is_live x) \<longrightarrow> i \<in> w_finished w))"
  unfolding get_task_def
proof (rule triple_bind [OF triple_etcd [OF triple_get [OF assms]]], rule triple_result, intro conjI impI)
  fix v r w
  assume a: "P w \<and> task_inv p J w \<and> v = map_option fst (w_kv w (task_key (ts_prefix c) i))"
    and r: "(case v of None \<Rightarrow> Ok None | Some v \<Rightarrow> res_bind (decode_task J v i) (\<lambda>t. Ok (Some t))) = Ok r"
  show "P w" using a by simp
  assume pc: "ts_prefix c = p" and cr: "i \<in> w_created w" and nl: "case r of None \<Rightarrow> True | Some x \<Rightarrow> \<not> is_live x"
  have ok: "slot_ok p J w i" using a by (simp add: task_inv_def)
  show "i \<in> w_finished w"
  proof (cases "w_kv w (task_key p i)")
    case None
    then show ?thesis using ok cr by (simp add: slot_ok_def)
  next
    case (Some b)
    obtain x l where b: "b = (x, l)" by (cases b)
    obtain t where t: "to_vec J t = Some x" using ok Some b by (auto simp: slot_ok_def)
    then have "from_slice J x = Some t" using serde_ok by (simp add: serde_ok_def)
    then have "r = Some t" using a r pc Some b by (simp add: decode_task_def)
    then show ?thesis
      using slot_stored(5) [OF ok Some [unfolded b] t] nl by (cases "t_state t") (simp_all add: is_live_def)
  qed
qed

lemma triple_get_text:
  assumes "stable P" "dedupe_key p k tgt ds = Some dk"
  shows "triple P (get_text E dk) (\<lambda>r w. P w \<and> (\<forall>i. r = Some i \<longrightarrow> i \<in> w_created w))"
  unfolding get_text_def
proof (rule triple_bind [OF triple_etcd [OF triple_get [OF assms(1)]]], rule triple_result, intro conjI allI impI)
  fix v r w
  assume a: "P w \<and> task_inv p J w \<and> v = map_option fst (w_kv w dk)"
    and r: "(case v of None \<Rightarrow> Ok None | Some v \<Rightarrow> if utf8_valid (map of_char v) then Ok (Some v) else Err InvalidUtf8) = Ok r"
  show "P w" using a by simp
  fix i assume "r = Some i"
  then obtain l where "w_kv w dk = Some (i, l)" using a r by (auto split: option.splits if_splits)
  moreover have "dedupe_key p k tgt [] = Some dk" using assms(2) by (simp add: dedupe_key_Some)
  ultimately obtain t where t: "stored p J w i t" using a by (auto simp: task_inv_def dedupe_ok_def live_at_def)
  have ok: "slot_ok p J w i" using a by (simp add: task_inv_def)
  show "i \<in> w_created w" using ok t by (auto simp: slot_ok_def stored_def)
qed

lemma triple_release:
  assumes "dedupe_key p k tgt ds = Some dk"
  shows "triple (\<lambda>w. i \<in> w_finished w \<and> j \<in> w_reserved w) (delete_owned_key E dk i) (\<lambda>_ w. j \<in> w_reserved w)"
  unfolding delete_owned_key_def
proof (rule triple_bind [where Q = "\<lambda>_ w. j \<in> w_reserved w"])
  show "triple (\<lambda>w. i \<in> w_finished w \<and> j \<in> w_reserved w)
      (etcd ''release owned key'' (etcd_txn E [ValueEqual dk i] [TxnDelete dk])) (\<lambda>_ w. j \<in> w_reserved w)"
    by (intro triple_etcd triple_txn stable_history) (use no_release [OF _ assms] in auto)
qed (rule triple_return)

text \<open>The enqueue transaction, with or without a dedupe key.\<close>

lemma enqueue_own:
  assumes "task_inv p J w" "t_id t \<in> w_reserved w" "t_state t = Queued" "to_vec J t = Some v"
    and "\<forall>k. dedupe_key p (t_kind t) (t_target t) (t_depends_on t) = Some k \<longrightarrow> w_kv w k = None"
  shows "\<exists>w2. own_step p J w w2 \<and> w_kv w2 = apply_ops (w_kv w) (enqueue_ops p t v) \<and> t_id t \<in> w_created w2"
proof -
  have "t_id t \<notin> w_created w" using assms(1,2) by (auto simp: task_inv_def ghosts_ok_def)
  note st = task_step.enqueue [OF this assms(3-5)]
  show ?thesis
    by (intro exI conjI) (auto simp: own_step_def assms(2) intro: st)
qed

lemma triple_enqueue_deduped:
  assumes "dedupe_key p (t_kind t) (t_target t) (t_depends_on t) = Some dk" "t_state t = Queued" "to_vec J t = Some v"
    and "ts_prefix c = p"
  shows "triple (\<lambda>w. t_id t \<in> w_reserved w) (enqueue_deduped E J c t v dk n) (\<lambda>_ _. True)"
proof (induction n)
  case (Suc n)
  have ops: "[TxnPut (task_key (ts_prefix c) (t_id t)) v None, TxnPut (queue_key (ts_prefix c) (t_id t)) v None,
      TxnPut dk (t_id t) None] = enqueue_ops p t v" by (simp add: enqueue_ops_def assms(1,4))
  have txn: "triple (\<lambda>w. t_id t \<in> w_reserved w) (etcd ''enqueue task'' (etcd_txn E [VersionZero dk]
      [TxnPut (task_key (ts_prefix c) (t_id t)) v None, TxnPut (queue_key (ts_prefix c) (t_id t)) v None,
       TxnPut dk (t_id t) None])) (\<lambda>ok w. \<not> ok \<longrightarrow> t_id t \<in> w_reserved w)"
    unfolding ops
  proof (intro triple_etcd triple_txn stable_history)
    fix w assume "t_id t \<in> w_reserved w" "task_inv p J w" "list_all (holds (w_kv w)) [VersionZero dk]"
    then show "\<exists>w2. own_step p J w w2 \<and> w_kv w2 = apply_ops (w_kv w) (enqueue_ops p t v) \<and> (\<not> True \<longrightarrow> t_id t \<in> w_reserved w2)"
      using enqueue_own [of w t v] assms(1-3) by auto
  qed simp
  have rest: "triple (\<lambda>w. t_id t \<in> w_reserved w \<and> i \<in> w_created w)
      (io_bind (get_task E J c i) (\<lambda>existing.
        if (case existing of Some x \<Rightarrow> is_live x | None \<Rightarrow> False) then io_return (the existing)
        else io_bind (delete_owned_key E dk i) (\<lambda>_. enqueue_deduped E J c t v dk n))) (\<lambda>_ _. True)" for i
  proof (rule triple_bind [OF triple_get_task])
    fix r
    show "triple (\<lambda>w. (t_id t \<in> w_reserved w \<and> i \<in> w_created w) \<and> (ts_prefix c = p \<longrightarrow> i \<in> w_created w \<longrightarrow>
        (case r of None \<Rightarrow> True | Some x \<Rightarrow> \<not> is_live x) \<longrightarrow> i \<in> w_finished w))
      (if (case r of Some x \<Rightarrow> is_live x | None \<Rightarrow> False) then io_return (the r)
       else io_bind (delete_owned_key E dk i) (\<lambda>_. enqueue_deduped E J c t v dk n)) (\<lambda>_ _. True)"
    proof (cases "case r of Some x \<Rightarrow> is_live x | None \<Rightarrow> False")
      case False
      have "triple (\<lambda>w. i \<in> w_finished w \<and> t_id t \<in> w_reserved w)
          (io_bind (delete_owned_key E dk i) (\<lambda>_. enqueue_deduped E J c t v dk n)) (\<lambda>_ _. True)"
        by (rule triple_bind [OF triple_release [OF assms(1)] Suc])
      then show ?thesis
        using False by (simp, elim triple_pre) (auto simp: assms(4) split: option.splits)
    qed (simp add: triple_return)
  qed (intro stable_history)
  have "triple (\<lambda>w. t_id t \<in> w_reserved w) (io_bind (get_text E dk) (\<lambda>existing_id.
      case existing_id of None \<Rightarrow> enqueue_deduped E J c t v dk n
      | Some i \<Rightarrow> io_bind (get_task E J c i) (\<lambda>existing.
          if (case existing of Some x \<Rightarrow> is_live x | None \<Rightarrow> False) then io_return (the existing)
          else io_bind (delete_owned_key E dk i) (\<lambda>_. enqueue_deduped E J c t v dk n)))) (\<lambda>_ _. True)"
  proof (rule triple_bind [OF triple_get_text [OF _ assms(1)]])
    fix r
    show "triple (\<lambda>w. t_id t \<in> w_reserved w \<and> (\<forall>i. r = Some i \<longrightarrow> i \<in> w_created w))
      (case r of None \<Rightarrow> enqueue_deduped E J c t v dk n
      | Some i \<Rightarrow> io_bind (get_task E J c i) (\<lambda>existing.
          if (case existing of Some x \<Rightarrow> is_live x | None \<Rightarrow> False) then io_return (the existing)
          else io_bind (delete_owned_key E dk i) (\<lambda>_. enqueue_deduped E J c t v dk n))) (\<lambda>_ _. True)"
    proof (cases r)
      case None
      then show ?thesis using Suc by (simp add: triple_pre [OF Suc])
    next
      case (Some i)
      show ?thesis unfolding Some option.case by (rule triple_pre [OF rest]) simp
    qed
  qed (intro stable_history)
  then show ?case
    unfolding enqueue_deduped.simps
    by (intro triple_bind [OF txn]) (auto intro: triple_return triple_pre)
next
  case 0
  show ?case unfolding enqueue_deduped.simps by (rule triple_error)
qed


lemma triple_enqueue:
  assumes "ts_prefix c = p"
  shows "triple (\<lambda>_. True) (enqueue E J c k target deps) (\<lambda>_ _. True)"
proof -
  have new: "triple (\<lambda>_. True) (new_task E k target deps) (\<lambda>t w. t_id t \<in> w_reserved w \<and>
      t_state t = Queued \<and> t_kind t = k \<and> t_target t = target \<and> t_depends_on t = deps)"
    unfolding new_task_def
    by (rule triple_bind [OF triple_uuid], rule stable_history, simp,
        rule triple_bind [OF triple_plain(5)], intro stable_history, rule triple_return) simp
  have plain: "triple (\<lambda>w. t_id t \<in> w_reserved w) (io_bind (etcd ''enqueue task'' (etcd_txn E []
      [TxnPut (task_key (ts_prefix c) (t_id t)) v None, TxnPut (queue_key (ts_prefix c) (t_id t)) v None])) (\<lambda>_.
      io_return t)) (\<lambda>_ _. True)"
    if h: "dedupe_key p (t_kind t) (t_target t) (t_depends_on t) = None" "t_state t = Queued" "to_vec J t = Some v" for t v
  proof -
    have ops: "[TxnPut (task_key (ts_prefix c) (t_id t)) v None, TxnPut (queue_key (ts_prefix c) (t_id t)) v None] =
      enqueue_ops p t v" by (simp add: enqueue_ops_def h(1) assms)
    show ?thesis
      unfolding ops
    proof (rule triple_bind [where Q = "\<lambda>_ _. True"], intro triple_etcd triple_txn stable_history)
      fix w assume "t_id t \<in> w_reserved w" "task_inv p J w"
      then show "\<exists>w2. own_step p J w w2 \<and> w_kv w2 = apply_ops (w_kv w) (enqueue_ops p t v) \<and> True"
        using enqueue_own [of w t v] h by auto
    qed (simp_all add: triple_return)
  qed
  show ?thesis
    unfolding enqueue_def
  proof (rule triple_bind [OF new], rule triple_bind [OF triple_encode])
    fix t v
    let ?P = "\<lambda>w. (t_id t \<in> w_reserved w \<and> t_state t = Queued \<and> t_kind t = k \<and> t_target t = target \<and>
      t_depends_on t = deps) \<and> to_vec J t = Some v"
    show "triple ?P (case dedupe_key (ts_prefix c) k target (t_depends_on t) of
        Some dk \<Rightarrow> enqueue_deduped E J c t v dk 4
      | None \<Rightarrow> io_bind (etcd ''enqueue task'' (etcd_txn E []
          [TxnPut (task_key (ts_prefix c) (t_id t)) v None, TxnPut (queue_key (ts_prefix c) (t_id t)) v None])) (\<lambda>_.
          io_return t)) (\<lambda>_ _. True)"
    proof (cases "t_state t = Queued \<and> t_kind t = k \<and> t_target t = target \<and> t_depends_on t = deps \<and> to_vec J t = Some v")
      case True
      show ?thesis
      proof (cases "dedupe_key p k target (t_depends_on t)")
        case None
        show ?thesis unfolding assms None option.case
          by (rule triple_pre [OF plain [unfolded assms]]) (use True None in auto)
      next
        case (Some dk)
        show ?thesis unfolding assms Some option.case
          by (rule triple_pre [OF triple_enqueue_deduped]) (use True Some assms in auto)
      qed
    next
      case False
      then show ?thesis by (auto simp: triple_def)
    qed
  qed
qed

lemma triple_dependency_scan:
  assumes "stable P"
  shows "triple P (dependency_scan E J c waiting ds) (\<lambda>st w. P w \<and> (\<forall>d. st = DependencyFailed d \<longrightarrow> d \<in> set ds))"
proof (induction ds arbitrary: waiting)
  case Nil
  show ?case unfolding dependency_scan.simps by (rule triple_return) simp
next
  case (Cons d ds)
  have weak: "triple P (dependency_scan E J c x ds)
      (\<lambda>st w. P w \<and> (\<forall>y. st = DependencyFailed y \<longrightarrow> y \<in> set (d # ds)))" for x
    by (rule triple_post [OF Cons]) auto
  have g: "triple P (get_task E J c d) (\<lambda>_. P)" by (rule triple_post [OF triple_get_task [OF assms]]) simp
  show ?case
    unfolding dependency_scan.simps
    by (rule triple_bind [OF g]) (auto intro: weak [unfolded list.set insert_iff] triple_return split: option.split)
qed

lemma triple_fail_dependency:
  assumes "ts_prefix c = p" "t_depends_on t \<noteq> []"
  shows "triple (\<lambda>_. True) (fail_dependency E J c t d) (\<lambda>_ _. True)"
  unfolding fail_dependency_def assms(1)
proof (rule triple_bind [OF triple_encode], rule triple_bind [OF triple_plain(5)], intro stable_history,
    rule triple_bind [OF triple_encode], intro triple_etcd triple_txn stable_history)
  fix qv now v w
  assume h: "(True \<and> to_vec J t = Some qv) \<and> to_vec J (fail_dependency_record now t d) = Some v" "task_inv p J w"
    "list_all (holds (w_kv w)) [ValueEqual (task_key p (t_id t)) qv, VersionPositive (queue_key p (t_id t))]"
  note st = task_step.fail_dependency [OF _ _ assms(2) h(3)]
  show "\<exists>w2. own_step p J w w2 \<and> w_kv w2 = apply_ops (w_kv w)
      [TxnPut (task_key p (t_id t)) v None, TxnDelete (queue_key p (t_id t))] \<and> True"
    using h(1) by (intro exI conjI) (auto simp: own_step_def intro: st)
qed simp


text \<open>A claim that was handed out: its token was recorded for exactly this task.\<close>

definition issued :: "claim \<Rightarrow> world \<Rightarrow> bool" where
  "issued cl w \<longleftrightarrow> (cl_token cl, cl_task cl) \<in> w_claims w \<and> cl_key cl = claim_key p (t_id (cl_task cl)) \<and>
     cl_target_key cl = lock_of p (cl_task cl)"

lemma stable_issued [intro]: "stable (issued cl)"
  using others_history unfolding stable_def issued_def by blast

lemma claim_own:
  assumes "task_inv p J w" "token \<in> w_reserved w" "to_vec J t = Some qv" "to_vec J (started now t) = Some rv"
    and "list_all (holds (w_kv w)) (claim_compares p t qv)"
  shows "\<exists>w2. own_step p J w w2 \<and> w_kv w2 = apply_ops (w_kv w) (claim_ops p t rv token l) \<and>
    (token, started now t) \<in> w_claims w2"
proof -
  have "token \<notin> fst ` w_claims w" using assms(1,2) by (auto simp: task_inv_def ghosts_ok_def)
  note st = task_step.claim [OF assms(3-5) this]
  show ?thesis by (intro exI conjI, unfold own_step_def, intro conjI, rule st) (simp_all add: assms(2) insert_absorb)
qed

lemma triple_revoke_lease: "triple (\<lambda>_. X) (revoke_lease E l) (\<lambda>_ _. X)"
  unfolding revoke_lease_def by (intro triple_etcd triple_revoke stable_history) simp

lemma triple_claim_task:
  assumes "ts_prefix c = p"
  shows "triple (\<lambda>_. True) (claim_task E J c t) (\<lambda>r w. \<forall>cl. r = Some cl \<longrightarrow> issued cl w)"
  unfolding claim_task_def Let_def assms
proof (rule triple_bind [OF triple_uuid [OF stable_history(1)]], simp)
  fix token
  let ?Q = "\<lambda>r w. \<forall>cl. r = Some cl \<longrightarrow> issued cl w"
  have fin: "triple (\<lambda>w. claimed \<longrightarrow> (token, started now t) \<in> w_claims w)
     (if claimed
      then io_bind (start_keepalive E l) (\<lambda>_. io_return (Some
             \<lparr>cl_task = started now t, cl_token = token, cl_lease = l, cl_key = claim_key p (t_id t),
              cl_target_key = lock_of p t\<rparr>))
      else io_bind (revoke_lease E l) (\<lambda>_. io_return None)) ?Q" for claimed now l
  proof (cases claimed)
    case True
    have "triple (\<lambda>w. (token, started now t) \<in> w_claims w) (start_keepalive E l) (\<lambda>_ w. (token, started now t) \<in> w_claims w)"
      unfolding start_keepalive_def by (intro triple_etcd triple_plain stable_history)
    then show ?thesis using True by (auto intro!: triple_bind triple_return simp: issued_def)
  next
    case False
    then show ?thesis
      using triple_bind [OF triple_revoke_lease [of True l], of "\<lambda>_. io_return None" ?Q] triple_return [of "\<lambda>_. True" ?Q None]
      by simp
  qed
  have txn: "triple (\<lambda>w. ((token \<in> w_reserved w \<and> to_vec J t = Some qv) \<and> to_vec J (started now t) = Some rv))
      (etcd ''claim task'' (etcd_txn E (claim_compares p t qv) (claim_ops p t rv token l)))
      (\<lambda>ok w. ok \<longrightarrow> (token, started now t) \<in> w_claims w)" for qv now rv l
    by (intro triple_etcd triple_txn stable_history) (use claim_own [of _ token t qv now rv l] in auto)
  have gl: "triple (\<lambda>w. token \<in> w_reserved w) (grant_lease E c) (\<lambda>_ w. token \<in> w_reserved w)"
    unfolding grant_lease_def by (intro triple_etcd triple_plain stable_history)
  show "triple (\<lambda>w. True \<and> token \<in> w_reserved w)
     (io_bind (grant_lease E c) (\<lambda>l.
      io_bind (io_result (encode_task J t)) (\<lambda>queued_value.
      io_bind (now_ms E) (\<lambda>now.
      io_bind (io_result (encode_task J (started now t))) (\<lambda>running_value.
      io_bind (etcd ''claim task'' (etcd_txn E (claim_compares p t queued_value)
          (claim_ops p t running_value token l))) (\<lambda>claimed.
      if claimed
      then io_bind (start_keepalive E l) (\<lambda>_. io_return (Some
             \<lparr>cl_task = started now t, cl_token = token, cl_lease = l, cl_key = claim_key p (t_id t),
              cl_target_key = lock_of p t\<rparr>))
      else io_bind (revoke_lease E l) (\<lambda>_. io_return None))))))) ?Q"
    unfolding simp_thms
    by (rule triple_bind [OF gl], rule triple_bind [OF triple_encode], rule triple_bind [OF triple_plain(5)],
        intro stable_history, rule triple_bind [OF triple_encode], rule triple_bind [OF txn], rule fin)
qed

abbreviation claimed_ok :: "claim option \<times> bool \<Rightarrow> world \<Rightarrow> bool" where
  "claimed_ok r w \<equiv> (\<forall>cl. fst r = Some cl \<longrightarrow> issued cl w)"

lemma triple_claim_first:
  assumes "ts_prefix c = p"
  shows "triple (\<lambda>_. True) (claim_first E J c failed ts) claimed_ok"
proof (induction ts arbitrary: failed)
  case Nil
  show ?case unfolding claim_first.simps by (rule triple_return) simp
next
  case (Cons t ts)
  have dep: "triple (\<lambda>_. True) (dependency_status E J c t)
      (\<lambda>st w. \<forall>d. st = DependencyFailed d \<longrightarrow> t_depends_on t \<noteq> [])"
    unfolding dependency_status_def by (rule triple_post [OF triple_dependency_scan]) auto
  show ?case
    unfolding claim_first.simps
  proof (rule triple_bind [OF dep])
    fix st
    show "triple (\<lambda>w. \<forall>d. st = DependencyFailed d \<longrightarrow> t_depends_on t \<noteq> [])
      (case st of Waiting \<Rightarrow> claim_first E J c failed ts
       | DependencyFailed d \<Rightarrow> io_bind (fail_dependency E J c t d) (\<lambda>b. claim_first E J c (failed \<or> b) ts)
       | Ready \<Rightarrow> io_bind (claim_task E J c t) (\<lambda>r.
             case r of Some cl \<Rightarrow> io_return (Some cl, failed) | None \<Rightarrow> claim_first E J c failed ts)) claimed_ok"
    proof (cases st)
      case Ready
      have "triple (\<lambda>_. True) (io_bind (claim_task E J c t) (\<lambda>r.
          case r of Some cl \<Rightarrow> io_return (Some cl, failed) | None \<Rightarrow> claim_first E J c failed ts)) claimed_ok"
        by (rule triple_bind [OF triple_claim_task [OF assms]])
          (auto intro: triple_return Cons split: option.split)
      then show ?thesis using Ready by simp
    next
      case Waiting
      then show ?thesis using Cons by simp
    next
      case (DependencyFailed d)
      show ?thesis
      proof (cases "t_depends_on t = []")
        case True
        then show ?thesis using DependencyFailed by (simp add: triple_def)
      next
        case False
        then show ?thesis
          using DependencyFailed triple_bind [OF triple_fail_dependency [OF assms False] Cons] by simp
      qed
    qed
  qed
qed

lemma triple_claim_pages:
  assumes "ts_prefix c = p"
  shows "triple (\<lambda>_. True) (claim_pages E J c n start failed) claimed_ok"
proof (induction n arbitrary: start failed)
  case 0
  show ?case unfolding claim_pages.simps by (rule triple_error)
next
  case (Suc n)
  have dec: "triple (\<lambda>_. True) (io_result (decode_all J kvs)) (\<lambda>_ _. True)" for kvs by (rule triple_result) simp
  have cont: "triple (claimed_ok (cl, failed'))
     (case cl of Some x \<Rightarrow> io_return (Some x, failed')
      | None \<Rightarrow> if \<not> more \<or> kvs = [] then io_return (None, failed')
               else claim_pages E J c n (fst (last kvs) @ [char_of (0::nat)]) failed') claimed_ok"
    for cl failed' more and kvs :: "(string \<times> string) list"
    by (cases cl) (auto intro: triple_return triple_pre [OF Suc])
  have rg: "triple (\<lambda>_. True) (etcd ''list queued tasks'' (etcd_range E start
      (prefix_range_end (queue_prefix (ts_prefix c))) TASK_POLL_BATCH)) (\<lambda>_ _. True)"
    by (intro triple_etcd triple_plain stable_history)
  show ?case
    unfolding claim_pages.simps
    by (rule triple_bind [OF rg], unfold case_prod_beta, rule triple_bind [OF dec],
        rule triple_bind [OF triple_claim_first [OF assms]], rule triple_pre [OF cont]) simp
qed


lemma triple_list_tasks:
  assumes "ts_prefix c = p"
  shows "triple (\<lambda>_. True) (list_tasks E J c) (\<lambda>tasks w. \<forall>t \<in> set tasks. is_finished t \<longrightarrow> t_id t \<in> w_finished w)"
  unfolding list_tasks_def assms
proof (rule triple_bind [OF triple_etcd [OF triple_prefix [OF stable_history(1)]]], rule triple_result, intro ballI impI)
  fix kvs tasks w t
  assume a: "True \<and> task_inv p J w \<and> (\<forall>(x, v) \<in> set kvs. (\<exists>y. x = tasks_prefix p @ y) \<and> map_option fst (w_kv w x) = Some v)"
    and d: "decode_all J kvs = Ok tasks" and t: "t \<in> set tasks" "is_finished t"
  obtain x v where xv: "(x, v) \<in> set kvs" "from_slice J v = Some t"
    using collect_res_mem [OF d [unfolded decode_all_def] t(1)] by (auto simp: decode_task_def)
  then obtain i l where i: "w_kv w (task_key p i) = Some (v, l)"
    using a by (auto simp: task_key_def)
  have ok: "slot_ok p J w i" using a by (simp add: task_inv_def)
  obtain t' where t': "to_vec J t' = Some v" using ok i by (auto simp: slot_ok_def)
  then have "t' = t" using xv(2) serde_ok by (simp add: serde_ok_def)
  then have s: "t_id t = i" "state_slot p w i v t (t_state t)" using slot_stored(3,5) [OF ok i t'] by simp_all
  then show "t_id t \<in> w_finished w" using t(2) by (cases "t_state t") (simp_all add: is_finished_def)
qed

lemma prunable_finished:
  "i \<in> set (prunable_terminal_ids tasks n cutoff) \<Longrightarrow> \<exists>t \<in> set tasks. is_finished t \<and> t_id t = i"
  by (auto simp: prunable_terminal_ids_def Let_def enumerate_eq_zip dest!: set_zip_rightD)

lemma chunks_concat: "concat (chunks n xs) = xs"
  by (induction n xs rule: chunks.induct) (simp_all add: append_take_drop_id)

lemma triple_delete_many:
  assumes "ts_prefix c = p" "set ids \<subseteq> S"
  shows "triple (\<lambda>w. S \<subseteq> w_finished w) (delete_many E c ids) (\<lambda>_ _. True)"
proof -
  have st: "stable (\<lambda>w. S \<subseteq> w_finished w)" using others_history unfolding stable_def by blast
  have one: "triple (\<lambda>w. S \<subseteq> w_finished w) (io_bind (etcd ''prune task history'' (etcd_txn E []
      (map (\<lambda>i. TxnDelete (task_key (ts_prefix c) i)) chunk))) (\<lambda>_. io_return ())) (\<lambda>_ w. S \<subseteq> w_finished w)"
    if h: "set chunk \<subseteq> S" for chunk
    unfolding assms(1)
  proof (rule triple_bind [where Q = "\<lambda>_ w. S \<subseteq> w_finished w"], intro triple_etcd triple_txn st)
    fix w :: world assume f: "S \<subseteq> w_finished w"
    then have "set chunk \<subseteq> w_finished w" using h by blast
    note ps = task_step.prune [OF this, of p J]
    show "\<exists>w2. own_step p J w w2 \<and> w_kv w2 = apply_ops (w_kv w) (map (\<lambda>i. TxnDelete (task_key p i)) chunk) \<and> S \<subseteq> w_finished w2"
      by (intro exI conjI, unfold own_step_def, intro conjI, rule ps) (use f in simp_all)
  qed (simp_all add: triple_return)
  have "triple (\<lambda>w. S \<subseteq> w_finished w) (io_for (\<lambda>chunk. io_bind (etcd ''prune task history'' (etcd_txn E []
      (map (\<lambda>i. TxnDelete (task_key (ts_prefix c) i)) chunk))) (\<lambda>_. io_return ())) cs) (\<lambda>_ w. S \<subseteq> w_finished w)"
    if "set (concat cs) \<subseteq> S" for cs
    using that
  proof (induction cs)
    case (Cons x cs)
    from Cons.prems have "set x \<subseteq> S" "set (concat cs) \<subseteq> S" by auto
    then show ?case unfolding io_for.simps by (intro triple_bind [OF one Cons.IH])
  next
    case Nil
    show ?case unfolding io_for.simps by (rule triple_return)
  qed
  then show ?thesis unfolding delete_many_def using assms(2) chunks_concat by (metis (no_types, lifting) triple_post)
qed

lemma triple_prune:
  assumes "ts_prefix c = p"
  shows "triple (\<lambda>_. True) (prune_terminal_history E J c) (\<lambda>_ _. True)"
  unfolding prune_terminal_history_def Let_def
proof (rule triple_bind [OF triple_list_tasks [OF assms]])
  fix tasks
  let ?P = "\<lambda>w. \<forall>t \<in> set tasks. is_finished t \<longrightarrow> t_id t \<in> w_finished w"
  have st: "stable ?P" using others_history unfolding stable_def by blast
  have cut: "triple ?P (if 0 < ts_history_ttl_secs c
      then io_bind (now_ms E) (\<lambda>now. io_return (Some (wrap_i64 (now - wrap_i64 (wrap_i64 (ts_history_ttl_secs c) * 1000)))))
      else io_return None) (\<lambda>_. ?P)"
    using triple_plain(5) [OF st] by (auto intro: triple_return triple_bind)
  have del: "triple ?P (if ids = [] then io_return 0 else io_bind (delete_many E c ids) (\<lambda>_. io_return (length ids)))
      (\<lambda>_ _. True)" if ids: "ids = prunable_terminal_ids tasks (ts_history_limit c) cutoff" for ids cutoff
  proof (cases "ids = []")
    case False
    have "triple ?P (delete_many E c ids) (\<lambda>_ _. True)"
      by (rule triple_pre [OF triple_delete_many [OF assms subset_refl]]) (use prunable_finished ids in blast)
    then show ?thesis using False by (auto intro: triple_bind triple_return)
  qed (simp add: triple_return)
  show "triple ?P (io_bind (if 0 < ts_history_ttl_secs c
      then io_bind (now_ms E) (\<lambda>now. io_return (Some (wrap_i64 (now - wrap_i64 (wrap_i64 (ts_history_ttl_secs c) * 1000)))))
      else io_return None) (\<lambda>ttl_cutoff.
        if prunable_terminal_ids tasks (ts_history_limit c) ttl_cutoff = [] then io_return 0
        else io_bind (delete_many E c (prunable_terminal_ids tasks (ts_history_limit c) ttl_cutoff))
          (\<lambda>_. io_return (length (prunable_terminal_ids tasks (ts_history_limit c) ttl_cutoff))))) (\<lambda>_ _. True)"
    by (rule triple_bind [OF cut]) (rule del [OF refl])
qed


lemma triple_recover:
  assumes "ts_prefix c = p"
  shows "triple (\<lambda>_. True) (recover_orphaned E J c) (\<lambda>_ _. True)"
proof -
  have each: "triple (\<lambda>_. True) (recover_each E J c n ts) (\<lambda>_ _. True)" for n ts
  proof (induction ts arbitrary: n)
    case (Cons t ts)
    have "triple (\<lambda>w. (True \<and> to_vec J t = Some rv) \<and> to_vec J (requeue t) = Some v)
        (etcd ''recover orphaned task'' (etcd_txn E
          [ValueEqual (task_key p (t_id t)) rv, VersionZero (claim_key p (t_id t)), VersionPositive (running_key p (t_id t))]
          [TxnPut (task_key p (t_id t)) v None, TxnPut (queue_key p (t_id t)) v None, TxnDelete (running_key p (t_id t))]))
        (\<lambda>_ _. True)" for rv v
    proof (intro triple_etcd triple_txn stable_history)
      fix w :: world
      assume h: "(True \<and> to_vec J t = Some rv) \<and> to_vec J (requeue t) = Some v"
        "list_all (holds (w_kv w)) [ValueEqual (task_key p (t_id t)) rv, VersionZero (claim_key p (t_id t)),
           VersionPositive (running_key p (t_id t))]"
      note st = task_step.recover [OF _ _ h(2), of J v]
      show "\<exists>w2. own_step p J w w2 \<and> w_kv w2 = apply_ops (w_kv w) [TxnPut (task_key p (t_id t)) v None,
          TxnPut (queue_key p (t_id t)) v None, TxnDelete (running_key p (t_id t))] \<and> True"
        by (intro exI conjI, unfold own_step_def, intro conjI, rule st) (use h in simp_all)
    qed simp
    then show ?case
      unfolding recover_each.simps Let_def assms
      by (intro triple_bind [OF triple_encode] triple_bind [OF _ Cons]) blast
  next
    case Nil
    show ?case unfolding recover_each.simps by (rule triple_return) simp
  qed
  have rd: "triple (\<lambda>_. True) (etcd ''list running tasks'' (etcd_prefix E (running_prefix (ts_prefix c)))) (\<lambda>_ _. True)"
    by (rule triple_post [OF triple_etcd [OF triple_prefix [OF stable_history(1)]]]) simp
  have dec: "triple (\<lambda>_. True) (io_result (decode_all J kvs)) (\<lambda>_ _. True)" for kvs by (rule triple_result) simp
  show ?thesis unfolding recover_orphaned_def by (rule triple_bind [OF rd], rule triple_bind [OF dec], rule each)
qed

lemma triple_finish_inner:
  assumes "ts_prefix c = p"
  shows "triple (issued cl) (finish_inner E J c cl outcome) (\<lambda>_ _. True)"
  unfolding finish_inner_def Let_def assms
proof (rule triple_bind [OF triple_plain(5) [OF stable_issued]], rule triple_bind [OF triple_encode])
  fix now v
  let ?t = "apply_outcome now (cl_task cl) outcome"
  have "triple (\<lambda>w. issued cl w \<and> to_vec J ?t = Some v) (etcd ''complete task'' (etcd_txn E [ValueEqual (cl_key cl) (cl_token cl)]
      (finish_ops p ?t v (cl_key cl) (cl_target_key cl)))) (\<lambda>_ _. True)"
  proof (intro triple_etcd triple_txn stable_history stable_issued)
    fix w :: world
    assume h: "issued cl w \<and> to_vec J ?t = Some v" "list_all (holds (w_kv w)) [ValueEqual (cl_key cl) (cl_token cl)]"
    then have iss: "(cl_token cl, cl_task cl) \<in> w_claims w" "cl_key cl = claim_key p (t_id (cl_task cl))"
      "cl_target_key cl = lock_of p (cl_task cl)" by (simp_all add: issued_def)
    have "holds (w_kv w) (ValueEqual (claim_key p (t_id (cl_task cl))) (cl_token cl))" using h(2) iss(2) by simp
    note st = task_step.finish [OF iss(1) conjunct2 [OF h(1)] this]
    show "\<exists>w2. own_step p J w w2 \<and> w_kv w2 = apply_ops (w_kv w) (finish_ops p ?t v (cl_key cl) (cl_target_key cl)) \<and> True"
      unfolding iss(2,3) by (intro exI conjI, unfold own_step_def, intro conjI, rule st) simp_all
  qed simp
  then show "triple (\<lambda>w. issued cl w \<and> to_vec J ?t = Some v)
     (io_bind (etcd ''complete task'' (etcd_txn E [ValueEqual (cl_key cl) (cl_token cl)]
          (finish_ops p ?t v (cl_key cl) (cl_target_key cl)))) (\<lambda>completed.
      io_bind (revoke_lease E (cl_lease cl)) (\<lambda>_.
      if completed then io_return () else io_result (Err (LostClaim (t_id ?t)))))) (\<lambda>_ _. True)"
    by (rule triple_bind) (rule triple_bind [OF triple_revoke_lease], simp add: triple_return triple_error)
qed

lemma triple_claim_next:
  assumes "ts_prefix c = p"
  shows "triple (\<lambda>_. True) (claim_next E J c n) (\<lambda>r w. \<forall>cl. r = Some cl \<longrightarrow> issued cl w)"
proof -
  have prune: "triple (\<lambda>w. \<forall>cl. x = Some cl \<longrightarrow> issued cl w)
      (io_match (prune_terminal_history E J c) (\<lambda>_. io_return x) (\<lambda>_. io_return x))
      (\<lambda>r w. \<forall>cl. r = Some cl \<longrightarrow> issued cl w)" for x
  proof (rule tripleI)
    fix s w r s'
    assume h: "R s w" "task_inv p J w" "\<forall>cl. x = Some cl \<longrightarrow> issued cl w"
      "io_match (prune_terminal_history E J c) (\<lambda>_. io_return x) (\<lambda>_. io_return x) s = (r, s')"
    obtain r1 s1 where m: "prune_terminal_history E J c s = (r1, s1)" by (cases "prune_terminal_history E J c s")
    obtain w1 where w1: "steps w w1" "R s1 w1" using tripleD [OF triple_prune [OF assms] h(1,2) TrueI m] by blast
    have "r = Ok x" "s' = s1" using h(4) m by (cases r1; simp add: io_match_def io_return_def)+
    moreover have "w_claims w \<subseteq> w_claims w1"
      using w1(1) unfolding steps_def
    proof (induction rule: rtranclp_induct)
      case (step y z)
      then show ?case using step_history [of y z] by blast
    qed simp
    ultimately show "\<exists>w'. steps w w' \<and> R s' w' \<and> (\<forall>y. r = Ok y \<longrightarrow> (\<forall>cl. y = Some cl \<longrightarrow> issued cl w'))"
      using w1 h(3) by (auto simp: issued_def)
  qed
  have cn: "triple (\<lambda>_. True) (claim_next_inner E J c n) claimed_ok"
    unfolding claim_next_inner_def by (rule triple_claim_pages [OF assms])
  show ?thesis
    unfolding claim_next_def
  proof (rule triple_bind [OF triple_recover [OF assms]], rule triple_bind [OF cn])
    fix r
    show "triple (claimed_ok r) (case r of (cl, b) \<Rightarrow>
        if b then io_match (prune_terminal_history E J c) (\<lambda>_. io_return cl) (\<lambda>_. io_return cl) else io_return cl)
      (\<lambda>r w. \<forall>cl. r = Some cl \<longrightarrow> issued cl w)"
      using prune by (cases r) (auto intro: triple_return)
  qed
qed

lemma triple_finish:
  assumes "ts_prefix c = p"
  shows "triple (issued cl) (finish E J c cl outcome) (\<lambda>_ _. True)"
  unfolding finish_def
  by (rule triple_bind [OF triple_finish_inner [OF assms]], rule triple_bind [OF triple_prune [OF assms]], rule triple_return) simp

lemma triple_try_lock:
  assumes "ts_prefix c = p"
  shows "triple (\<lambda>_. True) (try_coordination_lock E c name) (\<lambda>_ _. True)"
proof -
  have gl: "triple (\<lambda>_. True) (grant_lease E c) (\<lambda>_ _. True)"
    unfolding grant_lease_def by (intro triple_etcd triple_plain stable_history)
  have gid: "triple (\<lambda>_. True) (generate_id E) (\<lambda>_ _. True)"
    by (rule triple_post [OF triple_uuid [OF stable_history(1)]]) simp_all
  have txn: "triple (\<lambda>_. True) (etcd ''acquire coordination lock'' (etcd_txn E [VersionZero (coordination_key p name)]
      [TxnPut (coordination_key p name) token (Some l)])) (\<lambda>_ _. True)" for token l
  proof (intro triple_etcd triple_txn stable_history)
    fix w :: world
    assume "list_all (holds (w_kv w)) [VersionZero (coordination_key p name)]"
    then have "w_kv w (coordination_key p name) = None" by simp
    note st = task_step.lock [OF this, of J token l]
    show "\<exists>w2. own_step p J w w2 \<and> w_kv w2 = apply_ops (w_kv w) [TxnPut (coordination_key p name) token (Some l)] \<and> True"
      by (intro exI conjI, unfold own_step_def, intro conjI, rule st) simp_all
  qed simp
  have ka: "triple (\<lambda>_. True) (start_keepalive E l) (\<lambda>_ _. True)" for l
    unfolding start_keepalive_def by (intro triple_etcd triple_plain stable_history)
  show ?thesis
    unfolding try_coordination_lock_def Let_def assms
    by (rule triple_bind [OF gl], rule triple_bind [OF gid], rule triple_bind [OF txn])
      (auto intro: triple_bind [OF triple_revoke_lease] triple_bind [OF ka] triple_return)
qed

lemma triple_release_lock:
  assumes "gd_key g = coordination_key p name"
  shows "triple (\<lambda>_. True) (release_coordination_lock E g) (\<lambda>_ _. True)"
proof -
  have "triple (\<lambda>_. True) (delete_owned_key E (gd_key g) (gd_token g)) (\<lambda>_ _. True)"
    unfolding delete_owned_key_def assms
  proof (rule triple_bind [where Q = "\<lambda>_ _. True"], intro triple_etcd triple_txn stable_history)
    fix w :: world
    note st = task_step.unlock [of p J w name]
    show "\<exists>w2. own_step p J w w2 \<and> w_kv w2 = apply_ops (w_kv w) [TxnDelete (coordination_key p name)] \<and> True"
      by (intro exI conjI, unfold own_step_def, intro conjI, rule st) simp_all
  qed (simp_all add: triple_return)
  then show ?thesis unfolding release_coordination_lock_def by (rule triple_bind) (rule triple_revoke_lease)
qed

end

end
