(* ===== verification/Task_Progress.thy ===== *)
theory Task_Progress
  imports Task_Handlers
begin

text \<open>
  Termination of the polling loop of \<open>claim_next\<close>. The loop pages through the queue index; other masters
  may keep adding to it, so it ends only while the queue is quiet: \<open>quiet_queue\<close> says that, as long as
  nobody enqueues, the range reads of the queue stay within a finite set of keys.
\<close>

section \<open>Byte order\<close>

lemma char_less_iff: "c < d \<longleftrightarrow> (of_char c :: nat) < of_char d"
  by (simp add: less_char_def)

lemma max_char_ge: "of_char c = (255 :: nat) \<Longrightarrow> d \<le> c" for c d :: char
  using nat_of_char_less_256 [of d] by (simp add: less_eq_char_def del: nat_of_char_less_256)

lemma le_prefix: "fs \<le> fs @ z" for fs z :: string
  by (induction fs) auto

lemma less_snoc: "k < k @ [c]" for k :: string
  by (induction k) auto

section \<open>The keys of a prefix\<close>

lemma all_max_prefix:
  "\<forall>c \<in> set fs. of_char c = (255 :: nat) \<Longrightarrow> fs \<le> r \<Longrightarrow> \<exists>z. r = fs @ z"
proof (induction fs arbitrary: r)
  case (Cons f fs)
  then obtain d r' where r: "r = d # r'" by (cases r) auto
  have "d \<le> f" using Cons.prems(1) max_char_ge [of f d] by simp
  then show ?case using Cons r by auto
qed simp


lemma range_end_shape:
  assumes "\<exists>c \<in> set p. of_char c \<noteq> (255 :: nat)"
  obtains q c fs where "p = q @ c # fs" "of_char c \<noteq> (255 :: nat)" "\<forall>f \<in> set fs. of_char f = (255 :: nat)"
    "prefix_range_end p = q @ [char_of (of_char c + 1 :: nat)]"
proof -
  obtain q c fs where s: "p = q @ c # fs" "of_char c \<noteq> (255 :: nat)" "\<forall>f \<in> set fs. of_char f = (255 :: nat)"
    using split_list_last_prop [OF assms] by blast
  have skip: "range_end_rev (replicate n 255 @ bs) = range_end_rev bs" for n bs by (induction n) simp_all
  have "rev (map of_char fs) = replicate (length fs) (255 :: nat)"
    using s(3) replicate_length_same [of "rev (map of_char fs)" "255 :: nat"] by auto
  have "range_end_rev (rev (map of_char p)) = map of_char q @ [of_char c + 1 :: nat]"
    using s(2) skip by (simp add: s(1) \<open>rev (map of_char fs) = _\<close>)
  then have "prefix_range_end p = q @ [char_of (of_char c + 1 :: nat)]"
    by (simp add: prefix_range_end_def comp_def)
  with s show ?thesis by (rule that)
qed

lemma prefix_range_mem:
  assumes "\<exists>c \<in> set p. of_char c \<noteq> (255 :: nat)"
  shows "(\<exists>z. k = p @ z) \<longleftrightarrow> p \<le> k \<and> k < prefix_range_end p"
proof -
  obtain q c fs where s: "p = q @ c # fs" "of_char c \<noteq> (255 :: nat)" "\<forall>f \<in> set fs. of_char f = (255 :: nat)"
    and e: "prefix_range_end p = q @ [char_of (of_char c + 1 :: nat)]" using range_end_shape [OF assms] by blast
  define d where "d = (char_of (of_char c + 1 :: nat) :: char)"
  have d: "(of_char d :: nat) = of_char c + 1"
    using s(2) nat_of_char_less_256 [of c] by (simp add: d_def del: nat_of_char_less_256)
  have "(\<exists>z. k = q @ c # fs @ z) \<longleftrightarrow> q @ c # fs \<le> k \<and> k < q @ [d]"
  proof (induction q arbitrary: k)
    case Nil
    show ?case
    proof (cases k)
      case (Cons x xs)
      have "c < d" by (simp add: char_less_iff d)
      moreover have "x < d \<longleftrightarrow> x < c \<or> x = c"
        by (auto simp: char_less_iff d less_Suc_eq of_char_eq_iff)
      ultimately show ?thesis
        using Cons all_max_prefix [OF s(3), of xs] le_prefix [of fs] by auto
    qed simp
  next
    case (Cons x q)
    then show ?case by (cases k) auto
  qed
  then show ?thesis using e unfolding s(1) d_def by simp
qed

section \<open>Polling a quiet queue\<close>

definition is_queue_key :: "string \<Rightarrow> string \<Rightarrow> bool" where
  "is_queue_key p k \<longleftrightarrow> (\<exists>i. k = queue_key p i)"

lemma other_keys:
  "\<not> is_queue_key p (task_key p i)" "\<not> is_queue_key p (running_key p i)" "\<not> is_queue_key p (claim_key p i)"
  "\<not> is_queue_key p (target_lock_key p i)"
  by (auto simp: is_queue_key_def)

locale quiet_queue =
  fixes E :: "'s etcd" and p :: string and K :: "string set" and I :: "'s \<Rightarrow> bool"
  assumes finite_keys: "finite K"
    and quiet_get: "I s \<Longrightarrow> I (snd (etcd_get E k s))"
    and quiet_range: "I s \<Longrightarrow> I (snd (etcd_range E a b n s))"
    and quiet_grant: "I s \<Longrightarrow> I (snd (lease_grant E ttl s))"
    and quiet_revoke: "I s \<Longrightarrow> I (snd (lease_revoke E l s))"
    and quiet_keep: "I s \<Longrightarrow> I (snd (lease_keep_alive E l s))"
    and quiet_uuid: "I s \<Longrightarrow> I (snd (fresh_uuid E s))"
    and quiet_clock: "I s \<Longrightarrow> I (snd (clock_ms E s))"
    and quiet_txn: "I s \<Longrightarrow> (\<And>k v l. TxnPut k v l \<in> set ops \<Longrightarrow> \<not> is_queue_key p k) \<Longrightarrow> I (snd (etcd_txn E cs ops s))"
    and range_keys: "I s \<Longrightarrow> queue_prefix p \<le> a \<Longrightarrow>
      etcd_range E a (prefix_range_end (queue_prefix p)) n s = (Ok (kvs, further), s') \<Longrightarrow> kv \<in> set kvs \<Longrightarrow>
      a \<le> fst kv \<and> fst kv \<in> K"
begin

text \<open>A call that keeps the queue quiet and does not give up for want of fuel.\<close>

definition calm :: "('s, 'a) task_io \<Rightarrow> bool" where
  "calm m \<longleftrightarrow> (\<forall>s r s'. I s \<and> m s = (r, s') \<longrightarrow> I s' \<and> r \<noteq> Err PollBound)"

lemma calm_bind: "calm m \<Longrightarrow> (\<And>x. calm (f x)) \<Longrightarrow> calm (io_bind m f)"
proof -
  assume m: "calm m" and f: "\<And>x. calm (f x)"
  have "I s' \<and> r \<noteq> Err PollBound" if "I s" "io_bind m f s = (r, s')" for s r s'
  proof (cases "m s")
    case (Pair r1 s1)
    then have "I s1 \<and> r1 \<noteq> Err PollBound" using m that(1) by (auto simp: calm_def)
    then show ?thesis using Pair that(2) f unfolding calm_def by (cases r1) (auto simp: io_bind_def)
  qed
  then show ?thesis by (auto simp: calm_def)
qed

lemma calm_return: "calm (io_return x)"
  by (simp add: calm_def io_return_def)

lemma calm_result: "r \<noteq> Err PollBound \<Longrightarrow> calm (io_result r)"
  by (auto simp: calm_def io_result_def)

lemma calm_etcd: "(\<And>s. I s \<Longrightarrow> I (snd (m s))) \<Longrightarrow> calm (etcd a m)"
  unfolding calm_def etcd_def io_match_def io_return_def io_result_def
  by (auto split: prod.splits sum.splits) (metis snd_conv)+

lemma calm_draws: "calm (generate_id E)" "calm (now_ms E)"
  using quiet_uuid quiet_clock by (auto simp: calm_def generate_id_def now_ms_def split: prod.splits) (metis snd_conv)+

lemma calm_encode: "calm (io_result (encode_task J t))"
  by (rule calm_result) (simp add: encode_task_def ok_or_def split: option.split)

lemma decode_not_bound: "decode_task J v k \<noteq> Err PollBound"
  by (simp add: decode_task_def ok_or_def split: option.split)

lemma decode_all_not_bound: "decode_all J kvs \<noteq> Err PollBound"
  unfolding decode_all_def
proof (induction kvs)
  case (Cons kv kvs)
  then show ?case using decode_not_bound by (auto simp: res_bind_Err_iff split: prod.splits)
qed simp

lemma calm_get_task: "calm (get_task E J c i)"
  unfolding get_task_def
  by (intro calm_bind calm_etcd quiet_get calm_result)
    (auto simp: res_bind_Err_iff decode_not_bound split: option.splits)

lemma calm_leases: "calm (grant_lease E c)" "calm (revoke_lease E l)" "calm (start_keepalive E l)"
  unfolding grant_lease_def revoke_lease_def start_keepalive_def
  by (intro calm_etcd quiet_grant quiet_revoke quiet_keep; assumption)+

lemma calm_txn: "(\<And>k v l. TxnPut k v l \<in> set ops \<Longrightarrow> \<not> is_queue_key p k) \<Longrightarrow> calm (etcd a (etcd_txn E cs ops))"
  by (intro calm_etcd quiet_txn)

lemma calm_dependency: "calm (dependency_scan E J c w ds)"
proof (induction ds arbitrary: w)
  case (Cons d ds)
  then show ?case by (auto intro!: calm_bind calm_get_task calm_return split: option.split)
qed (simp add: calm_return)

lemma calm_fail_dependency: "ts_prefix c = p \<Longrightarrow> calm (fail_dependency E J c t d)"
  unfolding fail_dependency_def
  by (intro calm_bind calm_encode calm_draws calm_txn) (auto simp: other_keys)

lemma calm_claim_task: "ts_prefix c = p \<Longrightarrow> calm (claim_task E J c t)"
  unfolding claim_task_def Let_def
  by (intro calm_bind calm_encode calm_draws calm_leases calm_txn)
    (auto simp: other_keys claim_ops_def lock_of_def intro!: calm_bind calm_leases calm_return split: option.splits if_splits)

lemma calm_claim_first: "ts_prefix c = p \<Longrightarrow> calm (claim_first E J c f ts)"
proof (induction ts arbitrary: f)
  case (Cons t ts)
  then show ?case
    unfolding claim_first.simps dependency_status_def
    by (auto intro!: calm_bind calm_dependency calm_fail_dependency calm_claim_task calm_return
        split: dependency_status.split option.split)
qed (simp add: calm_return)

lemma quiet_bind:
  assumes "io_bind m f s = (r, s')" "I s" "calm m"
    and "\<And>x s1. m s = (Ok x, s1) \<Longrightarrow> I s1 \<Longrightarrow> f x s1 = (r, s') \<Longrightarrow> I s' \<and> r \<noteq> Err PollBound"
  shows "I s' \<and> r \<noteq> Err PollBound"
proof (cases "m s")
  case (Pair r1 s1)
  then have "I s1" "r1 \<noteq> Err PollBound" using assms(2,3) by (auto simp: calm_def)
  then show ?thesis using Pair assms(1,4) by (cases r1) (auto simp: io_bind_def)
qed

lemma etcd_OkD: "etcd a m s = (Ok x, s') \<Longrightarrow> m s = (Ok x, s')"
  by (auto simp: etcd_def io_match_def io_return_def io_result_def split: prod.splits sum.splits)

text \<open>Each further page starts after a key that is never seen again.\<close>

lemma next_page_shrinks:
  assumes "k \<in> K" "start \<le> k"
  shows "card {x \<in> K. k @ [char_of (0 :: nat)] \<le> x} < card {x \<in> K. start \<le> x}"
proof (rule psubset_card_mono)
  have "k < k @ [char_of (0 :: nat)]" by (rule less_snoc)
  then show "{x \<in> K. k @ [char_of (0 :: nat)] \<le> x} \<subset> {x \<in> K. start \<le> x}"
    using assms by (auto simp: psubset_eq) (metis (lifting) leD le_less_trans less_imp_le mem_Collect_eq order_refl)
qed (simp add: finite_keys)

lemma claim_pages_quiet:
  assumes "ts_prefix c = p" "queue_prefix p \<le> start" "card {k \<in> K. start \<le> k} < n" "I s"
    "claim_pages E J c n start f s = (r, s')"
  shows "I s' \<and> r \<noteq> Err PollBound"
  using assms(2-5)
proof (induction n arbitrary: start f s)
  case (Suc n)
  from Suc.prems(4,3) show ?case unfolding claim_pages.simps
  proof (rule quiet_bind)
    show "calm (etcd ''list queued tasks'' (etcd_range E start (prefix_range_end (queue_prefix (ts_prefix c))) TASK_POLL_BATCH))"
      by (intro calm_etcd quiet_range)
    fix page s1
    assume page: "etcd ''list queued tasks'' (etcd_range E start (prefix_range_end (queue_prefix (ts_prefix c))) TASK_POLL_BATCH) s = (Ok page, s1)"
      and s1: "I s1" and rest: "(case page of (kvs, further) \<Rightarrow> io_bind (io_result (decode_all J kvs)) (\<lambda>queued.
        io_bind (claim_first E J c f queued) (\<lambda>(cl, failed'). case cl of Some x \<Rightarrow> io_return (Some x, failed')
          | None \<Rightarrow> if \<not> further \<or> kvs = [] then io_return (None, failed')
            else claim_pages E J c n (fst (last kvs) @ [char_of (0 :: nat)]) failed'))) s1 = (r, s')"
    obtain kvs further where kvs: "page = (kvs, further)" by (cases page)
    have seen: "start \<le> fst (last kvs)" "fst (last kvs) \<in> K" if "kvs \<noteq> []"
      using range_keys [OF Suc.prems(3,1)] etcd_OkD [OF page] last_in_set [OF that] assms(1) kvs by blast+
    have "I s' \<and> r \<noteq> Err PollBound" if "kvs \<noteq> []" "I s2"
      "claim_pages E J c n (fst (last kvs) @ [char_of (0 :: nat)]) f' s2 = (r, s')" for f' s2
    proof (rule Suc.IH [OF _ _ that(2,3)])
      show "queue_prefix p \<le> fst (last kvs) @ [char_of (0 :: nat)]"
        using Suc.prems(1) seen(1) [OF that(1)] le_prefix [of "fst (last kvs)"] by (meson order_trans)
      show "card {k \<in> K. fst (last kvs) @ [char_of (0 :: nat)] \<le> k} < n"
        using next_page_shrinks [OF seen(2,1) [OF that(1)]] Suc.prems(2) by simp
    qed
    then have page_done: "I s' \<and> r \<noteq> Err PollBound" if "I s2" "(case x of (cl, failed') \<Rightarrow> case cl of Some x \<Rightarrow> io_return (Some x, failed')
          | None \<Rightarrow> if \<not> further \<or> kvs = [] then io_return (None, failed')
            else claim_pages E J c n (fst (last kvs) @ [char_of (0 :: nat)]) failed') s2 = (r, s')" for x s2
      using that by (auto split: prod.splits option.splits if_splits)
    show "I s' \<and> r \<noteq> Err PollBound"
    proof (rule quiet_bind [OF rest [unfolded kvs prod.case] s1 calm_result [OF decode_all_not_bound]])
      fix queued s2
      assume "I s2" and first: "io_bind (claim_first E J c f queued) (\<lambda>(cl, failed'). case cl of Some x \<Rightarrow> io_return (Some x, failed')
          | None \<Rightarrow> if \<not> further \<or> kvs = [] then io_return (None, failed')
            else claim_pages E J c n (fst (last kvs) @ [char_of (0 :: nat)]) failed') s2 = (r, s')"
      from first \<open>I s2\<close> calm_claim_first [OF assms(1)] show ?thesis by (rule quiet_bind) (rule page_done)
    qed
  qed
qed simp

end

end
