(* ===== verification/Task_Lifecycle.thy ===== *)
theory Task_Lifecycle
  imports Task_Safety
begin

text \<open>
  What the task store promises a caller, without keys, leases or transactions: a map from task ids to
  records in which one record at a time moves along its life cycle. Every transaction of the store,
  seen through its task records, is a step of this specification or leaves it alone.
\<close>

section \<open>The abstract queue\<close>

type_synonym task_table = "string \<rightharpoonup> task"

inductive lifecycle :: "task_table \<Rightarrow> task_table \<Rightarrow> bool" where
  submit:
    "m (t_id t) = None \<Longrightarrow> t_state t = Queued \<Longrightarrow>
     (\<And>j u. t_depends_on t = [] \<Longrightarrow> m j = Some u \<Longrightarrow> is_live u \<Longrightarrow> t_depends_on u = [] \<Longrightarrow>
        t_kind u = t_kind t \<Longrightarrow> t_target u \<noteq> t_target t) \<Longrightarrow>
     lifecycle m (m(t_id t \<mapsto> t))"
| start: "m i = Some t \<Longrightarrow> t_state t = Queued \<Longrightarrow> lifecycle m (m(i \<mapsto> started now t))"
| complete: "m i = Some t \<Longrightarrow> t_state t = TaskRunning \<Longrightarrow> lifecycle m (m(i \<mapsto> apply_outcome now t out))"
| retry: "m i = Some t \<Longrightarrow> t_state t = TaskRunning \<Longrightarrow> lifecycle m (m(i \<mapsto> requeue t))"
| refuse:
    "m i = Some t \<Longrightarrow> t_state t = Queued \<Longrightarrow> t_depends_on t \<noteq> [] \<Longrightarrow>
     lifecycle m (m(i \<mapsto> fail_dependency_record now t d))"
| forget: "(\<And>i t. i \<in> gone \<Longrightarrow> m i = Some t \<Longrightarrow> is_finished t) \<Longrightarrow> lifecycle m (m |` (- gone))"
| idle: "lifecycle m m"

inductive_cases lifecycleE: "lifecycle m m'"

definition task_table :: "string \<Rightarrow> serde \<Rightarrow> world \<Rightarrow> task_table" where
  "task_table p J w = (\<lambda>i. case w_kv w (task_key p i) of Some (v, _) \<Rightarrow> from_slice J v | None \<Rightarrow> None)"

section \<open>The abstract queue's own guarantees\<close>

text \<open>A record changes only by moving on; a finished one only disappears.\<close>

fun may_follow :: "task_state \<Rightarrow> task_state \<Rightarrow> bool" where
  "may_follow Queued s = (s \<noteq> Done)"
| "may_follow TaskRunning s = True"
| "may_follow Done s = (s = Done)"
| "may_follow TaskFailed s = (s = TaskFailed)"

lemma lifecycle_moves_on:
  assumes "lifecycle m m'" "m i = Some t"
  shows "m' i = None \<and> is_finished t \<or> (\<exists>t'. m' i = Some t' \<and> may_follow (t_state t) (t_state t'))"
proof -
  have refl: "may_follow s s" for s by (cases s) simp_all
  from assms show ?thesis
    by (induction rule: lifecycle.induct)
      (auto simp: refl restrict_map_def fail_dependency_record_def apply_outcome_def)
qed

section \<open>Simulation\<close>

context serde_laws
begin

lemma table_at:
  "w_kv w (task_key p i) = Some (v, l) \<Longrightarrow> to_vec J t = Some v \<Longrightarrow> task_table p J w i = Some t"
  using serde_ok by (simp add: task_table_def serde_ok_def)

lemma table_upd:
  assumes "\<And>j. w_kv w' (task_key p j) = (if j = i then Some (v, None) else w_kv w (task_key p j))" "to_vec J t = Some v"
  shows "task_table p J w' = (task_table p J w)(i \<mapsto> t)"
  using assms serde_ok by (auto simp: task_table_def serde_ok_def fun_eq_iff)

lemma table_same:
  assumes "\<And>j. w_kv w' (task_key p j) = w_kv w (task_key p j)"
  shows "task_table p J w' = task_table p J w"
  using assms by (simp add: task_table_def)

lemma table_stored: "task_inv p J w \<Longrightarrow> task_table p J w i = Some t \<Longrightarrow> stored p J w i t"
  using serde_ok by (fastforce simp: task_inv_def slot_ok_def task_table_def stored_def serde_ok_def split: option.splits)

lemma submit_free:
  assumes "task_inv p J w" "w_kv w dk = None" "dedupe_key p k tgt [] = Some dk" "task_table p J w j = Some u"
    "is_live u" "t_depends_on u = []" "t_kind u = k"
  shows "t_target u \<noteq> tgt"
proof
  assume "t_target u = tgt"
  then have "live_at p J w j k tgt" using table_stored [OF assms(1,4)] assms(5-7) by (auto simp: live_at_def)
  moreover have "w_kv w dk = Some (j, None) \<longleftrightarrow> live_at p J w j k tgt"
    using assms(1,3) by (simp add: task_inv_def dedupe_ok_def)
  ultimately show False using assms(2) by simp
qed

lemma record_at:
  assumes "task_inv p J w" "holds (w_kv w) (ValueEqual (task_key p (t_id t)) v)" "to_vec J t = Some v"
  shows "task_table p J w (t_id t) = Some t" "state_slot p w (t_id t) v t (t_state t)"
proof -
  obtain l where l: "w_kv w (task_key p (t_id t)) = Some (v, l)" using assms(2) by auto
  have ok: "slot_ok p J w (t_id t)" using assms(1) by (simp add: task_inv_def)
  show "task_table p J w (t_id t) = Some t" by (rule table_at [OF l assms(3)])
  show "state_slot p w (t_id t) v t (t_state t)" by (rule slot_stored(5) [OF ok l assms(3)])
qed

lemma enqueue_refines:
  assumes "task_inv p J w" "t_id t \<notin> w_created w" "t_state t = Queued" "to_vec J t = Some v"
    and "\<forall>k. dedupe_key p (t_kind t) (t_target t) (t_depends_on t) = Some k \<longrightarrow> w_kv w k = None"
    and w': "w_kv w' = apply_ops (w_kv w) (enqueue_ops p t v)"
  shows "lifecycle (task_table p J w) (task_table p J w')"
proof -
  have "w_kv w' (task_key p j) = (if j = t_id t then Some (v, None) else w_kv w (task_key p j))" for j
    by (auto simp: w' enqueue_ops_def split: option.split dest: dedupe_disjoint(1))
  then have upd: "task_table p J w' = (task_table p J w)(t_id t \<mapsto> t)" by (rule table_upd [OF _ assms(4)])
  have "w_kv w (task_key p (t_id t)) = None"
    using assms(1,2) by (auto simp: task_inv_def slot_ok_def split: option.splits) (metis option.exhaust surj_pair)
  then have none: "task_table p J w (t_id t) = None" by (simp add: task_table_def)
  show ?thesis unfolding upd
  proof (rule lifecycle.submit [where m = "task_table p J w", OF none assms(3)])
    fix j u assume "t_depends_on t = []" "task_table p J w j = Some u" "is_live u" "t_depends_on u = []" "t_kind u = t_kind t"
    moreover obtain dk where "dedupe_key p (t_kind t) (t_target t) [] = Some dk" by (simp add: dedupe_key_Some)
    ultimately show "t_target u \<noteq> t_target t" using submit_free [OF assms(1), of dk] assms(5) by metis
  qed
qed

lemma claim_refines:
  assumes "task_inv p J w" "to_vec J t = Some qv" "to_vec J (started now t) = Some rv"
    and "list_all (holds (w_kv w)) (claim_compares p t qv)"
    and w': "w_kv w' = apply_ops (w_kv w) (claim_ops p t rv token l)"
  shows "lifecycle (task_table p J w) (task_table p J w')"
proof -
  have h: "holds (w_kv w) (ValueEqual (task_key p (t_id t)) qv)" "w_kv w (queue_key p (t_id t)) \<noteq> None"
    using assms(4) by (auto simp: claim_compares_def simp del: holds_Value)
  note r = record_at [OF assms(1) h(1) assms(2)]
  have q: "t_state t = Queued" using r(2) h(2) by (cases "t_state t") (simp_all add: running_slot_def idle_slot_def)
  have "w_kv w' (task_key p j) = (if j = t_id t then Some (rv, None) else w_kv w (task_key p j))" for j
    by (auto simp: w' claim_ops_def lock_of_def)
  then have "task_table p J w' = (task_table p J w)(t_id t \<mapsto> started now t)" by (rule table_upd [OF _ assms(3)])
  then show ?thesis using lifecycle.start [of "task_table p J w", OF r(1) q] by simp
qed

lemma finish_refines:
  assumes "task_inv p J w" "(token, t) \<in> w_claims w" "to_vec J (apply_outcome now t out) = Some v"
    and "holds (w_kv w) (ValueEqual (claim_key p (t_id t)) token)"
    and w': "w_kv w' = apply_ops (w_kv w) (finish_ops p (apply_outcome now t out) v (claim_key p (t_id t)) (lock_of p t))"
  shows "lifecycle (task_table p J w) (task_table p J w')"
proof -
  obtain l where cl: "w_kv w (claim_key p (t_id t)) = Some (token, l)" using assms(4) by auto
  obtain v0 where s: "w_kv w (task_key p (t_id t)) = Some (v0, None)" "to_vec J t = Some v0" "t_state t = TaskRunning"
    using claimed_slot [OF assms(1,2) cl] by metis
  have "w_kv w' (task_key p j) = (if j = t_id t then Some (v, None) else w_kv w (task_key p j))" for j
    by (auto simp: w' finish_ops_def lock_of_def split: option.split dest: dedupe_disjoint(1))
  then have "task_table p J w' = (task_table p J w)(t_id t \<mapsto> apply_outcome now t out)" by (rule table_upd [OF _ assms(3)])
  then show ?thesis using lifecycle.complete [of "task_table p J w", OF table_at [OF s(1,2)] s(3)] by simp
qed

lemma recover_refines:
  assumes "task_inv p J w" "to_vec J t = Some rv" "to_vec J (requeue t) = Some v"
    and "list_all (holds (w_kv w)) [ValueEqual (task_key p (t_id t)) rv, VersionZero (claim_key p (t_id t)),
      VersionPositive (running_key p (t_id t))]"
    and w': "w_kv w' = apply_ops (w_kv w) [TxnPut (task_key p (t_id t)) v None,
      TxnPut (queue_key p (t_id t)) v None, TxnDelete (running_key p (t_id t))]"
  shows "lifecycle (task_table p J w) (task_table p J w')"
proof -
  have h: "holds (w_kv w) (ValueEqual (task_key p (t_id t)) rv)" "w_kv w (running_key p (t_id t)) \<noteq> None"
    using assms(4) by (auto simp del: holds_Value)
  note r = record_at [OF assms(1) h(1) assms(2)]
  have q: "t_state t = TaskRunning" using r(2) h(2) by (cases "t_state t") (simp_all add: queued_slot_def idle_slot_def)
  have "task_table p J w' = (task_table p J w)(t_id t \<mapsto> requeue t)" by (rule table_upd [OF _ assms(3)]) (auto simp: w')
  then show ?thesis using lifecycle.retry [of "task_table p J w", OF r(1) q] by simp
qed

lemma refuse_refines:
  assumes "task_inv p J w" "to_vec J t = Some qv" "to_vec J (fail_dependency_record now t d) = Some v" "t_depends_on t \<noteq> []"
    and "list_all (holds (w_kv w)) [ValueEqual (task_key p (t_id t)) qv, VersionPositive (queue_key p (t_id t))]"
    and w': "w_kv w' = apply_ops (w_kv w) [TxnPut (task_key p (t_id t)) v None, TxnDelete (queue_key p (t_id t))]"
  shows "lifecycle (task_table p J w) (task_table p J w')"
proof -
  have h: "holds (w_kv w) (ValueEqual (task_key p (t_id t)) qv)" "w_kv w (queue_key p (t_id t)) \<noteq> None"
    using assms(5) by (auto simp del: holds_Value)
  note r = record_at [OF assms(1) h(1) assms(2)]
  have q: "t_state t = Queued" using r(2) h(2) by (cases "t_state t") (simp_all add: running_slot_def idle_slot_def)
  have "task_table p J w' = (task_table p J w)(t_id t \<mapsto> fail_dependency_record now t d)"
    by (rule table_upd [OF _ assms(3)]) (auto simp: w')
  then show ?thesis using lifecycle.refuse [of "task_table p J w", OF r(1) q assms(4)] by simp
qed

lemma prune_refines:
  assumes "task_inv p J w" "set is \<subseteq> w_finished w"
    and w': "w_kv w' = apply_ops (w_kv w) (map (\<lambda>i. TxnDelete (task_key p i)) is)"
  shows "lifecycle (task_table p J w) (task_table p J w')"
proof -
  have "task_table p J w' = task_table p J w |` (- set is)"
    by (auto simp: w' task_table_def apply_deletes restrict_map_def fun_eq_iff)
  moreover have "is_finished t" if i: "i \<in> set is" and t: "task_table p J w i = Some t" for i t
  proof -
    obtain v where v: "w_kv w (task_key p i) = Some (v, None)" "to_vec J t = Some v"
      using table_stored [OF assms(1) t] by (auto simp: stored_def)
    have ok: "slot_ok p J w i" using assms(1) by (simp add: task_inv_def)
    show ?thesis
      using slot_stored(5) [OF ok v] i assms(2)
      by (cases "t_state t") (auto simp: queued_slot_def running_slot_def is_finished_def)
  qed
  ultimately show ?thesis using lifecycle.forget [of "set is"] by simp
qed

lemma idle_refines:
  assumes "\<And>j. w_kv w' (task_key p j) = w_kv w (task_key p j)"
  shows "lifecycle (task_table p J w) (task_table p J w')"
  unfolding table_same [OF assms] by (rule lifecycle.idle)

lemma expire_table:
  assumes "task_inv p J w"
  shows "task_table p J (w\<lparr>w_kv := drop_lease l (w_kv w)\<rparr>) = task_table p J w"
proof (rule table_same)
  fix j
  have "slot_ok p J w j" using assms by (simp add: task_inv_def)
  then show "w_kv (w\<lparr>w_kv := drop_lease l (w_kv w)\<rparr>) (task_key p j) = w_kv w (task_key p j)"
    by (cases "w_kv w (task_key p j)") (auto simp: slot_ok_def drop_lease_def)
qed

lemma step_refines:
  assumes "task_step p J w w'" "task_inv p J w"
  shows "lifecycle (task_table p J w) (task_table p J w')"
  using assms
proof (induction rule: task_step.induct)
  case (enqueue t w v)
  then show ?case by (intro enqueue_refines) simp_all
next
  case (claim t qv now rv w token l)
  then show ?case by (intro claim_refines [where t = t]) simp_all
next
  case (finish token t w now out v)
  then show ?case by (intro finish_refines [where t = t]) (simp_all del: holds_Value)
next
  case (recover t rv v w)
  from recover.prems recover.hyps show ?case by (rule recover_refines) simp_all
next
  case (fail_dependency t qv now d v w)
  from fail_dependency.prems fail_dependency.hyps show ?case by (rule refuse_refines) simp_all
next
  case (prune "is" w)
  then show ?case by (intro prune_refines) simp_all
next
  case (release k tgt ds dk i w)
  then show ?case using no_release by blast
next
  case (expire w l)
  then show ?case using expire_table [of p w l] lifecycle.idle [of "task_table p J w"] by simp
next
  case (lock w name token l)
  then show ?case by (intro idle_refines) simp
next
  case (unlock w name)
  then show ?case by (intro idle_refines) simp
next
  case (reserve i w)
  then show ?case by (intro idle_refines) simp
qed

end

end
