(* ===== verification/Task_Properties.thy ===== *)
theory Task_Properties
  imports Task_Progress Task_Lifecycle
begin

text \<open>
  The claims of the task store. A reference serialiser and a reference etcd interpret the locales of
  \<open>Task_Safety\<close> and \<open>Task_Handlers\<close>; the properties are stated over the operations of \<open>Task_Store\<close> and the worlds
  their transactions reach, for any etcd that obeys the laws.
\<close>

section \<open>A reference serialiser and store\<close>

text \<open>
  One concrete \<open>serde\<close> (length-prefixed fields) and one concrete \<open>etcd\<close> (a sorted list of entries, ids from a
  counter, nobody else writing) on which the laws are discharged.
\<close>

definition netstring :: "string \<Rightarrow> string" where
  "netstring s = show_nat (length s) @ CHR '':'' # s"

function read_netstrings :: "string \<Rightarrow> string list option" where
  "read_netstrings s =
     (if s = [] then Some []
      else (let n = takeWhile is_digit s; r = drop (length n) s in
        case (parse_nat n, r) of
          (Some k, c # r') \<Rightarrow>
            if c = CHR '':'' \<and> k \<le> length r'
            then map_option ((#) (take k r')) (read_netstrings (drop k r')) else None
        | _ \<Rightarrow> None))"
  by auto
termination
  by (relation "measure length") (auto, metis drop_eq_Nil diff_le_self impossible_Cons length_drop linorder_not_le
      le_trans list.size(4) le_imp_less_Suc)

declare read_netstrings.simps [simp del]

lemma read_netstrings_Nil [simp]: "read_netstrings [] = Some []"
  by (simp add: read_netstrings.simps)

lemma read_netstrings_cons [simp]:
  "read_netstrings (netstring x @ s) = map_option ((#) x) (read_netstrings s)"
proof -
  have tw: "takeWhile is_digit (show_nat n @ CHR '':'' # r) = show_nat n" for n r
    using show_nat_digits [of n] by (subst takeWhile_append2) (auto simp: list_all_iff is_digit_def)
  show ?thesis
    by (subst read_netstrings.simps) (simp add: netstring_def tw Let_def)
qed

lemma read_netstrings_concat: "read_netstrings (concat (map netstring xs)) = Some xs"
  by (induction xs) simp_all

fun state_label :: "task_state \<Rightarrow> string" where
  "state_label Queued = ''queued''"
| "state_label TaskRunning = ''running''"
| "state_label Done = ''done''"
| "state_label TaskFailed = ''failed''"

definition opt_text :: "('a \<Rightarrow> string) \<Rightarrow> 'a option \<Rightarrow> string" where
  "opt_text f x = (case x of None \<Rightarrow> [] | Some y \<Rightarrow> CHR ''+'' # f y)"

definition read_opt :: "(string \<Rightarrow> 'a) \<Rightarrow> string \<Rightarrow> 'a option" where
  "read_opt g s = (case s of [] \<Rightarrow> None | _ # r \<Rightarrow> Some (g r))"

definition read_int :: "string \<Rightarrow> int" where
  "read_int s = (case s of
     c # r \<Rightarrow> if c = CHR ''-'' then - int (the (parse_nat r)) else int (the (parse_nat s)) | [] \<Rightarrow> 0)"

definition pick :: "('a \<Rightarrow> string) \<Rightarrow> 'a list \<Rightarrow> string \<Rightarrow> 'a" where
  "pick f xs s = hd (filter (\<lambda>x. f x = s) xs)"

definition text_fields :: "task \<Rightarrow> string list" where
  "text_fields t =
     [t_id t, kind_label (t_kind t), t_target t, state_label (t_state t), opt_text id (t_error t),
      opt_text id (t_detail t), show_int (t_enqueued_at t), opt_text show_int (t_started_at t),
      opt_text show_int (t_finished_at t)] @ t_depends_on t"

definition ref_serde :: serde where
  "ref_serde =
     \<lparr>to_vec = (\<lambda>t. Some (concat (map netstring (text_fields t)))),
      from_slice = (\<lambda>s. case read_netstrings s of
        Some (i # k # tg # st # er # de # en # sa # fi # deps) \<Rightarrow> Some
          \<lparr>t_id = i, t_kind = pick kind_label [Compact, MergeWal, IndexId] k, t_target = tg,
           t_state = pick state_label [Queued, TaskRunning, Done, TaskFailed] st,
           t_error = read_opt id er, t_detail = read_opt id de, t_enqueued_at = read_int en,
           t_started_at = read_opt read_int sa, t_finished_at = read_opt read_int fi, t_depends_on = deps\<rparr>
      | _ \<Rightarrow> None)\<rparr>"

lemma read_int_show [simp]: "read_int (show_int i) = i"
proof (cases "i < 0")
  case False
  obtain c r where s: "show_nat (nat i) = c # r" by (cases "show_nat (nat i)") auto
  then have "c \<noteq> CHR ''-''" using show_nat_hd_not_minus by metis
  then show ?thesis
    using False s parse_nat_show_nat [of "nat i"] by (simp add: show_int_def read_int_def)
qed (simp add: show_int_def read_int_def)

lemma read_opt_text: "(\<And>x. g (f x) = x) \<Longrightarrow> read_opt g (opt_text f y) = y"
  by (cases y) (simp_all add: read_opt_def opt_text_def)

lemma pick_labels:
  "pick kind_label [Compact, MergeWal, IndexId] (kind_label k) = k"
  "pick state_label [Queued, TaskRunning, Done, TaskFailed] (state_label st) = st"
  by (cases k; simp add: pick_def) (cases st; simp add: pick_def)

lemma ref_serde_ok: "serde_ok ref_serde"
  unfolding serde_ok_def ref_serde_def
  by (auto simp: read_netstrings_concat text_fields_def read_opt_text pick_labels simp del: map_append concat_append
      concat.simps list.map)

record ref =
  rf_kv :: "(string, string \<times> int option) btree_map"
  rf_next :: nat
  rf_lease :: int
  rf_now :: int

fun ref_op :: "(string, string \<times> int option) btree_map \<Rightarrow> txn_op \<Rightarrow> (string, string \<times> int option) btree_map" where
  "ref_op m (TxnPut k v l) = bt_insert k (v, l) m"
| "ref_op m (TxnDelete k) = filter (\<lambda>e. fst e \<noteq> k) m"

definition plain_entries :: "(string, string \<times> int option) btree_map \<Rightarrow> (string \<times> string) list" where
  "plain_entries m = map (\<lambda>e. (fst e, fst (snd e))) m"

definition ref_etcd :: "ref etcd" where
  "ref_etcd =
     \<lparr>etcd_txn = (\<lambda>cs ops s. if list_all (holds (bt_get (rf_kv s))) cs
        then (Ok True, s\<lparr>rf_kv := foldl ref_op (rf_kv s) ops\<rparr>) else (Ok False, s)),
      etcd_get = (\<lambda>k s. (Ok (map_option fst (bt_get (rf_kv s) k)), s)),
      etcd_prefix = (\<lambda>k s. (Ok (plain_entries (filter (\<lambda>e. take (length k) (fst e) = k) (rf_kv s))), s)),
      etcd_count = (\<lambda>k s. (Ok (int (length (filter (\<lambda>e. take (length k) (fst e) = k) (rf_kv s)))), s)),
      etcd_range = (\<lambda>a b n s. let es = filter (\<lambda>e. a \<le> fst e \<and> fst e < b) (rf_kv s)
        in (Ok (plain_entries (take n es), n < length es), s)),
      lease_grant = (\<lambda>ttl s. (Ok (rf_lease s), s\<lparr>rf_lease := rf_lease s + 1\<rparr>)),
      lease_revoke = (\<lambda>l s. (Ok (), s\<lparr>rf_kv := filter (\<lambda>e. snd (snd e) \<noteq> Some l) (rf_kv s)\<rparr>)),
      lease_keep_alive = (\<lambda>l s. (Ok (), s)),
      fresh_uuid = (\<lambda>s. (show_nat (rf_next s), s\<lparr>rf_next := rf_next s + 1\<rparr>)),
      clock_ms = (\<lambda>s. (rf_now s, s))\<rparr>"

definition ref_rel :: "ref \<Rightarrow> world \<Rightarrow> bool" where
  "ref_rel s w \<longleftrightarrow> w_kv w = bt_get (rf_kv s) \<and> bt_sorted (rf_kv s) \<and>
     w_created w \<union> w_reserved w \<union> fst ` w_claims w \<subseteq> show_nat ` {..<rf_next s}"

lemma bt_get_filter_key: "bt_get (filter (\<lambda>e. fst e \<noteq> k) m) x = (if x = k then None else bt_get m x)"
  by (induction m) (auto simp: bt_get_def)

lemma bt_sorted_filter: "bt_sorted m \<Longrightarrow> bt_sorted (filter P m)"
  by (induction m) (auto simp: bt_sorted_def)

lemma bt_get_filter: "bt_sorted m \<Longrightarrow> bt_get (filter P m) x = (case bt_get m x of Some v \<Rightarrow> if P (x, v) then Some v else None | None \<Rightarrow> None)"
proof (induction m)
  case (Cons a m)
  have "(fst a, b) \<notin> set m" for b using Cons.prems by (force simp: bt_sorted_def)
  then have "bt_get (filter P m) (fst a) = None" by (auto simp: bt_get_def map_of_eq_None_iff)
  then show ?case using Cons by (cases a) (auto simp: bt_get_def bt_sorted_def)
qed (simp add: bt_get_def)

lemma ref_ops: "bt_sorted m \<Longrightarrow> bt_sorted (foldl ref_op m ops) \<and> bt_get (foldl ref_op m ops) = apply_ops (bt_get m) ops"
proof (induction ops arbitrary: m)
  case (Cons op ops)
  have "bt_sorted (ref_op m op)" "bt_get (ref_op m op) = apply_op (bt_get m) op"
    using Cons.prems by (cases op; auto simp: bt_sorted_insert bt_sorted_filter bt_get_insert bt_get_filter_key fun_eq_iff)+
  then show ?case using Cons.IH by simp
qed simp

lemma bt_get_mem: "bt_sorted m \<Longrightarrow> (x, v) \<in> set m \<Longrightarrow> bt_get m x = Some v"
  by (auto simp: bt_get_def bt_sorted_def strict_sorted_iff)

interpretation ref: etcd_laws ref_serde ref_etcd p ref_rel for p
proof unfold_locales
  show "serde_ok ref_serde" by (rule ref_serde_ok)
  fix s :: ref and w :: world
  assume R: "ref_rel s w"
  have refl: "others p ref_serde w w" by (simp add: others_def)
  show "\<exists>w'. others p ref_serde w w' \<and> ref_rel s' w' \<and> (\<forall>v. r = Ok v \<longrightarrow> v = map_option fst (w_kv w' k))"
    if "etcd_get ref_etcd k s = (r, s')" for k r s'
    using that R refl by (auto simp: ref_etcd_def ref_rel_def)
  show "\<exists>w'. others p ref_serde w w' \<and> ref_rel s' w' \<and>
      (\<forall>kvs. r = Ok kvs \<longrightarrow> (\<forall>(x, v) \<in> set kvs. (\<exists>y. x = k @ y) \<and> map_option fst (w_kv w' x) = Some v))"
    if "etcd_prefix ref_etcd k s = (r, s')" for k r s'
  proof -
    have "(\<exists>y. x = k @ y) \<and> map_option fst (w_kv w x) = Some v"
      if "(x, v) \<in> set (plain_entries (filter (\<lambda>e. take (length k) (fst e) = k) (rf_kv s)))" for x v
      using that R by (auto simp: plain_entries_def ref_rel_def bt_get_mem) (metis append_take_drop_id)
    then show ?thesis using that R refl by (auto simp: ref_etcd_def)
  qed
  show "\<exists>w'. others p ref_serde w w' \<and> ref_rel s' w'" if "etcd_range ref_etcd k k' n s = (r, s')" for k k' n r s'
    using that R refl by (auto simp: ref_etcd_def Let_def)
  show "\<exists>w'. others p ref_serde w w' \<and> ref_rel s' w'" if "etcd_count ref_etcd k s = (r, s')" for k r s'
    using that R refl by (auto simp: ref_etcd_def)
  show "\<exists>w'. others p ref_serde w w' \<and> ref_rel s' w'" if "lease_grant ref_etcd ttl s = (r, s')" for ttl r s'
    using that R refl by (auto simp: ref_etcd_def ref_rel_def)
  show "\<exists>w'. others p ref_serde w w' \<and> ref_rel s' w'" if "lease_keep_alive ref_etcd l s = (r, s')" for l r s'
    using that R refl by (auto simp: ref_etcd_def)
  show "\<exists>w'. others p ref_serde w w' \<and> ref_rel s' w'" if "clock_ms ref_etcd s = (r, s')" for r s'
    using that R refl by (auto simp: ref_etcd_def)
  show "\<exists>w'. others p ref_serde w w' \<and> (ref_rel s' w' \<or> ref_rel s' (w'\<lparr>w_kv := drop_lease l (w_kv w')\<rparr>))"
    if "lease_revoke ref_etcd l s = (r, s')" for l r s'
  proof -
    have "bt_get (filter (\<lambda>e. snd (snd e) \<noteq> Some l) (rf_kv s)) = drop_lease l (bt_get (rf_kv s))"
      using R by (auto simp: ref_rel_def bt_get_filter drop_lease_def fun_eq_iff split: option.split)
    then have "ref_rel s' (w\<lparr>w_kv := drop_lease l (w_kv w)\<rparr>)"
      using that R by (auto simp: ref_etcd_def ref_rel_def bt_sorted_filter)
    then show ?thesis using refl by blast
  qed
  show "\<exists>w'. others p ref_serde w w' \<and> i \<notin> w_created w' \<and> i \<notin> fst ` w_claims w' \<and> i \<notin> w_reserved w' \<and>
      ref_rel s' (w'\<lparr>w_reserved := insert i (w_reserved w')\<rparr>)"
    if "fresh_uuid ref_etcd s = (i, s')" for i s'
  proof -
    have i: "i = show_nat (rf_next s)" "s' = s\<lparr>rf_next := rf_next s + 1\<rparr>" using that by (auto simp: ref_etcd_def)
    have "i \<notin> show_nat ` {..<rf_next s}" by (auto simp: i(1))
    then have "i \<notin> w_created w \<union> w_reserved w \<union> fst ` w_claims w" using R unfolding ref_rel_def by blast
    moreover have "ref_rel s' (w\<lparr>w_reserved := insert i (w_reserved w)\<rparr>)"
      using R unfolding ref_rel_def i by (auto simp: lessThan_Suc)
    ultimately show ?thesis using refl by blast
  qed
  show "\<exists>w' applied. others p ref_serde w w' \<and> (applied \<longrightarrow> list_all (holds (w_kv w')) cs) \<and>
      (\<forall>b. r = Ok b \<longrightarrow> b = applied \<and> b = list_all (holds (w_kv w')) cs) \<and> (\<not> applied \<longrightarrow> ref_rel s' w') \<and>
      (applied \<longrightarrow> (\<forall>w2. own_step p ref_serde w' w2 \<and> w_kv w2 = apply_ops (w_kv w') ops \<longrightarrow> ref_rel s' w2))"
    if "etcd_txn ref_etcd cs ops s = (r, s')" for cs ops r s'
  proof (cases "list_all (holds (w_kv w)) cs")
    case True
    then have rs: "r = Ok True" "s' = s\<lparr>rf_kv := foldl ref_op (rf_kv s) ops\<rparr>"
      using that R by (auto simp: ref_etcd_def ref_rel_def)
    have "ref_rel s' w2" if "own_step p ref_serde w w2" "w_kv w2 = apply_ops (w_kv w) ops" for w2
    proof -
      have "w_created w2 \<union> w_reserved w2 \<union> fst ` w_claims w2 \<subseteq> w_created w \<union> w_reserved w \<union> fst ` w_claims w"
        using that(1) unfolding own_step_def by blast
      then have "w_created w2 \<union> w_reserved w2 \<union> fst ` w_claims w2 \<subseteq> show_nat ` {..<rf_next s}"
        using R unfolding ref_rel_def by blast
      then show ?thesis using that(2) R ref_ops [of "rf_kv s" ops] unfolding ref_rel_def rs by simp
    qed
    then show ?thesis using rs True refl by (intro exI [of _ w] exI [of _ True]) auto
  next
    case False
    then have "r = Ok False" "s' = s" using that R by (auto simp: ref_etcd_def ref_rel_def)
    then show ?thesis using False R refl by (intro exI [of _ w] exI [of _ False]) auto
  qed
qed


section \<open>Properties\<close>

definition empty_world :: world where
  "empty_world = \<lparr>w_kv = Map.empty, w_created = {}, w_finished = {}, w_claims = {}, w_reserved = {}\<rparr>"

lemma empty_inv: "task_inv p J empty_world"
  by (simp add: task_inv_def slot_ok_def idle_slot_def dedupe_ok_def live_at_def stored_def ghosts_ok_def empty_world_def)

lemma reachable_inv: "serde_ok J \<Longrightarrow> (task_step p J)\<^sup>*\<^sup>* empty_world w \<Longrightarrow> task_inv p J w"
  using serde_laws.task_steps_inv [OF serde_laws.intro] empty_inv by blast

text \<open>A call that, whatever it returns, leaves the world where steps of the protocol can lead, and \<open>Q\<close> when it succeeds.\<close>

definition protocol_safe ::
  "string \<Rightarrow> serde \<Rightarrow> ('s \<Rightarrow> world \<Rightarrow> bool) \<Rightarrow> ('s, 'e, 'a) io \<Rightarrow> ('a \<Rightarrow> world \<Rightarrow> bool) \<Rightarrow> 's \<Rightarrow> world \<Rightarrow> bool" where
  "protocol_safe p J R m Q s w \<longleftrightarrow> (\<forall>r s'. m s = (r, s') \<longrightarrow>
     (\<exists>w'. (task_step p J)\<^sup>*\<^sup>* w w' \<and> R s' w' \<and> task_inv p J w' \<and> (\<forall>x. r = Ok x \<longrightarrow> Q x w')))"

definition claim_recorded :: "string \<Rightarrow> claim \<Rightarrow> world \<Rightarrow> bool" where
  "claim_recorded p cl w \<longleftrightarrow> (cl_token cl, cl_task cl) \<in> w_claims w \<and> cl_key cl = claim_key p (t_id (cl_task cl)) \<and>
     cl_target_key cl = lock_of p (cl_task cl)"

lemma triple_protocol_safe:
  assumes "etcd_laws J E p R" "etcd_laws.triple J p R P m Q" "R s w" "task_inv p J w" "P w"
  shows "protocol_safe p J R m Q s w"
  unfolding protocol_safe_def
proof (intro allI impI)
  fix r s' assume m: "m s = (r, s')"
  obtain w' where w': "etcd_laws.steps J p w w'" "R s' w'" "\<forall>x. r = Ok x \<longrightarrow> Q x w'"
    using etcd_laws.tripleD [OF assms(1,2,3,4,5) m] by (elim exE conjE) (rule that)
  have "task_inv p J w'" by (rule etcd_laws.steps_inv [OF assms(1) w'(1) assms(4)])
  with w' show "\<exists>w'. (task_step p J)\<^sup>*\<^sup>* w w' \<and> R s' w' \<and> task_inv p J w' \<and> (\<forall>x. r = Ok x \<longrightarrow> Q x w')"
    unfolding etcd_laws.steps_def [OF assms(1)] by (intro exI [of _ w'] conjI)
qed

lemma recorded_issued: "etcd_laws J E p R \<Longrightarrow> etcd_laws.issued p cl w = claim_recorded p cl w"
  by (simp add: etcd_laws.issued_def claim_recorded_def)

text \<open>
  C2. Whatever masters, crashes and lease expiries interleave, every operation of the store takes only
  steps of the task protocol and keeps its invariant, whether it succeeds or fails half way; and a claim
  that \<open>claim_next\<close> hands out is recorded for exactly its task, token and lock.
\<close>

theorem task_store_keeps_protocol:
  assumes "etcd_laws J E p R" "ts_prefix c = p" "R s w" "task_inv p J w"
  shows "protocol_safe p J R (enqueue E J c k target deps) (\<lambda>_ _. True) s w \<and>
    protocol_safe p J R (claim_next E J c n) (\<lambda>r w. \<forall>cl. r = Some cl \<longrightarrow> claim_recorded p cl w) s w \<and>
    (claim_recorded p cl w \<longrightarrow> protocol_safe p J R (finish E J c cl out) (\<lambda>_ _. True) s w) \<and>
    protocol_safe p J R (recover_orphaned E J c) (\<lambda>_ _. True) s w \<and>
    protocol_safe p J R (prune_terminal_history E J c) (\<lambda>_ _. True) s w \<and>
    protocol_safe p J R (try_coordination_lock E c name) (\<lambda>_ _. True) s w"
proof (intro conjI impI)
  note L = assms(1) and safe = triple_protocol_safe [OF assms(1) _ assms(3,4)]
  show "protocol_safe p J R (enqueue E J c k target deps) (\<lambda>_ _. True) s w"
    by (rule safe [OF etcd_laws.triple_enqueue [OF L assms(2)] TrueI])
  show "protocol_safe p J R (claim_next E J c n) (\<lambda>r w. \<forall>cl. r = Some cl \<longrightarrow> claim_recorded p cl w) s w"
    using safe [OF etcd_laws.triple_claim_next [OF L assms(2)] TrueI] unfolding recorded_issued [OF L] .
  show "protocol_safe p J R (finish E J c cl out) (\<lambda>_ _. True) s w" if "claim_recorded p cl w"
    using that by (intro safe [OF etcd_laws.triple_finish [OF L assms(2)]]) (simp add: recorded_issued [OF L])
  show "protocol_safe p J R (recover_orphaned E J c) (\<lambda>_ _. True) s w"
    by (rule safe [OF etcd_laws.triple_recover [OF L assms(2)] TrueI])
  show "protocol_safe p J R (prune_terminal_history E J c) (\<lambda>_ _. True) s w"
    by (rule safe [OF etcd_laws.triple_prune [OF L assms(2)] TrueI])
  show "protocol_safe p J R (try_coordination_lock E c name) (\<lambda>_ _. True) s w"
    by (rule safe [OF etcd_laws.triple_try_lock [OF L assms(2)] TrueI])
qed

definition sample_ref :: ref where "sample_ref = \<lparr>rf_kv = [], rf_next = 0, rf_lease = 1, rf_now = 1700000000000\<rparr>"

definition sample_store_config :: task_store where
  "sample_store_config = \<lparr>ts_prefix = ''p'', ts_lease_ttl = 30, ts_history_limit = 100, ts_history_ttl_secs = 0\<rparr>"

lemma sample_ref_rel: "ref_rel sample_ref empty_world"
  by (simp add: ref_rel_def sample_ref_def empty_world_def bt_get_def bt_sorted_def fun_eq_iff)

theorem task_store_keeps_protocol_witness:
  "protocol_safe ''p'' ref_serde ref_rel (enqueue ref_etcd ref_serde sample_store_config Compact ''x'' [])
     (\<lambda>_ _. True) sample_ref empty_world"
  using task_store_keeps_protocol [OF ref.etcd_laws_axioms, of sample_store_config "''p''" sample_ref empty_world]
    sample_ref_rel empty_inv by (simp add: sample_store_config_def)

text \<open>A run that enqueues, claims and finishes one compaction task; the witnesses below look at its worlds.\<close>

definition sample_task :: task where
  "sample_task = \<lparr>t_id = ''1'', t_kind = Compact, t_target = ''x'', t_state = Queued, t_error = None, t_detail = None,
     t_enqueued_at = 5, t_started_at = None, t_finished_at = None, t_depends_on = []\<rparr>"

definition ref_text :: "task \<Rightarrow> string" where
  "ref_text t = concat (map netstring (text_fields t))"

lemma ref_to_vec: "to_vec ref_serde t = Some (ref_text t)"
  by (simp add: ref_serde_def ref_text_def)

definition queued_world :: world where
  "queued_world = empty_world\<lparr>w_kv := apply_ops Map.empty (enqueue_ops ''p'' sample_task (ref_text sample_task)),
     w_created := {''1''}\<rparr>"

definition running_world :: world where
  "running_world = queued_world\<lparr>w_kv := apply_ops (w_kv queued_world)
       (claim_ops ''p'' sample_task (ref_text (started 6 sample_task)) ''tok'' 7),
     w_claims := {(''tok'', started 6 sample_task)}\<rparr>"

definition finished_task :: task where
  "finished_task = apply_outcome 9 (started 6 sample_task) (Ok ''merged'')"

definition finished_world :: world where
  "finished_world = running_world\<lparr>w_kv := apply_ops (w_kv running_world)
       (finish_ops ''p'' finished_task (ref_text finished_task) (claim_key ''p'' ''1'') (lock_of ''p'' sample_task)),
     w_finished := {''1''}\<rparr>"

definition sample_dedupe :: string where
  "sample_dedupe = ''p/dedupe/compact/'' @ encode_segment ''x''"

lemma sample_keys:
  "lock_of ''p'' sample_task = Some (target_lock_key ''p'' ''x'')"
  "dedupe_key ''p'' Compact ''x'' [] = Some sample_dedupe"
  "t_id finished_task = ''1''" "t_kind finished_task = Compact" "t_target finished_task = ''x''"
  "t_depends_on finished_task = []" "is_finished finished_task"
  by (simp_all add: sample_dedupe_def lock_of_def sample_task_def dedupe_key_Some finished_task_def requires_target_lock_def
      is_finished_def apply_outcome_def)

lemma sample_dedupe_fresh [simp]:
  "sample_dedupe \<noteq> task_key ''p'' i" "sample_dedupe \<noteq> claim_key ''p'' i"
  "sample_dedupe \<noteq> queue_key ''p'' i" "sample_dedupe \<noteq> target_lock_key ''p'' i"
  "sample_dedupe \<noteq> running_key ''p'' i"
  using dedupe_disjoint [OF sample_keys(2)] by simp_all

lemmas sample_dedupe_fresh' [simp] = sample_dedupe_fresh [symmetric]

lemma sample_fields [simp]:
  "t_id sample_task = ''1''" "t_kind sample_task = Compact" "t_target sample_task = ''x''" "t_state sample_task = Queued"
  "t_depends_on sample_task = []"
  by (simp_all add: sample_task_def)

lemma queued_reachable: "(task_step ''p'' ref_serde)\<^sup>*\<^sup>* empty_world queued_world"
proof (rule r_into_rtranclp)
  show "task_step ''p'' ref_serde empty_world queued_world"
    using task_step.enqueue [of sample_task empty_world ref_serde "ref_text sample_task" "''p''"]
    by (simp add: queued_world_def ref_to_vec empty_world_def)
qed

lemma running_reachable: "(task_step ''p'' ref_serde)\<^sup>*\<^sup>* empty_world running_world"
proof (rule rtranclp.rtrancl_into_rtrancl [OF queued_reachable])
  show "task_step ''p'' ref_serde queued_world running_world"
    using task_step.claim [of ref_serde sample_task "ref_text sample_task" 6 "ref_text (started 6 sample_task)"
        queued_world "''p''" "''tok''" 7]
    by (simp add: running_world_def queued_world_def ref_to_vec empty_world_def claim_compares_def enqueue_ops_def
        sample_keys)
qed

lemma finished_reachable: "task_step ''p'' ref_serde running_world finished_world"
  using task_step.finish [of "''tok''" "started 6 sample_task" running_world ref_serde 9 "Ok ''merged''"
      "ref_text finished_task" "''p''"]
  by (simp add: finished_world_def running_world_def queued_world_def ref_to_vec empty_world_def finished_task_def
      claim_ops_def sample_keys)

lemma running_entries:
  "w_kv running_world (claim_key ''p'' ''1'') = Some (''tok'', Some 7)"
  "stored ''p'' ref_serde running_world ''1'' (started 6 sample_task)"
  by (simp_all add: running_world_def claim_ops_def sample_keys stored_def ref_to_vec)

lemma finished_stored: "stored ''p'' ref_serde finished_world ''1'' finished_task"
  by (simp add: finished_world_def finish_ops_def sample_keys stored_def ref_to_vec)


text \<open>
  C10. At most one task at a time is claimed for compaction or indexing of a target: two claims whose
  tasks need the lock of the same target belong to one task.
\<close>

theorem target_claims_exclusive:
  assumes "serde_ok J" "(task_step p J)\<^sup>*\<^sup>* empty_world w"
    and "w_kv w (claim_key p i) = Some cl" "w_kv w (claim_key p j) = Some cl'"
    and "stored p J w i t" "stored p J w j t'" "t_target t = t_target t'"
    and "requires_target_lock (t_kind t)" "requires_target_lock (t_kind t')"
  shows "i = j"
proof -
  obtain tok l tok' l' where "cl = (tok, l)" "cl' = (tok', l')" by (cases cl; cases cl')
  with assms show ?thesis
    by (intro serde_laws.lock_exclusive [OF serde_laws.intro [OF assms(1)] reachable_inv [OF assms(1,2)],
          of i tok l j tok' l' t t' "target_lock_key p (t_target t)"]) (auto simp: lock_of_def)
qed

theorem target_claims_exclusive_witness:
  "{j. \<exists>cl t. w_kv running_world (claim_key ''p'' j) = Some cl \<and> stored ''p'' ref_serde running_world j t \<and>
     t_target t = ''x'' \<and> requires_target_lock (t_kind t)} = {''1''}" (is "?S = _")
proof -
  have "requires_target_lock (t_kind (started 6 sample_task))" by (simp add: requires_target_lock_def)
  note excl = target_claims_exclusive [OF ref_serde_ok running_reachable running_entries(1) _ running_entries(2) _ _ this]
  have "?S \<subseteq> {''1''}" using excl by force
  moreover have "''1'' \<in> ?S" using running_entries by (auto simp: requires_target_lock_def intro!: exI)
  ultimately show ?thesis by blast
qed

text \<open>
  C16. The queue index and the running index agree with the records at every moment: a task is listed in
  the queue exactly while its record says queued and in the running index exactly while it says running;
  only running tasks are claimed; and the listed values are the record's own.
\<close>

theorem task_indexes_agree:
  assumes "serde_ok J" "(task_step p J)\<^sup>*\<^sup>* empty_world w" "stored p J w i t"
  shows "t_id t = i \<and> (w_kv w (queue_key p i) \<noteq> None \<longleftrightarrow> t_state t = Queued) \<and>
    (w_kv w (running_key p i) \<noteq> None \<longleftrightarrow> t_state t = TaskRunning) \<and>
    (w_kv w (claim_key p i) \<noteq> None \<longrightarrow> t_state t = TaskRunning) \<and>
    (\<forall>e. w_kv w (queue_key p i) = Some e \<or> w_kv w (running_key p i) = Some e \<longrightarrow> e = (the (to_vec J t), None))"
proof -
  have L: "serde_laws J" by (rule serde_laws.intro [OF assms(1)])
  obtain v where v: "w_kv w (task_key p i) = Some (v, None)" "to_vec J t = Some v" using assms(3) by (auto simp: stored_def)
  have ok: "slot_ok p J w i" using reachable_inv [OF assms(1,2)] by (simp add: task_inv_def)
  note s = serde_laws.slot_stored(3,5) [OF L ok v]
  have run: "running_slot p w i v t \<Longrightarrow> w_kv w (queue_key p i) = None \<and> w_kv w (running_key p i) = Some (v, None)"
    unfolding running_slot_def by blast
  show ?thesis
  proof (cases "t_state t")
    case TaskRunning
    then show ?thesis using s run by (simp add: v(2))
  qed (use s in \<open>simp_all add: v(2) queued_slot_def idle_slot_def\<close>)
qed

theorem task_indexes_agree_witness:
  "w_kv running_world (queue_key ''p'' ''1'') = None \<and> w_kv running_world (running_key ''p'' ''1'') \<noteq> None"
  using task_indexes_agree [OF ref_serde_ok running_reachable running_entries(2)] by (simp del: not_None_eq split_paired_All)

text \<open>
  C18. Deduplication: there is never more than one queued or running task without dependencies of a kind
  for a target, however many masters enqueue it at once.
\<close>

theorem deduped_task_unique:
  assumes "serde_ok J" "(task_step p J)\<^sup>*\<^sup>* empty_world w"
    and "stored p J w i t" "is_live t" "t_depends_on t = []" "stored p J w j t'" "is_live t'" "t_depends_on t' = []"
    and "t_kind t = t_kind t'" "t_target t = t_target t'"
  shows "i = j"
proof -
  obtain dk where dk: "dedupe_key p (t_kind t) (t_target t) [] = Some dk" by (simp add: dedupe_key_Some)
  have d: "w_kv w dk = Some (x, None) \<longleftrightarrow> live_at p J w x (t_kind t) (t_target t)" for x
    using reachable_inv [OF assms(1,2)] dk by (simp add: task_inv_def dedupe_ok_def)
  have "live_at p J w i (t_kind t) (t_target t)" "live_at p J w j (t_kind t) (t_target t)"
    using assms(3-10) by (auto simp: live_at_def)
  then show ?thesis using d by (metis option.inject prod.inject)
qed

theorem deduped_task_unique_witness:
  "{j. \<exists>t. stored ''p'' ref_serde running_world j t \<and> is_live t \<and> t_depends_on t = [] \<and> t_kind t = Compact \<and>
     t_target t = ''x''} = {''1''}" (is "?S = _")
proof -
  have "is_live (started 6 sample_task)" "t_depends_on (started 6 sample_task) = []" by (simp_all add: is_live_def)
  note uniq = deduped_task_unique [OF ref_serde_ok running_reachable running_entries(2) this]
  have "?S \<subseteq> {''1''}" using uniq by force
  moreover have "''1'' \<in> ?S" using running_entries(2) by (auto simp: is_live_def intro!: exI)
  ultimately show ?thesis by blast
qed

text \<open>
  A finished task stays finished: once done or failed it is never queued, run or claimed again, only
  its record may be pruned.
\<close>

theorem finished_task_stays_finished:
  assumes "serde_ok J" "(task_step p J)\<^sup>*\<^sup>* empty_world w" "stored p J w i t" "is_finished t"
    and "(task_step p J)\<^sup>*\<^sup>* w w'"
  shows "w_kv w' (queue_key p i) = None \<and> w_kv w' (running_key p i) = None \<and> w_kv w' (claim_key p i) = None \<and>
    (\<forall>t'. stored p J w' i t' \<longrightarrow> is_finished t')"
proof -
  have L: "serde_laws J" by (rule serde_laws.intro [OF assms(1)])
  have inv': "task_inv p J w'" using assms(2,5) by (intro reachable_inv [OF assms(1)]) (rule rtranclp_trans)
  have ok: "slot_ok p J w i" "slot_ok p J w' i"
    using reachable_inv [OF assms(1,2)] inv' by (simp_all add: task_inv_def)
  obtain v where v: "w_kv w (task_key p i) = Some (v, None)" "to_vec J t = Some v" using assms(3) by (auto simp: stored_def)
  have "i \<in> w_finished w"
    using serde_laws.slot_stored(5) [OF L ok(1) v] assms(4) by (cases "t_state t") (simp_all add: is_finished_def)
  moreover have "w_finished w \<subseteq> w_finished w'"
    using assms(5)
  proof (induction rule: rtranclp_induct)
    case (step y z)
    from step.hyps(2) have "w_finished y \<subseteq> w_finished z" by (induction rule: task_step.induct) auto
    with step.IH show ?case by blast
  qed simp
  ultimately have f: "i \<in> w_finished w'" by blast
  have body: "idle_slot p w' i \<and> is_finished t'"
    if "w_kv w' (task_key p i) = Some (v', None)" "to_vec J t' = Some v'" for v' t'
    using serde_laws.slot_stored(5) [OF L ok(2) that] f
    by (cases "t_state t'") (simp_all add: is_finished_def queued_slot_def running_slot_def)
  have "idle_slot p w' i"
    using serde_laws.slot_present [OF L ok(2)] body by metis
  then show ?thesis using body by (auto simp: idle_slot_def stored_def)
qed

theorem finished_task_stays_finished_witness:
  "w_kv (finished_world\<lparr>w_kv := drop_lease 7 (w_kv finished_world)\<rparr>) (queue_key ''p'' ''1'') = None"
  using finished_task_stays_finished [OF ref_serde_ok
      rtranclp.rtrancl_into_rtrancl [OF running_reachable finished_reachable] finished_stored sample_keys(7)
      r_into_rtranclp [where r = "task_step ''p'' ref_serde", OF task_step.expire [of "''p''" ref_serde finished_world 7]]] by blast


lemma enumerate_pick:
  assumes "distinct (map f xs)" "t \<in> set xs"
  shows "f t \<in> set (map (f \<circ> snd) (filter D (enumerate 0 xs))) \<longleftrightarrow> (\<exists>n < length xs. xs ! n = t \<and> D (n, t))"
proof
  assume "f t \<in> set (map (f \<circ> snd) (filter D (enumerate 0 xs)))"
  then obtain n where n: "n < length xs" "f t = f (xs ! n)" "D (n, xs ! n)" by (auto simp: in_set_enumerate_eq)
  obtain m where m: "m < length xs" "xs ! m = t" using assms(2) by (metis in_set_conv_nth)
  then have "map f xs ! m = map f xs ! n" using n by simp
  then have "m = n" using assms(1) n(1) m(1) by (metis length_map nth_eq_iff_index_eq)
  then show "\<exists>n < length xs. xs ! n = t \<and> D (n, t)" using n m by auto
next
  assume "\<exists>n < length xs. xs ! n = t \<and> D (n, t)"
  then obtain n where "n < length xs" "xs ! n = t" "D (n, t)" by blast
  then have "(n, t) \<in> set (filter D (enumerate 0 xs))" by (simp add: in_set_enumerate_eq)
  then show "f t \<in> set (map (f \<circ> snd) (filter D (enumerate 0 xs)))" by (auto intro!: rev_image_eqI)
qed

definition prune_dropped :: "nat \<Rightarrow> int option \<Rightarrow> nat \<times> task \<Rightarrow> bool" where
  "prune_dropped limit cutoff = (\<lambda>(rank, t). limit \<le> rank \<or> (case cutoff of Some x \<Rightarrow> finish_time t \<le> x | None \<Rightarrow> False))"

definition prune_candidate :: "task list \<Rightarrow> task \<Rightarrow> bool" where
  "prune_candidate tasks t \<longleftrightarrow> is_finished t \<and> (\<forall>u \<in> set tasks. is_live u \<longrightarrow> t_id t \<notin> set (t_depends_on u))"

text \<open>The ranking that \<open>prunable_terminal_ids\<close> picks from.\<close>

lemma prune_ranking:
  assumes "distinct (map t_id tasks)"
  obtains new where "set new = {t \<in> set tasks. prune_candidate tasks t}" "distinct (map t_id new)"
    "sorted_wrt (\<lambda>t u. finish_time u \<le> finish_time t) new"
    "prunable_terminal_ids tasks limit cutoff = map (t_id \<circ> snd) (filter (prune_dropped limit cutoff) (enumerate 0 new))"
proof -
  define terminal where "terminal = filter (\<lambda>t. t_id t \<notin> set (concat (map t_depends_on (filter is_live tasks))))
    (filter is_finished tasks)"
  show ?thesis
  proof (rule that)
    show "set (sort_key (\<lambda>t. - finish_time t) terminal) = {t \<in> set tasks. prune_candidate tasks t}"
      by (auto simp: terminal_def prune_candidate_def)
    show "distinct (map t_id (sort_key (\<lambda>t. - finish_time t) terminal))"
      using assms by (simp add: terminal_def distinct_map inj_on_def)
    have "sorted (map (\<lambda>t. - finish_time t) (sort_key (\<lambda>t. - finish_time t) terminal))" by simp
    then show "sorted_wrt (\<lambda>t u. finish_time u \<le> finish_time t) (sort_key (\<lambda>t. - finish_time t) terminal)"
      by (simp add: sorted_wrt_map)
    show "prunable_terminal_ids tasks limit cutoff =
        map (t_id \<circ> snd) (filter (prune_dropped limit cutoff) (enumerate 0 (sort_key (\<lambda>t. - finish_time t) terminal)))"
      by (simp add: prunable_terminal_ids_def Let_def prune_dropped_def terminal_def)
  qed
qed

definition unexpired :: "int option \<Rightarrow> task \<Rightarrow> bool" where
  "unexpired cutoff t \<longleftrightarrow> (\<forall>x. cutoff = Some x \<longrightarrow> x < finish_time t)"

lemma prune_dropped_iff: "prune_dropped limit cutoff (n, t) \<longleftrightarrow> limit \<le> n \<or> \<not> unexpired cutoff t"
  by (auto simp: prune_dropped_def unexpired_def split: option.splits)

lemma descending_filter:
  assumes "sorted_wrt (\<lambda>x y. f y \<le> (f x :: int)) xs" "\<And>x y. P x \<Longrightarrow> f x \<le> f y \<Longrightarrow> P y"
  shows "filter P xs = take (length (filter P xs)) xs"
  using assms(1)
proof (induction xs)
  case (Cons x xs)
  show ?case
  proof (cases "P x")
    case False
    then have "filter P xs = []" using Cons.prems assms(2) by (auto simp: filter_empty_conv)
    then show ?thesis using False by simp
  qed (use Cons in simp)
qed simp

lemma prune_kept:
  assumes "distinct (map t_id new)" "sorted_wrt (\<lambda>t u. finish_time u \<le> finish_time t) new" "t \<in> set new"
    and "k = min limit (length (filter (unexpired cutoff) new))"
  shows "t_id t \<notin> set (map (t_id \<circ> snd) (filter (prune_dropped limit cutoff) (enumerate 0 new))) \<longleftrightarrow> t \<in> set (take k new)"
proof -
  let ?f = "filter (unexpired cutoff) new"
  have dist: "distinct new" using assms(1) by (simp add: distinct_map)
  have prefix: "?f = take (length ?f) new"
    by (rule descending_filter [OF assms(2)]) (auto simp: unexpired_def)
  obtain n where n: "n < length new" "new ! n = t" using assms(3) by (metis in_set_conv_nth)
  have index: "t \<in> set (take m new) \<longleftrightarrow> n < m" for m
    using n dist by (auto simp: in_set_conv_nth nth_eq_iff_index_eq)
  have "unexpired cutoff t \<longleftrightarrow> n < length ?f"
    using index [of "length ?f"] assms(3) unfolding prefix [symmetric] by simp
  moreover have "t_id t \<in> set (map (t_id \<circ> snd) (filter (prune_dropped limit cutoff) (enumerate 0 new))) \<longleftrightarrow>
      prune_dropped limit cutoff (n, t)"
    using enumerate_pick [OF assms(1,3)] n dist by (auto simp: nth_eq_iff_index_eq)
  ultimately show ?thesis unfolding index assms(4) by (auto simp: prune_dropped_iff)
qed

text \<open>
  C36. What pruning removes and what it keeps. The candidates are the finished tasks that no queued or
  running task depends on; only they are removed, each named once. As many candidates as the limit allows
  are kept of those finished after the cutoff, no fewer and no more; none finished by the cutoff is kept;
  and those kept are the newest: no candidate that is removed finished later than one that is kept.
\<close>

theorem prune_policy:
  assumes "distinct (map t_id tasks)"
    and "pruned = prunable_terminal_ids tasks limit cutoff" "candidates = filter (prune_candidate tasks) tasks"
    and "kept = filter (\<lambda>t. t_id t \<notin> set pruned) candidates"
  shows "set pruned \<subseteq> t_id ` set candidates \<and> distinct pruned \<and>
    length kept = min limit (length (filter (unexpired cutoff) candidates)) \<and> (\<forall>t \<in> set kept. unexpired cutoff t) \<and>
    (\<forall>t \<in> set kept. \<forall>u \<in> set candidates. t_id u \<in> set pruned \<longrightarrow> finish_time u \<le> finish_time t)"
proof -
  obtain new where new: "set new = set candidates" "distinct (map t_id new)" "sorted_wrt (\<lambda>t u. finish_time u \<le> finish_time t) new"
    and ids: "pruned = map (t_id \<circ> snd) (filter (prune_dropped limit cutoff) (enumerate 0 new))"
    using prune_ranking [OF assms(1), of limit cutoff] unfolding assms(2,3) by auto
  let ?k = "min limit (length (filter (unexpired cutoff) new))"
  note kept = prune_kept [OF new(2,3) _ refl, of _ limit cutoff, folded ids]
  have set_kept: "set kept = set (take ?k new)"
    using kept new(1) set_take_subset [of ?k new] unfolding assms(4) by fastforce
  have dist: "distinct new" "distinct candidates" using new(2) assms(1) by (simp_all add: distinct_map assms(3))
  have same: "length (filter P new) = length (filter P candidates)" for P
    using dist new(1) by (metis distinct_card distinct_filter set_filter)
  have "length kept = length (take ?k new)"
    using set_kept dist by (metis assms(4) distinct_card distinct_filter distinct_take)
  moreover have "length (filter (unexpired cutoff) new) \<le> length new" by simp
  ultimately have count: "length kept = min limit (length (filter (unexpired cutoff) candidates))" using same by simp
  have prefix: "filter (unexpired cutoff) new = take (length (filter (unexpired cutoff) new)) new"
    by (rule descending_filter [OF new(3)]) (auto simp: unexpired_def)
  have fresh: "unexpired cutoff t" if "t \<in> set kept" for t
  proof -
    have "set (take ?k new) \<subseteq> set (filter (unexpired cutoff) new)" by (subst prefix) (rule set_take_subset_set_take, simp)
    then show ?thesis using that set_kept by auto
  qed
  have newest: "finish_time u \<le> finish_time t" if "t \<in> set kept" "u \<in> set candidates" "t_id u \<in> set pruned" for t u
  proof -
    have "u \<in> set (drop ?k new)"
      using that(2,3) kept [of u] new(1) by (metis Un_iff append_take_drop_id set_append)
    moreover have "t \<in> set (take ?k new)" using that(1) set_kept by blast
    moreover have "sorted_wrt (\<lambda>t u. finish_time u \<le> finish_time t) (take ?k new @ drop ?k new)" using new(3) by simp
    ultimately show ?thesis unfolding sorted_wrt_append by blast
  qed
  have "set pruned \<subseteq> t_id ` set candidates" unfolding ids new(1) [symmetric] by (auto simp: in_set_enumerate_eq)
  moreover have "distinct pruned"
  proof -
    have "distinct (map (t_id \<circ> snd) (enumerate 0 new))" using new(2) by (simp add: map_map [symmetric] del: map_map)
    then show ?thesis unfolding ids by (rule distinct_map_filter)
  qed
  ultimately show ?thesis using count fresh newest by blast
qed

definition sample_history :: "task list" where
  "sample_history = [sample_task, finished_task\<lparr>t_id := ''2''\<rparr>, finished_task\<lparr>t_id := ''3''\<rparr>]"

theorem prune_policy_witness:
  "prunable_terminal_ids sample_history 1 None = [''3''] \<and>
   length (filter (\<lambda>t. t_id t \<notin> set (prunable_terminal_ids sample_history 1 None)) (filter (prune_candidate sample_history) sample_history)) =
     min 1 (length (filter (unexpired None) (filter (prune_candidate sample_history) sample_history)))"
proof -
  have ids: "prunable_terminal_ids sample_history 1 None = [''3'']"
    by (simp add: sample_history_def prunable_terminal_ids_def finished_task_def sample_task_def started_def
        apply_outcome_def is_finished_def is_live_def finish_time_def)
  have "distinct (map t_id sample_history)" by (simp add: sample_history_def)
  from prune_policy [OF this refl refl refl, of 1 None] ids show ?thesis by blast
qed

text \<open>
  C37. \<open>prefix_range_end\<close> bounds the keys of a prefix exactly: a key starts with the prefix exactly if it
  lies, in byte order, between the prefix and its range end. (A prefix of only \<open>0xff\<close> bytes has no end.)
\<close>

theorem prefix_range_exact:
  assumes "\<exists>c \<in> set p. of_char c \<noteq> (255 :: nat)"
  shows "(\<exists>z. k = p @ z) \<longleftrightarrow> p \<le> k \<and> k < prefix_range_end p"
  by (rule prefix_range_mem [OF assms])

theorem prefix_range_exact_witness:
  "(\<exists>z. ''p/queue/7'' = ''p/queue/'' @ z) \<longleftrightarrow> ''p/queue/'' \<le> ''p/queue/7'' \<and> ''p/queue/7'' < prefix_range_end ''p/queue/''"
  by (rule prefix_range_exact) simp

text \<open>
  C7. The transactions of the store implement the abstract queue of \<open>Task_Lifecycle\<close>: seen through the task
  records, every world the store can reach is one the abstract queue reaches, and every further step,
  an expiring lease or a crashed master's half-done work included, is one of its moves or changes nothing.
\<close>

theorem task_steps_refine_lifecycle:
  assumes "serde_ok J" "(task_step p J)\<^sup>*\<^sup>* empty_world w"
  shows "lifecycle\<^sup>*\<^sup>* Map.empty (task_table p J w) \<and>
    (\<forall>w'. task_step p J w w' \<longrightarrow> lifecycle (task_table p J w) (task_table p J w'))"
proof -
  note refines = serde_laws.step_refines [OF serde_laws.intro [OF assms(1)]]
  have "lifecycle\<^sup>*\<^sup>* Map.empty (task_table p J w)"
    using assms(2)
  proof (induction rule: rtranclp_induct)
    case base
    show ?case by (simp add: task_table_def empty_world_def)
  next
    case (step x y)
    have "lifecycle (task_table p J x) (task_table p J y)"
      using refines [OF step.hyps(2) reachable_inv [OF assms(1) step.hyps(1)]] .
    then show ?case by (rule rtranclp.rtrancl_into_rtrancl [where r = lifecycle, OF step.IH])
  qed
  then show ?thesis using refines reachable_inv [OF assms] by blast
qed

theorem task_steps_refine_lifecycle_witness:
  "lifecycle (task_table ''p'' ref_serde running_world) (task_table ''p'' ref_serde finished_world)"
  using task_steps_refine_lifecycle [OF ref_serde_ok running_reachable] finished_reachable by blast

section \<open>Polling ends\<close>

text \<open>The reference store is quiet as long as its queue keys stay within a given list.\<close>

definition ref_quiet :: "string \<Rightarrow> string set \<Rightarrow> ref \<Rightarrow> bool" where
  "ref_quiet p K s \<longleftrightarrow> {k \<in> fst ` set (rf_kv s). \<exists>z. k = queue_prefix p @ z} \<subseteq> K"

lemma queue_prefix_key: "queue_prefix p @ i = queue_key p i"
  by (simp add: queue_prefix_def queue_key_def)

lemma ref_ops_keys:
  "fst ` set (foldl ref_op m ops) \<subseteq> fst ` set m \<union> {k. \<exists>v l. TxnPut k v l \<in> set ops}"
proof (induction ops arbitrary: m)
  case (Cons op ops)
  have "fst ` set (ref_op m op) \<subseteq> fst ` set m \<union> {k. \<exists>v l. TxnPut k v l \<in> set (op # ops)}"
    by (cases op) (auto simp: bt_insert_keys)
  moreover have "{k. \<exists>v l. TxnPut k v l \<in> set ops} \<subseteq> {k. \<exists>v l. TxnPut k v l \<in> set (op # ops)}" by auto
  ultimately show ?case
    unfolding foldl.simps by (intro subset_trans [OF Cons.IH] Un_least) (simp_all add: le_supI2)
qed simp

interpretation ref_quiet: quiet_queue ref_etcd p "set ks" "ref_quiet p (set ks)" for p ks
proof unfold_locales
  fix s :: ref
  assume I: "ref_quiet p (set ks) s"
  show "ref_quiet p (set ks) (snd (etcd_get ref_etcd k s))" for k using I by (simp add: ref_etcd_def)
  show "ref_quiet p (set ks) (snd (etcd_range ref_etcd a b n s))" for a b n using I by (simp add: ref_etcd_def Let_def)
  show "ref_quiet p (set ks) (snd (lease_grant ref_etcd ttl s))" for ttl using I by (simp add: ref_etcd_def ref_quiet_def)
  show "ref_quiet p (set ks) (snd (lease_revoke ref_etcd l s))" for l using I by (auto simp: ref_etcd_def ref_quiet_def)
  show "ref_quiet p (set ks) (snd (lease_keep_alive ref_etcd l s))" for l using I by (simp add: ref_etcd_def)
  show "ref_quiet p (set ks) (snd (fresh_uuid ref_etcd s))" using I by (simp add: ref_etcd_def ref_quiet_def)
  show "ref_quiet p (set ks) (snd (clock_ms ref_etcd s))" using I by (simp add: ref_etcd_def)
  show "ref_quiet p (set ks) (snd (etcd_txn ref_etcd cs ops s))"
    if "\<And>k v l. TxnPut k v l \<in> set ops \<Longrightarrow> \<not> is_queue_key p k" for cs ops
  proof -
    have "fst ` set (foldl ref_op (rf_kv s) ops) \<inter> {k. is_queue_key p k} \<subseteq> fst ` set (rf_kv s)"
      using that ref_ops_keys [of "rf_kv s" ops] by blast
    then show ?thesis
      using I unfolding ref_etcd_def ref_quiet_def queue_prefix_key is_queue_key_def by auto
  qed
  show "a \<le> fst kv \<and> fst kv \<in> set ks"
    if "queue_prefix p \<le> a" "kv \<in> set kvs"
      "etcd_range ref_etcd a (prefix_range_end (queue_prefix p)) n s = (Ok (kvs, further), s')" for a n kvs further s' kv
  proof -
    have kvs: "a \<le> fst kv" "fst kv < prefix_range_end (queue_prefix p)" "fst kv \<in> fst ` set (rf_kv s)"
      using that by (auto simp: ref_etcd_def Let_def plain_entries_def image_iff dest!: in_set_takeD) force+
    have "\<exists>c \<in> set (queue_prefix p). of_char c \<noteq> (255 :: nat)" by (simp add: queue_prefix_def)
    from prefix_range_mem [OF this, of "fst kv"] kvs that(1) I show ?thesis
      by (auto simp: ref_quiet_def)
  qed
qed simp

text \<open>
  C15. Polling ends: while nobody adds to a queue of finitely many keys, \<open>claim_next\<close> pages through it and
  returns a claim, nothing, or an error of etcd or a record, after at most one page more than there are
  keys; it never has to be cut off, however its transactions fare, because every page starts beyond the
  last key of the one before.
\<close>

theorem claim_poll_terminates:
  assumes "quiet_queue E p K I" "ts_prefix c = p" "I s" "card K < fuel"
  shows "fst (claim_next_inner E J c fuel s) \<noteq> Err PollBound"
proof -
  have "card {k \<in> K. queue_prefix p \<le> k} \<le> card K"
    by (rule card_mono [OF quiet_queue.finite_keys [OF assms(1)]]) blast
  then have "card {k \<in> K. queue_prefix p \<le> k} < fuel" using assms(4) by simp
  from quiet_queue.claim_pages_quiet [OF assms(1,2) order_refl this assms(3)]
  show ?thesis unfolding claim_next_inner_def assms(2) by (metis prod.collapse)
qed

definition sample_queued_ref :: ref where
  "sample_queued_ref = sample_ref\<lparr>rf_kv := [(queue_key ''p'' ''1'', (ref_text sample_task, None))]\<rparr>"

theorem claim_poll_terminates_witness:
  "fst (claim_next_inner ref_etcd ref_serde sample_store_config 2 sample_queued_ref) \<noteq> Err PollBound"
  by (rule claim_poll_terminates [OF ref_quiet.quiet_queue_axioms [of "''p''" "[queue_key ''p'' ''1'']"]])
    (auto simp: sample_store_config_def sample_queued_ref_def ref_quiet_def sample_ref_def)

end
