(* ===== verification/Context_Record.thy ===== *)
theory Context_Record
  imports Generic_Codec Storage_Base
begin

text \<open>
  The records of the context store, \<open>crates/lance-context-core/src/record.rs\<close>: the record itself with its
  lifecycle, the visibility options of a query, patches, and the filters a caller gives as JSON.
  \<open>serde_json::Value\<close> is \<open>json\<close> over a number type \<open>'n\<close>, taken up to its own equality; instants are
  nanoseconds since the epoch; \<open>chrono\<close>'s RFC 3339 parser is the parameter \<open>rfc3339\<close>.
\<close>

section \<open>Records\<close>

definition LIFECYCLE_ACTIVE :: string where "LIFECYCLE_ACTIVE = ''active''"
definition LIFECYCLE_CONTRADICTED :: string where "LIFECYCLE_CONTRADICTED = ''contradicted''"

definition CONTENT_TYPE_TOMBSTONE :: string where
  "CONTENT_TYPE_TOMBSTONE = ''application/vnd.lance-context.tombstone''"

record state_metadata =
  sm_step :: "int option"
  sm_active_plan_id :: "string option"
  sm_tokens_used :: "int option"
  sm_custom :: "string option"

record relationship =
  rl_target_id :: string
  rl_relation :: string
  rl_weight :: "f32 option"

record 'n context_record =
  cr_id :: string
  cr_external_id :: "string option"
  cr_run_id :: string
  cr_bot_id :: "string option"
  cr_session_id :: "string option"
  cr_tenant :: "string option"
  cr_source :: "string option"
  cr_created_at :: int
  cr_role :: string
  cr_state_metadata :: "state_metadata option"
  cr_metadata :: "'n json option"
  cr_relationships :: "relationship list"
  cr_expires_at :: "int option"
  cr_retention_policy :: "string option"
  cr_lifecycle_status :: string
  cr_retired_at :: "int option"
  cr_retired_reason :: "string option"
  cr_supersedes_id :: "string option"
  cr_superseded_by_id :: "string option"
  cr_content_type :: string
  cr_text_payload :: "string option"
  cr_binary_payload :: "8 word list option"
  cr_payload_uri :: "string option"
  cr_payload_size :: "int option"
  cr_payload_checksum :: "string option"
  cr_embedding :: "f32 list option"

definition is_tombstone :: "'n context_record \<Rightarrow> bool" where
  "is_tombstone r \<longleftrightarrow> cr_content_type r = CONTENT_TYPE_TOMBSTONE"

definition is_expired_at :: "'n context_record \<Rightarrow> int \<Rightarrow> bool" where
  "is_expired_at r now = (case cr_expires_at r of Some t \<Rightarrow> t \<le> now | None \<Rightarrow> False)"

definition is_hidden_by_lifecycle :: "'n context_record \<Rightarrow> bool" where
  "is_hidden_by_lifecycle r =
     (if cr_lifecycle_status r = LIFECYCLE_ACTIVE \<or> cr_lifecycle_status r = LIFECYCLE_CONTRADICTED
      then cr_retired_at r \<noteq> None \<or> cr_superseded_by_id r \<noteq> None
      else True)"

definition has_non_default_lifecycle :: "'n context_record \<Rightarrow> bool" where
  "has_non_default_lifecycle r \<longleftrightarrow>
     cr_expires_at r \<noteq> None \<or> cr_retention_policy r \<noteq> None \<or> cr_lifecycle_status r \<noteq> LIFECYCLE_ACTIVE \<or>
     cr_retired_at r \<noteq> None \<or> cr_retired_reason r \<noteq> None \<or> cr_supersedes_id r \<noteq> None \<or>
     cr_superseded_by_id r \<noteq> None"

record lifecycle_query_options =
  lq_include_expired :: bool
  lq_include_retired :: bool
  lq_reference_time :: int

text \<open>The default options, at the current time.\<close>

definition default_options :: "int \<Rightarrow> lifecycle_query_options" where
  "default_options now = \<lparr>lq_include_expired = False, lq_include_retired = False, lq_reference_time = now\<rparr>"

definition is_visible :: "lifecycle_query_options \<Rightarrow> 'n context_record \<Rightarrow> bool" where
  "is_visible opts r \<longleftrightarrow>
     \<not> is_tombstone r \<and> (lq_include_expired opts \<or> \<not> is_expired_at r (lq_reference_time opts)) \<and>
     (lq_include_retired opts \<or> \<not> is_hidden_by_lifecycle r)"

record 'n upsert_result =
  ur_record :: "'n context_record"
  ur_inserted :: bool
  ur_replaced_id :: "string option"
  ur_version :: nat

record 'n update_result =
  up_record :: "'n context_record"
  up_replaced_id :: string
  up_version :: nat

record 'n record_patch =
  pt_bot_id :: "string option"
  pt_session_id :: "string option"
  pt_tenant :: "string option"
  pt_source :: "string option"
  pt_state_metadata :: "state_metadata option"
  pt_metadata :: "'n json option"
  pt_relationships :: "relationship list option"
  pt_expires_at :: "int option"
  pt_retention_policy :: "string option"
  pt_lifecycle_status :: "string option"
  pt_retired_at :: "int option"
  pt_retired_reason :: "string option"
  pt_embedding :: "f32 list option"
  pt_payload_uri :: "string option"
  pt_payload_size :: "int option"
  pt_payload_checksum :: "string option"

definition patch_is_empty :: "'n record_patch \<Rightarrow> bool" where
  "patch_is_empty p \<longleftrightarrow>
     pt_bot_id p = None \<and> pt_session_id p = None \<and> pt_tenant p = None \<and> pt_source p = None \<and>
     pt_state_metadata p = None \<and> pt_metadata p = None \<and> pt_relationships p = None \<and>
     pt_expires_at p = None \<and> pt_retention_policy p = None \<and> pt_lifecycle_status p = None \<and>
     pt_retired_at p = None \<and> pt_retired_reason p = None \<and> pt_embedding p = None \<and>
     pt_payload_uri p = None \<and> pt_payload_size p = None \<and> pt_payload_checksum p = None"

section \<open>Filters\<close>

datatype 'n metadata_filter = FilterEquals "'n json" | FilterContains "'n json"

text \<open>The \<open>HashMap\<close> of metadata filters is only asked whether all its entries hold; it is kept sorted by key here.\<close>

record 'n record_filters =
  rf_bot_id :: "string option"
  rf_session_id :: "string option"
  rf_tenant :: "string option"
  rf_source :: "string option"
  rf_role :: "string option"
  rf_content_type :: "string option"
  rf_created_at_start :: "int option"
  rf_created_at_end :: "int option"
  rf_metadata :: "(string, 'n metadata_filter) btree_map"

definition empty_filters :: "'n record_filters" where
  "empty_filters = \<lparr>rf_bot_id = None, rf_session_id = None, rf_tenant = None, rf_source = None, rf_role = None,
     rf_content_type = None, rf_created_at_start = None, rf_created_at_end = None, rf_metadata = []\<rparr>"

datatype filter_error =
    FiltersNotObject
  | FilterNotString string
  | CreatedAtNotObject
  | CreatedAtOperator string
  | FilterTimestampNotString string
  | FilterTimestampInvalid string

definition filter_string :: "string \<Rightarrow> 'n json \<Rightarrow> (filter_error, string option) result" where
  "filter_string name v =
     (case v of JNull \<Rightarrow> Ok None | JString s \<Rightarrow> Ok (Some s) | _ \<Rightarrow> Err (FilterNotString name))"

definition parse_filter_datetime ::
  "(string \<Rightarrow> (string, int) result) \<Rightarrow> string \<Rightarrow> 'n json \<Rightarrow> (filter_error, int) result" where
  "parse_filter_datetime rfc3339 name v =
     (case v of
        JString s \<Rightarrow> res_map_err FilterTimestampInvalid (rfc3339 s)
      | _ \<Rightarrow> Err (FilterTimestampNotString name))"

definition created_at_bound ::
  "(string \<Rightarrow> (string, int) result) \<Rightarrow> 'n record_filters \<Rightarrow> string \<times> 'n json \<Rightarrow> (filter_error, 'n record_filters) result"
where
  "created_at_bound rfc3339 f = (\<lambda>(key, v).
     if key \<in> {''gte'', ''start'', ''after''}
     then res_bind (parse_filter_datetime rfc3339 key v) (\<lambda>t. Ok (f\<lparr>rf_created_at_start := Some t\<rparr>))
     else if key \<in> {''lte'', ''end'', ''before''}
     then res_bind (parse_filter_datetime rfc3339 key v) (\<lambda>t. Ok (f\<lparr>rf_created_at_end := Some t\<rparr>))
     else Err (CreatedAtOperator key))"

definition apply_created_at_filter ::
  "(string \<Rightarrow> (string, int) result) \<Rightarrow> 'n record_filters \<Rightarrow> 'n json \<Rightarrow> (filter_error, 'n record_filters) result" where
  "apply_created_at_filter rfc3339 f v =
     (case v of
        JObject obj \<Rightarrow> fold_res (created_at_bound rfc3339) f obj
      | _ \<Rightarrow> Err CreatedAtNotObject)"

definition metadata_filter_of :: "'n json \<Rightarrow> 'n metadata_filter" where
  "metadata_filter_of v =
     (case v of
        JObject [(k, e)] \<Rightarrow> if k = ''contains'' then FilterContains e else FilterEquals v
      | _ \<Rightarrow> FilterEquals v)"

definition add_filter ::
  "(string \<Rightarrow> (string, int) result) \<Rightarrow> 'n record_filters \<Rightarrow> string \<times> 'n json \<Rightarrow> (filter_error, 'n record_filters) result"
where
  "add_filter rfc3339 f = (\<lambda>(key, v).
     if key = ''bot_id'' then res_bind (filter_string key v) (\<lambda>s. Ok (f\<lparr>rf_bot_id := s\<rparr>))
     else if key = ''session_id'' then res_bind (filter_string key v) (\<lambda>s. Ok (f\<lparr>rf_session_id := s\<rparr>))
     else if key = ''tenant'' then res_bind (filter_string key v) (\<lambda>s. Ok (f\<lparr>rf_tenant := s\<rparr>))
     else if key = ''source'' then res_bind (filter_string key v) (\<lambda>s. Ok (f\<lparr>rf_source := s\<rparr>))
     else if key = ''role'' then res_bind (filter_string key v) (\<lambda>s. Ok (f\<lparr>rf_role := s\<rparr>))
     else if key = ''content_type'' then res_bind (filter_string key v) (\<lambda>s. Ok (f\<lparr>rf_content_type := s\<rparr>))
     else if key = ''created_at'' then apply_created_at_filter rfc3339 f v
     else if key \<in> {''created_at_start'', ''created_after'', ''created_at_gte''}
     then res_bind (parse_filter_datetime rfc3339 key v) (\<lambda>t. Ok (f\<lparr>rf_created_at_start := Some t\<rparr>))
     else if key \<in> {''created_at_end'', ''created_before'', ''created_at_lte''}
     then res_bind (parse_filter_datetime rfc3339 key v) (\<lambda>t. Ok (f\<lparr>rf_created_at_end := Some t\<rparr>))
     else Ok (f\<lparr>rf_metadata := bt_insert key (metadata_filter_of v) (rf_metadata f)\<rparr>))"

definition from_json_value ::
  "(string \<Rightarrow> (string, int) result) \<Rightarrow> 'n json \<Rightarrow> (filter_error, 'n record_filters) result" where
  "from_json_value rfc3339 v =
     (case v of
        JObject obj \<Rightarrow> fold_res (add_filter rfc3339) empty_filters obj
      | _ \<Rightarrow> Err FiltersNotObject)"

definition filters_is_empty :: "'n record_filters \<Rightarrow> bool" where
  "filters_is_empty f \<longleftrightarrow>
     rf_bot_id f = None \<and> rf_session_id f = None \<and> rf_tenant f = None \<and> rf_source f = None \<and> rf_role f = None \<and>
     rf_content_type f = None \<and> rf_created_at_start f = None \<and> rf_created_at_end f = None \<and> rf_metadata f = []"

definition metadata_contains :: "'n json \<Rightarrow> 'n json \<Rightarrow> bool" where
  "metadata_contains v expected =
     (case v of
        JArray items \<Rightarrow> list_ex (\<lambda>item. item = expected) items
      | JString s \<Rightarrow> (case expected of JString e \<Rightarrow> contains s e | _ \<Rightarrow> False)
      | _ \<Rightarrow> False)"

definition metadata_get :: "'n context_record \<Rightarrow> string \<Rightarrow> 'n json option" where
  "metadata_get r key = (case cr_metadata r of Some (JObject m) \<Rightarrow> bt_get m key | _ \<Rightarrow> None)"

definition matches_typed_or_metadata ::
  "'n context_record \<Rightarrow> string \<Rightarrow> string option \<Rightarrow> string option \<Rightarrow> bool" where
  "matches_typed_or_metadata r key typed expected =
     (case expected of
        None \<Rightarrow> True
      | Some e \<Rightarrow> if typed \<noteq> None then typed = Some e else metadata_get r key = Some (JString e))"

definition metadata_filter_holds :: "'n context_record \<Rightarrow> string \<times> 'n metadata_filter \<Rightarrow> bool" where
  "metadata_filter_holds r = (\<lambda>(key, f).
     case metadata_get r key of
       None \<Rightarrow> False
     | Some v \<Rightarrow> (case f of FilterEquals e \<Rightarrow> v = e | FilterContains e \<Rightarrow> metadata_contains v e))"

definition filters_match :: "'n record_filters \<Rightarrow> 'n context_record \<Rightarrow> bool" where
  "filters_match f r =
     (if (case rf_bot_id f of Some v \<Rightarrow> cr_bot_id r \<noteq> Some v | None \<Rightarrow> False) then False
      else if (case rf_session_id f of Some v \<Rightarrow> cr_session_id r \<noteq> Some v | None \<Rightarrow> False) then False
      else if \<not> matches_typed_or_metadata r ''tenant'' (cr_tenant r) (rf_tenant f) then False
      else if \<not> matches_typed_or_metadata r ''source'' (cr_source r) (rf_source f) then False
      else if (case rf_role f of Some v \<Rightarrow> cr_role r \<noteq> v | None \<Rightarrow> False) then False
      else if (case rf_content_type f of Some v \<Rightarrow> cr_content_type r \<noteq> v | None \<Rightarrow> False) then False
      else if (case rf_created_at_start f of Some t \<Rightarrow> cr_created_at r < t | None \<Rightarrow> False) then False
      else if (case rf_created_at_end f of Some t \<Rightarrow> t < cr_created_at r | None \<Rightarrow> False) then False
      else list_all (metadata_filter_holds r) (rf_metadata f))"

section \<open>What a JSON filter asks for\<close>

text \<open>The condition one key of the JSON object puts on a record, where the value is well formed.\<close>

definition start_keys :: "string set" where "start_keys = {''created_at_start'', ''created_after'', ''created_at_gte''}"
definition end_keys :: "string set" where "end_keys = {''created_at_end'', ''created_before'', ''created_at_lte''}"

definition start_ops :: "string set" where "start_ops = {''gte'', ''start'', ''after''}"
definition end_ops :: "string set" where "end_ops = {''lte'', ''end'', ''before''}"

text \<open>One bound of a \<open>created_at\<close> range object.\<close>

definition bound_condition ::
  "(string \<Rightarrow> (string, int) result) \<Rightarrow> 'n context_record \<Rightarrow> string \<times> 'n json \<Rightarrow> bool" where
  "bound_condition rfc3339 r = (\<lambda>(op, v). \<exists>s t. v = JString s \<and> rfc3339 s = Ok t \<and>
     (op \<in> start_ops \<and> t \<le> cr_created_at r \<or> op \<in> end_ops \<and> cr_created_at r \<le> t))"

definition filter_condition ::
  "(string \<Rightarrow> (string, int) result) \<Rightarrow> 'n context_record \<Rightarrow> string \<times> 'n json \<Rightarrow> bool" where
  "filter_condition rfc3339 r = (\<lambda>(key, v).
     if key = ''bot_id'' then v = JNull \<or> (\<exists>s. v = JString s \<and> cr_bot_id r = Some s)
     else if key = ''session_id'' then v = JNull \<or> (\<exists>s. v = JString s \<and> cr_session_id r = Some s)
     else if key = ''tenant'' then v = JNull \<or> (\<exists>s. v = JString s \<and>
       (cr_tenant r = Some s \<or> cr_tenant r = None \<and> metadata_get r key = Some (JString s)))
     else if key = ''source'' then v = JNull \<or> (\<exists>s. v = JString s \<and>
       (cr_source r = Some s \<or> cr_source r = None \<and> metadata_get r key = Some (JString s)))
     else if key = ''role'' then v = JNull \<or> v = JString (cr_role r)
     else if key = ''content_type'' then v = JNull \<or> v = JString (cr_content_type r)
     else if key = ''created_at'' then (\<exists>bounds. v = JObject bounds \<and> list_all (bound_condition rfc3339 r) bounds)
     else if key \<in> start_keys then (\<exists>s t. v = JString s \<and> rfc3339 s = Ok t \<and> t \<le> cr_created_at r)
     else if key \<in> end_keys then (\<exists>s t. v = JString s \<and> rfc3339 s = Ok t \<and> cr_created_at r \<le> t)
     else metadata_filter_holds r (key, metadata_filter_of v))"

end
