(* ===== verification/Context_Codec.thy ===== *)
theory Context_Codec
  imports Context_Record Datagen_Codec
begin

text \<open>
  The schema and row codec of the context store, \<open>crates/lance-context-core/src/store.rs\<close>:
  \<open>schema_with_options\<close>, \<open>records_to_batch\<close> with its checks against older datasets, and \<open>batch_to_records\<close>.
  Text stored in a blob column goes through bytes and \<open>String::from_utf8_lossy\<close>. \<open>serde_json\<close>'s printer and
  parser and \<open>chrono\<close>'s range are the parameter \<open>codec\<close>.
\<close>

section \<open>Text as bytes\<close>

definition as_bytes_of :: "string \<Rightarrow> 8 word list" where
  "as_bytes_of s = map (\<lambda>c. of_nat (of_char c)) s"

definition is_continuation :: "nat \<Rightarrow> bool" where
  "is_continuation b \<longleftrightarrow> 128 \<le> b \<and> b < 192"

definition second_byte_ok :: "nat \<Rightarrow> nat \<Rightarrow> bool" where
  "second_byte_ok b c \<longleftrightarrow>
     b = 224 \<and> 160 \<le> c \<and> c \<le> 191 \<or> 225 \<le> b \<and> b \<le> 236 \<and> is_continuation c \<or> b = 237 \<and> 128 \<le> c \<and> c \<le> 159 \<or>
     238 \<le> b \<and> b \<le> 239 \<and> is_continuation c \<or>
     b = 240 \<and> 144 \<le> c \<and> c \<le> 191 \<or> 241 \<le> b \<and> b \<le> 243 \<and> is_continuation c \<or> b = 244 \<and> 128 \<le> c \<and> c \<le> 143"

text \<open>How many bytes the first character takes, or how many are skipped as invalid.\<close>

fun utf8_head :: "nat list \<Rightarrow> nat \<times> bool" where
  "utf8_head [] = (0, True)"
| "utf8_head (b # bs) =
     (let at = (\<lambda>i. if i < length bs then bs ! i else 0) in
      if b < 128 then (1, True)
      else if 194 \<le> b \<and> b \<le> 223 then (if is_continuation (at 0) then (2, True) else (1, False))
      else if 224 \<le> b \<and> b \<le> 239
      then (if \<not> second_byte_ok b (at 0) then (1, False)
            else if is_continuation (at 1) then (3, True) else (2, False))
      else if 240 \<le> b \<and> b \<le> 244
      then (if \<not> second_byte_ok b (at 0) then (1, False)
            else if \<not> is_continuation (at 1) then (2, False)
            else if is_continuation (at 2) then (4, True) else (3, False))
      else (1, False))"

lemma utf8_head_pos: "bs \<noteq> [] \<Longrightarrow> 0 < fst (utf8_head bs)"
  by (cases bs) (simp_all add: Let_def)

function utf8_lossy :: "nat list \<Rightarrow> nat list" where
  "utf8_lossy bs =
     (if bs = [] then []
      else (case utf8_head bs of (n, good) \<Rightarrow> (if good then take n bs else [239, 191, 189]) @ utf8_lossy (drop n bs)))"
  by auto
termination
  by (relation "measure length") (simp_all, metis fst_conv length_greater_0_conv utf8_head_pos diff_less)

declare utf8_lossy.simps [simp del]

function valid_utf8 :: "nat list \<Rightarrow> bool" where
  "valid_utf8 bs =
     (if bs = [] then True else (case utf8_head bs of (n, good) \<Rightarrow> good \<and> valid_utf8 (drop n bs)))"
  by auto
termination
  by (relation "measure length") (simp_all, metis fst_conv length_greater_0_conv utf8_head_pos diff_less)

declare valid_utf8.simps [simp del]

definition from_utf8_lossy :: "8 word list \<Rightarrow> string" where
  "from_utf8_lossy bs = map char_of (utf8_lossy (map unat bs))"

section \<open>Schema\<close>

datatype context_error =
    ReservedContentType
  | DuplicateId string
  | DuplicateExternalId string
  | IdExists string
  | ExternalIdExists string
  | MissingExternalId
  | EmptyExternalId
  | EmptyId
  | AmbiguousExternalId string
  | EmptyQuery
  | EmptyPatch
  | FeatureUnsupported string
  | UnsupportedColumn string
  | RoleKeyOverflow
  | EmbeddingLength nat int
  | NestedColumnType string
  | NestedColumnNull string
  | NullRole
  | InvalidMetadata string
  | InvalidInstant string int
  | NoSuchChild

type_synonym context_store_error = "context_error store_error"

record context_config =
  cc_blob_columns :: "string set"
  cc_embedding_dim :: int

definition state_fields :: "(string \<times> data_type) list" where
  "state_fields = [(''step'', DInt32), (''active_plan_id'', DUtf8), (''tokens_used'', DInt32), (''custom'', DUtf8)]"

definition relationship_struct_fields :: "(string \<times> data_type) list" where
  "relationship_struct_fields = [(''target_id'', DUtf8), (''relation'', DUtf8), (''weight'', DFloat32)]"

definition relationship_field :: field_def where
  "relationship_field = col ''relationships'' (DList (DStruct relationship_struct_fields)) True"

definition schema_with_options ::
  "string set \<Rightarrow> bool \<Rightarrow> bool \<Rightarrow> bool \<Rightarrow> bool \<Rightarrow> bool \<Rightarrow> int \<Rightarrow> field_def list" where
  "schema_with_options blobs include_external_id include_metadata include_relationships include_lifecycle
     include_external_reference embedding_dim =
     [col ''id'' DUtf8 False] @
     (if include_external_id then [col ''external_id'' DUtf8 True] else []) @
     [col ''run_id'' DUtf8 False, col ''bot_id'' DUtf8 True, col ''session_id'' DUtf8 True, col ''tenant'' DUtf8 True,
      col ''source'' DUtf8 True, col ''created_at'' DTimestampMicros False, col ''role'' DDictionary False,
      col ''state_metadata'' (DStruct state_fields) True] @
     (if include_metadata then [col ''metadata'' DLargeUtf8 True] else []) @
     (if include_relationships then [relationship_field] else []) @
     (if include_lifecycle then
       [col ''expires_at'' DTimestampMicros True, col ''retention_policy'' DUtf8 True, col ''lifecycle_status'' DUtf8 False,
        col ''retired_at'' DTimestampMicros True, col ''retired_reason'' DUtf8 True, col ''supersedes_id'' DUtf8 True,
        col ''superseded_by_id'' DUtf8 True] else []) @
     [col ''content_type'' DUtf8 False,
      col ''text_payload'' (if ''text_payload'' \<in> blobs then DLargeBinary else DLargeUtf8) True,
      col ''binary_payload'' DLargeBinary True] @
     (if include_external_reference then
       [col ''payload_uri'' DUtf8 True, col ''payload_size'' DInt64 True, col ''payload_checksum'' DUtf8 True] else []) @
     [col ''embedding'' (DFixedSizeList DFloat32 embedding_dim) True]"

section \<open>Encoding\<close>

definition has_column :: "field_def list \<Rightarrow> string \<Rightarrow> bool" where
  "has_column sch n \<longleftrightarrow> n \<in> fd_name ` set sch"

text \<open>What a dataset created by an older version may lack, in the order the code asks.\<close>

definition check_features :: "field_def list \<Rightarrow> 'n context_record list \<Rightarrow> (context_store_error, unit) result" where
  "check_features sch es =
     (if \<not> has_column sch ''external_id'' \<and> list_ex (\<lambda>e. cr_external_id e \<noteq> None) es
      then Err (Invalid (FeatureUnsupported ''external_id''))
      else if \<not> has_column sch ''metadata'' \<and> list_ex (\<lambda>e. cr_metadata e \<noteq> None) es
      then Err (Invalid (FeatureUnsupported ''metadata''))
      else if \<not> has_column sch ''tenant'' \<and> list_ex (\<lambda>e. cr_tenant e \<noteq> None) es
      then Err (Invalid (FeatureUnsupported ''tenant''))
      else if \<not> has_column sch ''source'' \<and> list_ex (\<lambda>e. cr_source e \<noteq> None) es
      then Err (Invalid (FeatureUnsupported ''source''))
      else if \<not> has_column sch ''relationships'' \<and> list_ex (\<lambda>e. cr_relationships e \<noteq> []) es
      then Err (Invalid (FeatureUnsupported ''relationships''))
      else if \<not> has_column sch ''payload_uri'' \<and>
        list_ex (\<lambda>e. cr_payload_uri e \<noteq> None \<or> cr_payload_size e \<noteq> None \<or> cr_payload_checksum e \<noteq> None) es
      then Err (Invalid (FeatureUnsupported ''payload_uri''))
      else if \<not> has_column sch ''expires_at'' \<and> list_ex has_non_default_lifecycle es
      then Err (Invalid (FeatureUnsupported ''lifecycle''))
      else Ok ())"

text \<open>The two appends that can fail: a role beyond the 128 keys of its dictionary, an embedding of another width.\<close>

fun append_entries :: "int \<Rightarrow> string list \<Rightarrow> 'n context_record list \<Rightarrow> (context_store_error, unit) result" where
  "append_entries dim roles [] = Ok ()"
| "append_entries dim roles (e # es) =
     (let roles' = (if cr_role e \<in> set roles then roles else roles @ [cr_role e]) in
      if 128 < length roles' then Err (Invalid RoleKeyOverflow)
      else case cr_embedding e of
        Some v \<Rightarrow> if int (length v) \<noteq> dim then Err (Invalid (EmbeddingLength (length v) dim))
                  else append_entries dim roles' es
      | None \<Rightarrow> append_entries dim roles' es)"

definition state_cell :: "state_metadata \<Rightarrow> cell" where
  "state_cell m = CStruct state_fields
     [opt_cell CInt32 (sm_step m), opt_cell CUtf8 (sm_active_plan_id m), opt_cell CInt32 (sm_tokens_used m),
      opt_cell CUtf8 (sm_custom m)]"

definition relationship_cell :: "relationship \<Rightarrow> cell" where
  "relationship_cell r = CStruct relationship_struct_fields
     [CUtf8 (rl_target_id r), CUtf8 (rl_relation r), opt_cell CFloat32 (rl_weight r)]"

definition named_cells ::
  "'n json codec \<Rightarrow> context_config \<Rightarrow> field_def list \<Rightarrow> 'n context_record \<Rightarrow> (string \<times> cell) list" where
  "named_cells J c sch e =
     [(''id'', CUtf8 (cr_id e))] @
     (if has_column sch ''external_id'' then [(''external_id'', opt_cell CUtf8 (cr_external_id e))] else []) @
     [(''run_id'', CUtf8 (cr_run_id e)), (''bot_id'', opt_cell CUtf8 (cr_bot_id e)),
      (''session_id'', opt_cell CUtf8 (cr_session_id e)), (''created_at'', CTimestamp (timestamp_micros (cr_created_at e))),
      (''role'', CDictionary (cr_role e)), (''state_metadata'', opt_cell state_cell (cr_state_metadata e))] @
     (if has_column sch ''tenant'' then [(''tenant'', opt_cell CUtf8 (cr_tenant e))] else []) @
     (if has_column sch ''source'' then [(''source'', opt_cell CUtf8 (cr_source e))] else []) @
     (if has_column sch ''metadata'' then [(''metadata'', opt_cell (\<lambda>m. CLargeUtf8 (json_to_string J m)) (cr_metadata e))]
      else []) @
     (if has_column sch ''relationships''
      then [(''relationships'', CList (DStruct relationship_struct_fields) (map relationship_cell (cr_relationships e)))]
      else []) @
     (if has_column sch ''expires_at'' then
       [(''expires_at'', opt_cell (\<lambda>t. CTimestamp (timestamp_micros t)) (cr_expires_at e)),
        (''retention_policy'', opt_cell CUtf8 (cr_retention_policy e)),
        (''lifecycle_status'', CUtf8 (cr_lifecycle_status e)),
        (''retired_at'', opt_cell (\<lambda>t. CTimestamp (timestamp_micros t)) (cr_retired_at e)),
        (''retired_reason'', opt_cell CUtf8 (cr_retired_reason e)),
        (''supersedes_id'', opt_cell CUtf8 (cr_supersedes_id e)),
        (''superseded_by_id'', opt_cell CUtf8 (cr_superseded_by_id e))] else []) @
     [(''content_type'', CUtf8 (cr_content_type e)),
      (''text_payload'', opt_cell (if ''text_payload'' \<in> cc_blob_columns c then (\<lambda>s. CLargeBinary (as_bytes_of s)) else CLargeUtf8)
         (cr_text_payload e)),
      (''binary_payload'', opt_cell CLargeBinary (cr_binary_payload e)),
      (''embedding'', opt_cell (\<lambda>v. CFixedSizeList DFloat32 (cc_embedding_dim c) (map CFloat32 v)) (cr_embedding e))] @
     (if has_column sch ''payload_uri'' then
       [(''payload_uri'', opt_cell CUtf8 (cr_payload_uri e)), (''payload_size'', opt_cell CInt64 (cr_payload_size e)),
        (''payload_checksum'', opt_cell CUtf8 (cr_payload_checksum e))] else [])"

definition column_names :: "field_def list \<Rightarrow> string list" where
  "column_names sch =
     [''id''] @ (if has_column sch ''external_id'' then [''external_id''] else []) @
     [''run_id'', ''bot_id'', ''session_id'', ''created_at'', ''role'', ''state_metadata''] @
     (if has_column sch ''tenant'' then [''tenant''] else []) @ (if has_column sch ''source'' then [''source''] else []) @
     (if has_column sch ''metadata'' then [''metadata''] else []) @
     (if has_column sch ''relationships'' then [''relationships''] else []) @
     (if has_column sch ''expires_at'' then [''expires_at'', ''retention_policy'', ''lifecycle_status'', ''retired_at'',
        ''retired_reason'', ''supersedes_id'', ''superseded_by_id''] else []) @
     [''content_type'', ''text_payload'', ''binary_payload'', ''embedding''] @
     (if has_column sch ''payload_uri'' then [''payload_uri'', ''payload_size'', ''payload_checksum''] else [])"

definition records_to_batch ::
  "'n json codec \<Rightarrow> context_config \<Rightarrow> field_def list \<Rightarrow> 'n context_record list \<Rightarrow> (context_store_error, batch) result" where
  "records_to_batch J c sch es =
     res_bind (check_features sch es) (\<lambda>_.
     res_bind (append_entries (cc_embedding_dim c) [] es) (\<lambda>_.
     res_bind (collect_res (\<lambda>f. guard_ok (fd_name f \<in> set (column_names sch)) (Invalid (UnsupportedColumn (fd_name f)))) sch) (\<lambda>_.
     res_map_err ArrowFault
       (try_new sch (map (\<lambda>e. map (\<lambda>f. the (map_of (named_cells J c sch e) (fd_name f))) sch) es)))))"

section \<open>Decoding\<close>

definition column_struct :: "field_def list \<Rightarrow> string \<Rightarrow> (arrow_error, (string \<times> data_type) list) result" where
  "column_struct sch n =
     (case field_with_name sch n of
        None \<Rightarrow> Err (ColumnNotFound n)
      | Some f \<Rightarrow> (case fd_type f of DStruct fs \<Rightarrow> Ok fs | _ \<Rightarrow> Err (ColumnTypeMismatch n)))"

text \<open>\<open>StructArray::column\<close> and the downcast of its result; an index out of range panics.\<close>

definition child_as :: "(string \<times> data_type) list \<Rightarrow> nat \<Rightarrow> data_type \<Rightarrow> string \<Rightarrow> (context_store_error, unit) result" where
  "child_as fs i t n =
     (if length fs \<le> i then Err (Invalid NoSuchChild)
      else if snd (fs ! i) = t then Ok () else Err (Invalid (NestedColumnType n)))"

definition check_children ::
  "(string \<times> data_type) list \<Rightarrow> (nat \<times> data_type \<times> string) list \<Rightarrow> (context_store_error, unit) result" where
  "check_children fs wanted = res_bind (collect_res (\<lambda>(i, t, n). child_as fs i t n) wanted) (\<lambda>_. Ok ())"

definition text_column :: "field_def list \<Rightarrow> (arrow_error, unit) result" where
  "text_column sch =
     (case field_with_name sch ''text_payload'' of
        None \<Rightarrow> Ok ()
      | Some f \<Rightarrow> if fd_type f = DLargeBinary then Ok () else column_as sch DLargeUtf8 ''text_payload'')"

definition check_columns :: "field_def list \<Rightarrow> (context_store_error, unit) result" where
  "check_columns sch =
     res_bind (res_map_err ArrowFault (column_as sch DUtf8 ''id'')) (\<lambda>_.
     res_bind (res_map_err ArrowFault (column_as sch DUtf8 ''run_id'')) (\<lambda>_.
     res_bind (res_map_err ArrowFault (column_as sch DTimestampMicros ''created_at'')) (\<lambda>_.
     res_bind (res_map_err ArrowFault (column_as sch DDictionary ''role'')) (\<lambda>_.
     res_bind (res_map_err ArrowFault (column_struct sch ''state_metadata'')) (\<lambda>fs.
     res_bind (res_map_err ArrowFault (column_as sch DUtf8 ''content_type'')) (\<lambda>_.
     res_bind (res_map_err ArrowFault (text_column sch)) (\<lambda>_.
     check_children fs [(0, DInt32, ''step''), (1, DUtf8, ''active_plan_id''), (2, DInt32, ''tokens_used''),
       (3, DUtf8, ''custom'')])))))))"

definition instant_from_micros :: "'n json codec \<Rightarrow> int \<Rightarrow> string \<Rightarrow> (context_store_error, int) result" where
  "instant_from_micros J v cn =
     (if micros_ok J v then Ok (v * 1000) else Err (Invalid (InvalidInstant cn v)))"

definition optional_instant ::
  "'n json codec \<Rightarrow> field_def list \<Rightarrow> cell list \<Rightarrow> string \<Rightarrow> (context_store_error, int option) result" where
  "optional_instant J sch r n =
     (case optional_micros sch r n of
        None \<Rightarrow> Ok None
      | Some v \<Rightarrow> res_bind (instant_from_micros J v n) (\<lambda>t. Ok (Some t)))"

definition cell_utf8 :: "cell \<Rightarrow> string option" where
  "cell_utf8 x = (case x of CUtf8 s \<Rightarrow> Some s | _ \<Rightarrow> None)"
definition cell_i32 :: "cell \<Rightarrow> int option" where
  "cell_i32 x = (case x of CInt32 i \<Rightarrow> Some i | _ \<Rightarrow> None)"
definition cell_f32 :: "cell \<Rightarrow> f32 option" where
  "cell_f32 x = (case x of CFloat32 i \<Rightarrow> Some i | _ \<Rightarrow> None)"

definition row_state :: "field_def list \<Rightarrow> cell list \<Rightarrow> state_metadata option" where
  "row_state sch r =
     (case cell_at sch r ''state_metadata'' of
        Some (CStruct _ cs) \<Rightarrow> Some \<lparr>sm_step = cell_i32 (cs ! 0), sm_active_plan_id = cell_utf8 (cs ! 1),
          sm_tokens_used = cell_i32 (cs ! 2), sm_custom = cell_utf8 (cs ! 3)\<rparr>
      | _ \<Rightarrow> None)"

definition row_text :: "field_def list \<Rightarrow> cell list \<Rightarrow> string option" where
  "row_text sch r =
     (case cell_at sch r ''text_payload'' of
        Some (CLargeBinary bs) \<Rightarrow> Some (from_utf8_lossy bs)
      | Some (CLargeUtf8 s) \<Rightarrow> Some s
      | _ \<Rightarrow> None)"

text \<open>An embedding slot that is null reads as the zero its builder left there.\<close>

definition embedding_from_list :: "data_type \<Rightarrow> cell list \<Rightarrow> (context_store_error, f32 list) result" where
  "embedding_from_list item cs =
     (if item \<noteq> DFloat32 then Err (Invalid (NestedColumnType ''embedding''))
      else Ok (map (\<lambda>x. case cell_f32 x of Some v \<Rightarrow> v | None \<Rightarrow> 0) cs))"

definition row_embedding :: "field_def list \<Rightarrow> cell list \<Rightarrow> (context_store_error, f32 list option) result" where
  "row_embedding sch r =
     (case cell_at sch r ''embedding'' of
        Some (CFixedSizeList item _ cs) \<Rightarrow> res_bind (embedding_from_list item cs) (\<lambda>v. Ok (Some v))
      | _ \<Rightarrow> Ok None)"

definition row_role :: "field_def list \<Rightarrow> cell list \<Rightarrow> (context_store_error, string) result" where
  "row_role sch r =
     (case cell_at sch r ''role'' of
        Some (CDictionary s) \<Rightarrow> Ok s
      | _ \<Rightarrow> Err (Invalid NullRole))"

definition row_metadata ::
  "'n json codec \<Rightarrow> field_def list \<Rightarrow> cell list \<Rightarrow> (context_store_error, 'n json option) result" where
  "row_metadata J sch r =
     (case optional_large_string sch r ''metadata'' of
        None \<Rightarrow> Ok None
      | Some s \<Rightarrow> res_bind (ok_or (Invalid (InvalidMetadata (str_at sch r ''id''))) (json_from_str J s)) (\<lambda>v. Ok (Some v)))"

definition relationship_of :: "cell \<Rightarrow> (context_store_error, relationship option) result" where
  "relationship_of x =
     (case x of
        CStruct _ cs \<Rightarrow>
          res_bind (ok_or (Invalid (NestedColumnNull ''target_id'')) (cell_utf8 (cs ! 0))) (\<lambda>target.
          res_bind (ok_or (Invalid (NestedColumnNull ''relation'')) (cell_utf8 (cs ! 1))) (\<lambda>relation.
          Ok (Some \<lparr>rl_target_id = target, rl_relation = relation, rl_weight = cell_f32 (cs ! 2)\<rparr>)))
      | _ \<Rightarrow> Ok None)"

definition relationships_from_list :: "data_type \<Rightarrow> cell list \<Rightarrow> (context_store_error, relationship list) result" where
  "relationships_from_list item xs =
     (case item of
        DStruct fs \<Rightarrow>
          res_bind (check_children fs [(0, DUtf8, ''target_id''), (1, DUtf8, ''relation''), (2, DFloat32, ''weight'')]) (\<lambda>_.
          res_bind (collect_res relationship_of xs) (\<lambda>rs. Ok (concat (map (\<lambda>r. case r of Some x \<Rightarrow> [x] | None \<Rightarrow> []) rs))))
      | _ \<Rightarrow> Err (Invalid (NestedColumnType ''relationships'')))"

definition row_relationships :: "field_def list \<Rightarrow> cell list \<Rightarrow> (context_store_error, relationship list) result" where
  "row_relationships sch r =
     (case cell_at sch r ''relationships'' of
        Some (CList item xs) \<Rightarrow> relationships_from_list item xs
      | _ \<Rightarrow> Ok [])"

definition row_to_record ::
  "'n json codec \<Rightarrow> field_def list \<Rightarrow> cell list \<Rightarrow> (context_store_error, 'n context_record) result" where
  "row_to_record J sch r =
     res_bind (instant_from_micros J (int_or_0 (optional_micros sch r ''created_at'')) ''created_at'') (\<lambda>created_at.
     res_bind (row_embedding sch r) (\<lambda>embedding.
     res_bind (row_role sch r) (\<lambda>role.
     res_bind (row_metadata J sch r) (\<lambda>metadata.
     res_bind (row_relationships sch r) (\<lambda>relationships.
     res_bind (optional_instant J sch r ''expires_at'') (\<lambda>expires_at.
     res_bind (optional_instant J sch r ''retired_at'') (\<lambda>retired_at.
     Ok \<lparr>cr_id = str_at sch r ''id'', cr_external_id = optional_string sch r ''external_id'',
         cr_run_id = str_at sch r ''run_id'', cr_bot_id = optional_string sch r ''bot_id'',
         cr_session_id = optional_string sch r ''session_id'', cr_tenant = optional_string sch r ''tenant'',
         cr_source = optional_string sch r ''source'', cr_created_at = created_at, cr_role = role,
         cr_state_metadata = row_state sch r, cr_metadata = metadata, cr_relationships = relationships,
         cr_expires_at = expires_at, cr_retention_policy = optional_string sch r ''retention_policy'',
         cr_lifecycle_status = (case optional_string sch r ''lifecycle_status'' of Some s \<Rightarrow> s | None \<Rightarrow> LIFECYCLE_ACTIVE),
         cr_retired_at = retired_at, cr_retired_reason = optional_string sch r ''retired_reason'',
         cr_supersedes_id = optional_string sch r ''supersedes_id'',
         cr_superseded_by_id = optional_string sch r ''superseded_by_id'',
         cr_content_type = str_at sch r ''content_type'', cr_text_payload = row_text sch r,
         cr_binary_payload = optional_bytes sch r ''binary_payload'',
         cr_payload_uri = optional_string sch r ''payload_uri'', cr_payload_size = optional_i64 sch r ''payload_size'',
         cr_payload_checksum = optional_string sch r ''payload_checksum'', cr_embedding = embedding\<rparr>)))))))"

definition batch_to_records :: "'n json codec \<Rightarrow> batch \<Rightarrow> (context_store_error, 'n context_record list) result" where
  "batch_to_records J b =
     res_bind (check_columns (b_schema b)) (\<lambda>_. collect_res (row_to_record J (b_schema b)) (b_rows b))"

end
