(* ===== verification/Context_Store.thy ===== *)
theory Context_Store
  imports Context_Codec Datagen_Store
begin

text \<open>
  \<open>ContextStore\<close> of \<open>crates/lance-context-core/src/store.rs\<close>: records with caller-supplied external ids,
  append-only replacement by supersession and deletion by tombstone, over the storage base. A read scans
  the base table and the write-ahead generations, one row per id, and hides what the lifecycle hides.

  The scanner is the parameter \<open>S\<close> (filter, projection); the readings of the clock and the fresh UUIDs of
  a call are its argument \<open>ambient\<close>. The order in which a \<open>HashSet\<close> is walked to build an \<open>IN\<close> list is the
  order of the batch here.
\<close>

section \<open>Scanning\<close>

type_synonym 'l scanner = "string option \<Rightarrow> string list option \<Rightarrow> 'l \<Rightarrow> (lance_error, batch list) result"
type_synonym ('l, 'a) context_io = "('l, context_error, 'a) base_io"

definition reading :: "('s \<Rightarrow> ('e, 'a) result) \<Rightarrow> ('s, 'e, 'a) io" where
  "reading f = (\<lambda>s. (f s, s))"

definition scan_batches ::
  "'l scanner \<Rightarrow> string option \<Rightarrow> string list option \<Rightarrow> 'l base \<Rightarrow> (context_store_error, batch list) result" where
  "scan_batches S f cols b = res_map_err LanceFault (S f cols (sb_lance b))"

definition sql_quoted :: "string \<Rightarrow> string" where
  "sql_quoted v = [CHR 0x27] @ escape_sql_literal v @ [CHR 0x27]"

fun sql_quoted_list :: "string list \<Rightarrow> string" where
  "sql_quoted_list [] = []"
| "sql_quoted_list [v] = sql_quoted v"
| "sql_quoted_list (v # vs) = sql_quoted v @ '','' @ sql_quoted_list vs"

definition sql_in :: "string \<Rightarrow> string list \<Rightarrow> string" where
  "sql_in cn vs = cn @ '' IN ('' @ sql_quoted_list vs @ '')''"

record read_projection =
  rp_text :: bool
  rp_binary :: bool
  rp_embedding :: bool

definition default_projection :: read_projection where
  "default_projection = \<lparr>rp_text = True, rp_binary = True, rp_embedding = True\<rparr>"

definition loads_all :: "read_projection \<Rightarrow> bool" where
  "loads_all p \<longleftrightarrow> rp_text p \<and> rp_binary p \<and> rp_embedding p"

definition projected_columns :: "field_def list \<Rightarrow> read_projection \<Rightarrow> string list" where
  "projected_columns sch p = filter (\<lambda>n. (rp_text p \<or> n \<noteq> ''text_payload'') \<and> (rp_binary p \<or> n \<noteq> ''binary_payload'') \<and>
     (rp_embedding p \<or> n \<noteq> ''embedding'')) (map fd_name sch)"

definition lsm_scanner_projected ::
  "'l lance \<Rightarrow> 'l scanner \<Rightarrow> read_projection \<Rightarrow> 'l base \<Rightarrow> (context_store_error, batch list) result" where
  "lsm_scanner_projected L S p b =
     scan_batches S None (if loads_all p then None else Some (projected_columns (table_schema L (sb_lance b)) p)) b"

section \<open>Reading\<close>

definition superseded_ids :: "'n context_record list \<Rightarrow> string list" where
  "superseded_ids rs = concat (map (\<lambda>r. case cr_supersedes_id r of
     Some s \<Rightarrow> if s = cr_id r then [] else [s] | None \<Rightarrow> []) rs)"

definition list_filtered_projected ::
  "'l lance \<Rightarrow> 'l scanner \<Rightarrow> 'n json codec \<Rightarrow> nat option \<Rightarrow> nat option \<Rightarrow> 'n record_filters option \<Rightarrow>
   lifecycle_query_options \<Rightarrow> read_projection \<Rightarrow> 'l base \<Rightarrow> (context_store_error, 'n context_record list) result" where
  "list_filtered_projected L S J limit offset filters opts proj b =
     res_bind (lsm_scanner_projected L S proj b) (\<lambda>batches.
     res_bind (collect_res (batch_to_records J) batches) (\<lambda>rss.
     (let results = concat rss;
          superseded = superseded_ids results;
          visible = filter (\<lambda>r. is_visible opts r \<and> (lq_include_retired opts \<or> cr_id r \<notin> set superseded)) results;
          matching = (case filters of
            Some f \<Rightarrow> if filters_is_empty f then visible else filter (filters_match f) visible | None \<Rightarrow> visible);
          skipped = (case offset of Some n \<Rightarrow> drop n matching | None \<Rightarrow> matching)
      in Ok (case limit of Some n \<Rightarrow> take n skipped | None \<Rightarrow> skipped))))"

definition list_records ::
  "'l lance \<Rightarrow> 'l scanner \<Rightarrow> 'n json codec \<Rightarrow> int \<Rightarrow> 'l base \<Rightarrow> (context_store_error, 'n context_record list) result" where
  "list_records L S J now b =
     list_filtered_projected L S J None None None (default_options now) default_projection b"

definition get_by_id ::
  "'l lance \<Rightarrow> 'l scanner \<Rightarrow> 'n json codec \<Rightarrow> int \<Rightarrow> string \<Rightarrow> 'l base \<Rightarrow>
   (context_store_error, 'n context_record option) result" where
  "get_by_id L S J now i b = res_bind (list_records L S J now b) (\<lambda>rs. Ok (find (\<lambda>r. cr_id r = i) rs))"

definition get_by_external_id ::
  "'l lance \<Rightarrow> 'l scanner \<Rightarrow> 'n json codec \<Rightarrow> int \<Rightarrow> string \<Rightarrow> 'l base \<Rightarrow>
   (context_store_error, 'n context_record option) result" where
  "get_by_external_id L S J now x b =
     res_bind (list_records L S J now b) (\<lambda>rs. Ok (find (\<lambda>r. cr_external_id r = Some x) rs))"

definition relates_to :: "string \<Rightarrow> string option \<Rightarrow> 'n context_record \<Rightarrow> bool" where
  "relates_to target relation r =
     list_ex (\<lambda>l. rl_target_id l = target \<and> (case relation of Some v \<Rightarrow> rl_relation l = v | None \<Rightarrow> True))
       (cr_relationships r)"

definition list_related_with_options ::
  "'l lance \<Rightarrow> 'l scanner \<Rightarrow> 'n json codec \<Rightarrow> string \<Rightarrow> string option \<Rightarrow> nat option \<Rightarrow> lifecycle_query_options \<Rightarrow>
   'l base \<Rightarrow> (context_store_error, 'n context_record list) result" where
  "list_related_with_options L S J target relation limit opts b =
     res_bind (list_filtered_projected L S J None None None opts default_projection b) (\<lambda>rs.
     (let related = filter (relates_to target relation) rs
      in Ok (case limit of Some n \<Rightarrow> take n related | None \<Rightarrow> related)))"

section \<open>Keys in use\<close>

text \<open>The non-tombstone values of a key column in one batch; \<open>optional\<close>: a missing column is skipped, not an error.\<close>

definition keys_in_batch ::
  "bool \<Rightarrow> string \<Rightarrow> string list \<Rightarrow> batch \<Rightarrow> (context_store_error, string list) result" where
  "keys_in_batch optional cn candidates b =
     res_bind (if optional then Ok () else res_map_err ArrowFault (column_as (b_schema b) DUtf8 cn)) (\<lambda>_.
     res_bind (res_map_err ArrowFault (column_as (b_schema b) DUtf8 ''content_type'')) (\<lambda>_.
     Ok (concat (map (\<lambda>r.
       if str_at (b_schema b) r ''content_type'' = CONTENT_TYPE_TOMBSTONE then []
       else case (if optional then optional_string (b_schema b) r cn else Some (str_at (b_schema b) r cn)) of
         Some v \<Rightarrow> if v \<in> set candidates then [v] else []
       | None \<Rightarrow> []) (b_rows b)))))"

definition existing_keys ::
  "'l scanner \<Rightarrow> bool \<Rightarrow> string \<Rightarrow> string list \<Rightarrow> 'l base \<Rightarrow> (context_store_error, string list) result" where
  "existing_keys S optional cn candidates b =
     res_bind (scan_batches S (Some (sql_in cn candidates)) (Some [cn, ''content_type'']) b) (\<lambda>batches.
     res_bind (collect_res (keys_in_batch optional cn candidates) batches) (\<lambda>kss. Ok (concat kss)))"

definition find_existing_keys ::
  "'l lance \<Rightarrow> 'l scanner \<Rightarrow> string list \<Rightarrow> string list \<Rightarrow> 'l base \<Rightarrow>
   (context_store_error, string list \<times> string list) result" where
  "find_existing_keys L S ids external_ids b =
     res_bind (if ids \<noteq> [] then existing_keys S False ''id'' ids b else Ok []) (\<lambda>existing.
     res_bind (if external_ids \<noteq> [] \<and> has_column (table_schema L (sb_lance b)) ''external_id''
               then existing_keys S True ''external_id'' external_ids b else Ok []) (\<lambda>existing_external.
     Ok (existing, existing_external)))"

fun batch_keys_distinct ::
  "string list \<Rightarrow> string list \<Rightarrow> 'n context_record list \<Rightarrow> (context_store_error, unit) result" where
  "batch_keys_distinct ids exts [] = Ok ()"
| "batch_keys_distinct ids exts (e # es) =
     (if is_tombstone e then Err (Invalid ReservedContentType)
      else if cr_id e \<in> set ids then Err (Invalid (DuplicateId (cr_id e)))
      else case cr_external_id e of
        Some x \<Rightarrow> if x \<in> set exts then Err (Invalid (DuplicateExternalId x))
                  else batch_keys_distinct (cr_id e # ids) (x # exts) es
      | None \<Rightarrow> batch_keys_distinct (cr_id e # ids) exts es)"

definition external_ids_of :: "'n context_record list \<Rightarrow> string list" where
  "external_ids_of es = concat (map (\<lambda>e. case cr_external_id e of Some x \<Rightarrow> [x] | None \<Rightarrow> []) es)"

definition entry_unused ::
  "string list \<Rightarrow> string list \<Rightarrow> 'n context_record \<Rightarrow> (context_store_error, unit) result" where
  "entry_unused existing existing_external e =
     (if cr_id e \<in> set existing then Err (Invalid (IdExists (cr_id e)))
      else case cr_external_id e of
        Some x \<Rightarrow> guard_ok (x \<notin> set existing_external) (Invalid (ExternalIdExists x))
      | None \<Rightarrow> Ok ())"

definition validate_unique_ids ::
  "'l lance \<Rightarrow> 'l scanner \<Rightarrow> 'n context_record list \<Rightarrow> 'l base \<Rightarrow> (context_store_error, unit) result" where
  "validate_unique_ids L S es b =
     res_bind (batch_keys_distinct [] [] es) (\<lambda>_.
     res_bind (find_existing_keys L S (map cr_id es) (external_ids_of es) b) (\<lambda>(existing, existing_external).
     res_bind (collect_res (entry_unused existing existing_external) es) (\<lambda>_. Ok ())))"

definition validate_new_record_id ::
  "'l lance \<Rightarrow> 'l scanner \<Rightarrow> 'n context_record \<Rightarrow> 'l base \<Rightarrow> (context_store_error, unit) result" where
  "validate_new_record_id L S e b =
     res_bind (find_existing_keys L S [cr_id e] [] b) (\<lambda>(existing, _).
     guard_ok (cr_id e \<notin> set existing) (Invalid (IdExists (cr_id e))))"

section \<open>Writing\<close>

definition write_entries ::
  "'l lance \<Rightarrow> 'n json codec \<Rightarrow> context_config \<Rightarrow> 'n context_record list \<Rightarrow> ('l, nat) context_io" where
  "write_entries L J c es =
     (if es = [] then base_version L
      else io_bind (reading (\<lambda>b. records_to_batch J c (table_schema L (sb_lance b)) es)) (\<lambda>batch.
           io_bind (put L [batch]) (\<lambda>_. base_version L)))"

definition add ::
  "'l lance \<Rightarrow> 'l scanner \<Rightarrow> 'n json codec \<Rightarrow> context_config \<Rightarrow> 'n context_record list \<Rightarrow> ('l, nat) context_io" where
  "add L S J c es =
     (if es = [] then base_version L
      else io_bind (reading (validate_unique_ids L S es)) (\<lambda>_. write_entries L J c es))"

record ambient =
  am_read_time :: int
  am_write_time :: int
  am_new_id :: string
  am_new_run_id :: string

definition tombstone_for :: "int \<Rightarrow> 'n context_record \<Rightarrow> 'n context_record" where
  "tombstone_for now r =
     \<lparr>cr_id = cr_id r, cr_external_id = cr_external_id r, cr_run_id = cr_run_id r, cr_bot_id = cr_bot_id r,
      cr_session_id = cr_session_id r, cr_tenant = cr_tenant r, cr_source = cr_source r, cr_created_at = now,
      cr_role = cr_role r, cr_state_metadata = None, cr_metadata = None, cr_relationships = [],
      cr_expires_at = None, cr_retention_policy = None, cr_lifecycle_status = LIFECYCLE_ACTIVE,
      cr_retired_at = None, cr_retired_reason = None, cr_supersedes_id = None, cr_superseded_by_id = None,
      cr_content_type = CONTENT_TYPE_TOMBSTONE, cr_text_payload = None, cr_binary_payload = None,
      cr_payload_uri = None, cr_payload_size = None, cr_payload_checksum = None, cr_embedding = None\<rparr>"

definition write_tombstone_for ::
  "'l lance \<Rightarrow> 'n json codec \<Rightarrow> context_config \<Rightarrow> int \<Rightarrow> 'n context_record \<Rightarrow> ('l, nat) context_io" where
  "write_tombstone_for L J c now r = write_entries L J c [tombstone_for now r]"

definition delete_found ::
  "'l lance \<Rightarrow> 'n json codec \<Rightarrow> context_config \<Rightarrow> ambient \<Rightarrow> 'n context_record option \<Rightarrow> ('l, bool) context_io" where
  "delete_found L J c am found =
     (case found of
        None \<Rightarrow> io_return False
      | Some r \<Rightarrow> io_bind (write_tombstone_for L J c (am_write_time am) r) (\<lambda>_. io_return True))"

definition delete_by_id ::
  "'l lance \<Rightarrow> 'l scanner \<Rightarrow> 'n json codec \<Rightarrow> context_config \<Rightarrow> ambient \<Rightarrow> string \<Rightarrow> ('l, bool) context_io" where
  "delete_by_id L S J c am i = io_bind (reading (get_by_id L S J (am_read_time am) i)) (delete_found L J c am)"

definition delete_by_external_id ::
  "'l lance \<Rightarrow> 'l scanner \<Rightarrow> 'n json codec \<Rightarrow> context_config \<Rightarrow> ambient \<Rightarrow> string \<Rightarrow> ('l, bool) context_io" where
  "delete_by_external_id L S J c am x =
     io_bind (reading (get_by_external_id L S J (am_read_time am) x)) (delete_found L J c am)"

definition upsert_by_external_id ::
  "'l lance \<Rightarrow> 'l scanner \<Rightarrow> 'n json codec \<Rightarrow> context_config \<Rightarrow> ambient \<Rightarrow> 'n context_record \<Rightarrow>
   ('l, 'n upsert_result) context_io" where
  "upsert_by_external_id L S J c am r0 =
     (case cr_external_id r0 of
        None \<Rightarrow> io_result (Err (Invalid MissingExternalId))
      | Some x \<Rightarrow>
          if x = [] then io_result (Err (Invalid EmptyExternalId))
          else if is_tombstone r0 then io_result (Err (Invalid ReservedContentType))
          else (let r = r0\<lparr>cr_supersedes_id := None, cr_superseded_by_id := None\<rparr> in
            io_bind (reading (validate_new_record_id L S r)) (\<lambda>_.
            io_bind (reading (list_records L S J (am_read_time am))) (\<lambda>rs.
            case filter (\<lambda>e. cr_external_id e = Some x) rs of
              [] \<Rightarrow> io_bind (add L S J c [r]) (\<lambda>version.
                io_return \<lparr>ur_record = r, ur_inserted = True, ur_replaced_id = None, ur_version = version\<rparr>)
            | [existing] \<Rightarrow>
                (let r' = r\<lparr>cr_supersedes_id := Some (cr_id existing)\<rparr> in
                 io_bind (write_entries L J c [r']) (\<lambda>version.
                 io_return \<lparr>ur_record = r', ur_inserted = False, ur_replaced_id = Some (cr_id existing), ur_version = version\<rparr>))
            | _ \<Rightarrow> io_result (Err (Invalid (AmbiguousExternalId x)))))))"

section \<open>Batch upsert\<close>

record external_id_state =
  xs_visible_ids :: "string list"
  xs_has_non_tombstone :: bool

definition external_id_step ::
  "lifecycle_query_options \<Rightarrow> string list \<Rightarrow> string list \<Rightarrow> (string \<rightharpoonup> external_id_state) \<Rightarrow> 'n context_record \<Rightarrow>
   (string \<rightharpoonup> external_id_state)" where
  "external_id_step opts candidates superseded states r =
     (case cr_external_id r of
        None \<Rightarrow> states
      | Some x \<Rightarrow>
          if x \<notin> set candidates then states
          else (let entry = (case states x of Some st \<Rightarrow> st | None \<Rightarrow> \<lparr>xs_visible_ids = [], xs_has_non_tombstone = False\<rparr>);
                    entry = (if is_tombstone r then entry else entry\<lparr>xs_has_non_tombstone := True\<rparr>)
                in states(x \<mapsto> (if is_visible opts r \<and> cr_id r \<notin> set superseded
                     then entry\<lparr>xs_visible_ids := xs_visible_ids entry @ [cr_id r]\<rparr> else entry))))"

definition external_id_states ::
  "'l lance \<Rightarrow> 'l scanner \<Rightarrow> 'n json codec \<Rightarrow> int \<Rightarrow> string list \<Rightarrow> 'l base \<Rightarrow>
   (context_store_error, string \<rightharpoonup> external_id_state) result" where
  "external_id_states L S J now external_ids b =
     (let candidates = filter (\<lambda>x. x \<noteq> []) external_ids in
      if candidates = [] then Ok Map.empty
      else res_bind (scan_batches S (Some (sql_in ''external_id'' candidates)) None b) (\<lambda>batches.
           res_bind (collect_res (batch_to_records J) batches) (\<lambda>rss.
           (let rows = concat rss
            in Ok (foldl (external_id_step (default_options now) candidates (superseded_ids rows)) Map.empty rows)))))"

fun check_upsert_batch ::
  "string list \<Rightarrow> string list \<Rightarrow> 'n context_record list \<Rightarrow> (context_store_error, unit) result" where
  "check_upsert_batch ids exts [] = Ok ()"
| "check_upsert_batch ids exts (e # es) =
     (case cr_external_id e of
        None \<Rightarrow> Err (Invalid MissingExternalId)
      | Some x \<Rightarrow>
          if x = [] then Err (Invalid EmptyExternalId)
          else if is_tombstone e then Err (Invalid ReservedContentType)
          else if cr_id e \<in> set ids then Err (Invalid (DuplicateId (cr_id e)))
          else if x \<in> set exts then Err (Invalid (DuplicateExternalId x))
          else check_upsert_batch (cr_id e # ids) (x # exts) es)"

definition upsert_outcome ::
  "(string \<rightharpoonup> external_id_state) \<Rightarrow> 'n context_record \<Rightarrow>
   (context_store_error, 'n context_record \<times> bool \<times> string option) result" where
  "upsert_outcome states r =
     (let x = (case cr_external_id r of Some x \<Rightarrow> x | None \<Rightarrow> []) in
      case states x of
        Some st \<Rightarrow>
          if 1 < length (xs_visible_ids st) then Err (Invalid (AmbiguousExternalId x))
          else if length (xs_visible_ids st) = 1
          then Ok (r\<lparr>cr_supersedes_id := Some (hd (xs_visible_ids st))\<rparr>, False, Some (hd (xs_visible_ids st)))
          else if xs_has_non_tombstone st then Err (Invalid (ExternalIdExists x))
          else Ok (r, True, None)
      | None \<Rightarrow> Ok (r, True, None))"

definition upsert_many_by_external_id ::
  "'l lance \<Rightarrow> 'l scanner \<Rightarrow> 'n json codec \<Rightarrow> context_config \<Rightarrow> ambient \<Rightarrow> 'n context_record list \<Rightarrow>
   ('l, 'n upsert_result list) context_io" where
  "upsert_many_by_external_id L S J c am rs0 =
     (if rs0 = [] then io_return []
      else io_bind (io_result (check_upsert_batch [] [] rs0)) (\<lambda>_.
      (let rs = map (\<lambda>r. r\<lparr>cr_supersedes_id := None, cr_superseded_by_id := None\<rparr>) rs0 in
       io_bind (reading (find_existing_keys L S (map cr_id rs) [])) (\<lambda>(existing, _).
       io_bind (io_result (case find (\<lambda>r. cr_id r \<in> set existing) rs of
           Some r \<Rightarrow> Err (Invalid (IdExists (cr_id r))) | None \<Rightarrow> Ok ())) (\<lambda>_.
       io_bind (reading (external_id_states L S J (am_read_time am)
           (map (\<lambda>r. case cr_external_id r of Some x \<Rightarrow> x | None \<Rightarrow> []) rs))) (\<lambda>states.
       io_bind (io_result (collect_res (upsert_outcome states) rs)) (\<lambda>outcomes.
       io_bind (write_entries L J c (map fst outcomes)) (\<lambda>version.
       io_return (map (\<lambda>(r, inserted, replaced).
         \<lparr>ur_record = r, ur_inserted = inserted, ur_replaced_id = replaced, ur_version = version\<rparr>) outcomes)))))))))"

section \<open>Partial update\<close>

definition patched :: "'a option \<Rightarrow> 'a option \<Rightarrow> 'a option" where
  "patched p old = (case p of Some v \<Rightarrow> Some v | None \<Rightarrow> old)"

definition apply_patch :: "ambient \<Rightarrow> 'n record_patch \<Rightarrow> 'n context_record \<Rightarrow> 'n context_record" where
  "apply_patch am p existing =
     existing\<lparr>cr_id := am_new_id am, cr_run_id := am_new_run_id am, cr_created_at := am_write_time am,
       cr_supersedes_id := Some (cr_id existing), cr_superseded_by_id := None,
       cr_bot_id := patched (pt_bot_id p) (cr_bot_id existing),
       cr_session_id := patched (pt_session_id p) (cr_session_id existing),
       cr_tenant := patched (pt_tenant p) (cr_tenant existing),
       cr_source := patched (pt_source p) (cr_source existing),
       cr_state_metadata := patched (pt_state_metadata p) (cr_state_metadata existing),
       cr_metadata := patched (pt_metadata p) (cr_metadata existing),
       cr_relationships := (case pt_relationships p of Some v \<Rightarrow> v | None \<Rightarrow> cr_relationships existing),
       cr_expires_at := patched (pt_expires_at p) (cr_expires_at existing),
       cr_retention_policy := patched (pt_retention_policy p) (cr_retention_policy existing),
       cr_lifecycle_status := (case pt_lifecycle_status p of Some v \<Rightarrow> v | None \<Rightarrow> cr_lifecycle_status existing),
       cr_retired_at := patched (pt_retired_at p) (cr_retired_at existing),
       cr_retired_reason := patched (pt_retired_reason p) (cr_retired_reason existing),
       cr_embedding := patched (pt_embedding p) (cr_embedding existing),
       cr_payload_uri := patched (pt_payload_uri p) (cr_payload_uri existing),
       cr_payload_size := patched (pt_payload_size p) (cr_payload_size existing),
       cr_payload_checksum := patched (pt_payload_checksum p) (cr_payload_checksum existing)\<rparr>"

definition update_visible_record ::
  "'l lance \<Rightarrow> 'l scanner \<Rightarrow> 'n json codec \<Rightarrow> context_config \<Rightarrow> ambient \<Rightarrow> 'n context_record \<Rightarrow> 'n record_patch \<Rightarrow>
   ('l, 'n update_result) context_io" where
  "update_visible_record L S J c am existing p =
     (if patch_is_empty p then io_result (Err (Invalid EmptyPatch))
      else (let r = apply_patch am p existing in
        io_bind (reading (validate_new_record_id L S r)) (\<lambda>_.
        io_bind (write_entries L J c [r]) (\<lambda>version.
        io_return \<lparr>up_record = r, up_replaced_id = cr_id existing, up_version = version\<rparr>))))"

definition update_by_id ::
  "'l lance \<Rightarrow> 'l scanner \<Rightarrow> 'n json codec \<Rightarrow> context_config \<Rightarrow> ambient \<Rightarrow> string \<Rightarrow> 'n record_patch \<Rightarrow>
   ('l, 'n update_result option) context_io" where
  "update_by_id L S J c am i p =
     (if i = [] then io_result (Err (Invalid EmptyId))
      else io_bind (reading (get_by_id L S J (am_read_time am) i)) (\<lambda>found.
        case found of
          None \<Rightarrow> io_return None
        | Some existing \<Rightarrow> io_bind (update_visible_record L S J c am existing p) (\<lambda>u. io_return (Some u))))"

definition update_by_external_id ::
  "'l lance \<Rightarrow> 'l scanner \<Rightarrow> 'n json codec \<Rightarrow> context_config \<Rightarrow> ambient \<Rightarrow> string \<Rightarrow> 'n record_patch \<Rightarrow>
   ('l, 'n update_result option) context_io" where
  "update_by_external_id L S J c am x p =
     (if x = [] then io_result (Err (Invalid EmptyExternalId))
      else io_bind (reading (list_records L S J (am_read_time am))) (\<lambda>rs.
        case filter (\<lambda>e. cr_external_id e = Some x) rs of
          [] \<Rightarrow> io_return None
        | [existing] \<Rightarrow> io_bind (update_visible_record L S J c am existing p) (\<lambda>u. io_return (Some u))
        | _ \<Rightarrow> io_result (Err (Invalid (AmbiguousExternalId x)))))"

end
