(* ===== verification/Float_Arith.thy ===== *)
theory Float_Arith
  imports Floats
begin

text \<open>
  \<open>f32\<close> and \<open>f64\<close> arithmetic as IEEE 754 defines it, on bit patterns: the exact result, rounded to nearest with ties to
  even. A finite \<open>f32\<close> is a multiple of \<open>2 ^ - 149\<close>, an \<open>f64\<close> of \<open>2 ^ - 1074\<close>, so sums and products are exact integers before
  rounding. The sign and payload of a NaN result, which Rust leaves open, are those of the canonical quiet
  NaN here. \<open>total_cmp\<close> is the order on the bit patterns.
\<close>

definition f32_nan :: f32 where "f32_nan = 0x7FC00000"
definition f32_zero :: "nat \<Rightarrow> f32" where "f32_zero s = f32_pack s 0"

definition f32_is_nan :: "f32 \<Rightarrow> bool" where "f32_is_nan w \<longleftrightarrow> f32_exponent w = 255 \<and> f32_mantissa w \<noteq> 0"
definition f32_is_inf :: "f32 \<Rightarrow> bool" where "f32_is_inf w \<longleftrightarrow> f32_exponent w = 255 \<and> f32_mantissa w = 0"

text \<open>The magnitude of a finite \<open>f32\<close> in units of \<open>2 ^ - 149\<close>.\<close>

definition f32_units :: "f32 \<Rightarrow> nat" where
  "f32_units w = (if f32_exponent w = 0 then f32_mantissa w else (2 ^ 23 + f32_mantissa w) * 2 ^ (f32_exponent w - 1))"

definition f32_is_zero :: "f32 \<Rightarrow> bool" where "f32_is_zero w \<longleftrightarrow> f32_finite w \<and> f32_units w = 0"

definition signed_units :: "f32 \<Rightarrow> int" where
  "signed_units w = (if f32_sign w = 0 then int (f32_units w) else - int (f32_units w))"

text \<open>\<open>n / d\<close> to the nearest integer, ties to even; the exponent of its leading bit.\<close>

definition round_div :: "nat \<Rightarrow> nat \<Rightarrow> nat" where
  "round_div n d = (let q = n div d; r = n mod d in if d < 2 * r \<or> 2 * r = d \<and> odd q then q + 1 else q)"

definition floor_log :: "nat \<Rightarrow> nat \<Rightarrow> int" where
  "floor_log n d = (let k = int (msb n) - int (msb d) in
     if (if 0 \<le> k then d * 2 ^ nat k \<le> n else d \<le> n * 2 ^ nat (- k)) then k else k - 1)"

definition f32_round :: "nat \<Rightarrow> nat \<Rightarrow> nat \<Rightarrow> f32" where
  "f32_round s n d =
     (if n = 0 then f32_zero s
      else (let e = max (- 126) (floor_log n d);
                q = (if e \<le> 23 then round_div (n * 2 ^ nat (23 - e)) d else round_div n (d * 2 ^ nat (e - 23)))
            in f32_pack s (min (nat (e + 126) * 2 ^ 23 + q) (255 * 2 ^ 23))))"

definition flip :: "nat \<Rightarrow> nat \<Rightarrow> nat" where "flip s t = (s + t) mod 2"

definition f32_neg :: "f32 \<Rightarrow> f32" where
  "f32_neg w = f32_pack (1 - f32_sign w) (f32_exponent w * 2 ^ 23 + f32_mantissa w)"

definition f32_add :: "f32 \<Rightarrow> f32 \<Rightarrow> f32" where
  "f32_add a b =
     (if f32_is_nan a \<or> f32_is_nan b then f32_nan
      else if f32_is_inf a then (if f32_is_inf b \<and> f32_sign a \<noteq> f32_sign b then f32_nan else a)
      else if f32_is_inf b then b
      else (let k = signed_units a + signed_units b in
        if k = 0 then f32_zero (if f32_sign a = 1 \<and> f32_sign b = 1 then 1 else 0)
        else f32_round (if k < 0 then 1 else 0) (nat \<bar>k\<bar>) (2 ^ 149)))"

definition f32_sub :: "f32 \<Rightarrow> f32 \<Rightarrow> f32" where "f32_sub a b = f32_add a (f32_neg b)"

definition f32_mul :: "f32 \<Rightarrow> f32 \<Rightarrow> f32" where
  "f32_mul a b =
     (let s = flip (f32_sign a) (f32_sign b) in
      if f32_is_nan a \<or> f32_is_nan b then f32_nan
      else if f32_is_inf a \<or> f32_is_inf b then (if f32_is_zero a \<or> f32_is_zero b then f32_nan else f32_inf s)
      else f32_round s (f32_units a * f32_units b) (2 ^ 298))"

definition f32_div :: "f32 \<Rightarrow> f32 \<Rightarrow> f32" where
  "f32_div a b =
     (let s = flip (f32_sign a) (f32_sign b) in
      if f32_is_nan a \<or> f32_is_nan b then f32_nan
      else if f32_is_inf a then (if f32_is_inf b then f32_nan else f32_inf s)
      else if f32_is_inf b then f32_zero s
      else if f32_is_zero b then (if f32_is_zero a then f32_nan else f32_inf s)
      else f32_round s (f32_units a) (f32_units b))"

fun isqrt :: "nat \<Rightarrow> nat" where
  "isqrt n = (if n = 0 then 0 else (let r = 2 * isqrt (n div 4) in if (r + 1) * (r + 1) \<le> n then r + 1 else r))"

declare isqrt.simps [simp del]

text \<open>
  The root of \<open>u\<close> units is the root of \<open>u * 2 ^ 151\<close> over \<open>2 ^ 150\<close>; an inexact root is rounded like the middle between
  its floor and the next integer, which is far below the last bit kept.
\<close>

definition f32_sqrt :: "f32 \<Rightarrow> f32" where
  "f32_sqrt a =
     (if f32_is_nan a then f32_nan
      else if f32_is_zero a then a
      else if f32_sign a = 1 then f32_nan
      else if f32_is_inf a then a
      else (let n = f32_units a * 2 ^ 151; m = isqrt n in
        if m * m = n then f32_round 0 m (2 ^ 150) else f32_round 0 (2 * m + 1) (2 ^ 151)))"

definition f32_of_nat :: "nat \<Rightarrow> f32" where "f32_of_nat n = f32_round 0 n 1"

text \<open>\<open>==\<close> on floats: equal bits but for NaNs, and the two zeros are equal.\<close>

definition f32_eq :: "f32 \<Rightarrow> f32 \<Rightarrow> bool" where
  "f32_eq a b \<longleftrightarrow> \<not> f32_is_nan a \<and> \<not> f32_is_nan b \<and> (a = b \<or> f32_is_zero a \<and> f32_is_zero b)"

text \<open>\<open>total_cmp\<close> compares these keys.\<close>

definition total_key :: "f32 \<Rightarrow> int" where
  "total_key w = (if unat w < 2 ^ 31 then int (unat w) else 2 ^ 31 - 1 - int (unat w))"

lemma total_key_inj: "total_key a = total_key b \<longleftrightarrow> a = b"
proof -
  have "(if m < 2 ^ 31 then int m else 2 ^ 31 - 1 - int m) = (if n < 2 ^ 31 then int n else 2 ^ 31 - 1 - int n) \<longleftrightarrow> m = n" for m n
    by (auto split: if_splits)
  from this [of "unat a" "unat b"] show ?thesis unfolding total_key_def word_unat_eq_iff .
qed

section \<open>\<open>f64\<close>\<close>

definition f64_is_nan :: "f64 \<Rightarrow> bool" where "f64_is_nan w \<longleftrightarrow> f64_exponent w = 2047 \<and> f64_mantissa w \<noteq> 0"
definition f64_is_inf :: "f64 \<Rightarrow> bool" where "f64_is_inf w \<longleftrightarrow> f64_exponent w = 2047 \<and> f64_mantissa w = 0"
definition f64_nan :: f64 where "f64_nan = f64_pack 0 2047 (2 ^ 51)"
definition f64_inf :: "nat \<Rightarrow> f64" where "f64_inf s = f64_pack s 2047 0"
definition f64_zero :: "nat \<Rightarrow> f64" where "f64_zero s = f64_pack s 0 0"

text \<open>The magnitude of a finite \<open>f64\<close> in units of \<open>2 ^ - 1074\<close>.\<close>

definition f64_units :: "f64 \<Rightarrow> nat" where
  "f64_units w = (if f64_exponent w = 0 then f64_mantissa w else (2 ^ 52 + f64_mantissa w) * 2 ^ (f64_exponent w - 1))"

definition f64_is_zero :: "f64 \<Rightarrow> bool" where "f64_is_zero w \<longleftrightarrow> f64_finite w \<and> f64_units w = 0"

definition signed_units64 :: "f64 \<Rightarrow> int" where
  "signed_units64 w = (if f64_sign w = 0 then int (f64_units w) else - int (f64_units w))"

definition f64_round :: "nat \<Rightarrow> nat \<Rightarrow> nat \<Rightarrow> f64" where
  "f64_round s n d =
     (if n = 0 then f64_zero s
      else (let e = max (- 1022) (floor_log n d);
                q = (if e \<le> 52 then round_div (n * 2 ^ nat (52 - e)) d else round_div n (d * 2 ^ nat (e - 52)))
            in f64_pack s 0 (min (nat (e + 1022) * 2 ^ 52 + q) (2047 * 2 ^ 52))))"

definition f64_add :: "f64 \<Rightarrow> f64 \<Rightarrow> f64" where
  "f64_add a b =
     (if f64_is_nan a \<or> f64_is_nan b then f64_nan
      else if f64_is_inf a then (if f64_is_inf b \<and> f64_sign a \<noteq> f64_sign b then f64_nan else a)
      else if f64_is_inf b then b
      else (let k = signed_units64 a + signed_units64 b in
        if k = 0 then f64_zero (if f64_sign a = 1 \<and> f64_sign b = 1 then 1 else 0)
        else f64_round (if k < 0 then 1 else 0) (nat \<bar>k\<bar>) (2 ^ 1074)))"

definition f64_mul :: "f64 \<Rightarrow> f64 \<Rightarrow> f64" where
  "f64_mul a b =
     (let s = flip (f64_sign a) (f64_sign b) in
      if f64_is_nan a \<or> f64_is_nan b then f64_nan
      else if f64_is_inf a \<or> f64_is_inf b then (if f64_is_zero a \<or> f64_is_zero b then f64_nan else f64_inf s)
      else f64_round s (f64_units a * f64_units b) (2 ^ 2148))"

definition f64_div :: "f64 \<Rightarrow> f64 \<Rightarrow> f64" where
  "f64_div a b =
     (let s = flip (f64_sign a) (f64_sign b) in
      if f64_is_nan a \<or> f64_is_nan b then f64_nan
      else if f64_is_inf a then (if f64_is_inf b then f64_nan else f64_inf s)
      else if f64_is_inf b then f64_zero s
      else if f64_is_zero b then (if f64_is_zero a then f64_nan else f64_inf s)
      else f64_round s (f64_units a) (f64_units b))"

definition f64_of_nat :: "nat \<Rightarrow> f64" where "f64_of_nat n = f64_round 0 n 1"

text \<open>\<open>Iterator::sum\<close> of floats starts from negative zero.\<close>

definition f64_sum :: "f64 list \<Rightarrow> f64" where "f64_sum xs = foldl f64_add (f64_zero 1) xs"

text \<open>\<open>f64::round\<close>, ties away from zero, and \<open>as usize\<close>, which saturates; NaN becomes 0.\<close>

definition f64_round_usize :: "f64 \<Rightarrow> nat" where
  "f64_round_usize w =
     (if f64_is_nan w \<or> f64_sign w = 1 then 0
      else if f64_is_inf w then 2 ^ 64 - 1
      else min ((f64_units w + 2 ^ 1073) div 2 ^ 1074) (2 ^ 64 - 1))"

text \<open>The order of the numbers that are not NaN: the bits after the sign, signed, with one zero.\<close>

definition f64_order :: "f64 \<Rightarrow> int" where
  "f64_order w = (if unat w < 2 ^ 63 then int (unat w) else - int (unat w - 2 ^ 63))"

definition f64_less :: "f64 \<Rightarrow> f64 \<Rightarrow> bool" where
  "f64_less a b \<longleftrightarrow> \<not> f64_is_nan a \<and> \<not> f64_is_nan b \<and> f64_order a < f64_order b"

definition f64_leq :: "f64 \<Rightarrow> f64 \<Rightarrow> bool" where
  "f64_leq a b \<longleftrightarrow> \<not> f64_is_nan a \<and> \<not> f64_is_nan b \<and> f64_order a \<le> f64_order b"

text \<open>\<open>f64::max\<close> ignores a NaN; which of two equal zeros it returns is left open by Rust.\<close>

definition f64_max :: "f64 \<Rightarrow> f64 \<Rightarrow> f64" where
  "f64_max a b = (if f64_is_nan a then b else if f64_is_nan b then a else if f64_order a < f64_order b then b else a)"

definition f32_order :: "f32 \<Rightarrow> int" where
  "f32_order w = (if unat w < 2 ^ 31 then int (unat w) else - int (unat w - 2 ^ 31))"

definition f32_leq :: "f32 \<Rightarrow> f32 \<Rightarrow> bool" where
  "f32_leq a b \<longleftrightarrow> \<not> f32_is_nan a \<and> \<not> f32_is_nan b \<and> f32_order a \<le> f32_order b"

definition total_key64 :: "f64 \<Rightarrow> int" where
  "total_key64 w = (if unat w < 2 ^ 63 then int (unat w) else 2 ^ 63 - 1 - int (unat w))"

end
