(* ===== verification/Context_Search.thy ===== *)
theory Context_Search
  imports Context_Store Float_Arith
begin

text \<open>
  Vector search and hybrid retrieval of \<open>crates/lance-context-core/src/store.rs\<close>: distances, tokenising, reciprocal
  rank fusion and the two orders. What Rust's Unicode tables say of a text (each character's
  \<open>is_alphanumeric\<close> and \<open>to_lowercase\<close>) is the parameter \<open>U\<close>, and the iteration order of a hash map the parameter \<open>H\<close>.
\<close>

section \<open>Orders\<close>

datatype ordering = Less | Equal | Greater

fun then_with :: "ordering \<Rightarrow> ordering \<Rightarrow> ordering" where
  "then_with Equal o2 = o2"
| "then_with o1 o2 = o1"

definition cmp :: "'k::linorder \<Rightarrow> 'k \<Rightarrow> ordering" where
  "cmp a b = (if a < b then Less else if a = b then Equal else Greater)"

definition total_cmp :: "f32 \<Rightarrow> f32 \<Rightarrow> ordering" where
  "total_cmp a b = cmp (total_key a) (total_key b)"

text \<open>\<open>slice::sort_by\<close>, a stable sort.\<close>

fun insert_by :: "('a \<Rightarrow> 'a \<Rightarrow> ordering) \<Rightarrow> 'a \<Rightarrow> 'a list \<Rightarrow> 'a list" where
  "insert_by c x [] = [x]"
| "insert_by c x (y # ys) = (if c x y = Greater then y # insert_by c x ys else x # y # ys)"

definition sort_by :: "('a \<Rightarrow> 'a \<Rightarrow> ordering) \<Rightarrow> 'a list \<Rightarrow> 'a list" where
  "sort_by c xs = foldr (insert_by c) xs []"

section \<open>Distances\<close>

datatype distance_metric = MetricL2 | MetricCosine | MetricDot

definition metric_parse :: "string \<Rightarrow> (string, distance_metric) result" where
  "metric_parse value = (let v = to_ascii_lowercase value in
     if v = ''l2'' \<or> v = ''euclidean'' then Ok MetricL2
     else if v = ''cosine'' then Ok MetricCosine
     else if v = ''dot'' \<or> v = ''dot_product'' then Ok MetricDot
     else Err v)"

fun metric_as_str :: "distance_metric \<Rightarrow> string" where
  "metric_as_str MetricL2 = ''l2''"
| "metric_as_str MetricCosine = ''cosine''"
| "metric_as_str MetricDot = ''dot''"

text \<open>\<open>Iterator::sum\<close> of floats starts from negative zero.\<close>

definition f32_sum :: "f32 list \<Rightarrow> f32" where
  "f32_sum xs = foldl f32_add (f32_zero 1) xs"

definition l2_distance :: "f32 list \<Rightarrow> f32 list \<Rightarrow> f32" where
  "l2_distance left right =
     f32_sqrt (f32_sum (map (\<lambda>(l, r). let delta = f32_sub l r in f32_mul delta delta) (zip left right)))"

definition dot_product :: "f32 list \<Rightarrow> f32 list \<Rightarrow> f32" where
  "dot_product left right = f32_sum (map (\<lambda>(l, r). f32_mul l r) (zip left right))"

definition cosine_distance :: "f32 list \<Rightarrow> f32 list \<Rightarrow> f32" where
  "cosine_distance left right =
     (let dot = dot_product left right;
          left_norm = f32_sqrt (dot_product left left);
          right_norm = f32_sqrt (dot_product right right)
      in if f32_eq left_norm (f32_of_nat 0) \<or> f32_eq right_norm (f32_of_nat 0) then f32_of_nat 1
         else f32_sub (f32_of_nat 1) (f32_div dot (f32_mul left_norm right_norm)))"

definition dot_distance :: "f32 list \<Rightarrow> f32 list \<Rightarrow> f32" where
  "dot_distance left right = f32_neg (dot_product left right)"

fun distance :: "distance_metric \<Rightarrow> f32 list \<Rightarrow> f32 list \<Rightarrow> f32" where
  "distance MetricL2 query candidate = l2_distance query candidate"
| "distance MetricCosine query candidate = cosine_distance query candidate"
| "distance MetricDot query candidate = dot_distance query candidate"

definition validate_query_dimension :: "f32 list \<Rightarrow> int \<Rightarrow> (context_store_error, unit) result" where
  "validate_query_dimension query dim = guard_ok (int (length query) = dim) (Invalid (EmbeddingLength (length query) dim))"

section \<open>Search\<close>

definition DEFAULT_SEARCH_LIMIT :: nat where "DEFAULT_SEARCH_LIMIT = 10"

record 'n search_result =
  sr_record :: "'n context_record"
  sr_distance :: f32

definition search_filtered_projected ::
  "'l lance \<Rightarrow> 'l scanner \<Rightarrow> 'n json codec \<Rightarrow> context_config \<Rightarrow> distance_metric \<Rightarrow> f32 list \<Rightarrow> nat option \<Rightarrow>
   'n record_filters option \<Rightarrow> lifecycle_query_options \<Rightarrow> read_projection \<Rightarrow> 'l base \<Rightarrow>
   (context_store_error, 'n search_result list) result" where
  "search_filtered_projected L S J c metric query limit filters opts proj b =
     res_bind (validate_query_dimension query (cc_embedding_dim c)) (\<lambda>_.
     (let top_k = (case limit of Some n \<Rightarrow> n | None \<Rightarrow> DEFAULT_SEARCH_LIMIT) in
      if top_k = 0 then Ok []
      else res_bind (list_filtered_projected L S J None None filters opts (proj\<lparr>rp_embedding := True\<rparr>) b) (\<lambda>rs.
        (let results = concat (map (\<lambda>r. case cr_embedding r of
               None \<Rightarrow> []
             | Some v \<Rightarrow> [\<lparr>sr_record = (if rp_embedding proj then r else r\<lparr>cr_embedding := None\<rparr>),
                            sr_distance = distance metric query v\<rparr>]) rs)
         in Ok (take top_k (sort_by (\<lambda>l r. total_cmp (sr_distance l) (sr_distance r)) results))))))"

section \<open>Hybrid retrieval\<close>

text \<open>The characters of a text: whether each is alphanumeric, and its lower-case form.\<close>

type_synonym unicode = "string \<Rightarrow> (bool \<times> string) list"

fun tokenize_chars :: "string \<Rightarrow> (bool \<times> string) list \<Rightarrow> string list" where
  "tokenize_chars current [] = (if current \<noteq> [] then [current] else [])"
| "tokenize_chars current ((alphanumeric, lower) # cs) =
     (if alphanumeric then tokenize_chars (current @ lower) cs
      else if current \<noteq> [] then current # tokenize_chars [] cs
      else tokenize_chars current cs)"

definition tokenize_for_retrieval :: "unicode \<Rightarrow> string \<Rightarrow> string list" where
  "tokenize_for_retrieval U text = tokenize_chars [] (U text)"

fun first_of_each :: "string list \<Rightarrow> string list \<Rightarrow> string list" where
  "first_of_each seen [] = []"
| "first_of_each seen (t # ts) =
     (if t \<in> set seen then first_of_each seen ts else t # first_of_each (t # seen) ts)"

definition unique_query_terms :: "unicode \<Rightarrow> string \<Rightarrow> string list" where
  "unique_query_terms U text = first_of_each [] (tokenize_for_retrieval U text)"

definition lexical_score :: "unicode \<Rightarrow> string list \<Rightarrow> string option \<Rightarrow> f32 option" where
  "lexical_score U query_terms text =
     (case text of
        None \<Rightarrow> None
      | Some t \<Rightarrow>
          if query_terms = [] then None
          else (let payload_terms = set (tokenize_for_retrieval U t) in
            if payload_terms = {} then None
            else (let matched = length (filter (\<lambda>q. q \<in> payload_terms) query_terms) in
              if matched = 0 then None else Some (f32_div (f32_of_nat matched) (f32_of_nat (length query_terms))))))"

record 'n retrieve_result =
  rr_record :: "'n context_record"
  rr_score :: f32
  rr_vector_distance :: "f32 option"
  rr_text_score :: "f32 option"
  rr_matched_channels :: "string list"

definition RRF_K :: nat where "RRF_K = 60"

text \<open>
  The entries of the \<open>HashMap\<close> of candidates are kept by id; the order in which \<open>into_values\<close> delivers them is left
  open by Rust and is the parameter \<open>H\<close>, which a caller knows only to deliver every value once.
\<close>

type_synonym 'n hash_order = "'n list \<Rightarrow> 'n list"

definition delivers_all :: "'n hash_order \<Rightarrow> bool" where
  "delivers_all H \<longleftrightarrow> (\<forall>xs. mset (H xs) = mset xs)"

definition add_retrieve_channel ::
  "(string, 'n retrieve_result) btree_map \<Rightarrow> 'n context_record \<Rightarrow> nat \<Rightarrow> string \<Rightarrow> f32 option \<Rightarrow> f32 option \<Rightarrow>
   (string, 'n retrieve_result) btree_map" where
  "add_retrieve_channel candidates r rank channel vector_distance text_score =
     (let cand = (case bt_get candidates (cr_id r) of
            Some x \<Rightarrow> x
          | None \<Rightarrow> \<lparr>rr_record = r, rr_score = f32_of_nat 0, rr_vector_distance = None, rr_text_score = None,
                     rr_matched_channels = []\<rparr>);
          cand = cand\<lparr>rr_score := f32_add (rr_score cand) (f32_div (f32_of_nat 1) (f32_add (f32_of_nat RRF_K) (f32_of_nat rank)))\<rparr>;
          cand = (case vector_distance of Some d \<Rightarrow> cand\<lparr>rr_vector_distance := Some d\<rparr> | None \<Rightarrow> cand);
          cand = (case text_score of Some x \<Rightarrow> cand\<lparr>rr_text_score := Some x\<rparr> | None \<Rightarrow> cand);
          cand = (if channel \<in> set (rr_matched_channels cand) then cand
                  else cand\<lparr>rr_matched_channels := rr_matched_channels cand @ [channel]\<rparr>)
      in bt_insert (cr_id r) cand candidates)"

definition compare_optional_distance :: "f32 option \<Rightarrow> f32 option \<Rightarrow> ordering" where
  "compare_optional_distance left right =
     (case (left, right) of
        (Some l, Some r) \<Rightarrow> total_cmp l r | (Some _, None) \<Rightarrow> Less | (None, Some _) \<Rightarrow> Greater | (None, None) \<Rightarrow> Equal)"

definition compare_optional_score :: "f32 option \<Rightarrow> f32 option \<Rightarrow> ordering" where
  "compare_optional_score left right =
     (case (left, right) of
        (Some l, Some r) \<Rightarrow> total_cmp r l | (Some _, None) \<Rightarrow> Less | (None, Some _) \<Rightarrow> Greater | (None, None) \<Rightarrow> Equal)"

definition compare_retrieve_results :: "'n retrieve_result \<Rightarrow> 'n retrieve_result \<Rightarrow> ordering" where
  "compare_retrieve_results left right =
     then_with (total_cmp (rr_score right) (rr_score left))
       (then_with (compare_optional_distance (rr_vector_distance left) (rr_vector_distance right))
         (then_with (compare_optional_score (rr_text_score left) (rr_text_score right))
           (cmp (cr_id (rr_record left)) (cr_id (rr_record right)))))"

text \<open>The hits of a channel, best first, and their ranks from 1 on.\<close>

definition vector_hits ::
  "distance_metric \<Rightarrow> f32 list \<Rightarrow> 'n context_record list \<Rightarrow> ('n context_record \<times> f32) list" where
  "vector_hits metric query rs =
     sort_by (\<lambda>l r. then_with (total_cmp (snd l) (snd r)) (cmp (cr_id (fst l)) (cr_id (fst r))))
       (concat (map (\<lambda>r. case cr_embedding r of None \<Rightarrow> [] | Some v \<Rightarrow> [(r, distance metric query v)]) rs))"

definition text_hits :: "unicode \<Rightarrow> string list \<Rightarrow> 'n context_record list \<Rightarrow> ('n context_record \<times> f32) list" where
  "text_hits U terms rs =
     sort_by (\<lambda>l r. then_with (total_cmp (snd r) (snd l)) (cmp (cr_id (fst l)) (cr_id (fst r))))
       (concat (map (\<lambda>r. case lexical_score U terms (cr_text_payload r) of None \<Rightarrow> [] | Some x \<Rightarrow> [(r, x)]) rs))"

definition add_hits ::
  "(nat \<Rightarrow> 'n context_record \<times> f32 \<Rightarrow> (string, 'n retrieve_result) btree_map \<Rightarrow> (string, 'n retrieve_result) btree_map) \<Rightarrow>
   ('n context_record \<times> f32) list \<Rightarrow> (string, 'n retrieve_result) btree_map \<Rightarrow> (string, 'n retrieve_result) btree_map" where
  "add_hits put_hit hits candidates = fold (\<lambda>(rank, hit). put_hit (rank + 1) hit) (enumerate 0 hits) candidates"

definition retrieve_filtered_with_options ::
  "'l lance \<Rightarrow> 'l scanner \<Rightarrow> 'n json codec \<Rightarrow> unicode \<Rightarrow> 'n retrieve_result hash_order \<Rightarrow> context_config \<Rightarrow> distance_metric \<Rightarrow> string option \<Rightarrow> f32 list option \<Rightarrow>
   nat option \<Rightarrow> 'n record_filters option \<Rightarrow> lifecycle_query_options \<Rightarrow> 'l base \<Rightarrow>
   (context_store_error, 'n retrieve_result list) result" where
  "retrieve_filtered_with_options L S J U H c metric text vector limit filters opts b =
     (let text_terms = (case text of Some t \<Rightarrow> unique_query_terms U t | None \<Rightarrow> []) in
      if text_terms = [] \<and> vector = None then Err (Invalid EmptyQuery)
      else res_bind (case vector of Some query \<Rightarrow> validate_query_dimension query (cc_embedding_dim c) | None \<Rightarrow> Ok ()) (\<lambda>_.
        (let top_k = (case limit of Some n \<Rightarrow> n | None \<Rightarrow> DEFAULT_SEARCH_LIMIT) in
         if top_k = 0 then Ok []
         else res_bind (list_filtered_projected L S J None None filters opts default_projection b) (\<lambda>rs.
           (let candidates = (case vector of
                  Some query \<Rightarrow> add_hits (\<lambda>rank (r, d) m. add_retrieve_channel m r rank ''vector'' (Some d) None)
                    (vector_hits metric query rs) []
                | None \<Rightarrow> []);
                candidates = (if text_terms \<noteq> []
                  then add_hits (\<lambda>rank (r, x) m. add_retrieve_channel m r rank ''text'' None (Some x))
                    (text_hits U text_terms rs) candidates
                  else candidates)
            in Ok (take top_k (sort_by compare_retrieve_results (H (map snd candidates)))))))))"

end
