(* ===== verification/Context_Codec_Correct.thy ===== *)
theory Context_Codec_Correct
  imports Context_Codec
begin

text \<open>
  The row codec of the context store on its own schema: what \<open>records_to_batch\<close> accepts, and that decoding
  gives the records back with their instants truncated to microseconds.
\<close>

section \<open>Text through bytes\<close>

lemma utf8_lossy_valid: "valid_utf8 bs \<Longrightarrow> utf8_lossy bs = bs"
proof (induction bs rule: valid_utf8.induct)
  case (1 bs)
  show ?case
  proof (cases "bs = []")
    case False
    obtain n g where h: "utf8_head bs = (n, g)" by (cases "utf8_head bs")
    then have "g" "valid_utf8 (drop n bs)" using 1(2) False by (auto simp: valid_utf8.simps [of bs])
    then have "utf8_lossy (drop n bs) = drop n bs" using 1(1) [OF False] h by simp
    then show ?thesis using h \<open>g\<close> False by (simp add: utf8_lossy.simps [of bs])
  qed (simp add: utf8_lossy.simps)
qed

definition text_ok :: "string \<Rightarrow> bool" where
  "text_ok s \<longleftrightarrow> valid_utf8 (map of_char s)"

lemma unat_byte: "unat (of_nat (of_char c) :: 8 word) = (of_char c :: nat)"
  using nat_of_char_less_256 [of c] by (simp add: unat_of_nat take_bit_eq_mod del: nat_of_char_less_256)

lemma lossy_as_bytes: "text_ok s \<Longrightarrow> from_utf8_lossy (as_bytes_of s) = s"
  by (simp add: from_utf8_lossy_def as_bytes_of_def comp_def unat_byte text_ok_def utf8_lossy_valid)

section \<open>The schema of a new store\<close>

definition context_schema :: "context_config \<Rightarrow> field_def list" where
  "context_schema c = schema_with_options (cc_blob_columns c) True True True True True (cc_embedding_dim c)"

definition record_row :: "'n json codec \<Rightarrow> context_config \<Rightarrow> 'n context_record \<Rightarrow> cell list" where
  "record_row J c e =
     [CUtf8 (cr_id e), opt_cell CUtf8 (cr_external_id e), CUtf8 (cr_run_id e), opt_cell CUtf8 (cr_bot_id e),
      opt_cell CUtf8 (cr_session_id e), opt_cell CUtf8 (cr_tenant e), opt_cell CUtf8 (cr_source e),
      CTimestamp (timestamp_micros (cr_created_at e)), CDictionary (cr_role e),
      opt_cell state_cell (cr_state_metadata e), opt_cell (\<lambda>m. CLargeUtf8 (json_to_string J m)) (cr_metadata e),
      CList (DStruct relationship_struct_fields) (map relationship_cell (cr_relationships e)),
      opt_cell (\<lambda>t. CTimestamp (timestamp_micros t)) (cr_expires_at e), opt_cell CUtf8 (cr_retention_policy e),
      CUtf8 (cr_lifecycle_status e), opt_cell (\<lambda>t. CTimestamp (timestamp_micros t)) (cr_retired_at e),
      opt_cell CUtf8 (cr_retired_reason e), opt_cell CUtf8 (cr_supersedes_id e),
      opt_cell CUtf8 (cr_superseded_by_id e), CUtf8 (cr_content_type e),
      opt_cell (if ''text_payload'' \<in> cc_blob_columns c then (\<lambda>s. CLargeBinary (as_bytes_of s)) else CLargeUtf8)
        (cr_text_payload e),
      opt_cell CLargeBinary (cr_binary_payload e), opt_cell CUtf8 (cr_payload_uri e),
      opt_cell CInt64 (cr_payload_size e), opt_cell CUtf8 (cr_payload_checksum e),
      opt_cell (\<lambda>v. CFixedSizeList DFloat32 (cc_embedding_dim c) (map CFloat32 v)) (cr_embedding e)]"

lemmas schema_defs = context_schema_def schema_with_options_def relationship_field_def col_def

definition schema_names :: "string list" where
  "schema_names =
     [''id'', ''external_id'', ''run_id'', ''bot_id'', ''session_id'', ''tenant'', ''source'', ''created_at'', ''role'',
      ''state_metadata'', ''metadata'', ''relationships'', ''expires_at'', ''retention_policy'', ''lifecycle_status'',
      ''retired_at'', ''retired_reason'', ''supersedes_id'', ''superseded_by_id'', ''content_type'', ''text_payload'',
      ''binary_payload'', ''payload_uri'', ''payload_size'', ''payload_checksum'', ''embedding'']"

lemma context_schema_names: "map fd_name (context_schema c) = schema_names"
  by (simp add: schema_defs schema_names_def)

lemma schema_names_distinct: "distinct schema_names"
  by code_simp

lemma has_columns:
  "has_column (context_schema c) ''external_id''" "has_column (context_schema c) ''metadata''"
  "has_column (context_schema c) ''tenant''" "has_column (context_schema c) ''source''"
  "has_column (context_schema c) ''relationships''" "has_column (context_schema c) ''payload_uri''"
  "has_column (context_schema c) ''expires_at''"
  unfolding has_column_def set_map [symmetric] context_schema_names by code_simp+

lemma columns_known: "f \<in> set (context_schema c) \<Longrightarrow> fd_name f \<in> set (column_names (context_schema c))"
proof -
  assume "f \<in> set (context_schema c)"
  then have "fd_name f \<in> set schema_names" by (metis context_schema_names image_eqI set_map)
  moreover have "set schema_names \<subseteq> set (column_names (context_schema c))"
    by (simp add: column_names_def has_columns schema_names_def)
  ultimately show ?thesis by blast
qed

lemma named_cells_row:
  "map (\<lambda>f. the (map_of (named_cells J c (context_schema c) e) (fd_name f))) (context_schema c) = record_row J c e"
proof -
  let ?cells = "named_cells J c (context_schema c) e"
  have "map (\<lambda>n. the (map_of ?cells n)) schema_names = record_row J c e"
    unfolding named_cells_def record_row_def schema_names_def list.map list.inject
    by (intro conjI; simp add: has_columns)
  then show ?thesis using arg_cong [OF context_schema_names [of c], of "map (\<lambda>n. the (map_of ?cells n))"]
    by (simp add: comp_def)
qed

lemma cell_fits_opt: "(\<And>y. x = Some y \<Longrightarrow> cell_fits t (f y)) \<Longrightarrow> cell_fits t (opt_cell f x)"
  by (cases x) (simp_all add: opt_cell_def)

lemma struct_cells_fit: "cell_fits (DStruct state_fields) (state_cell m)"
  "cell_fits (DStruct relationship_struct_fields) (relationship_cell r)"
  by (simp_all add: state_cell_def relationship_cell_def state_fields_def relationship_struct_fields_def cell_fits_opt)

lemma record_row_fits:
  assumes "\<And>v. cr_embedding e = Some v \<Longrightarrow> int (length v) = cc_embedding_dim c"
  shows "row_fits (context_schema c) (record_row J c e)"
  using assms
  unfolding row_fits_def record_row_def schema_defs if_True append.simps list.rel_inject field_fits_def
  by (intro conjI list.rel_intros; simp add: struct_cells_fit list_all_iff opt_cell_def split: option.split)

section \<open>Accepted records\<close>

definition embedding_ok :: "context_config \<Rightarrow> 'n context_record \<Rightarrow> bool" where
  "embedding_ok c e \<longleftrightarrow> (\<forall>v. cr_embedding e = Some v \<longrightarrow> int (length v) = cc_embedding_dim c)"

lemma append_entries_Ok:
  "append_entries dim roles es = Ok () \<Longrightarrow> e \<in> set es \<Longrightarrow> cr_embedding e = Some v \<Longrightarrow> int (length v) = dim"
  by (induction dim roles es rule: append_entries.induct) (auto simp: Let_def split: if_splits option.splits)

lemma records_to_batch_eq:
  "records_to_batch J c (context_schema c) es =
     res_bind (append_entries (cc_embedding_dim c) [] es) (\<lambda>_.
     Ok \<lparr>b_schema = context_schema c, b_rows = map (record_row J c) es\<rparr>)"
proof -
  have features: "check_features (context_schema c) es = Ok ()"
    by (simp add: check_features_def has_columns)
  have known: "collect_res (\<lambda>f. guard_ok (fd_name f \<in> set (column_names (context_schema c)))
      (Invalid (UnsupportedColumn (fd_name f)))) (context_schema c) = Ok (map (\<lambda>_. ()) (context_schema c))"
    by (auto simp: collect_res_Ok_iff list_all2_conv_all_nth columns_known)
  have "list_all (row_fits (context_schema c)) (map (record_row J c) es)"
    if "append_entries (cc_embedding_dim c) [] es = Ok ()"
    using append_entries_Ok [OF that] by (auto simp: list_all_iff intro!: record_row_fits)
  then show ?thesis
    unfolding records_to_batch_def features res_bind_simps(1) known named_cells_row
    by (cases "append_entries (cc_embedding_dim c) [] es") (simp_all add: try_new_def)
qed

section \<open>Decoding\<close>

definition truncate_instant :: "int \<Rightarrow> int" where "truncate_instant t = timestamp_micros t * 1000"

definition stored_record :: "'n context_record \<Rightarrow> 'n context_record" where
  "stored_record e = e\<lparr>cr_created_at := truncate_instant (cr_created_at e),
     cr_expires_at := map_option truncate_instant (cr_expires_at e),
     cr_retired_at := map_option truncate_instant (cr_retired_at e)\<rparr>"

definition storable :: "'n json codec \<Rightarrow> context_config \<Rightarrow> 'n context_record \<Rightarrow> bool" where
  "storable J c e \<longleftrightarrow> micros_ok J (timestamp_micros (cr_created_at e)) \<and>
     (\<forall>t. cr_expires_at e = Some t \<or> cr_retired_at e = Some t \<longrightarrow> micros_ok J (timestamp_micros t)) \<and>
     (\<forall>s. ''text_payload'' \<in> cc_blob_columns c \<longrightarrow> cr_text_payload e = Some s \<longrightarrow> text_ok s)"

lemma check_columns_ok: "check_columns (context_schema c) = Ok ()"
  by (simp add: check_columns_def schema_defs column_as_def column_struct_def text_column_def field_with_name_def
      check_children_def child_as_def state_fields_def)

lemma row_strings:
  "optional_string (context_schema c) (record_row J c e) ''external_id'' = cr_external_id e"
  "optional_string (context_schema c) (record_row J c e) ''bot_id'' = cr_bot_id e"
  "optional_string (context_schema c) (record_row J c e) ''session_id'' = cr_session_id e"
  "optional_string (context_schema c) (record_row J c e) ''tenant'' = cr_tenant e"
  "optional_string (context_schema c) (record_row J c e) ''source'' = cr_source e"
  "optional_string (context_schema c) (record_row J c e) ''retention_policy'' = cr_retention_policy e"
  "optional_string (context_schema c) (record_row J c e) ''retired_reason'' = cr_retired_reason e"
  "optional_string (context_schema c) (record_row J c e) ''supersedes_id'' = cr_supersedes_id e"
  "optional_string (context_schema c) (record_row J c e) ''superseded_by_id'' = cr_superseded_by_id e"
  "optional_string (context_schema c) (record_row J c e) ''payload_uri'' = cr_payload_uri e"
  "optional_string (context_schema c) (record_row J c e) ''payload_checksum'' = cr_payload_checksum e"
  "optional_string (context_schema c) (record_row J c e) ''id'' = Some (cr_id e)"
  "optional_string (context_schema c) (record_row J c e) ''run_id'' = Some (cr_run_id e)"
  "optional_string (context_schema c) (record_row J c e) ''content_type'' = Some (cr_content_type e)"
  "optional_string (context_schema c) (record_row J c e) ''lifecycle_status'' = Some (cr_lifecycle_status e)"
  by (simp_all add: optional_string_def column_as_optional_def schema_defs record_row_def field_with_name_def
      opt_cell_def split: option.split)

lemma row_others:
  "optional_micros (context_schema c) (record_row J c e) ''created_at'' = Some (timestamp_micros (cr_created_at e))"
  "optional_micros (context_schema c) (record_row J c e) ''expires_at'' = map_option timestamp_micros (cr_expires_at e)"
  "optional_micros (context_schema c) (record_row J c e) ''retired_at'' = map_option timestamp_micros (cr_retired_at e)"
  "optional_large_string (context_schema c) (record_row J c e) ''metadata'' = map_option (json_to_string J) (cr_metadata e)"
  "optional_bytes (context_schema c) (record_row J c e) ''binary_payload'' = cr_binary_payload e"
  "optional_i64 (context_schema c) (record_row J c e) ''payload_size'' = cr_payload_size e"
  by (simp_all add: optional_defs column_as_optional_def schema_defs record_row_def field_with_name_def
      opt_cell_def split: option.split)

lemma cell_values:
  "cell_utf8 (CUtf8 s) = Some s" "cell_utf8 (opt_cell CUtf8 x) = x" "cell_i32 (opt_cell CInt32 i) = i"
  "cell_f32 (opt_cell CFloat32 w) = w"
  by (cases x; cases i; cases w; simp add: cell_utf8_def cell_i32_def cell_f32_def opt_cell_def)+

lemma row_nested:
  "row_state (context_schema c) (record_row J c e) = cr_state_metadata e"
  "row_role (context_schema c) (record_row J c e) = Ok (cr_role e)"
  by (simp_all add: row_state_def row_role_def schema_defs record_row_def opt_cell_def [of state_cell]
      state_cell_def cell_values split: option.split)

lemma row_embedding: "row_embedding (context_schema c) (record_row J c e) = Ok (cr_embedding e)"
  by (simp add: row_embedding_def schema_defs record_row_def opt_cell_def embedding_from_list_def comp_def cell_f32_def
      split: option.split)

lemma relationships_read:
  "relationships_from_list (DStruct relationship_struct_fields) (map relationship_cell rs) = Ok rs"
proof -
  have "collect_res relationship_of (map relationship_cell rs) = Ok (map Some rs)"
    by (simp add: collect_res_Ok_iff list_all2_conv_all_nth relationship_of_def relationship_cell_def cell_values)
  then show ?thesis
    by (simp add: relationships_from_list_def check_children_def child_as_def relationship_struct_fields_def comp_def)
qed

lemma row_relationships: "row_relationships (context_schema c) (record_row J c e) = Ok (cr_relationships e)"
  by (simp add: row_relationships_def schema_defs record_row_def relationships_read)

lemma row_text:
  assumes "storable J c e"
  shows "row_text (context_schema c) (record_row J c e) = cr_text_payload e"
  using assms
  by (simp add: row_text_def schema_defs record_row_def opt_cell_def storable_def lossy_as_bytes split: option.split)

lemma row_metadata:
  assumes "codec_ok J"
  shows "row_metadata J (context_schema c) (record_row J c e) = Ok (cr_metadata e)"
  using assms by (cases "cr_metadata e") (simp_all add: row_metadata_def row_others codec_ok_def)

lemma row_instants:
  assumes "storable J c e"
  shows "optional_instant J (context_schema c) (record_row J c e) ''expires_at'' = Ok (cr_expires_at (stored_record e))"
    "optional_instant J (context_schema c) (record_row J c e) ''retired_at'' = Ok (cr_retired_at (stored_record e))"
    "instant_from_micros J (timestamp_micros (cr_created_at e)) ''created_at'' = Ok (cr_created_at (stored_record e))"
  using assms
  by (auto simp: optional_instant_def row_others instant_from_micros_def storable_def stored_record_def
      truncate_instant_def split: option.split)

lemma row_to_record_row:
  assumes "codec_ok J" "storable J c e"
  shows "row_to_record J (context_schema c) (record_row J c e) = Ok (stored_record e)"
  by (simp add: row_to_record_def row_strings row_others row_nested row_embedding row_relationships row_text [OF assms(2)]
      row_metadata [OF assms(1)] row_instants [OF assms(2)] str_at_def int_or_0_def stored_record_def)

lemma truncate_instant_idem: "truncate_instant (truncate_instant t) = truncate_instant t"
  by (simp add: truncate_instant_def timestamp_micros_def)

lemma stored_record_idem: "stored_record (stored_record e) = stored_record e"
  by (cases "cr_expires_at e"; cases "cr_retired_at e") (simp_all add: stored_record_def truncate_instant_idem)

lemma record_row_stored: "record_row J c (stored_record e) = record_row J c e"
  by (cases "cr_expires_at e"; cases "cr_retired_at e")
    (simp_all add: record_row_def stored_record_def truncate_instant_def timestamp_micros_def opt_cell_def)

lemma storable_stored: "storable J c e \<Longrightarrow> storable J c (stored_record e)"
  by (auto simp: storable_def stored_record_def truncate_instant_def timestamp_micros_def)

end
