(* ===== verification/Context_Table.thy ===== *)
theory Context_Table
  imports Context_Codec_Correct Context_Store
begin

text \<open>
  What the context store relies on of Lance and the scanner while it is the only writer of its table:
  a sealed put overlays the rows by their key, newest wins, and a scan returns one row per key. The locale
  \<open>sole_writer\<close> states it; in it one successful write and every kind of read of the store are described on
  the map from ids to records.
\<close>

section \<open>Rows by key\<close>

definition row_key :: "field_def list \<Rightarrow> string \<Rightarrow> cell list \<Rightarrow> string" where
  "row_key sch key r = (case cell_at sch r key of Some (CUtf8 k) \<Rightarrow> k | _ \<Rightarrow> [])"

definition overlay ::
  "field_def list \<Rightarrow> string \<Rightarrow> (string \<rightharpoonup> cell list) \<Rightarrow> cell list list \<Rightarrow> (string \<rightharpoonup> cell list)" where
  "overlay sch key m rs = foldl (\<lambda>m r. m(row_key sch key r \<mapsto> r)) m rs"

definition project_row :: "field_def list \<Rightarrow> string list option \<Rightarrow> cell list \<Rightarrow> cell list" where
  "project_row sch cols r = map (\<lambda>f. the (cell_at sch r (fd_name f))) (project_fields cols sch)"

definition text_in :: "field_def list \<Rightarrow> string \<Rightarrow> string list \<Rightarrow> cell list \<Rightarrow> bool" where
  "text_in sch cn vs r = (case cell_at sch r cn of Some (CUtf8 v) \<Rightarrow> v \<in> set vs | _ \<Rightarrow> False)"

definition scan_rows :: "batch list \<Rightarrow> cell list list" where
  "scan_rows bs = concat (map b_rows bs)"

text \<open>
  How a state of Lance reads: the sealed rows by key, the rows put and not yet sealed, which writer is the
  latest to have been opened, and that all is well.
\<close>

record 'l latest_view =
  tv_rows :: "'l \<Rightarrow> (string \<rightharpoonup> cell list)"
  tv_pending :: "'l \<Rightarrow> cell list list"
  tv_current :: "nat \<Rightarrow> 'l \<Rightarrow> bool"
  tv_sound :: "'l \<Rightarrow> bool"

definition handle_ok :: "'l latest_view \<Rightarrow> 'l base \<Rightarrow> bool" where
  "handle_ok V b \<longleftrightarrow> tv_sound V (sb_lance b) \<and> tv_pending V (sb_lance b) = [] \<and> sb_seal_on_put b \<and>
     (\<forall>w. sb_writer b = Some w \<longrightarrow> tv_current V w (sb_lance b))"

locale sole_writer =
  fixes L :: "'l lance" and S :: "'l scanner" and key :: string and sch :: "field_def list"
    and V :: "'l latest_view"
  assumes schema_fixed: "tv_sound V l \<Longrightarrow> table_schema L l = sch"
    and open_current: "tv_sound V l \<Longrightarrow> mem_wal_writer L l = (Ok w, l') \<Longrightarrow>
      tv_sound V l' \<and> tv_rows V l' = tv_rows V l \<and> tv_pending V l' = tv_pending V l \<and> tv_current V w l'"
    and put_pending: "tv_sound V l \<Longrightarrow> tv_current V w l \<Longrightarrow> writer_put L w bs l = (Ok u, l') \<Longrightarrow>
      list_all (\<lambda>b. b_schema b = sch \<and> batch_ok b) bs \<Longrightarrow>
      tv_sound V l' \<and> tv_rows V l' = tv_rows V l \<and> tv_pending V l' = tv_pending V l @ scan_rows bs \<and> tv_current V w l'"
    and put_not_fenced: "tv_sound V l \<Longrightarrow> tv_current V w l \<Longrightarrow> writer_put L w bs l = (Err e, l') \<Longrightarrow> \<not> is_fenced_error e"
    and seal_overlays: "tv_sound V l \<Longrightarrow> tv_current V w l \<Longrightarrow> force_seal_active L w l = (Ok u, l1) \<Longrightarrow>
      wait_for_flush_drain L w l1 = (Ok v, l2) \<Longrightarrow>
      tv_sound V l2 \<and> tv_rows V l2 = overlay sch key (tv_rows V l) (tv_pending V l) \<and> tv_pending V l2 = [] \<and> tv_current V w l2"
    and seal_not_fenced: "tv_sound V l \<Longrightarrow> tv_current V w l \<Longrightarrow> force_seal_active L w l = (Err e, l1) \<Longrightarrow> \<not> is_fenced_error e"
    and scan_all: "tv_sound V l \<Longrightarrow> S None None l = Ok bs \<Longrightarrow> list_all (\<lambda>b. b_schema b = sch) bs \<and>
      (\<exists>ks. distinct ks \<and> set ks = dom (tv_rows V l) \<and> scan_rows bs = map (\<lambda>k. the (tv_rows V l k)) ks)"
    and scan_in: "tv_sound V l \<Longrightarrow> cn \<in> fd_name ` set sch \<Longrightarrow> S (Some (sql_in cn vs)) cols l = Ok bs \<Longrightarrow> vs \<noteq> [] \<Longrightarrow>
      list_all (\<lambda>b. b_schema b = project_fields cols sch) bs \<and>
      (\<exists>ks. distinct ks \<and> set ks = {k. \<exists>r. tv_rows V l k = Some r \<and> text_in sch cn vs r} \<and>
        scan_rows bs = map (\<lambda>k. project_row sch cols (the (tv_rows V l k))) ks)"
begin

lemma resident_ok:
  assumes "handle_ok V b" "(resident_writer L :: ('l, nat) context_io) b = (Ok w, b')"
  shows "handle_ok V b' \<and> tv_rows V (sb_lance b') = tv_rows V (sb_lance b) \<and> sb_writer b' = Some w \<and> tv_current V w (sb_lance b')"
proof (cases "sb_writer b")
  case None
  then obtain l where "mem_wal_writer L (sb_lance b) = (Ok w, l)" "b' = b\<lparr>sb_lance := l, sb_writer := Some w\<rparr>"
    using assms(2) by (auto simp: resident_writer_def call_def raw_call_def fault_def io_return_def io_bind_def
        io_match_def io_result_def split: prod.splits sum.splits)
  then show ?thesis using open_current [of "sb_lance b" w l] assms(1) by (auto simp: handle_ok_def)
next
  case (Some x)
  then show ?thesis using assms by (auto simp: resident_writer_def io_bind_def io_return_def handle_ok_def)
qed

lemma put_inner_pending:
  assumes "handle_ok V b" "list_all (\<lambda>x. b_schema x = sch \<and> batch_ok x) bs" "(put_inner L bs :: ('l, unit) context_io) b = (Ok u, b1)"
  shows "\<exists>w. sb_writer b1 = Some w \<and> sb_seal_on_put b1 \<and> tv_sound V (sb_lance b1) \<and> tv_current V w (sb_lance b1) \<and>
    tv_rows V (sb_lance b1) = tv_rows V (sb_lance b) \<and> tv_pending V (sb_lance b1) = scan_rows bs"
proof -
  obtain w b0 where r: "(resident_writer L :: ('l, nat) context_io) b = (Ok w, b0)"
    and m: "(io_match (raw_call (writer_put L w bs)) (\<lambda>_. io_return ()) (\<lambda>e.
      if is_fenced_error e
      then io_bind (invalidate_writer w) (\<lambda>_. io_bind (resident_writer L) (\<lambda>w'. call (writer_put L w' bs)))
      else fault e) :: ('l, unit) context_io) b0 = (Ok u, b1)"
    using assms(3) by (auto simp: put_inner_def)
  have b0: "handle_ok V b0" "tv_rows V (sb_lance b0) = tv_rows V (sb_lance b)" "sb_writer b0 = Some w" "tv_current V w (sb_lance b0)"
    using resident_ok [OF assms(1) r] by blast+
  obtain res l where wp: "writer_put L w bs (sb_lance b0) = (res, l)" by (cases "writer_put L w bs (sb_lance b0)")
  have sound0: "tv_sound V (sb_lance b0)" "tv_pending V (sb_lance b0) = []" "sb_seal_on_put b0" using b0(1) by (simp_all add: handle_ok_def)
  show ?thesis
  proof (cases res)
    case (Inl e)
    then have "\<not> is_fenced_error e" using put_not_fenced [OF sound0(1) b0(4)] wp by blast
    then show ?thesis using m wp Inl by (simp add: io_match_def raw_call_def fault_def io_result_def)
  next
    case (Inr v)
    then have "b1 = b0\<lparr>sb_lance := l\<rparr>" using m wp by (simp add: io_match_def raw_call_def io_return_def)
    then show ?thesis
      using put_pending [OF sound0(1) b0(4) wp [unfolded Inr] assms(2)] b0 sound0 by simp
  qed
qed

lemma flush_overlays:
  assumes "sb_writer b = Some w" "sb_seal_on_put b" "tv_sound V (sb_lance b)" "tv_current V w (sb_lance b)" "(flush L :: ('l, unit) context_io) b = (Ok u, b')"
  shows "handle_ok V b' \<and> tv_rows V (sb_lance b') = overlay sch key (tv_rows V (sb_lance b)) (tv_pending V (sb_lance b))"
proof -
  obtain res l1 where s: "force_seal_active L w (sb_lance b) = (res, l1)" by (cases "force_seal_active L w (sb_lance b)")
  show ?thesis
  proof (cases res)
    case (Inl e)
    then have "\<not> is_fenced_error e" using seal_not_fenced [OF assms(3,4)] s by blast
    then show ?thesis
      using assms(1,5) s Inl
      by (simp add: flush_def flush_inner_def io_bind_def io_match_def raw_call_def fault_def io_result_def)
  next
    case (Inr v)
    obtain res2 l2 where wt: "wait_for_flush_drain L w l1 = (res2, l2)" by (cases "wait_for_flush_drain L w l1")
    with assms(1,5) s Inr obtain v2 where ok: "res2 = Ok v2" "b' = b\<lparr>sb_lance := l2\<rparr>"
      by (cases res2) (simp_all add: flush_def flush_inner_def io_bind_def io_match_def raw_call_def fault_def
          io_result_def call_def io_return_def)
    show ?thesis
      using seal_overlays [OF assms(3,4) s [unfolded Inr] wt [unfolded ok(1)]] assms(1,2) ok(2) by (simp add: handle_ok_def)
  qed
qed

lemma put_overlays:
  assumes "handle_ok V b" "list_all (\<lambda>x. b_schema x = sch \<and> batch_ok x) bs" "bs \<noteq> []" "(put L bs :: ('l, unit) context_io) b = (Ok u, b')"
  shows "handle_ok V b' \<and> tv_rows V (sb_lance b') = overlay sch key (tv_rows V (sb_lance b)) (scan_rows bs)"
proof -
  obtain v b1 where p: "(put_inner L bs :: ('l, unit) context_io) b = (Ok v, b1)"
    and rest: "((if sb_seal_on_put b1 then flush L else io_return ()) :: ('l, unit) context_io) b1 = (Ok u, b')"
    using assms(3,4) by (auto simp: put_def put_sealing_def)
  obtain w where w: "sb_writer b1 = Some w" "sb_seal_on_put b1" "tv_sound V (sb_lance b1)" "tv_current V w (sb_lance b1)"
    "tv_rows V (sb_lance b1) = tv_rows V (sb_lance b)" "tv_pending V (sb_lance b1) = scan_rows bs"
    using put_inner_pending [OF assms(1,2) p] by blast
  show ?thesis using flush_overlays [OF w(1-4)] rest w(2,5,6) by simp
qed

end

section \<open>The store's map of records\<close>

text \<open>A call whose only errors are those of Lance.\<close>

definition lance_only :: "('s, 'e store_error, 'a) io \<Rightarrow> bool" where
  "lance_only m \<longleftrightarrow> (\<forall>s e s'. m s = (Err e, s') \<longrightarrow> (\<exists>x. e = LanceFault x))"

lemma lance_only_bind: "lance_only m \<Longrightarrow> (\<And>x. lance_only (f x)) \<Longrightarrow> lance_only (io_bind m f)"
  unfolding lance_only_def io_bind_def by (auto split: prod.splits sum.splits)

lemma lance_only_match:
  "(\<And>x. lance_only (f x)) \<Longrightarrow> (\<And>e. lance_only (h e)) \<Longrightarrow> lance_only (io_match m f h)"
  unfolding lance_only_def io_match_def by (auto split: prod.splits sum.splits)

lemma lance_only_base:
  "lance_only (io_return x)" "lance_only (fault e)" "lance_only (call k)" "lance_only (\<lambda>b. (Ok (g b), h b))"
proof -
  show pure: "lance_only (io_return x)" "lance_only (fault e)" "lance_only (\<lambda>b. (Ok (g b), h b))" for x e
    by (simp_all add: lance_only_def io_return_def fault_def io_result_def)
  show "lance_only (call k)" unfolding call_def by (intro lance_only_match pure)
qed

lemma put_lance_only: "lance_only (put L bs)"
  unfolding put_def put_sealing_def put_inner_def flush_def flush_inner_def resident_writer_def invalidate_writer_def
  by (auto intro!: lance_only_bind lance_only_match lance_only_base split: option.split)

definition superseded_in :: "(string \<rightharpoonup> 'n context_record) \<Rightarrow> string set" where
  "superseded_in M = {s. \<exists>r \<in> ran M. cr_supersedes_id r = Some s \<and> s \<noteq> cr_id r}"

definition shown :: "lifecycle_query_options \<Rightarrow> (string \<rightharpoonup> 'n context_record) \<Rightarrow> 'n context_record set" where
  "shown opts M = {r \<in> ran M. is_visible opts r \<and> (lq_include_retired opts \<or> cr_id r \<notin> superseded_in M)}"

definition taken_ids :: "(string \<rightharpoonup> 'n context_record) \<Rightarrow> string set" where
  "taken_ids M = {cr_id r | r. r \<in> ran M \<and> \<not> is_tombstone r}"

definition taken_externals :: "(string \<rightharpoonup> 'n context_record) \<Rightarrow> string set" where
  "taken_externals M = {x. \<exists>r \<in> ran M. \<not> is_tombstone r \<and> cr_external_id r = Some x}"

text \<open>The records a handle stands for, by id: all of them stored ones, tombstones included.\<close>

definition good_map :: "'n json codec \<Rightarrow> context_config \<Rightarrow> (string \<rightharpoonup> 'n context_record) \<Rightarrow> bool" where
  "good_map J c M \<longleftrightarrow> (\<forall>k r. M k = Some r \<longrightarrow> cr_id r = k \<and> storable J c r \<and> stored_record r = r)"

definition holds_map ::
  "'l latest_view \<Rightarrow> 'n json codec \<Rightarrow> context_config \<Rightarrow> 'l base \<Rightarrow> (string \<rightharpoonup> 'n context_record) \<Rightarrow> bool" where
  "holds_map V J c b M \<longleftrightarrow> handle_ok V b \<and> tv_rows V (sb_lance b) = (\<lambda>k. map_option (record_row J c) (M k)) \<and> good_map J c M"

definition write_map :: "(string \<rightharpoonup> 'n context_record) \<Rightarrow> 'n context_record list \<Rightarrow> (string \<rightharpoonup> 'n context_record)" where
  "write_map M es = foldl (\<lambda>M e. M(cr_id e \<mapsto> stored_record e)) M es"

locale context_laws = sole_writer L S "''id''" "context_schema c" V
  for L :: "'l lance" and S :: "'l scanner" and c :: context_config and V :: "'l latest_view" +
  fixes J :: "'n json codec"
  assumes codec_ok: "codec_ok J"
begin

lemma good_mapD: "good_map J c M \<Longrightarrow> M k = Some r \<Longrightarrow> cr_id r = k \<and> storable J c r \<and> stored_record r = r"
  unfolding good_map_def by blast

lemma row_key_record: "row_key (context_schema c) ''id'' (record_row J c e) = cr_id e"
  by (simp add: row_key_def schema_defs record_row_def)

lemma overlay_records:
  "overlay (context_schema c) ''id'' (\<lambda>k. map_option (record_row J c) (M k)) (map (record_row J c) es) =
     (\<lambda>k. map_option (record_row J c) (write_map M es k))"
proof (induction es arbitrary: M)
  case (Cons e es)
  have "(\<lambda>k. map_option (record_row J c) (M k))(cr_id e \<mapsto> record_row J c e) =
      (\<lambda>k. map_option (record_row J c) ((M(cr_id e \<mapsto> stored_record e)) k))"
    by (auto simp: record_row_stored)
  then show ?case
    using Cons.IH [of "M(cr_id e \<mapsto> stored_record e)"] unfolding overlay_def write_map_def
    by (simp add: row_key_record del: fun_upd_apply)
qed (simp add: overlay_def write_map_def)

lemma stored_id [simp]: "cr_id (stored_record e) = cr_id e"
  by (simp add: stored_record_def)

lemma good_map_write: "good_map J c M \<Longrightarrow> list_all (storable J c) es \<Longrightarrow> good_map J c (write_map M es)"
proof (induction es arbitrary: M)
  case (Cons e es)
  have "good_map J c (M(cr_id e \<mapsto> stored_record e))"
    unfolding good_map_def
  proof (intro allI impI)
    fix k r assume r: "(M(cr_id e \<mapsto> stored_record e)) k = Some r"
    show "cr_id r = k \<and> storable J c r \<and> stored_record r = r"
    proof (cases "k = cr_id e")
      case True
      then have "r = stored_record e" using r by simp
      then show ?thesis using True Cons.prems(2) storable_stored [of J c e] stored_record_idem [of e] by simp
    next
      case False
      then show ?thesis using r good_mapD [OF Cons.prems(1), of k r] by simp
    qed
  qed
  then show ?case using Cons.IH Cons.prems(2) by (simp add: write_map_def)
qed (simp add: write_map_def)

lemma write_entries_map:
  assumes "holds_map V J c b M" "list_all (storable J c) es" "es \<noteq> []" "write_entries L J c es b = (Ok v, b')"
  shows "holds_map V J c b' (write_map M es)"
proof -
  have sch: "table_schema L (sb_lance b) = context_schema c"
    using assms(1) by (simp add: holds_map_def handle_ok_def schema_fixed)
  obtain bt b1 where bt: "records_to_batch J c (context_schema c) es = Ok bt" and p: "(put L [bt] :: ('l, unit) context_io) b = (Ok (), b1)"
    and "b' = b1"
    using assms(3,4) sch by (auto simp: write_entries_def reading_def base_version_def)
  have b: "append_entries (cc_embedding_dim c) [] es = Ok ()"
    "bt = \<lparr>b_schema = context_schema c, b_rows = map (record_row J c) es\<rparr>"
    using bt by (auto simp: records_to_batch_eq)
  have "list_all (\<lambda>x. b_schema x = context_schema c \<and> batch_ok x) [bt]"
    using append_entries_Ok [OF b(1)] by (auto simp: b(2) batch_ok_def list_all_iff intro!: record_row_fits)
  from put_overlays [OF _ this _ p] assms(1)
  show ?thesis
    using good_map_write [OF _ assms(2), of M] unfolding holds_map_def \<open>b' = b1\<close>
    by (simp add: scan_rows_def b(2) overlay_records)
qed

text \<open>An error of the store's own is raised before anything is written.\<close>

lemma write_entries_refused:
  assumes "write_entries L J c es b = (Err (Invalid e), b')"
  shows "b' = b"
proof -
  have "(put L bs :: ('l, unit) context_io) b \<noteq> (Err (Invalid e), b')" for bs
    using put_lance_only [of L bs] by (auto simp: lance_only_def)
  then show ?thesis
    using assms unfolding write_entries_def
    by (auto simp: io_bind_def reading_def base_version_def split: prod.splits sum.splits if_splits)
qed

section \<open>Reading the map\<close>

lemma decode_rows:
  assumes "good_map J c M" "set ks \<subseteq> dom M" "list_all (\<lambda>b. b_schema b = context_schema c) bs"
    "scan_rows bs = map (\<lambda>k. record_row J c (the (M k))) ks"
  shows "\<exists>rss. collect_res (batch_to_records J) bs = Ok rss \<and> concat rss = map (\<lambda>k. the (M k)) ks"
  using assms(2-4)
proof (induction bs arbitrary: ks)
  case Nil
  then show ?case by (simp add: scan_rows_def)
next
  case (Cons b bs)
  define n where "n = length (b_rows b)"
  have rows: "b_rows b = map (\<lambda>k. record_row J c (the (M k))) (take n ks)"
    "scan_rows bs = map (\<lambda>k. record_row J c (the (M k))) (drop n ks)"
    using Cons.prems(3) unfolding scan_rows_def n_def
    by (simp_all add: take_map [symmetric] drop_map [symmetric] flip: Cons.prems(3)) 
      (metis append_eq_conv_conj)+
  have "row_to_record J (context_schema c) (record_row J c (the (M k))) = Ok (the (M k))" if "k \<in> set ks" for k
  proof -
    obtain r where "M k = Some r" using \<open>k \<in> set ks\<close> Cons.prems(1) by blast
    then show ?thesis using good_mapD [OF assms(1)] row_to_record_row [OF codec_ok, of c r] by force
  qed
  then have "collect_res (row_to_record J (context_schema c)) (b_rows b) = Ok (map (\<lambda>k. the (M k)) (take n ks))"
    unfolding rows(1) by (auto simp: collect_res_Ok_iff list_all2_conv_all_nth in_set_conv_nth)
  then have "batch_to_records J b = Ok (map (\<lambda>k. the (M k)) (take n ks))"
    using Cons.prems(2) by (simp add: batch_to_records_def check_columns_ok)
  moreover obtain rss where "collect_res (batch_to_records J) bs = Ok rss" "concat rss = map (\<lambda>k. the (M k)) (drop n ks)"
    using Cons.IH [of "drop n ks"] Cons.prems(1,2) rows(2) by (auto dest: in_set_dropD)
  ultimately show ?case by (auto simp flip: map_append)
qed

lemma ran_of_keys: "set ks = dom M \<Longrightarrow> (\<lambda>k. the (M k)) ` set ks = ran M"
  by (force simp: ran_def dom_def image_def)

lemma ids_of_keys: "good_map J c M \<Longrightarrow> set ks \<subseteq> dom M \<Longrightarrow> map (\<lambda>k. cr_id (the (M k))) ks = ks"
  by (induction ks) (auto dest: good_mapD)

lemma scan_all_records:
  assumes "holds_map V J c b M" "scan_batches S None None b = Ok bs"
  obtains rss where "collect_res (batch_to_records J) bs = Ok rss" "set (concat rss) = ran M"
    "distinct (map cr_id (concat rss))"
proof -
  have h: "tv_sound V (sb_lance b)" "good_map J c M" "tv_rows V (sb_lance b) = (\<lambda>k. map_option (record_row J c) (M k))"
    using assms(1) by (simp_all add: holds_map_def handle_ok_def)
  have "S None None (sb_lance b) = Ok bs" using assms(2) by (simp add: scan_batches_def)
  from scan_all [OF h(1) this] obtain ks where ks: "list_all (\<lambda>b. b_schema b = context_schema c) bs" "distinct ks"
    "set ks = dom M" "scan_rows bs = map (\<lambda>k. the (map_option (record_row J c) (M k))) ks"
    unfolding h(3) by (auto simp: dom_map_option)
  have "scan_rows bs = map (\<lambda>k. record_row J c (the (M k))) ks" using ks(3,4) by (auto simp: option.map_sel)
  then obtain rss where rss: "collect_res (batch_to_records J) bs = Ok rss" "concat rss = map (\<lambda>k. the (M k)) ks"
    using decode_rows [OF h(2) _ ks(1)] ks(3) by blast
  have "set (concat rss) = ran M" unfolding rss(2) set_map by (rule ran_of_keys [OF ks(3)])
  moreover have "distinct (map cr_id (concat rss))"
    using ks(2,3) ids_of_keys [OF h(2), of ks] unfolding rss(2) by (simp add: comp_def)
  ultimately show ?thesis by (rule that [OF rss(1)])
qed

lemma superseded_ids_set: "set rs = ran M \<Longrightarrow> set (superseded_ids rs) = superseded_in M"
proof -
  assume "set rs = ran M"
  then have "set (superseded_ids rs) =
      (\<Union>r \<in> ran M. set (case cr_supersedes_id r of Some s \<Rightarrow> if s = cr_id r then [] else [s] | None \<Rightarrow> []))"
    by (simp add: superseded_ids_def)
  also have "\<dots> = superseded_in M"
    by (force simp: superseded_in_def split: option.splits if_splits)
  finally show ?thesis .
qed

lemma list_shown:
  assumes "holds_map V J c b M"
    "list_filtered_projected L S J None None filters opts default_projection b = Ok rs"
  shows "distinct (map cr_id rs) \<and>
    set rs = {r \<in> shown opts M. \<forall>f. filters = Some f \<longrightarrow> filters_is_empty f \<or> filters_match f r}"
proof -
  obtain bs where bs: "scan_batches S None None b = Ok bs"
    using assms(2) by (auto simp: list_filtered_projected_def lsm_scanner_projected_def loads_all_def default_projection_def)
  obtain rss where rss: "collect_res (batch_to_records J) bs = Ok rss" "set (concat rss) = ran M"
    "distinct (map cr_id (concat rss))" using scan_all_records [OF assms(1) bs] .
  note sup = superseded_ids_set [OF rss(2)]
  define vis where "vis = filter (\<lambda>r. is_visible opts r \<and> (lq_include_retired opts \<or> cr_id r \<notin> superseded_in M)) (concat rss)"
  have vis: "set vis = shown opts M" "distinct (map cr_id vis)"
    using rss(2,3) by (auto simp: vis_def shown_def distinct_map_filter)
  have "rs = (case filters of Some f \<Rightarrow> if filters_is_empty f then vis else filter (filters_match f) vis | None \<Rightarrow> vis)"
    using assms(2) bs rss(1) unfolding vis_def sup [symmetric]
    by (simp add: list_filtered_projected_def lsm_scanner_projected_def loads_all_def default_projection_def Let_def)
  then show ?thesis using vis by (auto simp: distinct_map_filter split: option.split)
qed

lemma list_records_shown:
  assumes "holds_map V J c b M" "list_records L S J now b = Ok rs"
  shows "distinct (map cr_id rs)" "set rs = shown (default_options now) M"
  using list_shown [OF assms(1)] assms(2) by (auto simp: list_records_def)

section \<open>Keys in use\<close>

lemma key_columns:
  "project_fields (Some [''id'', ''content_type'']) (context_schema c) = [col ''id'' DUtf8 False, col ''content_type'' DUtf8 False]"
  "project_fields (Some [''external_id'', ''content_type'']) (context_schema c) =
     [col ''external_id'' DUtf8 True, col ''content_type'' DUtf8 False]"
  by (simp_all add: project_fields_def schema_defs)

lemma key_cells:
  "project_row (context_schema c) (Some [''id'', ''content_type'']) (record_row J c e) = [CUtf8 (cr_id e), CUtf8 (cr_content_type e)]"
  "project_row (context_schema c) (Some [''external_id'', ''content_type'']) (record_row J c e) =
     [opt_cell CUtf8 (cr_external_id e), CUtf8 (cr_content_type e)]"
  "text_in (context_schema c) ''id'' vs (record_row J c e) \<longleftrightarrow> cr_id e \<in> set vs"
  "text_in (context_schema c) ''external_id'' vs (record_row J c e) \<longleftrightarrow> (\<exists>x \<in> set vs. cr_external_id e = Some x)"
  unfolding project_row_def key_columns
  by (auto simp: col_def schema_defs record_row_def text_in_def opt_cell_def split: option.split)

lemma collect_concat:
  assumes "\<And>x. x \<in> set bs \<Longrightarrow> f x = Ok (concat (map g (b_rows x)))" "collect_res f bs = Ok kss"
  shows "concat kss = concat (map g (scan_rows bs))"
  using assms by (induction bs arbitrary: kss) (auto simp: scan_rows_def)

lemma id_keys_in_batch:
  assumes "b_schema x = [col ''id'' DUtf8 False, col ''content_type'' DUtf8 False]"
  shows "keys_in_batch False ''id'' vs x = Ok (concat (map (\<lambda>r.
    if str_at (b_schema x) r ''content_type'' = CONTENT_TYPE_TOMBSTONE then []
    else if str_at (b_schema x) r ''id'' \<in> set vs then [str_at (b_schema x) r ''id''] else []) (b_rows x)))"
  unfolding keys_in_batch_def assms by (simp add: column_as_def field_with_name_def col_def cong: if_cong)

lemma external_keys_in_batch:
  assumes "b_schema x = [col ''external_id'' DUtf8 True, col ''content_type'' DUtf8 False]"
  shows "keys_in_batch True ''external_id'' vs x = Ok (concat (map (\<lambda>r.
    if str_at (b_schema x) r ''content_type'' = CONTENT_TYPE_TOMBSTONE then []
    else case optional_string (b_schema x) r ''external_id'' of Some v \<Rightarrow> if v \<in> set vs then [v] else [] | None \<Rightarrow> []) (b_rows x)))"
  unfolding keys_in_batch_def assms by (simp add: column_as_def field_with_name_def col_def cong: if_cong)

lemma key_strings:
  "str_at [col ''id'' DUtf8 False, col ''content_type'' DUtf8 False] [CUtf8 i, CUtf8 t] ''id'' = i"
  "str_at [col ''id'' DUtf8 False, col ''content_type'' DUtf8 False] [CUtf8 i, CUtf8 t] ''content_type'' = t"
  "str_at [col ''external_id'' DUtf8 True, col ''content_type'' DUtf8 False] [y, CUtf8 t] ''content_type'' = t"
  "optional_string [col ''external_id'' DUtf8 True, col ''content_type'' DUtf8 False] [opt_cell CUtf8 x, CUtf8 t] ''external_id'' = x"
  by (cases x; simp add: str_at_def optional_string_def column_as_optional_def field_with_name_def col_def opt_cell_def)+

lemma scan_in_records:
  assumes "holds_map V J c b M" "cn = ''id'' \<or> cn = ''external_id''" "scan_batches S (Some (sql_in cn vs)) cols b = Ok bs" "vs \<noteq> []"
  obtains ks where "list_all (\<lambda>b. b_schema b = project_fields cols (context_schema c)) bs" "distinct ks"
    "set ks = {k. \<exists>r. M k = Some r \<and> text_in (context_schema c) cn vs (record_row J c r)}"
    "scan_rows bs = map (\<lambda>k. project_row (context_schema c) cols (record_row J c (the (M k)))) ks"
proof -
  have h: "tv_sound V (sb_lance b)" "good_map J c M" "tv_rows V (sb_lance b) = (\<lambda>k. map_option (record_row J c) (M k))"
    using assms(1) by (simp_all add: holds_map_def handle_ok_def)
  have scan: "S (Some (sql_in cn vs)) cols (sb_lance b) = Ok bs" using assms(3) by (simp add: scan_batches_def)
  have "cn \<in> fd_name ` set (context_schema c)"
    using assms(2) unfolding set_map [symmetric] context_schema_names by (auto simp: schema_names_def)
  from scan_in [OF h(1) this scan assms(4)] obtain ks where ks: "list_all (\<lambda>b. b_schema b = project_fields cols (context_schema c)) bs"
    "distinct ks" "set ks = {k. \<exists>r. map_option (record_row J c) (M k) = Some r \<and> text_in (context_schema c) cn vs r}"
    "scan_rows bs = map (\<lambda>k. project_row (context_schema c) cols (the (map_option (record_row J c) (M k)))) ks"
    unfolding h(3) by blast
  have "set ks = {k. \<exists>r. M k = Some r \<and> text_in (context_schema c) cn vs (record_row J c r)}" using ks(3) by force
  moreover have "scan_rows bs = map (\<lambda>k. project_row (context_schema c) cols (record_row J c (the (M k)))) ks"
    unfolding ks(4) using ks(3) by (auto simp: option.map_sel)
  ultimately show ?thesis by (rule that [OF ks(1,2)])
qed

lemma existing_ids:
  assumes "holds_map V J c b M" "existing_keys S False ''id'' vs b = Ok found" "vs \<noteq> []"
  shows "set found = taken_ids M \<inter> set vs"
proof -
  obtain bs kss where bs: "scan_batches S (Some (sql_in ''id'' vs)) (Some [''id'', ''content_type'']) b = Ok bs"
    and kss: "collect_res (keys_in_batch False ''id'' vs) bs = Ok kss" "found = concat kss"
    using assms(2) by (auto simp: existing_keys_def)
  obtain ks where ks: "list_all (\<lambda>b. b_schema b = project_fields (Some [''id'', ''content_type'']) (context_schema c)) bs" "distinct ks"
    "set ks = {k. \<exists>r. M k = Some r \<and> text_in (context_schema c) ''id'' vs (record_row J c r)}"
    "scan_rows bs = map (\<lambda>k. project_row (context_schema c) (Some [''id'', ''content_type'']) (record_row J c (the (M k)))) ks"
    using scan_in_records [OF assms(1) _ bs assms(3)] by blast
  let ?sch = "[col ''id'' DUtf8 False, col ''content_type'' DUtf8 False]"
  have "found = concat (map (\<lambda>r. if str_at ?sch r ''content_type'' = CONTENT_TYPE_TOMBSTONE then []
      else if str_at ?sch r ''id'' \<in> set vs then [str_at ?sch r ''id''] else []) (scan_rows bs))"
    unfolding kss(2)
  proof (rule collect_concat [OF _ kss(1)])
    fix x assume "x \<in> set bs"
    then have sc: "b_schema x = ?sch" using ks(1) by (simp add: list_all_iff key_columns)
    show "keys_in_batch False ''id'' vs x = Ok (concat (map (\<lambda>r. if str_at ?sch r ''content_type'' = CONTENT_TYPE_TOMBSTONE then []
      else if str_at ?sch r ''id'' \<in> set vs then [str_at ?sch r ''id''] else []) (b_rows x)))"
      using id_keys_in_batch [OF sc, of vs] unfolding sc .
  qed
  also have "\<dots> = concat (map (\<lambda>k. if is_tombstone (the (M k)) then []
      else if cr_id (the (M k)) \<in> set vs then [cr_id (the (M k))] else []) ks)"
    unfolding ks(4) key_cells map_map comp_def key_strings is_tombstone_def ..
  finally show ?thesis
    using ks(3) unfolding key_cells taken_ids_def by (auto simp: ran_def)
qed

lemma existing_externals:
  assumes "holds_map V J c b M" "existing_keys S True ''external_id'' vs b = Ok found" "vs \<noteq> []"
  shows "set found = taken_externals M \<inter> set vs"
proof -
  obtain bs kss where bs: "scan_batches S (Some (sql_in ''external_id'' vs)) (Some [''external_id'', ''content_type'']) b = Ok bs"
    and kss: "collect_res (keys_in_batch True ''external_id'' vs) bs = Ok kss" "found = concat kss"
    using assms(2) by (auto simp: existing_keys_def)
  obtain ks where ks: "list_all (\<lambda>b. b_schema b = project_fields (Some [''external_id'', ''content_type'']) (context_schema c)) bs" "distinct ks"
    "set ks = {k. \<exists>r. M k = Some r \<and> text_in (context_schema c) ''external_id'' vs (record_row J c r)}"
    "scan_rows bs = map (\<lambda>k. project_row (context_schema c) (Some [''external_id'', ''content_type'']) (record_row J c (the (M k)))) ks"
    using scan_in_records [OF assms(1) _ bs assms(3)] by blast
  let ?sch = "[col ''external_id'' DUtf8 True, col ''content_type'' DUtf8 False]"
  let ?key = "\<lambda>r. if str_at ?sch r ''content_type'' = CONTENT_TYPE_TOMBSTONE then []
      else case optional_string ?sch r ''external_id'' of Some v \<Rightarrow> if v \<in> set vs then [v] else [] | None \<Rightarrow> []"
  have "found = concat (map ?key (scan_rows bs))"
    unfolding kss(2)
  proof (rule collect_concat [OF _ kss(1)])
    fix x assume "x \<in> set bs"
    then have sc: "b_schema x = ?sch" using ks(1) by (simp add: list_all_iff key_columns)
    show "keys_in_batch True ''external_id'' vs x = Ok (concat (map ?key (b_rows x)))"
      using external_keys_in_batch [OF sc, of vs] unfolding sc .
  qed
  also have "\<dots> = concat (map (\<lambda>k. if is_tombstone (the (M k)) then []
      else case cr_external_id (the (M k)) of Some v \<Rightarrow> if v \<in> set vs then [v] else [] | None \<Rightarrow> []) ks)"
    unfolding ks(4) key_cells map_map comp_def key_strings is_tombstone_def ..
  finally show ?thesis
    using ks(3) unfolding key_cells taken_externals_def
    by (auto simp: ran_def split: option.splits if_splits) force+
qed

lemma find_existing_exact:
  assumes "holds_map V J c b M" "find_existing_keys L S ids exts b = Ok (found, found_external)"
  shows "set found = taken_ids M \<inter> set ids" "set found_external = taken_externals M \<inter> set exts"
proof -
  have "table_schema L (sb_lance b) = context_schema c"
    using assms(1) by (simp add: holds_map_def handle_ok_def schema_fixed)
  then have "if ids \<noteq> [] then existing_keys S False ''id'' ids b = Ok found else found = []"
    "if exts \<noteq> [] then existing_keys S True ''external_id'' exts b = Ok found_external else found_external = []"
    using assms(2) by (auto simp: find_existing_keys_def has_columns split: if_splits)
  then show "set found = taken_ids M \<inter> set ids" "set found_external = taken_externals M \<inter> set exts"
    using existing_ids [OF assms(1)] existing_externals [OF assms(1)] by (auto split: if_splits)
qed

end

end
