(* ===== verification/Context_Chains.thy ===== *)
theory Context_Chains
  imports Context_Table
begin

text \<open>
  The invariant of the context store on its map of records: the live records of an external id form a
  chain, each superseding the next, so that only its head can be visible. New records go in front,
  deletions take the head away.
\<close>

section \<open>Chains\<close>

type_synonym 'n record_map = "string \<rightharpoonup> 'n context_record"

definition holders :: "'n record_map \<Rightarrow> string \<Rightarrow> string set" where
  "holders M x = {k. \<exists>r. M k = Some r \<and> \<not> is_tombstone r \<and> cr_external_id r = Some x}"

fun linked :: "'n record_map \<Rightarrow> string list \<Rightarrow> bool" where
  "linked M (k # k' # ks) = (cr_supersedes_id (the (M k)) = Some k' \<and> linked M (k' # ks))"
| "linked M _ = True"

definition chain :: "'n record_map \<Rightarrow> string \<Rightarrow> string list \<Rightarrow> bool" where
  "chain M x ks \<longleftrightarrow> distinct ks \<and> set ks = holders M x \<and> linked M ks"

definition chained :: "'n record_map \<Rightarrow> bool" where
  "chained M \<longleftrightarrow> (\<forall>x. \<exists>ks. chain M x ks)"

text \<open>No other live record of the same external id supersedes it.\<close>

definition newest :: "'n record_map \<Rightarrow> string \<Rightarrow> string \<Rightarrow> bool" where
  "newest M x k \<longleftrightarrow> k \<in> holders M x \<and> (\<forall>j \<in> holders M x. j \<noteq> k \<longrightarrow> cr_supersedes_id (the (M j)) \<noteq> Some k)"

definition extends :: "'n record_map \<Rightarrow> 'n context_record \<Rightarrow> bool" where
  "extends M e \<longleftrightarrow> \<not> is_tombstone e \<and> (\<forall>r. M (cr_id e) = Some r \<longrightarrow> is_tombstone r) \<and>
     (\<forall>x. cr_external_id e = Some x \<longrightarrow> holders M x = {} \<or> (\<exists>k. newest M x k \<and> cr_supersedes_id e = Some k))"

lemma linked_cong: "(\<And>k. k \<in> set ks \<Longrightarrow> M k = M' k) \<Longrightarrow> linked M ks = linked M' ks"
  by (induction M ks rule: linked.induct) auto

lemma linked_superseded:
  "linked M (h # ks) \<Longrightarrow> distinct (h # ks) \<Longrightarrow> k \<in> set ks \<Longrightarrow> \<exists>j \<in> set (h # ks). j \<noteq> k \<and> cr_supersedes_id (the (M j)) = Some k"
proof (induction ks arbitrary: h)
  case (Cons k' ks)
  show ?case
  proof (cases "k = k'")
    case True
    then show ?thesis using Cons.prems by auto
  next
    case False
    then show ?thesis using Cons.IH [of k'] Cons.prems by auto
  qed
qed simp

lemma newest_head:
  assumes "chain M x ks" "newest M x k"
  obtains rest where "ks = k # rest"
proof (cases ks)
  case Nil
  then show ?thesis using assms by (simp add: chain_def newest_def)
next
  case (Cons h rest)
  have "k \<notin> set rest"
    using linked_superseded [of M h rest k] assms Cons by (auto simp: chain_def newest_def)
  then have "h = k" using assms Cons by (auto simp: chain_def newest_def)
  then show ?thesis using that Cons by blast
qed

lemma chain_empty: "holders M x = {} \<Longrightarrow> chain M x []"
  by (simp add: chain_def)

lemma holders_live: "k \<in> holders M x \<Longrightarrow> \<exists>r. M k = Some r \<and> \<not> is_tombstone r"
  by (auto simp: holders_def)

lemma chained_extend:
  assumes "chained M" "extends M e"
  shows "chained (M(cr_id e \<mapsto> e))"
  unfolding chained_def
proof
  fix x
  let ?M = "M(cr_id e \<mapsto> e)"
  have free: "cr_id e \<notin> holders M y" for y using assms(2) by (auto simp: holders_def extends_def)
  have live: "\<not> is_tombstone e" using assms(2) by (simp add: extends_def)
  have hold: "holders ?M x = (if cr_external_id e = Some x then insert (cr_id e) (holders M x) else holders M x)"
    using free [of x] live by (auto simp: holders_def)
  obtain ks where ks: "chain M x ks" using assms(1) by (auto simp: chained_def)
  have same: "linked ?M ks = linked M ks" using ks free [of x] by (intro linked_cong) (auto simp: chain_def)
  show "\<exists>ks. chain ?M x ks"
  proof (cases "cr_external_id e = Some x")
    case False
    then show ?thesis using ks same hold unfolding chain_def by auto
  next
    case True
    have "linked ?M (cr_id e # ks)"
    proof (cases "holders M x = {}")
      case True
      then show ?thesis using ks by (simp add: chain_def)
    next
      case False
      then obtain k where k: "newest M x k" "cr_supersedes_id e = Some k"
        using assms(2) \<open>cr_external_id e = Some x\<close> by (auto simp: extends_def)
      obtain rest where "ks = k # rest" using newest_head [OF ks k(1)] .
      then show ?thesis using ks same k(2) by (simp add: chain_def)
    qed
    then have "chain ?M x (cr_id e # ks)" using ks free [of x] hold True by (simp add: chain_def)
    then show ?thesis ..
  qed
qed

lemma chained_bury:
  assumes "chained M" "is_tombstone t" "\<And>x. k \<in> holders M x \<Longrightarrow> newest M x k"
  shows "chained (M(k \<mapsto> t))"
  unfolding chained_def
proof
  fix x
  have hold: "holders (M(k \<mapsto> t)) x = holders M x - {k}" using assms(2) by (auto simp: holders_def)
  obtain ks where ks: "chain M x ks" using assms(1) by (auto simp: chained_def)
  have same: "k \<notin> set js \<Longrightarrow> linked (M(k \<mapsto> t)) js = linked M js" for js by (intro linked_cong) auto
  show "\<exists>ks. chain (M(k \<mapsto> t)) x ks"
  proof (cases "k \<in> holders M x")
    case False
    then show ?thesis using ks same [of ks] hold unfolding chain_def by auto
  next
    case True
    obtain rest where r: "ks = k # rest" using newest_head [OF ks assms(3) [OF True]] .
    have "linked M rest" using ks unfolding r chain_def by (cases rest) simp_all
    then have "chain (M(k \<mapsto> t)) x rest" using ks same [of rest] hold unfolding r chain_def by auto
    then show ?thesis ..
  qed
qed

section \<open>Visible records\<close>

definition by_id :: "'n record_map \<Rightarrow> bool" where
  "by_id M \<longleftrightarrow> (\<forall>k r. M k = Some r \<longrightarrow> cr_id r = k)"

lemma shown_holder:
  assumes "by_id M" "r \<in> shown opts M" "cr_external_id r = Some x"
  shows "cr_id r \<in> holders M x" "M (cr_id r) = Some r"
proof -
  obtain k where k: "M k = Some r" using assms(2) by (auto simp: shown_def ran_def)
  then have "k = cr_id r" using assms(1) by (auto simp: by_id_def)
  with k show "M (cr_id r) = Some r" by simp
  then show "cr_id r \<in> holders M x" using assms(2,3) by (auto simp: holders_def shown_def is_visible_def)
qed

lemma shown_newest:
  assumes "by_id M" "r \<in> shown (default_options now) M" "cr_external_id r = Some x"
  shows "newest M x (cr_id r)"
  unfolding newest_def
proof (intro conjI ballI impI)
  show "cr_id r \<in> holders M x" by (rule shown_holder [OF assms])
  fix j assume j: "j \<in> holders M x" "j \<noteq> cr_id r"
  then obtain q where q: "M j = Some q" by (auto simp: holders_def)
  then have "cr_id q = j" using assms(1) by (auto simp: by_id_def)
  show "cr_supersedes_id (the (M j)) \<noteq> Some (cr_id r)"
  proof
    assume "cr_supersedes_id (the (M j)) = Some (cr_id r)"
    then have "cr_id r \<in> superseded_in M"
      using q j(2) \<open>cr_id q = j\<close> by (auto simp: superseded_in_def ran_def)
    then show False using assms(2) by (simp add: shown_def default_options_def)
  qed
qed

lemma shown_unique:
  assumes "chained M" "by_id M" "r \<in> shown (default_options now) M" "r' \<in> shown (default_options now') M"
    "cr_external_id r = Some x" "cr_external_id r' = Some x"
  shows "r = r'"
proof -
  obtain ks where ks: "chain M x ks" using assms(1) by (auto simp: chained_def)
  obtain u where u: "ks = cr_id r # u" using newest_head [OF ks shown_newest [OF assms(2,3,5)]] .
  obtain v where "ks = cr_id r' # v" using newest_head [OF ks shown_newest [OF assms(2,4,6)]] .
  with u have "cr_id r = cr_id r'" by simp
  then show ?thesis
    using shown_holder(2) [OF assms(2,3,5)] shown_holder(2) [OF assms(2,4,6)] by (metis option.inject)
qed

end
