(* ===== verification/Context_Correct.thy ===== *)
theory Context_Correct
  imports Context_Chains
begin

text \<open>
  Every operation of the context store on its map of records: what a successful call writes, that a
  refused call changes nothing, and that both keep the chains of external ids.
\<close>

section \<open>Refused calls change nothing\<close>

definition clean :: "('s, 'e store_error, 'a) io \<Rightarrow> bool" where
  "clean m \<longleftrightarrow> (\<forall>s e s'. m s = (Err e, s') \<longrightarrow> (\<exists>x. e = LanceFault x) \<or> s' = s)"

lemma clean_pure: "clean (io_return x)" "clean (io_result r)" "clean (reading g)"
  by (auto simp: clean_def io_return_def io_result_def reading_def)

lemma clean_reading: "(\<And>x. clean (f x)) \<Longrightarrow> clean (io_bind (reading g) f)"
  unfolding clean_def by (auto simp: io_bind_def reading_def split: sum.splits)

lemma clean_result: "(\<And>x. clean (f x)) \<Longrightarrow> clean (io_bind (io_result r) f)"
  unfolding clean_def by (auto simp: io_bind_def io_result_def split: sum.splits)

lemma clean_last: "clean m \<Longrightarrow> clean (io_bind m (\<lambda>x. io_return (g x)))"
  unfolding clean_def by (auto simp: io_bind_def io_return_def split: prod.splits sum.splits)

lemma clean_write: "clean (write_entries L J c es)"
proof -
  have "clean (io_bind (put L bs) (\<lambda>_. base_version L))" for bs
    using put_lance_only [of L bs] unfolding clean_def lance_only_def
    by (auto simp: io_bind_def base_version_def split: prod.splits sum.splits)
  moreover have "clean (base_version L)" by (simp add: clean_def base_version_def)
  ultimately show ?thesis by (auto simp: write_entries_def intro: clean_reading)
qed

lemma clean_add: "clean (add L S J c es)"
proof -
  have "clean (base_version L)" by (simp add: clean_def base_version_def)
  then show ?thesis by (auto simp: add_def intro: clean_reading clean_write)
qed

lemma clean_delete: "clean (delete_by_id L S J c am i)" "clean (delete_by_external_id L S J c am i)"
  by (auto simp: delete_by_id_def delete_by_external_id_def delete_found_def write_tombstone_for_def
      intro!: clean_reading clean_last clean_write clean_pure split: option.split)

lemma clean_upsert: "clean (upsert_by_external_id L S J c am r)"
  by (auto simp: upsert_by_external_id_def Let_def intro!: clean_reading clean_last clean_write clean_add clean_pure
      split: option.split list.split)

lemma clean_upsert_many: "clean (upsert_many_by_external_id L S J c am rs)"
  by (auto simp: upsert_many_by_external_id_def Let_def intro!: clean_reading clean_result clean_last clean_write clean_pure
      split: prod.split)

lemma clean_update: "clean (update_by_id L S J c am i p)" "clean (update_by_external_id L S J c am i p)"
proof -
  have "clean (update_visible_record L S J c am e p)" for e
    by (auto simp: update_visible_record_def Let_def intro!: clean_reading clean_last clean_write clean_pure)
  then show "clean (update_by_id L S J c am i p)" "clean (update_by_external_id L S J c am i p)"
    by (auto simp: update_by_id_def update_by_external_id_def intro!: clean_reading clean_last clean_pure
        split: option.split list.split)
qed

section \<open>Writes that extend the map\<close>

lemma extends_stored: "extends M (stored_record e) = extends M e"
  by (simp add: extends_def stored_record_def is_tombstone_def)

lemma extends_other:
  assumes "extends M e" "extends M e'" "cr_id e \<noteq> cr_id e'" "\<And>x. cr_external_id e = Some x \<Longrightarrow> cr_external_id e' \<noteq> Some x"
  shows "extends (M(cr_id e \<mapsto> e)) e'"
proof -
  have "holders (M(cr_id e \<mapsto> e)) x = holders M x" "cr_id e \<notin> holders M x" if "cr_external_id e' = Some x" for x
    using assms(1,4) that by (auto simp: holders_def extends_def)
  then show ?thesis using assms(2,3) by (auto simp: extends_def newest_def)
qed

lemma stored_fields [simp]:
  "cr_external_id (stored_record e) = cr_external_id e" "cr_supersedes_id (stored_record e) = cr_supersedes_id e"
  "cr_id (stored_record e) = cr_id e" "is_tombstone (stored_record e) = is_tombstone e"
  by (simp_all add: stored_record_def is_tombstone_def)

lemma chained_writes:
  assumes "chained M" "list_all (extends M) es" "distinct (map cr_id es)" "distinct (external_ids_of es)"
  shows "chained (write_map M es)"
  using assms
proof (induction es arbitrary: M)
  case (Cons e es)
  let ?M = "M(cr_id e \<mapsto> stored_record e)"
  have "chained ?M" using chained_extend [of M "stored_record e"] Cons.prems(1,2) by (simp add: extends_stored)
  moreover have "extends ?M e'" if "e' \<in> set es" for e'
  proof -
    have "cr_external_id e' \<noteq> Some x" if "cr_external_id e = Some x" for x
      using Cons.prems(4) that \<open>e' \<in> set es\<close> by (force simp: external_ids_of_def)
    then show ?thesis
      using extends_other [of M "stored_record e" e'] Cons.prems(2,3) that by (auto simp: extends_stored list_all_iff)
  qed
  moreover have "distinct (external_ids_of es)" using Cons.prems(4) by (simp add: external_ids_of_def)
  moreover have "distinct (map cr_id es)" using Cons.prems(3) by simp
  ultimately have "chained (write_map ?M es)" by (intro Cons.IH) (simp_all only: list_all_iff, blast)
  then show ?case by (simp only: write_map_def foldl_Cons)
qed (simp add: write_map_def)

lemma batch_keys_Ok:
  "batch_keys_distinct ids exts es = Ok () \<Longrightarrow>
     list_all (\<lambda>e. \<not> is_tombstone e) es \<and> distinct (map cr_id es) \<and> set ids \<inter> cr_id ` set es = {} \<and>
     distinct (external_ids_of es) \<and> set exts \<inter> set (external_ids_of es) = {}"
  by (induction ids exts es rule: batch_keys_distinct.induct)
    (auto simp: external_ids_of_def split: if_splits option.splits)

lemma taken_externals_holders: "x \<in> taken_externals M \<longleftrightarrow> holders M x \<noteq> {}"
  by (auto simp: taken_externals_def holders_def ran_def)

lemma taken_ids_free: "by_id M \<Longrightarrow> i \<notin> taken_ids M \<Longrightarrow> M i = Some r \<Longrightarrow> is_tombstone r"
  by (force simp: taken_ids_def by_id_def ran_def)

lemma cells_by_name:
  "distinct (map fd_name sch) \<Longrightarrow> length r = length sch \<Longrightarrow> map (\<lambda>f. the (cell_at sch r (fd_name f))) sch = r"
proof (induction sch arbitrary: r)
  case (Cons f sch)
  then obtain x xs where r: "r = x # xs" "length xs = length sch" by (cases r) auto
  have "map (\<lambda>g. the (cell_at (f # sch) r (fd_name g))) sch = map (\<lambda>g. the (cell_at sch xs (fd_name g))) sch"
    using Cons.prems(1) r(1) by (auto simp: image_iff)
  also have "\<dots> = xs" using Cons.IH [of xs] Cons.prems(1) r by simp
  finally have "map (\<lambda>g. the (cell_at (f # sch) r (fd_name g))) sch = xs" .
  moreover have "the (cell_at (f # sch) r (fd_name f)) = x" by (simp add: r(1))
  ultimately show ?case by (simp only: list.map r(1))
qed simp

lemma distinct_all_equal: "distinct xs \<Longrightarrow> (\<And>x y. x \<in> set xs \<Longrightarrow> y \<in> set xs \<Longrightarrow> x = y) \<Longrightarrow> length xs \<le> 1"
proof -
  assume d: "distinct xs" and e: "\<And>x y. x \<in> set xs \<Longrightarrow> y \<in> set xs \<Longrightarrow> x = y"
  have "card (set xs) \<le> 1" using e card_le_Suc0_iff_eq [of "set xs"] by simp
  then show ?thesis using d by (simp add: distinct_card)
qed

section \<open>The state of an external id\<close>

definition state_of :: "external_id_state option \<Rightarrow> string list \<times> bool" where
  "state_of st = (case st of None \<Rightarrow> ([], False) | Some s \<Rightarrow> (xs_visible_ids s, xs_has_non_tombstone s))"

lemma state_of_step:
  "x \<in> set cands \<Longrightarrow> state_of (external_id_step opts cands gone states r x) =
     (if cr_external_id r = Some x
      then (fst (state_of (states x)) @ (if is_visible opts r \<and> cr_id r \<notin> set gone then [cr_id r] else []),
            snd (state_of (states x)) \<or> \<not> is_tombstone r)
      else state_of (states x))"
  by (auto simp: external_id_step_def state_of_def Let_def split: option.splits)

lemma state_of_fold:
  "x \<in> set cands \<Longrightarrow> state_of (foldl (external_id_step opts cands gone) states rows x) =
     (fst (state_of (states x)) @
        map cr_id (filter (\<lambda>r. cr_external_id r = Some x \<and> is_visible opts r \<and> cr_id r \<notin> set gone) rows),
      snd (state_of (states x)) \<or> list_ex (\<lambda>r. cr_external_id r = Some x \<and> \<not> is_tombstone r) rows)"
  by (induction rows arbitrary: states) (auto simp: state_of_step)

lemma upsert_outcome_Ok:
  assumes "upsert_outcome states r = Ok (r', inserted, replaced)" "cr_external_id r = Some x"
  shows "(\<exists>k. fst (state_of (states x)) = [k] \<and> r' = r\<lparr>cr_supersedes_id := Some k\<rparr> \<and> \<not> inserted \<and> replaced = Some k) \<or>
    state_of (states x) = ([], False) \<and> r' = r \<and> inserted \<and> replaced = None"
  using assms
  by (auto simp: upsert_outcome_def state_of_def Let_def length_Suc_conv not_less le_Suc_eq split: option.splits if_splits)

lemma check_upsert_Ok:
  "check_upsert_batch ids exts es = Ok () \<Longrightarrow>
     list_all (\<lambda>e. \<not> is_tombstone e \<and> (\<exists>x. cr_external_id e = Some x \<and> x \<noteq> [])) es \<and> distinct (map cr_id es) \<and>
     set ids \<inter> cr_id ` set es = {} \<and> distinct (external_ids_of es) \<and> set exts \<inter> set (external_ids_of es) = {}"
  by (induction ids exts es rule: check_upsert_batch.induct)
    (auto simp: external_ids_of_def split: if_splits option.splits)

context context_laws
begin

lemma holds_by_id: "holds_map V J c b M \<Longrightarrow> by_id M"
  by (auto simp: holds_map_def good_map_def by_id_def)

lemma add_Ok:
  assumes "holds_map V J c b M" "list_all (storable J c) es" "add L S J c es b = (Ok v, b')"
  shows "holds_map V J c b' (write_map M es)" "distinct (map cr_id es)" "distinct (external_ids_of es)"
    "\<forall>e \<in> set es. extends M e \<and> (\<forall>x. cr_external_id e = Some x \<longrightarrow> holders M x = {})"
proof -
  have "holds_map V J c b' (write_map M es) \<and> distinct (map cr_id es) \<and> distinct (external_ids_of es) \<and>
    (\<forall>e \<in> set es. extends M e \<and> (\<forall>x. cr_external_id e = Some x \<longrightarrow> holders M x = {}))"
  proof (cases "es = []")
    case True
    then show ?thesis using assms(1,3) by (simp add: add_def base_version_def write_map_def external_ids_of_def)
  next
    case False
    obtain found fx u where k: "batch_keys_distinct [] [] es = Ok ()"
      and f: "find_existing_keys L S (map cr_id es) (external_ids_of es) b = Ok (found, fx)"
      and en: "collect_res (entry_unused found fx) es = Ok u"
      and w: "write_entries L J c es b = (Ok v, b')"
      using assms(3) False by (auto simp: add_def reading_def validate_unique_ids_def)
    note found = find_existing_exact [OF assms(1) f]
    have unused: "entry_unused found fx e = Ok ()" if "e \<in> set es" for e
      using en that by (auto simp: collect_res_Ok_iff list_all2_conv_all_nth in_set_conv_nth)
    have "extends M e \<and> (\<forall>x. cr_external_id e = Some x \<longrightarrow> holders M x = {})" if e: "e \<in> set es" for e
    proof -
      have "cr_id e \<notin> taken_ids M" using unused [OF e] found(1) e by (auto simp: entry_unused_def split: if_splits)
      moreover have "holders M x = {}" if "cr_external_id e = Some x" for x
      proof -
        have "x \<in> set (external_ids_of es)" using e that by (force simp: external_ids_of_def)
        then have "x \<notin> taken_externals M"
          using unused [OF e] found(2) that by (auto simp: entry_unused_def split: if_splits)
        then show ?thesis by (simp add: taken_externals_holders)
      qed
      moreover have "\<not> is_tombstone e" using batch_keys_Ok [OF k] e by (simp add: list_all_iff)
      ultimately show ?thesis using taken_ids_free [OF holds_by_id [OF assms(1)]] by (auto simp: extends_def)
    qed
    then show ?thesis using write_entries_map [OF assms(1,2) False w] batch_keys_Ok [OF k] by blast
  qed
  then show "holds_map V J c b' (write_map M es)" "distinct (map cr_id es)" "distinct (external_ids_of es)"
    "\<forall>e \<in> set es. extends M e \<and> (\<forall>x. cr_external_id e = Some x \<longrightarrow> holders M x = {})" by blast+
qed

lemma new_id_free:
  assumes "holds_map V J c b M" "validate_new_record_id L S e b = Ok u" "M (cr_id e) = Some r"
  shows "is_tombstone r"
proof -
  obtain found fx where "find_existing_keys L S [cr_id e] [] b = Ok (found, fx)" "cr_id e \<notin> set found"
    using assms(2) by (auto simp: validate_new_record_id_def guard_ok_def split: if_splits)
  then have "cr_id e \<notin> taken_ids M" using find_existing_exact(1) [OF assms(1)] by auto
  then show ?thesis using taken_ids_free [OF holds_by_id [OF assms(1)] _ assms(3)] by blast
qed

lemma write_one:
  assumes "holds_map V J c b M" "storable J c e" "write_entries L J c [e] b = (Ok v, b')"
  shows "holds_map V J c b' (M(cr_id e \<mapsto> stored_record e))"
  using write_entries_map [of b M "[e]" v b'] assms by (simp add: write_map_def)

section \<open>Single records\<close>

lemma found_shown:
  assumes "holds_map V J c b M" "list_records L S J now b = Ok rs"
  shows "find P rs = Some r \<Longrightarrow> r \<in> shown (default_options now) M \<and> P r"
    "filter P rs = [r] \<Longrightarrow> r \<in> shown (default_options now) M \<and> P r"
    "find P rs = None \<longleftrightarrow> (\<forall>r \<in> shown (default_options now) M. \<not> P r)"
    "filter P rs = [] \<longleftrightarrow> (\<forall>r \<in> shown (default_options now) M. \<not> P r)"
proof -
  note set = list_records_shown(2) [OF assms]
  show "find P rs = Some r \<Longrightarrow> r \<in> shown (default_options now) M \<and> P r" using set by (auto simp: find_Some_iff)
  show "find P rs = None \<longleftrightarrow> (\<forall>r \<in> shown (default_options now) M. \<not> P r)" using set by (auto simp: find_None_iff)
  show "filter P rs = [] \<longleftrightarrow> (\<forall>r \<in> shown (default_options now) M. \<not> P r)" using set by (auto simp: filter_empty_conv)
  assume "filter P rs = [r]"
  then have "r \<in> set (filter P rs)" by simp
  then show "r \<in> shown (default_options now) M \<and> P r" using set by simp
qed

lemma replacement_extends:
  assumes "holds_map V J c b M" "r \<in> shown (default_options now) M" "\<not> is_tombstone e"
    "\<And>q. M (cr_id e) = Some q \<Longrightarrow> is_tombstone q" "cr_external_id e = cr_external_id r" "cr_supersedes_id e = Some (cr_id r)"
  shows "extends M e"
  using assms(3-6) shown_newest [OF holds_by_id [OF assms(1)] assms(2)] by (auto simp: extends_def)

lemma upsert_Ok:
  assumes "holds_map V J c b M" "storable J c r" "upsert_by_external_id L S J c am r b = (Ok u, b')"
  shows "holds_map V J c b' (M(cr_id r \<mapsto> stored_record (ur_record u)))" "extends M (ur_record u)"
    "cr_id (ur_record u) = cr_id r"
    "\<exists>replaced. ur_record u = r\<lparr>cr_supersedes_id := replaced, cr_superseded_by_id := None\<rparr> \<and> ur_replaced_id u = replaced"
    "ur_replaced_id u = Some k \<Longrightarrow> \<exists>q \<in> shown (default_options (am_read_time am)) M. cr_id q = k"
proof -
  obtain x where x: "cr_external_id r = Some x" "x \<noteq> []" "\<not> is_tombstone r"
    using assms(3) by (auto simp: upsert_by_external_id_def io_result_def split: option.splits if_splits)
  define r1 where "r1 = r\<lparr>cr_supersedes_id := None, cr_superseded_by_id := None\<rparr>"
  obtain rs w where v: "validate_new_record_id L S r1 b = Ok w" and rs: "list_records L S J (am_read_time am) b = Ok rs"
    and rest: "(case filter (\<lambda>e. cr_external_id e = Some x) rs of
        [] \<Rightarrow> io_bind (add L S J c [r1]) (\<lambda>version.
          io_return \<lparr>ur_record = r1, ur_inserted = True, ur_replaced_id = None, ur_version = version\<rparr>)
      | [existing] \<Rightarrow>
          (let r' = r1\<lparr>cr_supersedes_id := Some (cr_id existing)\<rparr> in
           io_bind (write_entries L J c [r']) (\<lambda>version.
           io_return \<lparr>ur_record = r', ur_inserted = False, ur_replaced_id = Some (cr_id existing), ur_version = version\<rparr>))
      | _ \<Rightarrow> io_result (Err (Invalid (AmbiguousExternalId x)))) b = (Ok u, b')"
    using assms(3) x by (auto simp: upsert_by_external_id_def Let_def r1_def [symmetric] reading_def)
  have st: "storable J c (r1\<lparr>cr_supersedes_id := k\<rparr>)" for k using assms(2) by (simp add: storable_def r1_def)
  have free: "is_tombstone q" if "M (cr_id r) = Some q" for q using new_id_free [OF assms(1) v, of q] that by (simp add: r1_def)
  have "holds_map V J c b' (M(cr_id r \<mapsto> stored_record (ur_record u))) \<and> extends M (ur_record u) \<and>
    (\<exists>replaced. ur_record u = r1\<lparr>cr_supersedes_id := replaced\<rparr> \<and> ur_replaced_id u = replaced) \<and>
    (\<forall>k. ur_replaced_id u = Some k \<longrightarrow> (\<exists>q \<in> shown (default_options (am_read_time am)) M. cr_id q = k))"
  proof (cases "filter (\<lambda>e. cr_external_id e = Some x) rs")
    case Nil
    then obtain ver where a: "add L S J c [r1] b = (Ok ver, b')"
      and u: "u = \<lparr>ur_record = r1, ur_inserted = True, ur_replaced_id = None, ur_version = ver\<rparr>"
      using rest by (auto simp: io_return_def)
    have "r1 = r1\<lparr>cr_supersedes_id := None\<rparr>" by (simp add: r1_def)
    then have "list_all (storable J c) [r1]" using st [of None] by simp
    from add_Ok(1,4) [OF assms(1) this a] show ?thesis
      unfolding u by (auto simp: write_map_def r1_def intro!: exI [of _ None])
  next
    case (Cons e es)
    then have es: "es = []" using rest by (cases es) (simp_all add: io_result_def)
    then obtain ver where w: "write_entries L J c [r1\<lparr>cr_supersedes_id := Some (cr_id e)\<rparr>] b = (Ok ver, b')"
      and u: "ur_record u = r1\<lparr>cr_supersedes_id := Some (cr_id e)\<rparr>" "ur_replaced_id u = Some (cr_id e)"
      using rest Cons by (auto simp: io_return_def Let_def)
    have e: "e \<in> shown (default_options (am_read_time am)) M" "cr_external_id e = Some x"
      using found_shown(2) [OF assms(1) rs] Cons es by blast+
    have "extends M (ur_record u)"
      by (rule replacement_extends [OF assms(1) e(1)]) (use x e(2) free in \<open>simp_all add: u r1_def is_tombstone_def\<close>)
    moreover have "cr_id (r1\<lparr>cr_supersedes_id := Some (cr_id e)\<rparr>) = cr_id r" by (simp add: r1_def)
    ultimately show ?thesis using write_one [OF assms(1) st w] u e(1) by auto
  qed
  then show "holds_map V J c b' (M(cr_id r \<mapsto> stored_record (ur_record u)))" "extends M (ur_record u)"
    "cr_id (ur_record u) = cr_id r"
    "\<exists>replaced. ur_record u = r\<lparr>cr_supersedes_id := replaced, cr_superseded_by_id := None\<rparr> \<and> ur_replaced_id u = replaced"
    "ur_replaced_id u = Some k \<Longrightarrow> \<exists>q \<in> shown (default_options (am_read_time am)) M. cr_id q = k"
    by (auto simp: r1_def)
qed

lemma delete_found_Ok:
  assumes "holds_map V J c b M" "r \<in> shown (default_options now) M" "micros_ok J (timestamp_micros (am_write_time am))"
    "delete_found L J c am (Some r) b = (Ok u, b')"
  shows "u" "holds_map V J c b' (M(cr_id r \<mapsto> stored_record (tombstone_for (am_write_time am) r)))"
proof -
  obtain ver where w: "write_entries L J c [tombstone_for (am_write_time am) r] b = (Ok ver, b')" and u: "u"
    using assms(4) by (auto simp: delete_found_def write_tombstone_for_def io_return_def)
  have "storable J c (tombstone_for (am_write_time am) r)" using assms(3) by (simp add: storable_def tombstone_for_def)
  from write_one [OF assms(1) this w]
  show "u" "holds_map V J c b' (M(cr_id r \<mapsto> stored_record (tombstone_for (am_write_time am) r)))"
    using u by (simp_all add: tombstone_for_def)
qed

lemma delete_Ok:
  assumes "holds_map V J c b M" "micros_ok J (timestamp_micros (am_write_time am))"
    "delete_by_id L S J c am i b = (Ok u, b') \<and> P = (\<lambda>r. cr_id r = i) \<or>
     delete_by_external_id L S J c am i b = (Ok u, b') \<and> P = (\<lambda>r. cr_external_id r = Some i)"
  shows "if u then \<exists>r \<in> shown (default_options (am_read_time am)) M. P r \<and>
      holds_map V J c b' (M(cr_id r \<mapsto> stored_record (tombstone_for (am_write_time am) r)))
    else b' = b \<and> (\<forall>r \<in> shown (default_options (am_read_time am)) M. \<not> P r)"
proof -
  obtain rs where rs: "list_records L S J (am_read_time am) b = Ok rs" and d: "delete_found L J c am (find P rs) b = (Ok u, b')"
    using assms(3) by (auto simp: delete_by_id_def delete_by_external_id_def reading_def get_by_id_def get_by_external_id_def)
  show ?thesis
  proof (cases "find P rs")
    case None
    then have "\<not> u" "b' = b" using d by (auto simp: delete_found_def io_return_def)
    then show ?thesis using found_shown(3) [OF assms(1) rs] None by simp
  next
    case (Some r)
    have r: "r \<in> shown (default_options (am_read_time am)) M" "P r" using found_shown(1) [OF assms(1) rs Some] by blast+
    from delete_found_Ok [OF assms(1) r(1) assms(2) d [unfolded Some]] show ?thesis using r by auto
  qed
qed

lemma chained_delete:
  assumes "holds_map V J c b M" "chained M" "r \<in> shown (default_options now) M"
  shows "chained (M(cr_id r \<mapsto> stored_record (tombstone_for t r)))"
proof (rule chained_bury [OF assms(2)])
  show "is_tombstone (stored_record (tombstone_for t r))" by (simp add: is_tombstone_def tombstone_for_def stored_record_def)
  fix x assume x: "cr_id r \<in> holders M x"
  obtain k where "M k = Some r" using assms(3) by (auto simp: shown_def ran_def)
  then have "M (cr_id r) = Some r" using holds_by_id [OF assms(1)] by (auto simp: by_id_def)
  then have "cr_external_id r = Some x" using x by (auto simp: holders_def)
  then show "newest M x (cr_id r)" by (rule shown_newest [OF holds_by_id [OF assms(1)] assms(3)])
qed

definition patch_storable :: "'n record_patch \<Rightarrow> bool" where
  "patch_storable p \<longleftrightarrow> (\<forall>t. pt_expires_at p = Some t \<or> pt_retired_at p = Some t \<longrightarrow> micros_ok J (timestamp_micros t))"

lemma shown_good:
  assumes "holds_map V J c b M" "r \<in> shown opts M"
  shows "storable J c r" "\<not> is_tombstone r"
proof -
  obtain k where "M k = Some r" using assms(2) by (auto simp: shown_def ran_def)
  then show "storable J c r" using assms(1) good_mapD by (auto simp: holds_map_def)
  show "\<not> is_tombstone r" using assms(2) by (auto simp: shown_def is_visible_def)
qed

lemma update_Ok:
  assumes "holds_map V J c b M" "r \<in> shown (default_options now) M" "patch_storable p"
    "micros_ok J (timestamp_micros (am_write_time am))" "update_visible_record L S J c am r p b = (Ok u, b')"
  shows "up_record u = apply_patch am p r" "up_replaced_id u = cr_id r" "extends M (apply_patch am p r)"
    "holds_map V J c b' (M(am_new_id am \<mapsto> stored_record (apply_patch am p r)))"
proof -
  obtain w ver where v: "validate_new_record_id L S (apply_patch am p r) b = Ok w"
    and wr: "write_entries L J c [apply_patch am p r] b = (Ok ver, b')"
    and u: "u = \<lparr>up_record = apply_patch am p r, up_replaced_id = cr_id r, up_version = ver\<rparr>"
    using assms(5) by (auto simp: update_visible_record_def Let_def reading_def io_return_def io_result_def split: if_splits)
  show "up_record u = apply_patch am p r" "up_replaced_id u = cr_id r" by (simp_all add: u)
  have "storable J c (apply_patch am p r)"
    using shown_good(1) [OF assms(1,2)] assms(3,4)
    by (auto simp: storable_def apply_patch_def patched_def patch_storable_def split: option.splits)
  from write_one [OF assms(1) this wr] show "holds_map V J c b' (M(am_new_id am \<mapsto> stored_record (apply_patch am p r)))"
    by (simp add: apply_patch_def)
  show "extends M (apply_patch am p r)"
    by (rule replacement_extends [OF assms(1,2)])
      (use shown_good(2) [OF assms(1,2)] new_id_free [OF assms(1) v] in \<open>simp_all add: apply_patch_def is_tombstone_def\<close>)
qed

section \<open>Batch upsert\<close>

lemma project_all: "project_row (context_schema c) None (record_row J c e) = record_row J c e"
proof -
  have "length (record_row J c e) = length (map fd_name (context_schema c))"
    unfolding context_schema_names by (simp add: record_row_def schema_names_def)
  then have "length (record_row J c e) = length (context_schema c)" by (simp only: length_map)
  then show ?thesis
    using cells_by_name [of "context_schema c" "record_row J c e"] schema_names_distinct
    by (simp add: project_row_def project_fields_def context_schema_names)
qed

lemma external_rows:
  assumes "holds_map V J c b M" "scan_batches S (Some (sql_in ''external_id'' vs)) None b = Ok bs" "vs \<noteq> []"
  obtains rss where "collect_res (batch_to_records J) bs = Ok rss" "distinct (map cr_id (concat rss))"
    "set (concat rss) = {r \<in> ran M. \<exists>x \<in> set vs. cr_external_id r = Some x}"
proof -
  have good: "good_map J c M" using assms(1) by (simp add: holds_map_def)
  obtain ks where ks: "list_all (\<lambda>b. b_schema b = project_fields None (context_schema c)) bs" "distinct ks"
    "set ks = {k. \<exists>r. M k = Some r \<and> text_in (context_schema c) ''external_id'' vs (record_row J c r)}"
    "scan_rows bs = map (\<lambda>k. project_row (context_schema c) None (record_row J c (the (M k)))) ks"
    using scan_in_records [OF assms(1) _ assms(2,3)] by blast
  have sub: "set ks \<subseteq> dom M" using ks(3) by auto
  have "list_all (\<lambda>b. b_schema b = context_schema c) bs" using ks(1) by (simp add: project_fields_def)
  then obtain rss where rss: "collect_res (batch_to_records J) bs = Ok rss" "concat rss = map (\<lambda>k. the (M k)) ks"
    using decode_rows [OF good sub _ ks(4) [unfolded project_all]] by blast
  have "distinct (map cr_id (concat rss))"
    using ks(2) ids_of_keys [OF good sub] unfolding rss(2) by (simp add: comp_def)
  moreover have "set (concat rss) = {r \<in> ran M. \<exists>x \<in> set vs. cr_external_id r = Some x}"
    unfolding rss(2) set_map ks(3) key_cells by (force simp: ran_def image_iff)
  ultimately show ?thesis by (rule that [OF rss(1)])
qed

lemma states_exact:
  assumes "holds_map V J c b M" "external_id_states L S J now exts b = Ok states" "x \<in> set exts" "x \<noteq> []"
  shows "k \<in> set (fst (state_of (states x))) \<Longrightarrow> newest M x k" "distinct (fst (state_of (states x)))"
    "state_of (states x) = ([], False) \<Longrightarrow> holders M x = {}"
proof -
  define vs where "vs = filter (\<lambda>x. x \<noteq> []) exts"
  have x: "x \<in> set vs" "vs \<noteq> []" using assms(3,4) by (auto simp: vs_def filter_empty_conv)
  obtain bs rss where bs: "scan_batches S (Some (sql_in ''external_id'' vs)) None b = Ok bs"
    and rss: "collect_res (batch_to_records J) bs = Ok rss"
    and states: "states = foldl (external_id_step (default_options now) vs (superseded_ids (concat rss))) Map.empty (concat rss)"
    using assms(2) x(2) by (auto simp: external_id_states_def vs_def [symmetric] Let_def)
  obtain rss' where rss': "collect_res (batch_to_records J) bs = Ok rss'" "distinct (map cr_id (concat rss'))"
    "set (concat rss') = {r \<in> ran M. \<exists>x \<in> set vs. cr_external_id r = Some x}"
    by (rule external_rows [OF assms(1) bs x(2)])
  have "rss' = rss" using rss rss'(1) by simp
  note rows = rss'(3) [unfolded this] and dist = rss'(2) [unfolded this]
  have st: "state_of (states x) =
      (map cr_id (filter (\<lambda>r. cr_external_id r = Some x \<and> is_visible (default_options now) r \<and>
         cr_id r \<notin> set (superseded_ids (concat rss))) (concat rss)),
       list_ex (\<lambda>r. cr_external_id r = Some x \<and> \<not> is_tombstone r) (concat rss))"
    unfolding states by (subst state_of_fold [OF x(1)]) (simp add: state_of_def)
  have idk: "cr_id r = k" if "M k = Some r" for k r using holds_by_id [OF assms(1)] that unfolding by_id_def by blast
  show "distinct (fst (state_of (states x)))" unfolding st using dist by (simp add: distinct_map_filter)
  show "holders M x = {}" if "state_of (states x) = ([], False)"
    using that rows x(1) unfolding st by (auto simp: holders_def ran_def list_ex_iff simp del: set_concat)
  assume "k \<in> set (fst (state_of (states x)))"
  then obtain r where r: "r \<in> set (concat rss)" "cr_external_id r = Some x" "is_visible (default_options now) r"
    "cr_id r \<notin> set (superseded_ids (concat rss))" "k = cr_id r" unfolding st by auto
  have "r \<in> ran M" using r(1) unfolding rows by blast
  then obtain j where "M j = Some r" by (auto simp: ran_def)
  then have "M k = Some r" using idk [of j r] r(5) by simp
  then have hold: "k \<in> holders M x" using r(2,3) unfolding holders_def is_visible_def by blast
  have "cr_supersedes_id (the (M j)) \<noteq> Some k" if "j \<in> holders M x" "j \<noteq> k" for j
  proof
    assume by_j: "cr_supersedes_id (the (M j)) = Some k"
    obtain q where q: "M j = Some q" "cr_external_id q = Some x" using \<open>j \<in> holders M x\<close> by (auto simp: holders_def)
    then have "q \<in> set (concat rss)" unfolding rows using x(1) by (auto simp: ran_def)
    moreover have "cr_supersedes_id q = Some k" "k \<noteq> cr_id q" using by_j q(1) idk [OF q(1)] \<open>j \<noteq> k\<close> by auto
    ultimately have "k \<in> set (superseded_ids (concat rss))" by (force simp: superseded_ids_def)
    then show False using r(4,5) by simp
  qed
  then show "newest M x k" using hold by (auto simp: newest_def)
qed

lemma outcome_extends:
  assumes "holds_map V J c b M" "external_id_states L S J now exts b = Ok states"
    "upsert_outcome states r = Ok (r', inserted, replaced)" "x \<in> set exts" "cr_external_id r = Some x" "x \<noteq> []"
    "\<not> is_tombstone r" "cr_id r \<notin> taken_ids M" "storable J c r"
  shows "extends M r' \<and> cr_external_id r' = cr_external_id r \<and> cr_id r' = cr_id r \<and> storable J c r'"
proof -
  have free: "is_tombstone q" if "M (cr_id r) = Some q" for q
    using taken_ids_free [OF holds_by_id [OF assms(1)] assms(8) that] .
  show ?thesis
    using upsert_outcome_Ok [OF assms(3,5)]
  proof (elim disjE exE conjE)
    fix k assume k: "fst (state_of (states x)) = [k]" "r' = r\<lparr>cr_supersedes_id := Some k\<rparr>"
    have "newest M x k" by (rule states_exact(1) [OF assms(1,2,4,6)]) (simp add: k(1))
    then show ?thesis using assms(5,7,9) free k(2) by (auto simp: extends_def is_tombstone_def storable_def)
  next
    assume "state_of (states x) = ([], False)" "r' = r"
    then show ?thesis using states_exact(3) [OF assms(1,2,4,6)] assms(5,7,9) free by (auto simp: extends_def)
  qed
qed

lemma upsert_many_Ok:
  assumes "holds_map V J c b M" "list_all (storable J c) rs" "upsert_many_by_external_id L S J c am rs b = (Ok us, b')"
  shows "holds_map V J c b' (write_map M (map ur_record us))" "list_all (extends M) (map ur_record us)"
    "distinct (map cr_id (map ur_record us))" "distinct (external_ids_of (map ur_record us))" "length us = length rs"
proof -
  have "holds_map V J c b' (write_map M (map ur_record us)) \<and> list_all (extends M) (map ur_record us) \<and>
    distinct (map cr_id (map ur_record us)) \<and> distinct (external_ids_of (map ur_record us)) \<and> length us = length rs"
  proof (cases "rs = []")
    case True
    then show ?thesis
      using assms(1,3) by (simp add: upsert_many_by_external_id_def io_return_def write_map_def external_ids_of_def)
  next
    case False
    define rs1 where "rs1 = map (\<lambda>r. r\<lparr>cr_supersedes_id := None, cr_superseded_by_id := None\<rparr>) rs"
    obtain found fx states outs ver where ck: "check_upsert_batch [] [] rs = Ok ()"
      and f: "find_existing_keys L S (map cr_id rs1) [] b = Ok (found, fx)"
      and new: "find (\<lambda>r. cr_id r \<in> set found) rs1 = None"
      and st: "external_id_states L S J (am_read_time am) (map (\<lambda>r. case cr_external_id r of Some x \<Rightarrow> x | None \<Rightarrow> []) rs1) b = Ok states"
      and outs: "collect_res (upsert_outcome states) rs1 = Ok outs"
      and w: "write_entries L J c (map fst outs) b = (Ok ver, b')"
      and us: "us = map (\<lambda>(r, inserted, replaced). \<lparr>ur_record = r, ur_inserted = inserted, ur_replaced_id = replaced, ur_version = ver\<rparr>) outs"
      using assms(3) False
      by (auto simp: upsert_many_by_external_id_def rs1_def [symmetric] reading_def io_result_def io_return_def Let_def
          split: option.splits)
    have recs: "map ur_record us = map fst outs" by (auto simp: us)
    have ext: "cr_external_id (rs1 ! i) = cr_external_id (rs ! i)" "cr_id (rs1 ! i) = cr_id (rs ! i)"
      "is_tombstone (rs1 ! i) = is_tombstone (rs ! i)" if "i < length rs" for i
      using that by (simp_all add: rs1_def is_tombstone_def)
    have len: "length rs1 = length rs" "length outs = length rs"
      using outs by (auto simp: rs1_def collect_res_Ok_iff dest: list_all2_lengthD)
    have each: "extends M (fst (outs ! i)) \<and> cr_external_id (fst (outs ! i)) = cr_external_id (rs ! i) \<and>
        cr_id (fst (outs ! i)) = cr_id (rs ! i) \<and> storable J c (fst (outs ! i))" if i: "i < length rs" for i
    proof -
      obtain r' ins rep where o: "outs ! i = (r', ins, rep)" by (cases "outs ! i")
      have uo: "upsert_outcome states (rs1 ! i) = Ok (r', ins, rep)"
        using outs i len o by (simp add: collect_res_Ok_iff list_all2_conv_all_nth)
      obtain x where x: "cr_external_id (rs1 ! i) = Some x" "x \<noteq> []" "\<not> is_tombstone (rs1 ! i)"
        using check_upsert_Ok [OF ck] i ext [OF i] by (auto simp: list_all_length)
      have mem: "x \<in> set (map (\<lambda>r. case cr_external_id r of Some x \<Rightarrow> x | None \<Rightarrow> []) rs1)"
        using x(1) i len(1) unfolding in_set_conv_nth by (intro exI [of _ i]) simp
      have "cr_id (rs1 ! i) \<notin> taken_ids M"
        using find_existing_exact(1) [OF assms(1) f] new i len(1) by (auto simp: find_None_iff)
      moreover have "storable J c (rs1 ! i)" using assms(2) i by (simp add: rs1_def list_all_length storable_def)
      ultimately show ?thesis using outcome_extends [OF assms(1) st uo mem x] ext [OF i] o by simp
    qed
    have same: "map cr_id (map fst outs) = map cr_id rs" "external_ids_of (map fst outs) = external_ids_of rs"
    proof -
      show "map cr_id (map fst outs) = map cr_id rs" by (rule nth_equalityI) (use each len in auto)
      have "map cr_external_id (map fst outs) = map cr_external_id rs" by (rule nth_equalityI) (use each len in auto)
      from arg_cong [OF this, of "\<lambda>xs. concat (map (\<lambda>x. case x of Some y \<Rightarrow> [y] | None \<Rightarrow> []) xs)"]
      show "external_ids_of (map fst outs) = external_ids_of rs" by (simp add: external_ids_of_def comp_def)
    qed
    have "list_all (storable J c) (map fst outs)" "list_all (extends M) (map fst outs)"
      using each len(2) by (auto simp: list_all_length)
    moreover have "map fst outs \<noteq> []" using len(2) False by auto
    ultimately show ?thesis
      using write_entries_map [OF assms(1) _ _ w] check_upsert_Ok [OF ck] same len(2) unfolding recs by (simp add: us)
  qed
  then show "holds_map V J c b' (write_map M (map ur_record us))" "list_all (extends M) (map ur_record us)"
    "distinct (map cr_id (map ur_record us))" "distinct (external_ids_of (map ur_record us))" "length us = length rs"
    by blast+
qed

section \<open>No external id is ambiguous\<close>

lemma matches_unique:
  assumes "holds_map V J c b M" "chained M" "list_records L S J now b = Ok rs"
  shows "length (filter (\<lambda>e. cr_external_id e = Some x) rs) \<le> 1"
proof (rule distinct_all_equal)
  let ?m = "filter (\<lambda>e. cr_external_id e = Some x) rs"
  show "distinct ?m" using list_records_shown(1) [OF assms(1,3)] by (simp add: distinct_map)
  show "r = r'" if "r \<in> set ?m" "r' \<in> set ?m" for r r'
    by (rule shown_unique [OF assms(2) holds_by_id [OF assms(1)], of r now r' now x])
      (use that list_records_shown(2) [OF assms(1,3)] in auto)
qed

lemma state_unique:
  assumes "holds_map V J c b M" "chained M" "external_id_states L S J now exts b = Ok states" "x \<in> set exts" "x \<noteq> []"
  shows "length (fst (state_of (states x))) \<le> 1"
proof (rule distinct_all_equal [OF states_exact(2) [OF assms(1,3-5)]])
  fix k k' assume k: "k \<in> set (fst (state_of (states x)))" "k' \<in> set (fst (state_of (states x)))"
  obtain ks where ks: "chain M x ks" using assms(2) by (auto simp: chained_def)
  obtain u where "ks = k # u" by (rule newest_head [OF ks states_exact(1) [OF assms(1,3-5) k(1)]])
  moreover obtain u' where "ks = k' # u'" by (rule newest_head [OF ks states_exact(1) [OF assms(1,3-5) k(2)]])
  ultimately show "k = k'" by simp
qed

section \<open>Reads fail only with Lance\<close>

definition ok_or_fault :: "('e store_error, 'a) result \<Rightarrow> bool" where
  "ok_or_fault r \<longleftrightarrow> (\<forall>e. r = Err e \<longrightarrow> (\<exists>x. e = LanceFault x))"

lemma ok_or_fault_simps: "ok_or_fault (Ok x)" "ok_or_fault (scan_batches S f cols b)"
  by (auto simp: ok_or_fault_def scan_batches_def res_map_err_def split: sum.splits)

lemma ok_or_fault_bind: "ok_or_fault m \<Longrightarrow> (\<And>x. m = Ok x \<Longrightarrow> ok_or_fault (f x)) \<Longrightarrow> ok_or_fault (res_bind m f)"
  by (auto simp: ok_or_fault_def res_bind_Err_iff)

lemma list_ok_or_fault:
  assumes "holds_map V J c b M"
  shows "ok_or_fault (list_records L S J now b)"
  unfolding list_records_def list_filtered_projected_def lsm_scanner_projected_def
proof (intro ok_or_fault_bind)
  fix bs assume "scan_batches S None (if loads_all default_projection then None
    else Some (projected_columns (table_schema L (sb_lance b)) default_projection)) b = Ok bs"
  then have "scan_batches S None None b = Ok bs" by (simp add: loads_all_def default_projection_def)
  then show "ok_or_fault (collect_res (batch_to_records J) bs)"
    by (rule scan_all_records [OF assms]) (simp add: ok_or_fault_simps)
qed (simp_all add: ok_or_fault_simps Let_def)

lemma states_ok_or_fault:
  assumes "holds_map V J c b M"
  shows "ok_or_fault (external_id_states L S J now exts b)"
proof (cases "filter (\<lambda>x. x \<noteq> []) exts = []")
  case True
  then show ?thesis by (simp add: external_id_states_def ok_or_fault_simps)
next
  case False
  have "ok_or_fault (collect_res (batch_to_records J) bs)"
    if "scan_batches S (Some (sql_in ''external_id'' (filter (\<lambda>x. x \<noteq> []) exts))) None b = Ok bs" for bs
    by (rule external_rows [OF assms that False]) (simp add: ok_or_fault_simps)
  then show ?thesis
    unfolding external_id_states_def Let_def if_not_P [OF False]
    by (intro ok_or_fault_bind) (simp_all add: ok_or_fault_simps)
qed

lemma collect_Ok: "(\<And>x. x \<in> set xs \<Longrightarrow> f x = Ok (g x)) \<Longrightarrow> collect_res f xs = Ok (map g xs)"
  by (induction xs) auto

lemma keys_ok_or_fault:
  assumes "holds_map V J c b M" "vs \<noteq> []"
  shows "ok_or_fault (existing_keys S False ''id'' vs b)" "ok_or_fault (existing_keys S True ''external_id'' vs b)"
proof -
  have "ok_or_fault (collect_res (keys_in_batch False ''id'' vs) bs)"
    if "scan_batches S (Some (sql_in ''id'' vs)) (Some [''id'', ''content_type'']) b = Ok bs" for bs
    by (rule scan_in_records [OF assms(1) _ that assms(2)])
      (auto simp: key_columns list_all_iff ok_or_fault_simps collect_Ok [OF id_keys_in_batch])
  then show "ok_or_fault (existing_keys S False ''id'' vs b)"
    unfolding existing_keys_def by (intro ok_or_fault_bind) (simp_all add: ok_or_fault_simps)
  have "ok_or_fault (collect_res (keys_in_batch True ''external_id'' vs) bs)"
    if "scan_batches S (Some (sql_in ''external_id'' vs)) (Some [''external_id'', ''content_type'']) b = Ok bs" for bs
    by (rule scan_in_records [OF assms(1) _ that assms(2)])
      (auto simp: key_columns list_all_iff ok_or_fault_simps collect_Ok [OF external_keys_in_batch])
  then show "ok_or_fault (existing_keys S True ''external_id'' vs b)"
    unfolding existing_keys_def by (intro ok_or_fault_bind) (simp_all add: ok_or_fault_simps)
qed

lemma find_ok_or_fault:
  assumes "holds_map V J c b M"
  shows "ok_or_fault (find_existing_keys L S ids exts b)"
  unfolding find_existing_keys_def
  by (intro ok_or_fault_bind) (auto simp: ok_or_fault_simps intro: keys_ok_or_fault [OF assms])

end

end
