(* ===== verification/Context_Reference.thy ===== *)
theory Context_Reference
  imports Context_Correct
begin

text \<open>
  A reference environment of the context store: the table of \<open>Storage_Safety\<close> with a scanner that reads
  \<open>IN\<close> filters and returns the latest row of every id, and a printer and parser of JSON values. The laws of
  \<open>context_laws\<close> hold of it for every configuration.
\<close>

section \<open>A JSON printer and parser\<close>

text \<open>
  Values are printed as programs of a stack machine, two characters per instruction; parsing runs them.
\<close>

definition char_codes :: "string \<Rightarrow> (char \<times> char) list" where
  "char_codes s = (CHR ''s'', CHR '' '') # map (Pair (CHR ''c'')) s"

fun json_codes :: "nat json \<Rightarrow> (char \<times> char) list" where
  "json_codes JNull = [(CHR ''n'', CHR '' '')]"
| "json_codes (JBool v) = [(CHR ''b'', if v then CHR ''t'' else CHR ''f'')]"
| "json_codes (JNumber n) = (CHR ''0'', CHR '' '') # replicate n (CHR ''+'', CHR '' '')"
| "json_codes (JString s) = char_codes s"
| "json_codes (JArray xs) = (CHR ''a'', CHR '' '') # concat (map (\<lambda>x. json_codes x @ [(CHR '','', CHR '' '')]) xs)"
| "json_codes (JObject kvs) = (CHR ''o'', CHR '' '') #
     concat (map (\<lambda>kv. char_codes (fst kv) @ json_codes (snd kv) @ [(CHR '':'', CHR '' '')]) kvs)"

fun push_code :: "nat json list \<Rightarrow> char \<times> char \<Rightarrow> nat json list" where
  "push_code st (t, c) =
    (if t = CHR ''n'' then JNull # st
     else if t = CHR ''b'' then JBool (c = CHR ''t'') # st
     else if t = CHR ''0'' then JNumber 0 # st
     else if t = CHR ''s'' then JString [] # st
     else if t = CHR ''a'' then JArray [] # st
     else if t = CHR ''o'' then JObject [] # st
     else if t = CHR ''+'' then (case st of JNumber n # r \<Rightarrow> JNumber (Suc n) # r | _ \<Rightarrow> st)
     else if t = CHR ''c'' then (case st of JString s # r \<Rightarrow> JString (s @ [c]) # r | _ \<Rightarrow> st)
     else if t = CHR '','' then (case st of x # JArray xs # r \<Rightarrow> JArray (xs @ [x]) # r | _ \<Rightarrow> st)
     else (case st of x # JString k # JObject kvs # r \<Rightarrow> JObject (kvs @ [(k, x)]) # r | _ \<Rightarrow> st))"

fun code_pairs :: "string \<Rightarrow> (char \<times> char) list" where
  "code_pairs (t # c # s) = (t, c) # code_pairs s"
| "code_pairs _ = []"

definition record_codec :: "nat json codec" where
  "record_codec = \<lparr>json_to_string = (\<lambda>j. concat (map (\<lambda>(t, c). [t, c]) (json_codes j))),
     json_from_str = (\<lambda>s. case foldl push_code [] (code_pairs s) of [j] \<Rightarrow> Some j | _ \<Rightarrow> None), micros_ok = (\<lambda>_. True)\<rparr>"

lemma code_pairs_concat: "code_pairs (concat (map (\<lambda>(t, c). [t, c]) ps)) = ps"
  by (induction ps) auto

lemma push_chars: "foldl push_code (JString r # st) (map (Pair (CHR ''c'')) s) = JString (r @ s) # st"
  by (induction s arbitrary: r) simp_all

lemma push_string: "foldl push_code st (char_codes s) = JString s # st"
  by (simp add: char_codes_def push_chars)

lemma push_number: "foldl push_code (JNumber m # st) (replicate n (CHR ''+'', CHR '' '')) = JNumber (n + m) # st"
  by (induction n arbitrary: m) simp_all

lemma push_json: "foldl push_code st (json_codes j) = j # st"
proof (induction j arbitrary: st)
  case (JArray xs)
  have "foldl push_code (JArray ys # st) (concat (map (\<lambda>x. json_codes x @ [(CHR '','', CHR '' '')]) xs)) = JArray (ys @ xs) # st" for ys
    using JArray by (induction xs arbitrary: ys) simp_all
  from this [of "[]"] show ?case by simp
next
  case (JObject kvs)
  have "foldl push_code (JObject ys # st)
      (concat (map (\<lambda>kv. char_codes (fst kv) @ json_codes (snd kv) @ [(CHR '':'', CHR '' '')]) kvs)) = JObject (ys @ kvs) # st" for ys
    using JObject
  proof (induction kvs arbitrary: ys)
    case (Cons kv kvs)
    have "foldl push_code st (json_codes (snd kv)) = snd kv # st" for st
      by (rule Cons.prems [of kv]) (simp_all add: snds.intros)
    moreover have "push_code (snd kv # JString (fst kv) # JObject ys # st) (CHR '':'', CHR '' '') = JObject (ys @ [kv]) # st"
      by simp
    moreover have "foldl push_code (JObject ((ys @ [kv])) # st)
      (concat (map (\<lambda>kv. char_codes (fst kv) @ json_codes (snd kv) @ [(CHR '':'', CHR '' '')]) kvs)) = JObject ((ys @ [kv]) @ kvs) # st"
      by (rule Cons.IH) (rule Cons.prems, simp_all)
    ultimately show ?case by (simp add: push_string)
  qed simp
  from this [of "[]"] show ?case by simp
qed (simp_all add: push_string push_number)

lemma record_codec_ok: "codec_ok record_codec"
  by (simp add: codec_ok_def record_codec_def code_pairs_concat push_json)

section \<open>Filters\<close>

fun read_quoted :: "string \<Rightarrow> (string \<times> string) option" where
  "read_quoted [] = None"
| "read_quoted [c] = (if c = CHR 0x27 then Some ([], []) else None)"
| "read_quoted (c # d # s) =
     (if c = CHR 0x27
      then (if d = CHR 0x27 then map_option (apfst ((#) c)) (read_quoted s) else Some ([], d # s))
      else map_option (apfst ((#) c)) (read_quoted (d # s)))"

fun read_quoted_list :: "nat \<Rightarrow> string \<Rightarrow> string list option" where
  "read_quoted_list 0 s = None"
| "read_quoted_list (Suc n) s =
     (if take 1 s \<noteq> [CHR 0x27] then None
      else case read_quoted (drop 1 s) of
        None \<Rightarrow> None
      | Some (v, rest) \<Rightarrow> if rest = '')'' then Some [v]
          else if take 1 rest = '','' then map_option ((#) v) (read_quoted_list n (drop 1 rest)) else None)"

definition parse_in :: "string \<Rightarrow> (string \<times> string list) option" where
  "parse_in f = (let cn = takeWhile (\<lambda>c. c \<noteq> CHR '' '') f; rest = drop (length cn) f in
     if take 5 rest = '' IN ('' then map_option (Pair cn) (read_quoted_list (length f) (drop 5 rest)) else None)"

lemma read_quoted_escape:
  assumes "take 1 rest \<noteq> [CHR 0x27]"
  shows "read_quoted (escape_sql_literal v @ CHR 0x27 # rest) = Some (v, rest)"
proof (induction v)
  case Nil
  then show ?case using assms by (cases rest) (simp_all add: escape_sql_literal_def)
next
  case (Cons c v)
  then show ?case
    by (cases "escape_sql_literal v @ CHR 0x27 # rest") (auto simp: escape_sql_literal_def)
qed

lemma read_sql_list: "vs \<noteq> [] \<Longrightarrow> length vs \<le> n \<Longrightarrow> read_quoted_list n (sql_quoted_list vs @ '')'') = Some vs"
proof (induction vs arbitrary: n rule: sql_quoted_list.induct)
  case (2 v)
  then obtain m where "n = Suc m" by (cases n) auto
  then show ?case using read_quoted_escape [of "'')''" v] by (simp add: sql_quoted_def)
next
  case (3 v w vs)
  then obtain m where "n = Suc m" by (cases n) auto
  then show ?case using 3 read_quoted_escape [of "'','' @ sql_quoted_list (w # vs) @ '')''" v] by (simp add: sql_quoted_def)
qed simp

lemma sql_list_length: "length vs \<le> length (sql_quoted_list vs)"
  by (induction vs rule: sql_quoted_list.induct) (simp_all add: sql_quoted_def)

lemma parse_in_sql: "CHR '' '' \<notin> set cn \<Longrightarrow> vs \<noteq> [] \<Longrightarrow> parse_in (sql_in cn vs) = Some (cn, vs)"
proof -
  assume cn: "CHR '' '' \<notin> set cn" and vs: "vs \<noteq> []"
  have "takeWhile (\<lambda>c. c \<noteq> CHR '' '') (sql_in cn vs) = cn"
    using cn by (auto simp: sql_in_def takeWhile_append2 intro: trans [OF takeWhile_append2])
  moreover have "length vs \<le> length (sql_in cn vs)" using sql_list_length [of vs] by (simp add: sql_in_def)
  ultimately show ?thesis
    using read_sql_list [OF vs, of "length (sql_in cn vs)"]
    by (simp add: parse_in_def sql_in_def del: read_quoted_list.simps)
qed

section \<open>The table\<close>

definition latest_rows :: "table \<Rightarrow> (string \<rightharpoonup> cell list)" where
  "latest_rows t = overlay (tb_schema t) ''id'' Map.empty (scan_rows (tb_rows t))"

definition tb_record_scan :: "table scanner" where
  "tb_record_scan f cols t =
     (let sch = tb_schema t; m = latest_rows t;
          ks = remdups (map (row_key sch ''id'') (scan_rows (tb_rows t)));
          found = (\<lambda>sel. Ok [\<lparr>b_schema = project_fields cols sch,
            b_rows = map (\<lambda>k. project_row sch cols (the (m k))) (filter (\<lambda>k. sel (the (m k))) ks)\<rparr>])
      in case f of
           None \<Rightarrow> found (\<lambda>_. True)
         | Some q \<Rightarrow> (case parse_in q of None \<Rightarrow> Err corrupt_error | Some (cn, vs) \<Rightarrow> found (text_in sch cn vs)))"

definition table_latest :: "context_config \<Rightarrow> table latest_view" where
  "table_latest c =
     \<lparr>tv_rows = latest_rows, tv_pending = (\<lambda>t. scan_rows (tb_mem t)), tv_current = (\<lambda>w t. \<not> tb_fenced w t),
      tv_sound = (\<lambda>t. tb_schema t = context_schema c \<and>
        list_all (\<lambda>r. length r = length (context_schema c)) (scan_rows (tb_rows t @ tb_mem t)) \<and>
        list_all (\<lambda>(g, p). g < m_current_generation (tb_manifest t) \<and> p = gen_path g) (m_flushed (tb_manifest t)))\<rparr>"

lemma overlay_dom: "dom (overlay sch key m rs) = dom m \<union> row_key sch key ` set rs"
  by (induction rs arbitrary: m) (auto simp: overlay_def)

lemma overlay_ran: "ran (overlay sch key m rs) \<subseteq> ran m \<union> set rs"
proof (induction rs arbitrary: m)
  case (Cons r rs)
  have "ran (m(row_key sch key r \<mapsto> r)) \<subseteq> ran m \<union> {r}" by (auto simp: ran_def)
  then show ?case using Cons [of "m(row_key sch key r \<mapsto> r)"] by (auto simp: overlay_def simp del: fun_upd_apply)
qed (simp add: overlay_def)

lemma overlay_append: "overlay sch key m (rs @ rs') = overlay sch key (overlay sch key m rs) rs'"
  by (simp add: overlay_def)

lemma scan_rows_append: "scan_rows (bs @ bs') = scan_rows bs @ scan_rows bs'"
  by (simp add: scan_rows_def)

lemma gen_path_inj: "gen_path g = gen_path g' \<Longrightarrow> g = g'"
  by (metis path_gen_path)

lemma tb_seal_rows:
  assumes "list_all (\<lambda>(g, p). g < m_current_generation (tb_manifest t) \<and> p = gen_path g) (m_flushed (tb_manifest t))"
    "tb_seal w t = (Ok u, t')"
  shows "tb_rows t' = tb_rows t @ tb_mem t" "tb_mem t' = []" "tb_schema t' = tb_schema t"
    "m_writer_epoch (tb_manifest t') = m_writer_epoch (tb_manifest t)"
    "list_all (\<lambda>(g, p). g < m_current_generation (tb_manifest t') \<and> p = gen_path g) (m_flushed (tb_manifest t'))"
proof -
  let ?g = "m_current_generation (tb_manifest t)"
  have new: "gen_path ?g \<noteq> snd fg" if "fg \<in> set (m_flushed (tb_manifest t))" for fg
    using assms(1) that gen_path_inj by (fastforce simp: list_all_iff)
  have "map (\<lambda>fg. case map_of ((gen_path ?g, tb_mem t) # tb_dirs t) (snd fg) of None \<Rightarrow> [] | Some bs \<Rightarrow> bs) (m_flushed (tb_manifest t)) =
      map (\<lambda>fg. case map_of (tb_dirs t) (snd fg) of None \<Rightarrow> [] | Some bs \<Rightarrow> bs) (m_flushed (tb_manifest t))"
    using new by (intro map_cong [OF refl]) (metis fst_conv map_of_Cons_code(2))
  then show "tb_rows t' = tb_rows t @ tb_mem t"
    using assms(2)
    by (auto simp: tb_seal_def tb_rows_def Let_def map_of_Cons_code(2) simp del: map_of.simps map_eq_conv split: if_splits)
  show "tb_mem t' = []" "tb_schema t' = tb_schema t" "m_writer_epoch (tb_manifest t') = m_writer_epoch (tb_manifest t)"
    using assms(2) by (auto simp: tb_seal_def Let_def split: if_splits)
  show "list_all (\<lambda>(g, p). g < m_current_generation (tb_manifest t') \<and> p = gen_path g) (m_flushed (tb_manifest t'))"
    using assms by (auto simp: tb_seal_def Let_def list_all_iff less_Suc_eq split: if_splits)
qed

lemma latest_keys:
  "set (remdups (map (row_key (tb_schema t) ''id'') (scan_rows (tb_rows t)))) = dom (latest_rows t)"
  by (simp add: latest_rows_def overlay_dom)

lemma tb_scan_found:
  assumes "tb_record_scan f cols t = Ok bs" "f = None \<and> P = (\<lambda>_. True) \<or> f = Some (sql_in cn vs) \<and> CHR '' '' \<notin> set cn \<and> vs \<noteq> [] \<and> P = text_in (tb_schema t) cn vs"
  shows "list_all (\<lambda>b. b_schema b = project_fields cols (tb_schema t)) bs \<and>
    (\<exists>ks. distinct ks \<and> set ks = {k. \<exists>r. latest_rows t k = Some r \<and> P r} \<and>
      scan_rows bs = map (\<lambda>k. project_row (tb_schema t) cols (the (latest_rows t k))) ks)"
proof -
  let ?ks = "filter (\<lambda>k. P (the (latest_rows t k))) (remdups (map (row_key (tb_schema t) ''id'') (scan_rows (tb_rows t))))"
  have bs: "bs = [\<lparr>b_schema = project_fields cols (tb_schema t),
      b_rows = map (\<lambda>k. project_row (tb_schema t) cols (the (latest_rows t k))) ?ks\<rparr>]"
    using assms by (auto simp: tb_record_scan_def Let_def parse_in_sql)
  have "set ?ks = {k. \<exists>r. latest_rows t k = Some r \<and> P r}"
    using latest_keys [of t] by (auto simp: dom_def)
  moreover have "distinct ?ks" by simp
  ultimately show ?thesis by (intro conjI exI [of _ ?ks]) (simp_all add: bs scan_rows_def)
qed

lemma latest_whole:
  assumes "tv_sound (table_latest c) t" "latest_rows t k = Some r"
  shows "project_row (tb_schema t) None r = r"
proof -
  have "r \<in> set (scan_rows (tb_rows t))"
    using overlay_ran [of "tb_schema t" "''id''" Map.empty] assms(2) by (force simp: latest_rows_def ran_def)
  then have "length r = length (context_schema c)" "tb_schema t = context_schema c"
    using assms(1) by (auto simp: table_latest_def scan_rows_append list_all_iff)
  moreover have "distinct (map fd_name (context_schema c))"
    unfolding context_schema_names by (rule schema_names_distinct)
  ultimately show ?thesis by (simp add: project_row_def project_fields_def cells_by_name)
qed

lemma no_space: "cn \<in> fd_name ` set (context_schema c) \<Longrightarrow> CHR '' '' \<notin> set cn"
proof -
  have "list_all (\<lambda>n. CHR '' '' \<notin> set n) schema_names" by code_simp
  then show "cn \<in> fd_name ` set (context_schema c) \<Longrightarrow> CHR '' '' \<notin> set cn"
    unfolding set_map [symmetric] context_schema_names by (auto simp: list_all_iff)
qed

interpretation record_table: context_laws table_lance tb_record_scan c "table_latest c" record_codec for c
proof
  fix l :: table
  assume sound: "tv_sound (table_latest c) l"
  then have sch: "tb_schema l = context_schema c" by (simp add: table_latest_def)
  show "table_schema table_lance l = context_schema c" using sch by (simp add: table_lance_def)
  show "tv_sound (table_latest c) l' \<and> tv_rows (table_latest c) l' = tv_rows (table_latest c) l \<and>
      tv_pending (table_latest c) l' = tv_pending (table_latest c) l \<and> tv_current (table_latest c) w l'"
    if "mem_wal_writer table_lance l = (Ok w, l')" for w l'
    using that sound
    by (auto simp: table_lance_def tb_open_def Let_def table_latest_def latest_rows_def tb_rows_def tb_fenced_def)
  show "tv_sound (table_latest c) l' \<and> tv_rows (table_latest c) l' = tv_rows (table_latest c) l \<and>
      tv_pending (table_latest c) l' = tv_pending (table_latest c) l @ scan_rows bs \<and> tv_current (table_latest c) w l'"
    if "tv_current (table_latest c) w l" "writer_put table_lance w bs l = (Ok u, l')"
      "list_all (\<lambda>b. b_schema b = context_schema c \<and> batch_ok b) bs" for w bs u l'
  proof -
    have "length r = length (context_schema c)" if "r \<in> set (scan_rows bs)" for r
      using that \<open>list_all _ bs\<close>
      by (auto simp: scan_rows_def list_all_iff batch_ok_def row_fits_def) (metis list_all2_lengthD)
    moreover have "l' = l\<lparr>tb_mem := tb_mem l @ bs\<rparr>" using that by (auto simp: table_lance_def tb_put_def split: if_splits)
    ultimately show ?thesis
      using that(1) sound by (auto simp: table_latest_def scan_rows_append latest_rows_def tb_rows_def tb_fenced_def list_all_iff)
  qed
  show "\<not> is_fenced_error e" if "tv_current (table_latest c) w l" "writer_put table_lance w bs l = (Err e, l')" for w bs e l'
    using that by (simp add: table_lance_def tb_put_def table_latest_def)
  show "\<not> is_fenced_error e" if "tv_current (table_latest c) w l" "force_seal_active table_lance w l = (Err e, l1)" for w e l1
    using that by (auto simp: table_lance_def tb_seal_def table_latest_def Let_def split: if_splits)
  show "tv_sound (table_latest c) l2 \<and>
      tv_rows (table_latest c) l2 = overlay (context_schema c) ''id'' (tv_rows (table_latest c) l) (tv_pending (table_latest c) l) \<and>
      tv_pending (table_latest c) l2 = [] \<and> tv_current (table_latest c) w l2"
    if "tv_current (table_latest c) w l" "force_seal_active table_lance w l = (Ok u, l1)"
      "wait_for_flush_drain table_lance w l1 = (Ok v, l2)" for w u l1 v l2
  proof -
    have s: "tb_seal w l = (Ok u, l2)" using that(2,3) by (simp add: table_lance_def)
    have gens: "list_all (\<lambda>(g, p). g < m_current_generation (tb_manifest l) \<and> p = gen_path g) (m_flushed (tb_manifest l))"
      using sound by (simp add: table_latest_def)
    show ?thesis
      using tb_seal_rows [OF gens s] sound that(1)
      by (simp add: table_latest_def latest_rows_def scan_rows_append overlay_append tb_fenced_def scan_rows_def)
  qed
  show "list_all (\<lambda>b. b_schema b = context_schema c) bs \<and>
      (\<exists>ks. distinct ks \<and> set ks = dom (tv_rows (table_latest c) l) \<and>
        scan_rows bs = map (\<lambda>k. the (tv_rows (table_latest c) l k)) ks)"
    if scan: "tb_record_scan None None l = Ok bs" for bs
  proof -
    obtain ks where ks: "list_all (\<lambda>b. b_schema b = project_fields None (tb_schema l)) bs" "distinct ks"
      "set ks = {k. \<exists>r. latest_rows l k = Some r \<and> True}"
      "scan_rows bs = map (\<lambda>k. project_row (tb_schema l) None (the (latest_rows l k))) ks"
      using tb_scan_found [OF scan, of "\<lambda>_. True"] by blast
    have "scan_rows bs = map (\<lambda>k. the (latest_rows l k)) ks"
      unfolding ks(4) using ks(3) latest_whole [OF sound] by auto
    moreover have "set ks = dom (latest_rows l)" using ks(3) by auto
    ultimately show ?thesis using ks(1,2) sch by (auto simp: table_latest_def project_fields_def)
  qed
  show "list_all (\<lambda>b. b_schema b = project_fields cols (context_schema c)) bs \<and>
      (\<exists>ks. distinct ks \<and> set ks = {k. \<exists>r. tv_rows (table_latest c) l k = Some r \<and> text_in (context_schema c) cn vs r} \<and>
        scan_rows bs = map (\<lambda>k. project_row (context_schema c) cols (the (tv_rows (table_latest c) l k))) ks)"
    if "cn \<in> fd_name ` set (context_schema c)" "tb_record_scan (Some (sql_in cn vs)) cols l = Ok bs" "vs \<noteq> []" for cn vs cols bs
    using tb_scan_found [OF that(2), of "text_in (tb_schema l) cn vs" cn vs] no_space [OF that(1)] that(3) sch
    by (simp add: table_latest_def)
qed (rule record_codec_ok)

end
