(* ===== verification/Context_Exact.thy ===== *)
theory Context_Exact
  imports Context_Reference
begin

text \<open>
  When the calls of the context store succeed. While Lance does not fail, each call succeeds exactly under
  a condition on the map of records; otherwise it is refused and nothing changes.
\<close>

section \<open>Calls that settle\<close>

definition settles :: "('s, 'e store_error, 'a) io \<Rightarrow> 's \<Rightarrow> bool \<Rightarrow> bool" where
  "settles m b ok \<longleftrightarrow> (\<forall>r b'. m b = (r, b') \<longrightarrow> (\<exists>x. r = Err (LanceFault x)) \<or>
     (if ok then \<exists>v. r = Ok v else \<exists>x. r = Err (Invalid x) \<and> b' = b))"

text \<open>Errors a call does not report.\<close>

definition avoids :: "('e \<Rightarrow> bool) \<Rightarrow> ('s, 'e, 'a) io \<Rightarrow> 's \<Rightarrow> bool" where
  "avoids P m b \<longleftrightarrow> (\<forall>e b'. m b = (Err e, b') \<longrightarrow> \<not> P e)"

fun is_fault :: "'e store_error \<Rightarrow> bool" where
  "is_fault (LanceFault x) = True"
| "is_fault e = False"

fun is_ambiguous :: "context_store_error \<Rightarrow> bool" where
  "is_ambiguous (Invalid (AmbiguousExternalId x)) = True"
| "is_ambiguous e = False"

lemma bind_reading: "io_bind (reading g) f b = (case g b of Inl e \<Rightarrow> (Err e, b) | Inr x \<Rightarrow> f x b)"
  by (simp add: io_bind_def reading_def split: sum.split)

lemma settles_simps:
  "settles (io_return x) b True" "settles (io_result (Err (Invalid y))) b False"
  by (simp_all add: settles_def io_return_def io_result_def)

lemma settles_reading:
  assumes "\<And>x. g b = Ok x \<Longrightarrow> settles (f x) b ok" "\<And>e. g b = Err e \<Longrightarrow> (\<exists>x. e = LanceFault x) \<or> (\<exists>x. e = Invalid x) \<and> \<not> ok"
  shows "settles (io_bind (reading g) f) b ok"
  using assms unfolding settles_def bind_reading by (cases "g b") auto

lemma settles_last: "settles m b ok \<Longrightarrow> settles (io_bind m (\<lambda>v. io_return (g v))) b ok"
proof (cases "m b")
  case (Pair r b')
  then show "settles m b ok \<Longrightarrow> ?thesis"
    unfolding settles_def io_bind_def io_return_def by (cases r) (auto split: if_splits)
qed

lemma settles_Ok: "settles m b ok \<Longrightarrow> avoids is_fault m b \<Longrightarrow> ok \<Longrightarrow> \<exists>v b'. m b = (Ok v, b')"
  unfolding settles_def avoids_def by (metis is_fault.simps(1) surj_pair)

lemma faultless_iff: "avoids is_fault m b \<longleftrightarrow> (\<forall>x b'. m b \<noteq> (Err (LanceFault x), b'))"
  unfolding avoids_def by (metis is_fault.elims(2) is_fault.simps(1))

lemma avoids_reading:
  "(\<And>e. g b = Err e \<Longrightarrow> \<not> P e) \<Longrightarrow> (\<And>y. g b = Ok y \<Longrightarrow> avoids P (f y) b) \<Longrightarrow> avoids P (io_bind (reading g) f) b"
  unfolding avoids_def bind_reading by (auto split: sum.splits)

lemma avoids_result:
  "(\<And>e. r = Err e \<Longrightarrow> \<not> P e) \<Longrightarrow> (\<And>y. r = Ok y \<Longrightarrow> avoids P (f y) b) \<Longrightarrow> avoids P (io_bind (io_result r) f) b"
  unfolding avoids_def by (auto simp: io_bind_def io_result_def split: sum.splits)

lemma avoids_pure: "avoids P (io_return x) b" "\<not> P e \<Longrightarrow> avoids P (io_result (Err e)) b"
  by (simp_all add: avoids_def io_return_def io_result_def)

lemma avoids_version: "avoids P (base_version L) b"
  by (simp add: avoids_def base_version_def)

lemma avoids_last: "avoids P m b \<Longrightarrow> avoids P (io_bind m (\<lambda>v. io_return (g v))) b"
  unfolding avoids_def io_bind_def io_return_def by (auto split: prod.splits sum.splits)

section \<open>Batches that fit\<close>

definition batch_fits :: "context_config \<Rightarrow> 'n context_record list \<Rightarrow> bool" where
  "batch_fits c es \<longleftrightarrow> card (cr_role ` set es) \<le> 128 \<and> list_all (embedding_ok c) es"

lemma append_entries_iff:
  "distinct roles \<Longrightarrow> length roles \<le> 128 \<Longrightarrow> append_entries (cc_embedding_dim c) roles es = Ok () \<longleftrightarrow>
     card (set roles \<union> cr_role ` set es) \<le> 128 \<and> list_all (embedding_ok c) es"
proof (induction es arbitrary: roles)
  case Nil
  then show ?case by (simp add: distinct_card)
next
  case (Cons e es)
  let ?roles = "if cr_role e \<in> set roles then roles else roles @ [cr_role e]"
  have d: "distinct ?roles" "set ?roles \<union> cr_role ` set es = set roles \<union> cr_role ` set (e # es)" using Cons.prems by auto
  have "card (set ?roles) \<le> card (set ?roles \<union> cr_role ` set es)" by (rule card_mono) auto
  then have "length ?roles \<le> 128" if "card (set roles \<union> cr_role ` set (e # es)) \<le> 128"
    using that unfolding d(2) distinct_card [OF d(1)] by linarith
  moreover have "append_entries (cc_embedding_dim c) ?roles es = Ok () \<longleftrightarrow>
      card (set roles \<union> cr_role ` set (e # es)) \<le> 128 \<and> list_all (embedding_ok c) es" if "length ?roles \<le> 128"
    using Cons.IH [OF d(1) that] unfolding d(2) .
  moreover have "embedding_ok c e \<longleftrightarrow> (case cr_embedding e of None \<Rightarrow> True | Some v \<Rightarrow> int (length v) = cc_embedding_dim c)"
    by (simp add: embedding_ok_def split: option.split)
  ultimately show ?case by (auto simp: Let_def not_less simp del: append_entries.simps(1) split: option.split)
qed

lemma append_entries_fits: "append_entries (cc_embedding_dim c) [] es = Ok () \<longleftrightarrow> batch_fits c es"
  by (simp add: append_entries_iff batch_fits_def)

lemma append_entries_Err: "append_entries dim roles es = Err e \<Longrightarrow> \<exists>x. e = Invalid x"
  by (induction dim roles es rule: append_entries.induct) (auto simp: Let_def split: if_splits option.splits)

definition batch_keys_ok :: "'n context_record list \<Rightarrow> bool" where
  "batch_keys_ok es \<longleftrightarrow> list_all (\<lambda>e. \<not> is_tombstone e) es \<and> distinct (map cr_id es) \<and> distinct (external_ids_of es)"

lemma batch_keys_iff:
  "batch_keys_distinct ids exts es = Ok () \<longleftrightarrow> batch_keys_ok es \<and> set ids \<inter> cr_id ` set es = {} \<and>
     set exts \<inter> set (external_ids_of es) = {}"
  by (induction ids exts es rule: batch_keys_distinct.induct)
    (auto simp: external_ids_of_def batch_keys_ok_def split: option.splits)

lemma batch_keys_Err: "batch_keys_distinct ids exts es = Err e \<Longrightarrow> \<exists>x. e = Invalid x"
  by (induction ids exts es rule: batch_keys_distinct.induct) (auto split: if_splits option.splits)

lemma unused_iff:
  "(\<exists>u. collect_res (entry_unused found fx) es = Ok u) \<longleftrightarrow>
     set found \<inter> cr_id ` set es = {} \<and> set fx \<inter> set (external_ids_of es) = {}"
  by (induction es) (auto simp: entry_unused_def external_ids_of_def guard_ok_def split: option.splits if_splits)

lemma unused_Err: "collect_res (entry_unused found fx) es = Err e \<Longrightarrow> \<exists>x. e = Invalid x"
  by (induction es) (auto simp: entry_unused_def guard_ok_def res_bind_Err_iff split: option.splits if_splits)

definition add_allowed :: "context_config \<Rightarrow> 'n record_map \<Rightarrow> 'n context_record list \<Rightarrow> bool" where
  "add_allowed c M es \<longleftrightarrow> batch_keys_ok es \<and> taken_ids M \<inter> cr_id ` set es = {} \<and>
     taken_externals M \<inter> set (external_ids_of es) = {} \<and> batch_fits c es"

definition upsert_allowed :: "int \<Rightarrow> context_config \<Rightarrow> 'n record_map \<Rightarrow> 'n context_record \<Rightarrow> bool" where
  "upsert_allowed now c M r \<longleftrightarrow> \<not> is_tombstone r \<and> cr_id r \<notin> taken_ids M \<and> embedding_ok c r \<and>
     (\<exists>x. cr_external_id r = Some x \<and> x \<noteq> [] \<and>
        ((\<exists>q \<in> shown (default_options now) M. cr_external_id q = Some x) \<or> x \<notin> taken_externals M))"

context context_laws
begin

lemma write_settles:
  assumes "holds_map V J c b M"
  shows "settles (write_entries L J c es) b (batch_fits c es)"
proof (cases "es = []")
  case True
  then show ?thesis by (simp add: write_entries_def settles_def base_version_def batch_fits_def)
next
  case False
  have sch: "table_schema L (sb_lance b) = context_schema c"
    using assms(1) by (simp add: holds_map_def handle_ok_def schema_fixed)
  have put: "settles (io_bind (put L bs) (\<lambda>_. base_version L)) b True" for bs
    using put_lance_only [of L bs] unfolding settles_def lance_only_def base_version_def io_bind_def
    by (auto split: prod.splits sum.splits)
  show ?thesis
    unfolding write_entries_def if_not_P [OF False]
  proof (rule settles_reading)
    fix bt assume "records_to_batch J c (table_schema L (sb_lance b)) es = Ok bt"
    then have "batch_fits c es" by (auto simp: sch records_to_batch_eq append_entries_fits)
    then show "settles (io_bind (put L [bt]) (\<lambda>_. base_version L)) b (batch_fits c es)" using put by simp
  next
    fix e assume "records_to_batch J c (table_schema L (sb_lance b)) es = Err e"
    then have "append_entries (cc_embedding_dim c) [] es = Err e" by (simp add: sch records_to_batch_eq res_bind_Err_iff)
    then show "(\<exists>x. e = LanceFault x) \<or> (\<exists>x. e = Invalid x) \<and> \<not> batch_fits c es"
      using append_entries_Err append_entries_fits [of c es] by fastforce
  qed
qed

lemma add_settles:
  assumes "holds_map V J c b M"
  shows "settles (add L S J c es) b (add_allowed c M es)"
proof (cases "es = []")
  case True
  then show ?thesis
    by (simp add: add_def settles_def base_version_def add_allowed_def batch_fits_def batch_keys_ok_def external_ids_of_def)
next
  case False
  define free where "free \<longleftrightarrow> batch_keys_ok es \<and> taken_ids M \<inter> cr_id ` set es = {} \<and>
     taken_externals M \<inter> set (external_ids_of es) = {}"
  have v: "validate_unique_ids L S es b = Ok u \<Longrightarrow> free"
    "validate_unique_ids L S es b = Err e \<Longrightarrow> (\<exists>x. e = LanceFault x) \<or> (\<exists>x. e = Invalid x) \<and> \<not> free" for u e
  proof -
    have keys: "batch_keys_distinct [] [] es = Ok () \<longleftrightarrow> batch_keys_ok es" by (simp add: batch_keys_iff)
    have u: "(\<exists>u. collect_res (entry_unused (fst kx) (snd kx)) es = Ok u) \<longleftrightarrow>
        taken_ids M \<inter> cr_id ` set es = {} \<and> taken_externals M \<inter> set (external_ids_of es) = {}"
      if "find_existing_keys L S (map cr_id es) (external_ids_of es) b = Ok kx" for kx
      using find_existing_exact [OF assms, of _ _ "fst kx" "snd kx"] that unfolding unused_iff by auto
    show "validate_unique_ids L S es b = Ok u \<Longrightarrow> free"
      using keys u unfolding free_def validate_unique_ids_def res_bind_Ok_iff case_prod_beta by (metis old.unit.exhaust)
    assume e: "validate_unique_ids L S es b = Err e"
    then consider "batch_keys_distinct [] [] es = Err e"
      | "find_existing_keys L S (map cr_id es) (external_ids_of es) b = Err e"
      | kx where "find_existing_keys L S (map cr_id es) (external_ids_of es) b = Ok kx"
        "collect_res (entry_unused (fst kx) (snd kx)) es = Err e"
      unfolding validate_unique_ids_def res_bind_Err_iff case_prod_beta by auto
    then show "(\<exists>x. e = LanceFault x) \<or> (\<exists>x. e = Invalid x) \<and> \<not> free"
    proof cases
      case 1
      then show ?thesis using batch_keys_Err [OF 1] keys by (auto simp: free_def)
    next
      case 2
      then show ?thesis using find_ok_or_fault [OF assms] by (auto simp: ok_or_fault_def)
    next
      case (3 kx)
      then show ?thesis using unused_Err [OF 3(2)] u [OF 3(1)] by (auto simp: free_def)
    qed
  qed
  have allowed: "add_allowed c M es \<longleftrightarrow> free \<and> batch_fits c es" by (auto simp: add_allowed_def free_def)
  show ?thesis
    unfolding add_def if_not_P [OF False]
  proof (rule settles_reading)
    fix u assume "validate_unique_ids L S es b = Ok u"
    then have "free" by (rule v(1))
    then show "settles (write_entries L J c es) b (add_allowed c M es)" using write_settles [OF assms] by (simp add: allowed)
  next
    fix e assume "validate_unique_ids L S es b = Err e"
    then show "(\<exists>x. e = LanceFault x) \<or> (\<exists>x. e = Invalid x) \<and> \<not> add_allowed c M es"
      using v(2) [of e] by (auto simp: allowed)
  qed
qed

lemma new_id_exact:
  assumes "holds_map V J c b M"
  shows "validate_new_record_id L S r b = Ok u \<Longrightarrow> cr_id r \<notin> taken_ids M"
    "validate_new_record_id L S r b = Err e \<Longrightarrow> (\<exists>x. e = LanceFault x) \<or> (\<exists>x. e = Invalid x) \<and> cr_id r \<in> taken_ids M"
  using find_existing_exact(1) [OF assms, of "[cr_id r]" "[]"] find_ok_or_fault [OF assms, of "[cr_id r]" "[]"]
  by (auto simp: validate_new_record_id_def guard_ok_def res_bind_Err_iff ok_or_fault_def split: if_splits)

lemma upsert_settles:
  assumes "holds_map V J c b M" "chained M"
  shows "settles (upsert_by_external_id L S J c am r) b (upsert_allowed (am_read_time am) c M r)"
proof (cases "\<exists>x. cr_external_id r = Some x \<and> x \<noteq> [] \<and> \<not> is_tombstone r")
  case False
  then have "\<not> upsert_allowed (am_read_time am) c M r" by (auto simp: upsert_allowed_def)
  with False show ?thesis
    by (auto simp: upsert_by_external_id_def settles_simps settles_def io_result_def split: option.split)
next
  case True
  then obtain x where x: "cr_external_id r = Some x" "x \<noteq> []" "\<not> is_tombstone r" by blast
  define r1 where "r1 = r\<lparr>cr_supersedes_id := None, cr_superseded_by_id := None\<rparr>"
  have r1: "cr_id r1 = cr_id r" "cr_external_id r1 = Some x" "\<not> is_tombstone r1"
    "embedding_ok c (r1\<lparr>cr_supersedes_id := k\<rparr>) = embedding_ok c r" for k
    using x by (simp_all add: r1_def is_tombstone_def embedding_ok_def)
  have allowed: "upsert_allowed (am_read_time am) c M r \<longleftrightarrow> cr_id r \<notin> taken_ids M \<and> embedding_ok c r \<and>
      ((\<exists>q \<in> shown (default_options (am_read_time am)) M. cr_external_id q = Some x) \<or> x \<notin> taken_externals M)"
    using x by (simp add: upsert_allowed_def)
  have one: "batch_fits c [e] = embedding_ok c e" for e :: "'n context_record"
    by (simp add: batch_fits_def)
  show ?thesis
    unfolding upsert_by_external_id_def x(1) option.case if_not_P [OF x(2)] if_not_P [OF x(3)] Let_def r1_def [symmetric]
  proof (intro settles_reading)
    fix rs u assume rs: "list_records L S J (am_read_time am) b = Ok rs" and v: "validate_new_record_id L S r1 b = Ok u"
    have free: "cr_id r \<notin> taken_ids M" using new_id_exact(1) [OF assms(1) v] r1(1) by simp
    have le: "length (filter (\<lambda>e. cr_external_id e = Some x) rs) \<le> 1" by (rule matches_unique [OF assms rs])
    show "settles (case filter (\<lambda>e. cr_external_id e = Some x) rs of
        [] \<Rightarrow> io_bind (add L S J c [r1]) (\<lambda>version.
          io_return \<lparr>ur_record = r1, ur_inserted = True, ur_replaced_id = None, ur_version = version\<rparr>)
      | [existing] \<Rightarrow> io_bind (write_entries L J c [r1\<lparr>cr_supersedes_id := Some (cr_id existing)\<rparr>]) (\<lambda>version.
          io_return \<lparr>ur_record = r1\<lparr>cr_supersedes_id := Some (cr_id existing)\<rparr>, ur_inserted = False,
            ur_replaced_id = Some (cr_id existing), ur_version = version\<rparr>)
      | existing # aa # list \<Rightarrow> io_result (Err (Invalid (AmbiguousExternalId x)))) b
      (upsert_allowed (am_read_time am) c M r)"
    proof (cases "filter (\<lambda>e. cr_external_id e = Some x) rs")
      case Nil
      have "add_allowed c M [r1] \<longleftrightarrow> upsert_allowed (am_read_time am) c M r"
        using found_shown(4) [OF assms(1) rs] Nil r1 free
        by (auto simp: allowed add_allowed_def batch_keys_ok_def external_ids_of_def one r1_def embedding_ok_def)
      from this [symmetric] show ?thesis
        unfolding Nil list.case by (simp only:) (rule settles_last [OF add_settles [OF assms(1)]])
    next
      case (Cons q qs)
      then have qs: "qs = []" using le by simp
      have q: "q \<in> shown (default_options (am_read_time am)) M" "cr_external_id q = Some x"
        using found_shown(2) [OF assms(1) rs Cons [unfolded qs]] by blast+
      then have "upsert_allowed (am_read_time am) c M r \<longleftrightarrow> embedding_ok c r" unfolding allowed using free by blast
      then have "batch_fits c [r1\<lparr>cr_supersedes_id := Some (cr_id q)\<rparr>] \<longleftrightarrow> upsert_allowed (am_read_time am) c M r"
        by (simp only: one r1(4))
      from this [symmetric] show ?thesis
        unfolding Cons qs list.case by (simp only:) (rule settles_last [OF write_settles [OF assms(1)]])
    qed
  qed (use new_id_exact(2) [OF assms(1), of r1] list_ok_or_fault [OF assms(1)] r1(1) in \<open>auto simp: allowed ok_or_fault_def\<close>)
qed

lemma delete_settles:
  assumes "holds_map V J c b M"
  shows "settles (delete_by_id L S J c am i) b True" "settles (delete_by_external_id L S J c am i) b True"
proof -
  have "settles (delete_found L J c am found) b True" for found
  proof (cases found)
    case None
    then show ?thesis by (simp add: delete_found_def settles_simps)
  next
    case (Some r)
    have "batch_fits c [tombstone_for (am_write_time am) r]"
      by (simp add: batch_fits_def embedding_ok_def tombstone_for_def)
    then show ?thesis
      using settles_last [OF write_settles [OF assms, of "[tombstone_for (am_write_time am) r]"]] Some
      by (simp add: delete_found_def write_tombstone_for_def)
  qed
  then show "settles (delete_by_id L S J c am i) b True" "settles (delete_by_external_id L S J c am i) b True"
    using list_ok_or_fault [OF assms, of "am_read_time am"]
    unfolding delete_by_id_def delete_by_external_id_def get_by_id_def get_by_external_id_def
    by (auto simp: ok_or_fault_def res_bind_Err_iff intro!: settles_reading)
qed

end

section \<open>The reference table does not fail\<close>

lemma table_put_faultless:
  assumes "handle_ok (table_latest c) b"
  shows "avoids is_fault (put table_lance bs :: (table, unit) context_io) b"
proof (cases "sb_writer b")
  case None
  then show ?thesis
    by (auto simp: faultless_iff put_def put_sealing_def put_inner_def flush_def flush_inner_def resident_writer_def
        call_def raw_call_def fault_def io_bind_def io_match_def io_return_def io_result_def table_lance_def tb_open_def
        tb_put_def tb_seal_def tb_fenced_def Let_def)
next
  case (Some w)
  then have "\<not> tb_fenced w (sb_lance b)" using assms by (simp add: handle_ok_def table_latest_def)
  then show ?thesis
    using Some
    by (auto simp: faultless_iff put_def put_sealing_def put_inner_def flush_def flush_inner_def resident_writer_def
        call_def raw_call_def fault_def io_bind_def io_match_def io_return_def io_result_def table_lance_def
        tb_put_def tb_seal_def tb_fenced_def Let_def)
qed

lemma table_scan_Ok:
  "\<exists>bs. scan_batches tb_record_scan None cols b = Ok bs"
  "CHR '' '' \<notin> set cn \<Longrightarrow> vs \<noteq> [] \<Longrightarrow> \<exists>bs. scan_batches tb_record_scan (Some (sql_in cn vs)) cols b = Ok bs"
  by (simp_all add: scan_batches_def tb_record_scan_def Let_def parse_in_sql)

definition no_fault :: "('e store_error, 'a) result \<Rightarrow> bool" where
  "no_fault r \<longleftrightarrow> (\<forall>e. r = Err e \<longrightarrow> \<not> is_fault e)"

lemma no_fault_simps: "no_fault (Ok v)" "no_fault (res_map_err ArrowFault s)" "no_fault (Err (Invalid e))"
  by (auto simp: no_fault_def res_map_err_def split: sum.split)

lemma no_fault_bind: "no_fault m \<Longrightarrow> (\<And>x. m = Ok x \<Longrightarrow> no_fault (f x)) \<Longrightarrow> no_fault (res_bind m f)"
  by (auto simp: no_fault_def res_bind_Err_iff)

lemma no_fault_collect: "(\<And>x. x \<in> set xs \<Longrightarrow> no_fault (f x)) \<Longrightarrow> no_fault (collect_res f xs)"
  by (induction xs) (auto intro!: no_fault_bind simp: no_fault_simps)

lemma keys_no_fault: "no_fault (keys_in_batch opt cn vs bt)"
  unfolding keys_in_batch_def by (intro no_fault_bind) (simp_all add: no_fault_simps)

lemma existing_no_fault: "CHR '' '' \<notin> set cn \<Longrightarrow> vs \<noteq> [] \<Longrightarrow> no_fault (existing_keys tb_record_scan opt cn vs b)"
  using table_scan_Ok(2) [of cn vs "Some [cn, ''content_type'']" b]
  by (auto simp: existing_keys_def intro!: no_fault_bind no_fault_collect keys_no_fault no_fault_simps)

lemma find_no_fault: "no_fault (find_existing_keys table_lance tb_record_scan ids exts b)"
  unfolding find_existing_keys_def by (intro no_fault_bind) (auto simp: no_fault_simps existing_no_fault)

lemma list_table_Ok:
  assumes "holds_map (table_latest c) record_codec c b M"
  shows "\<exists>rs. list_records table_lance tb_record_scan record_codec now b = Ok rs"
proof -
  obtain bs where bs: "scan_batches tb_record_scan None None b = Ok bs" using table_scan_Ok(1) by blast
  obtain rss where "collect_res (batch_to_records record_codec) bs = Ok rss"
    using record_table.scan_all_records [OF assms bs] by blast
  then show ?thesis
    using bs by (simp add: list_records_def list_filtered_projected_def lsm_scanner_projected_def loads_all_def
        default_projection_def Let_def)
qed

lemma states_table_Ok:
  assumes "holds_map (table_latest c) record_codec c b M"
  shows "\<exists>st. external_id_states table_lance tb_record_scan record_codec now exts b = Ok st"
proof (cases "filter (\<lambda>x. x \<noteq> []) exts = []")
  case True
  then show ?thesis by (simp add: external_id_states_def)
next
  case False
  obtain bs where bs: "scan_batches tb_record_scan (Some (sql_in ''external_id'' (filter (\<lambda>x. x \<noteq> []) exts))) None b = Ok bs"
    using table_scan_Ok(2) [of "''external_id''", OF _ False] by auto
  obtain rss where "collect_res (batch_to_records record_codec) bs = Ok rss"
    by (rule record_table.external_rows [OF assms bs False])
  then show ?thesis using bs False by (simp add: external_id_states_def Let_def)
qed

lemma write_faultless:
  assumes "holds_map (table_latest c) record_codec c b M"
  shows "avoids is_fault (write_entries table_lance record_codec c es) b"
proof -
  have "table_schema table_lance (sb_lance b) = context_schema c"
    using assms by (simp add: holds_map_def handle_ok_def record_table.schema_fixed)
  then have r: "records_to_batch record_codec c (table_schema table_lance (sb_lance b)) es = Err e \<Longrightarrow> \<not> is_fault e" for e
    using append_entries_Err [of "cc_embedding_dim c" "[]" es] by (fastforce simp: records_to_batch_eq res_bind_Err_iff)
  have "avoids is_fault (io_bind (put table_lance bs) (\<lambda>_. base_version table_lance) :: (table, nat) context_io) b" for bs
    using table_put_faultless [of c b bs] assms unfolding faultless_iff holds_map_def
    by (auto simp: io_bind_def base_version_def split: prod.splits sum.splits)
  then show ?thesis
    using r unfolding write_entries_def
    by (cases "es = []") (auto intro!: avoids_reading avoids_version)
qed

lemma validate_no_fault:
  "no_fault (validate_unique_ids table_lance tb_record_scan es b)" "no_fault (validate_new_record_id table_lance tb_record_scan e b)"
proof -
  have "no_fault (batch_keys_distinct [] [] es)" "no_fault (collect_res (entry_unused f x) es)" for f x
    using batch_keys_Err [of "[]" "[]" es] unused_Err [of f x es] by (fastforce simp: no_fault_def)+
  then show "no_fault (validate_unique_ids table_lance tb_record_scan es b)"
    unfolding validate_unique_ids_def case_prod_beta by (intro no_fault_bind find_no_fault) (simp_all add: no_fault_simps)
  show "no_fault (validate_new_record_id table_lance tb_record_scan e b)"
    unfolding validate_new_record_id_def case_prod_beta guard_ok_def
    by (intro no_fault_bind find_no_fault) (simp add: no_fault_simps)
qed

lemma add_faultless:
  assumes "holds_map (table_latest c) record_codec c b M"
  shows "avoids is_fault (add table_lance tb_record_scan record_codec c es) b"
  using write_faultless [OF assms] validate_no_fault(1) unfolding add_def
  by (cases "es = []") (auto simp: no_fault_def intro!: avoids_reading avoids_version)

lemma delete_faultless:
  assumes "holds_map (table_latest c) record_codec c b M"
  shows "avoids is_fault (delete_by_id table_lance tb_record_scan record_codec c am i) b"
    "avoids is_fault (delete_by_external_id table_lance tb_record_scan record_codec c am i) b"
proof -
  obtain rs where rs: "list_records table_lance tb_record_scan record_codec (am_read_time am) b = Ok rs"
    using list_table_Ok [OF assms] by blast
  have "avoids is_fault (delete_found table_lance record_codec c am found) b" for found
    using write_faultless [OF assms]
    by (auto simp: delete_found_def write_tombstone_for_def avoids_pure intro!: avoids_last split: option.split)
  then show "avoids is_fault (delete_by_id table_lance tb_record_scan record_codec c am i) b"
    "avoids is_fault (delete_by_external_id table_lance tb_record_scan record_codec c am i) b"
    unfolding delete_by_id_def delete_by_external_id_def get_by_id_def get_by_external_id_def
    by (auto simp: rs intro!: avoids_reading)
qed

lemma upsert_faultless:
  assumes "holds_map (table_latest c) record_codec c b M"
  shows "avoids is_fault (upsert_by_external_id table_lance tb_record_scan record_codec c am r) b"
proof -
  obtain rs where rs: "list_records table_lance tb_record_scan record_codec (am_read_time am) b = Ok rs"
    using list_table_Ok [OF assms] by blast
  show ?thesis
    unfolding upsert_by_external_id_def Let_def
    using validate_no_fault(2) write_faultless [OF assms] add_faultless [OF assms]
    by (auto simp: avoids_pure no_fault_def rs intro!: avoids_reading avoids_last split: option.split list.split)
qed

lemma update_faultless:
  assumes "holds_map (table_latest c) record_codec c b M"
  shows "avoids is_fault (update_by_id table_lance tb_record_scan record_codec c am i p) b"
    "avoids is_fault (update_by_external_id table_lance tb_record_scan record_codec c am i p) b"
proof -
  obtain rs where rs: "list_records table_lance tb_record_scan record_codec (am_read_time am) b = Ok rs"
    using list_table_Ok [OF assms] by blast
  have "avoids is_fault (update_visible_record table_lance tb_record_scan record_codec c am e p) b" for e
    unfolding update_visible_record_def Let_def using validate_no_fault(2) write_faultless [OF assms]
    by (auto simp: avoids_pure no_fault_def intro!: avoids_reading avoids_last)
  then show "avoids is_fault (update_by_id table_lance tb_record_scan record_codec c am i p) b"
    "avoids is_fault (update_by_external_id table_lance tb_record_scan record_codec c am i p) b"
    unfolding update_by_id_def update_by_external_id_def get_by_id_def
    by (auto simp: avoids_pure rs intro!: avoids_reading avoids_last split: option.split list.split)
qed

lemma upsert_many_faultless:
  assumes "holds_map (table_latest c) record_codec c b M"
  shows "avoids is_fault (upsert_many_by_external_id table_lance tb_record_scan record_codec c am rs) b"
proof -
  have ck: "check_upsert_batch ids exts es = Err e \<Longrightarrow> \<not> is_fault e" for ids exts e and es :: "nat context_record list"
    by (induction ids exts es rule: check_upsert_batch.induct) (auto split: if_splits option.splits)
  have "no_fault (upsert_outcome st r)" for st and r :: "nat context_record"
    by (auto simp: no_fault_def upsert_outcome_def Let_def split: option.splits if_splits)
  then have out: "collect_res (upsert_outcome st) es = Err e \<Longrightarrow> \<not> is_fault e" for st e and es :: "nat context_record list"
    using no_fault_collect [of es "upsert_outcome st"] by (auto simp: no_fault_def)
  have states: "external_id_states table_lance tb_record_scan record_codec now exts b = Err e \<Longrightarrow> \<not> is_fault e" for now exts e
    using states_table_Ok [OF assms, of now exts] by auto
  have find: "find_existing_keys table_lance tb_record_scan ids exts b = Err e \<Longrightarrow> \<not> is_fault e" for ids exts e
    using find_no_fault [of ids exts b] by (simp add: no_fault_def)
  have pick: "(case q of Some r \<Rightarrow> Err (Invalid (IdExists (cr_id r))) | None \<Rightarrow> Ok ()) = Err e \<Longrightarrow> \<not> is_fault e"
    for q :: "nat context_record option" and e by (cases q) auto
  show ?thesis
  proof (cases "rs = []")
    case True
    then show ?thesis by (simp add: upsert_many_by_external_id_def avoids_pure)
  next
    case False
    show ?thesis
      unfolding upsert_many_by_external_id_def Let_def case_prod_beta if_not_P [OF False]
      by (intro avoids_result avoids_reading avoids_last write_faultless [OF assms] ck out states find pick)
  qed
qed

end
