(* ===== verification/Context_Run.thy ===== *)
theory Context_Run
  imports Context_Exact
begin

text \<open>
  The operations of the context store in any sequence: the chains of external ids are kept, no call
  finds an external id ambiguous, and only deletions take records away. The reference table never fails.
\<close>

section \<open>Operations in sequence\<close>

datatype 'n context_op =
    OpAdd "'n context_record list"
  | OpUpsert ambient "'n context_record"
  | OpUpsertMany ambient "'n context_record list"
  | OpUpdate ambient string "'n record_patch"
  | OpUpdateExternal ambient string "'n record_patch"
  | OpDelete ambient string
  | OpDeleteExternal ambient string

definition outcome :: "('s, 'e, 'a) io \<Rightarrow> ('s, 'e, unit) io" where
  "outcome m = io_bind m (\<lambda>_. io_return ())"

fun perform ::
  "'l lance \<Rightarrow> 'l scanner \<Rightarrow> 'n json codec \<Rightarrow> context_config \<Rightarrow> 'n context_op \<Rightarrow> ('l, unit) context_io" where
  "perform L S J c (OpAdd es) = outcome (add L S J c es)"
| "perform L S J c (OpUpsert am r) = outcome (upsert_by_external_id L S J c am r)"
| "perform L S J c (OpUpsertMany am rs) = outcome (upsert_many_by_external_id L S J c am rs)"
| "perform L S J c (OpUpdate am i p) = outcome (update_by_id L S J c am i p)"
| "perform L S J c (OpUpdateExternal am x p) = outcome (update_by_external_id L S J c am x p)"
| "perform L S J c (OpDelete am i) = outcome (delete_by_id L S J c am i)"
| "perform L S J c (OpDeleteExternal am x) = outcome (delete_by_external_id L S J c am x)"

text \<open>A caller that goes on after every result; the results are collected.\<close>

fun perform_all ::
  "'l lance \<Rightarrow> 'l scanner \<Rightarrow> 'n json codec \<Rightarrow> context_config \<Rightarrow> 'n context_op list \<Rightarrow> 'l base \<Rightarrow>
   (context_store_error, unit) result list \<times> 'l base" where
  "perform_all L S J c [] b = ([], b)"
| "perform_all L S J c (op # ops) b =
     (case perform L S J c op b of (r, b1) \<Rightarrow> case perform_all L S J c ops b1 of (rs, b2) \<Rightarrow> (r # rs, b2))"

text \<open>Instants a store can hold and, for text in a blob column, text that is UTF-8.\<close>

definition ambient_ok :: "'n json codec \<Rightarrow> ambient \<Rightarrow> bool" where
  "ambient_ok J am \<longleftrightarrow> micros_ok J (timestamp_micros (am_write_time am))"

definition patch_ok :: "'n json codec \<Rightarrow> 'n record_patch \<Rightarrow> bool" where
  "patch_ok J p \<longleftrightarrow> (\<forall>t. pt_expires_at p = Some t \<or> pt_retired_at p = Some t \<longrightarrow> micros_ok J (timestamp_micros t))"

fun op_ok :: "'n json codec \<Rightarrow> context_config \<Rightarrow> 'n context_op \<Rightarrow> bool" where
  "op_ok J c (OpAdd es) = list_all (storable J c) es"
| "op_ok J c (OpUpsert am r) = storable J c r"
| "op_ok J c (OpUpsertMany am rs) = list_all (storable J c) rs"
| "op_ok J c (OpUpdate am i p) = (ambient_ok J am \<and> patch_ok J p)"
| "op_ok J c (OpUpdateExternal am x p) = (ambient_ok J am \<and> patch_ok J p)"
| "op_ok J c (OpDelete am i) = ambient_ok J am"
| "op_ok J c (OpDeleteExternal am x) = ambient_ok J am"

definition is_delete :: "'n context_op \<Rightarrow> bool" where
  "is_delete op = (case op of OpDelete _ _ \<Rightarrow> True | OpDeleteExternal _ _ \<Rightarrow> True | _ \<Rightarrow> False)"

lemma outcome_Ok: "outcome m b = (Ok u, b') \<longleftrightarrow> (\<exists>x. m b = (Ok x, b'))"
  by (auto simp: outcome_def io_return_def)

lemma outcome_Err: "outcome m b = (Err e, b') \<longleftrightarrow> m b = (Err e, b')"
  by (auto simp: outcome_def io_bind_def io_return_def split: prod.splits sum.splits)

lemma clean_perform: "clean (perform L S J c op)"
  by (cases op) (auto simp: outcome_def intro: clean_last clean_add clean_upsert clean_upsert_many clean_update clean_delete)

text \<open>Live records are kept as they are.\<close>

definition keeps_live :: "'n record_map \<Rightarrow> 'n record_map \<Rightarrow> bool" where
  "keeps_live M M' \<longleftrightarrow> (\<forall>k r. M k = Some r \<and> \<not> is_tombstone r \<longrightarrow> M' k = Some r)"

lemma keeps_live_write: "list_all (extends M) es \<Longrightarrow> keeps_live M (write_map M es)"
proof -
  assume e: "list_all (extends M) es"
  have "write_map N es k = N k" if "k \<notin> cr_id ` set es" for N k
    using that by (induction es arbitrary: N) (simp_all add: write_map_def)
  moreover have "k \<notin> cr_id ` set es" if "M k = Some r" "\<not> is_tombstone r" for k r
    using e that by (auto simp: list_all_iff extends_def)
  ultimately show ?thesis by (simp add: keeps_live_def)
qed

lemma keeps_live_one: "extends M e \<Longrightarrow> k = cr_id e \<Longrightarrow> keeps_live M (M(k \<mapsto> e'))"
  by (auto simp: keeps_live_def extends_def)

context context_laws
begin

lemma update_found:
  assumes "holds_map V J c b M"
    "update_by_id L S J c am i p b = (Ok u, b') \<or> update_by_external_id L S J c am i p b = (Ok u, b')"
  shows "u = None \<and> b' = b \<or> (\<exists>r w. r \<in> shown (default_options (am_read_time am)) M \<and>
      update_visible_record L S J c am r p b = (Ok w, b'))"
  using assms(2)
proof
  assume a: "update_by_id L S J c am i p b = (Ok u, b')"
  then have i: "i \<noteq> []" by (auto simp: update_by_id_def io_result_def)
  note a' = a [unfolded update_by_id_def if_not_P [OF i] bind_reading]
  show ?thesis
  proof (cases "list_records L S J (am_read_time am) b")
    case (Inl e)
    then show ?thesis using a' by (simp add: get_by_id_def)
  next
    case (Inr rs)
    then have "(case find (\<lambda>r. cr_id r = i) rs of None \<Rightarrow> io_return None
      | Some existing \<Rightarrow> io_bind (update_visible_record L S J c am existing p) (\<lambda>u. io_return (Some u))) b = (Ok u, b')"
      using a' by (simp only: get_by_id_def res_bind_simps sum.case)
    note step = this
    show ?thesis
    proof (cases "find (\<lambda>r. cr_id r = i) rs")
      case None
      then show ?thesis using step by (simp add: io_return_def)
    next
      case (Some r)
      have "r \<in> shown (default_options (am_read_time am)) M" using found_shown(1) [OF assms(1) Inr Some] by blast
      moreover obtain w where "update_visible_record L S J c am r p b = (Ok w, b')"
        using step unfolding Some by (auto simp: io_return_def)
      ultimately show ?thesis by blast
    qed
  qed
next
  assume a: "update_by_external_id L S J c am i p b = (Ok u, b')"
  then have i: "i \<noteq> []" by (auto simp: update_by_external_id_def io_result_def)
  note a' = a [unfolded update_by_external_id_def if_not_P [OF i] bind_reading]
  show ?thesis
  proof (cases "list_records L S J (am_read_time am) b")
    case (Inl e)
    then show ?thesis using a' by simp
  next
    case (Inr rs)
    then have "(case filter (\<lambda>e. cr_external_id e = Some i) rs of [] \<Rightarrow> io_return None
      | [existing] \<Rightarrow> io_bind (update_visible_record L S J c am existing p) (\<lambda>u. io_return (Some u))
      | _ \<Rightarrow> io_result (Err (Invalid (AmbiguousExternalId i)))) b = (Ok u, b')"
      using a' by (simp only: sum.case)
    note step = this
    consider "filter (\<lambda>e. cr_external_id e = Some i) rs = []" | r where "filter (\<lambda>e. cr_external_id e = Some i) rs = [r]"
      | r r' rest where "filter (\<lambda>e. cr_external_id e = Some i) rs = r # r' # rest"
      by (metis list.exhaust)
    then show ?thesis
    proof cases
      case 1
      then show ?thesis using step by (simp add: io_return_def)
    next
      case (2 r)
      have "r \<in> shown (default_options (am_read_time am)) M" using found_shown(2) [OF assms(1) Inr 2] by blast
      moreover obtain w where "update_visible_record L S J c am r p b = (Ok w, b')"
        using step unfolding 2 by (auto simp: io_return_def)
      ultimately show ?thesis by blast
    next
      case (3 r r' rest)
      then show ?thesis using step by (simp add: io_result_def)
    qed
  qed
qed

lemma update_step:
  assumes "holds_map V J c b M" "chained M" "ambient_ok J am" "patch_ok J p"
    "update_by_id L S J c am i p b = (Ok u, b') \<or> update_by_external_id L S J c am i p b = (Ok u, b')"
  shows "\<exists>M'. holds_map V J c b' M' \<and> chained M' \<and> keeps_live M M'"
  using update_found [OF assms(1,5)]
proof (elim disjE conjE exE)
  assume "b' = b"
  then show ?thesis using assms(1,2) by (auto simp: keeps_live_def)
next
  fix r w assume r: "r \<in> shown (default_options (am_read_time am)) M" "update_visible_record L S J c am r p b = (Ok w, b')"
  have ok: "patch_storable p" "micros_ok J (timestamp_micros (am_write_time am))"
    using assms(3,4) by (simp_all add: patch_storable_def patch_ok_def ambient_ok_def)
  note u = update_Ok [OF assms(1) r(1) ok r(2)]
  have i: "cr_id (apply_patch am p r) = am_new_id am" by (simp add: apply_patch_def)
  have "chained (M(am_new_id am \<mapsto> stored_record (apply_patch am p r)))"
    using chained_extend [OF assms(2), of "stored_record (apply_patch am p r)"] u(3) by (simp add: extends_stored i)
  then show ?thesis using u(3,4) keeps_live_one [OF u(3) i [symmetric]] by blast
qed

lemma perform_step:
  assumes "holds_map V J c b M" "chained M" "op_ok J c op" "perform L S J c op b = (r, b')" "\<And>x. r \<noteq> Err (LanceFault x)"
  shows "\<exists>M'. holds_map V J c b' M' \<and> chained M' \<and> (is_delete op \<or> keeps_live M M')"
proof (cases r)
  case (Inl e)
  then have "b' = b" using clean_perform [of L S J c op] assms(4,5) by (auto simp: clean_def)
  then show ?thesis using assms(1,2) by (auto simp: keeps_live_def)
next
  case (Inr u)
  note ok = assms(4) [unfolded Inr]
  show ?thesis
  proof (cases op)
    case (OpAdd es)
    then obtain v where v: "add L S J c es b = (Ok v, b')" using ok by (auto simp: outcome_Ok)
    have st: "list_all (storable J c) es" using assms(3) OpAdd by simp
    note a = add_Ok [OF assms(1) st v]
    have "list_all (extends M) es" using a(4) by (simp add: list_all_iff)
    then show ?thesis using a(1) chained_writes [OF assms(2) _ a(2,3)] keeps_live_write by blast
  next
    case (OpUpsert am x)
    then obtain v where v: "upsert_by_external_id L S J c am x b = (Ok v, b')" using ok by (auto simp: outcome_Ok)
    have st: "storable J c x" using assms(3) OpUpsert by simp
    note a = upsert_Ok [OF assms(1) st v]
    have "chained (M(cr_id x \<mapsto> stored_record (ur_record v)))"
      using chained_extend [OF assms(2), of "stored_record (ur_record v)"] a(2,3) by (simp add: extends_stored)
    then show ?thesis using a(1) keeps_live_one [OF a(2) a(3) [symmetric]] by blast
  next
    case (OpUpsertMany am rs)
    then obtain v where v: "upsert_many_by_external_id L S J c am rs b = (Ok v, b')" using ok by (auto simp: outcome_Ok)
    have st: "list_all (storable J c) rs" using assms(3) OpUpsertMany by simp
    note a = upsert_many_Ok [OF assms(1) st v]
    show ?thesis using a(1) chained_writes [OF assms(2) a(2-4)] keeps_live_write [OF a(2)] by blast
  next
    case (OpUpdate am i p)
    then show ?thesis using update_step [OF assms(1,2), of am p i] ok assms(3) by (auto simp: outcome_Ok)
  next
    case (OpUpdateExternal am i p)
    then show ?thesis using update_step [OF assms(1,2), of am p i] ok assms(3) by (auto simp: outcome_Ok)
  next
    case (OpDelete am i)
    then obtain v where "delete_by_id L S J c am i b = (Ok v, b')" using ok by (auto simp: outcome_Ok)
    then show ?thesis
      using delete_Ok [OF assms(1), of am i v b' "\<lambda>r. cr_id r = i"] assms OpDelete chained_delete [OF assms(1,2)]
      by (cases v) (auto simp: ambient_ok_def is_delete_def)
  next
    case (OpDeleteExternal am i)
    then obtain v where "delete_by_external_id L S J c am i b = (Ok v, b')" using ok by (auto simp: outcome_Ok)
    then show ?thesis
      using delete_Ok [OF assms(1), of am i v b' "\<lambda>r. cr_external_id r = Some i"] assms OpDeleteExternal
        chained_delete [OF assms(1,2)]
      by (cases v) (auto simp: ambient_ok_def is_delete_def)
  qed
qed

section \<open>No external id is ambiguous\<close>

lemma write_unambiguous:
  assumes "holds_map V J c b M"
  shows "avoids is_ambiguous (write_entries L J c es) b"
proof -
  have sch: "table_schema L (sb_lance b) = context_schema c"
    using assms(1) by (simp add: holds_map_def handle_ok_def schema_fixed)
  have "\<not> is_ambiguous e" if "append_entries dim roles es = Err e" for dim roles e
    using that by (induction dim roles es rule: append_entries.induct) (auto simp: Let_def split: if_splits option.splits)
  then have "records_to_batch J c (table_schema L (sb_lance b)) es = Err e \<Longrightarrow> \<not> is_ambiguous e" for e
    by (auto simp: sch records_to_batch_eq res_bind_Err_iff)
  moreover have "avoids is_ambiguous (io_bind (put L bs) (\<lambda>_. base_version L)) b" for bs
    using put_lance_only [of L bs] unfolding avoids_def lance_only_def base_version_def io_bind_def
    by (fastforce split: prod.splits sum.splits)
  ultimately show ?thesis
    unfolding write_entries_def by (cases "es = []") (auto intro!: avoids_reading avoids_version)
qed

lemma reads_unambiguous:
  assumes "holds_map V J c b M"
  shows "list_records L S J now b = Err e \<Longrightarrow> \<not> is_ambiguous e"
    "find_existing_keys L S ids exts b = Err e \<Longrightarrow> \<not> is_ambiguous e"
    "external_id_states L S J now exts b = Err e \<Longrightarrow> \<not> is_ambiguous e"
    "validate_new_record_id L S r b = Err e \<Longrightarrow> \<not> is_ambiguous e"
  using list_ok_or_fault [OF assms, of now] find_ok_or_fault [OF assms] states_ok_or_fault [OF assms, of now exts]
  by (fastforce simp: ok_or_fault_def validate_new_record_id_def guard_ok_def res_bind_Err_iff split: if_splits)+

lemma add_unambiguous:
  assumes "holds_map V J c b M"
  shows "avoids is_ambiguous (add L S J c es) b"
proof -
  have "batch_keys_distinct ids exts es = Err e \<Longrightarrow> \<not> is_ambiguous e" for ids exts e
    by (induction ids exts es rule: batch_keys_distinct.induct) (auto split: if_splits option.splits)
  moreover have "collect_res (entry_unused f x) es = Err e \<Longrightarrow> \<not> is_ambiguous e" for f x e
    by (induction es) (auto simp: entry_unused_def guard_ok_def res_bind_Err_iff split: option.splits if_splits)
  ultimately have "validate_unique_ids L S es b = Err e \<Longrightarrow> \<not> is_ambiguous e" for e
    using reads_unambiguous(2) [OF assms] unfolding validate_unique_ids_def res_bind_Err_iff case_prod_beta by blast
  then show ?thesis
    unfolding add_def using write_unambiguous [OF assms] by (cases "es = []") (auto intro!: avoids_reading avoids_version)
qed

lemma filter_cases:
  assumes "length (filter P rs) \<le> 1"
  shows "filter P rs = [] \<or> (\<exists>r. filter P rs = [r])"
  using assms by (cases "filter P rs") auto

lemma upsert_unambiguous:
  assumes "holds_map V J c b M" "chained M"
  shows "avoids is_ambiguous (upsert_by_external_id L S J c am r) b"
proof -
  have pick: "avoids is_ambiguous (case filter (\<lambda>e. cr_external_id e = Some x) rs of [] \<Rightarrow> m
      | [e] \<Rightarrow> f e | e # e' # es \<Rightarrow> g e e' es) b"
    if "list_records L S J now b = Ok rs" "avoids is_ambiguous m b" "\<And>e. avoids is_ambiguous (f e) b" for rs x now m f g
    using filter_cases [OF matches_unique [OF assms that(1), of x]] that(2,3) by auto
  show ?thesis
    unfolding upsert_by_external_id_def Let_def
    by (auto simp: avoids_pure reads_unambiguous [OF assms(1)]
        intro!: avoids_reading pick avoids_last write_unambiguous [OF assms(1)] add_unambiguous [OF assms(1)] split: option.split)
qed

lemma update_unambiguous:
  assumes "holds_map V J c b M" "chained M"
  shows "avoids is_ambiguous (update_by_id L S J c am i p) b"
    "avoids is_ambiguous (update_by_external_id L S J c am i p) b"
proof -
  have one: "avoids is_ambiguous (update_visible_record L S J c am e p) b" for e
    unfolding update_visible_record_def Let_def
    by (auto simp: avoids_pure reads_unambiguous [OF assms(1)] intro!: avoids_reading avoids_last write_unambiguous [OF assms(1)])
  show "avoids is_ambiguous (update_by_id L S J c am i p) b"
    unfolding update_by_id_def get_by_id_def
    by (auto simp: avoids_pure res_bind_Err_iff reads_unambiguous [OF assms(1)] intro!: avoids_reading avoids_last one
        split: option.split)
  have pick: "avoids is_ambiguous (case filter (\<lambda>e. cr_external_id e = Some x) rs of [] \<Rightarrow> m
      | [e] \<Rightarrow> f e | e # e' # es \<Rightarrow> g e e' es) b"
    if "list_records L S J now b = Ok rs" "avoids is_ambiguous m b" "\<And>e. avoids is_ambiguous (f e) b" for rs x now m f g
    using filter_cases [OF matches_unique [OF assms that(1), of x]] that(2,3) by auto
  show "avoids is_ambiguous (update_by_external_id L S J c am i p) b"
    unfolding update_by_external_id_def
    by (auto simp: avoids_pure reads_unambiguous [OF assms(1)] intro!: avoids_reading pick avoids_last one)
qed

lemma delete_unambiguous:
  assumes "holds_map V J c b M"
  shows "avoids is_ambiguous (delete_by_id L S J c am i) b" "avoids is_ambiguous (delete_by_external_id L S J c am i) b"
  unfolding delete_by_id_def delete_by_external_id_def get_by_id_def get_by_external_id_def delete_found_def write_tombstone_for_def
  by (auto simp: avoids_pure res_bind_Err_iff reads_unambiguous [OF assms(1)]
      intro!: avoids_reading avoids_last write_unambiguous [OF assms] split: option.split)

lemma upsert_many_unambiguous:
  assumes "holds_map V J c b M" "chained M"
  shows "avoids is_ambiguous (upsert_many_by_external_id L S J c am rs) b"
proof (cases "rs = []")
  case True
  then show ?thesis by (simp add: upsert_many_by_external_id_def avoids_pure)
next
  case False
  let ?exts = "map (\<lambda>r. case cr_external_id r of Some x \<Rightarrow> x | None \<Rightarrow> [])
    (map (\<lambda>r. r\<lparr>cr_supersedes_id := None, cr_superseded_by_id := None\<rparr>) rs)"
  have ck: "check_upsert_batch ids exts es = Err e \<Longrightarrow> \<not> is_ambiguous e" for ids exts e and es :: "'n context_record list"
    by (induction ids exts es rule: check_upsert_batch.induct) (auto split: if_splits option.splits)
  have pick: "(case q of Some r \<Rightarrow> Err (Invalid (IdExists (cr_id r))) | None \<Rightarrow> Ok ()) = Err e \<Longrightarrow> \<not> is_ambiguous e"
    for q :: "'n context_record option" and e by (cases q) auto
  have out: "\<not> is_ambiguous e"
    if st: "external_id_states L S J (am_read_time am) ?exts b = Ok states" and ckd: "check_upsert_batch [] [] rs = Ok ()"
      and err: "collect_res (upsert_outcome states) (map (\<lambda>r. r\<lparr>cr_supersedes_id := None, cr_superseded_by_id := None\<rparr>) rs) = Err e"
    for states e
  proof -
    have "length (fst (state_of (states x))) \<le> 1" if "r \<in> set rs" "cr_external_id r = Some x" for r x
    proof (rule state_unique [OF assms st])
      show "x \<in> set ?exts" using that by (force simp: image_iff)
      show "x \<noteq> []" using check_upsert_Ok [OF ckd] that by (auto simp: list_all_iff)
    qed
    then have "upsert_outcome states (r\<lparr>cr_supersedes_id := None, cr_superseded_by_id := None\<rparr>) = Err e \<Longrightarrow> \<not> is_ambiguous e"
      if "r \<in> set rs" for r e
      using that check_upsert_Ok [OF ckd]
      by (fastforce simp: upsert_outcome_def state_of_def Let_def list_all_iff split: option.splits if_splits)
    with err show ?thesis by (induction rs) (auto simp: res_bind_Err_iff)
  qed
  show ?thesis
    unfolding upsert_many_by_external_id_def Let_def case_prod_beta if_not_P [OF False]
    by (intro avoids_result avoids_reading avoids_last write_unambiguous [OF assms(1)])
      (auto simp del: map_map dest: ck pick out reads_unambiguous(2,3) [OF assms(1)])
qed

lemma perform_unambiguous:
  assumes "holds_map V J c b M" "chained M"
  shows "avoids is_ambiguous (perform L S J c op) b"
  by (cases op) (auto simp: outcome_def intro!: avoids_last add_unambiguous [OF assms(1)] upsert_unambiguous [OF assms]
      upsert_many_unambiguous [OF assms] update_unambiguous [OF assms] delete_unambiguous [OF assms(1)])

lemma perform_all_steps:
  assumes "holds_map V J c b M" "chained M" "list_all (op_ok J c) ops" "perform_all L S J c ops b = (rs, b')"
    "\<And>x. Err (LanceFault x) \<notin> set rs"
  shows "\<exists>M'. holds_map V J c b' M' \<and> chained M' \<and> (list_ex is_delete ops \<or> keeps_live M M') \<and>
    (\<forall>x. Err (Invalid (AmbiguousExternalId x)) \<notin> set rs)"
  using assms
proof (induction ops arbitrary: b M rs)
  case Nil
  then show ?case by (auto simp: keeps_live_def)
next
  case (Cons op ops)
  obtain r b1 where p: "perform L S J c op b = (r, b1)" by (cases "perform L S J c op b")
  obtain rs1 where ps: "perform_all L S J c ops b1 = (rs1, b')" and rs: "rs = r # rs1"
    using Cons.prems(4) p by (auto split: prod.splits)
  have fine: "r \<noteq> Err (LanceFault x)" "Err (LanceFault x) \<notin> set rs1" for x using Cons.prems(5) unfolding rs by auto
  obtain M1 where M1: "holds_map V J c b1 M1" "chained M1" "is_delete op \<or> keeps_live M M1"
    using perform_step [OF Cons.prems(1,2) _ p fine(1)] Cons.prems(3) by auto
  obtain M' where M': "holds_map V J c b' M'" "chained M'" "list_ex is_delete ops \<or> keeps_live M1 M'"
    "\<forall>x. Err (Invalid (AmbiguousExternalId x)) \<notin> set rs1"
    using Cons.IH [OF M1(1,2) _ ps fine(2)] Cons.prems(3) by auto
  have "r \<noteq> Err (Invalid (AmbiguousExternalId x))" for x
    using perform_unambiguous [OF Cons.prems(1,2), of op] p by (auto simp: avoids_def)
  moreover have "keeps_live M M1 \<Longrightarrow> keeps_live M1 M' \<Longrightarrow> keeps_live M M'" by (simp add: keeps_live_def)
  ultimately show ?case using M1(3) M' unfolding rs by auto
qed

end

section \<open>The reference store\<close>

lemma perform_faultless:
  assumes "holds_map (table_latest c) record_codec c b M"
  shows "avoids is_fault (perform table_lance tb_record_scan record_codec c op) b"
  by (cases op) (auto simp: outcome_def intro!: avoids_last add_faultless [OF assms] upsert_faultless [OF assms]
      upsert_many_faultless [OF assms] update_faultless [OF assms] delete_faultless [OF assms])

lemma perform_all_faultless:
  assumes "holds_map (table_latest c) record_codec c b M" "chained M" "list_all (op_ok record_codec c) ops"
    "perform_all table_lance tb_record_scan record_codec c ops b = (rs, b')"
  shows "Err (LanceFault x) \<notin> set rs"
  using assms
proof (induction ops arbitrary: b M rs)
  case (Cons op ops)
  obtain r b1 where p: "perform table_lance tb_record_scan record_codec c op b = (r, b1)"
    by (cases "perform table_lance tb_record_scan record_codec c op b")
  obtain rs1 where ps: "perform_all table_lance tb_record_scan record_codec c ops b1 = (rs1, b')" and rs: "rs = r # rs1"
    using Cons.prems(4) p by (auto split: prod.splits)
  have r: "r \<noteq> Err (LanceFault x)" for x using perform_faultless [OF Cons.prems(1), of op] p by (auto simp: avoids_def)
  obtain M1 where "holds_map (table_latest c) record_codec c b1 M1" "chained M1"
    using record_table.perform_step [OF Cons.prems(1,2) _ p r] Cons.prems(3) by auto
  then show ?case using Cons.IH [OF _ _ _ ps] Cons.prems(3) r unfolding rs by auto
qed simp

definition reference_store :: "context_config \<Rightarrow> nat context_record list \<Rightarrow> table base" where
  "reference_store c es = \<lparr>sb_lance = sample_table\<lparr>tb_schema := context_schema c,
       tb_base := [\<lparr>b_schema = context_schema c, b_rows = map (record_row record_codec c) es\<rparr>]\<rparr>,
     sb_writer = None, sb_seal_on_put = True, sb_merge_after = 1, sb_latest_schema = None, sb_pinned = None\<rparr>"

lemma reference_holds:
  assumes "list_all (storable record_codec c) es"
  shows "holds_map (table_latest c) record_codec c (reference_store c es) (write_map Map.empty es)"
proof -
  have "length (record_row record_codec c e) = length (context_schema c)" for e
    using arg_cong [OF context_schema_names [of c], of length] by (simp add: record_row_def schema_names_def)
  then have "handle_ok (table_latest c) (reference_store c es)"
    by (simp add: handle_ok_def table_latest_def reference_store_def sample_table_def tb_rows_def scan_rows_def list_all_iff)
  moreover have "latest_rows (sb_lance (reference_store c es)) = (\<lambda>k. map_option (record_row record_codec c) (write_map Map.empty es k))"
    using record_table.overlay_records [of c Map.empty es]
    by (simp add: latest_rows_def reference_store_def sample_table_def tb_rows_def scan_rows_def)
  moreover have "good_map record_codec c (write_map Map.empty es)"
    by (rule record_table.good_map_write [OF _ assms]) (simp add: good_map_def)
  ultimately show ?thesis by (simp add: holds_map_def table_latest_def)
qed

end
