(* ===== verification/Context_Filters.thy ===== *)
theory Context_Filters
  imports Context_Record
begin

text \<open>
  JSON filters of the context store: parsing one key at a time adds its condition to what the parsed
  filter asks of a record, as long as no two keys fill the same slot.
\<close>

definition filter_slot :: "string \<Rightarrow> string" where
  "filter_slot key = (if key \<in> start_keys then ''created_at_start'' else if key \<in> end_keys then ''created_at_end'' else key)"

definition slot_free :: "'n record_filters \<Rightarrow> string \<Rightarrow> bool" where
  "slot_free f s \<longleftrightarrow>
     (s = ''bot_id'' \<longrightarrow> rf_bot_id f = None) \<and> (s = ''session_id'' \<longrightarrow> rf_session_id f = None) \<and>
     (s = ''tenant'' \<longrightarrow> rf_tenant f = None) \<and> (s = ''source'' \<longrightarrow> rf_source f = None) \<and>
     (s = ''role'' \<longrightarrow> rf_role f = None) \<and> (s = ''content_type'' \<longrightarrow> rf_content_type f = None) \<and>
     (s = ''created_at_start'' \<longrightarrow> rf_created_at_start f = None) \<and> (s = ''created_at_end'' \<longrightarrow> rf_created_at_end f = None) \<and>
     s \<notin> fst ` set (rf_metadata f)"

lemma insert_fresh: "k \<notin> fst ` set m \<Longrightarrow> set (bt_insert k v m) = insert (k, v) (set m)"
  by (induction m rule: bt_insert.induct) auto

definition matches_parts :: "'n record_filters \<Rightarrow> 'n context_record \<Rightarrow> bool list" where
  "matches_parts f r =
     [rf_bot_id f = None \<or> rf_bot_id f = cr_bot_id r, rf_session_id f = None \<or> rf_session_id f = cr_session_id r,
      matches_typed_or_metadata r ''tenant'' (cr_tenant r) (rf_tenant f),
      matches_typed_or_metadata r ''source'' (cr_source r) (rf_source f),
      rf_role f = None \<or> rf_role f = Some (cr_role r), rf_content_type f = None \<or> rf_content_type f = Some (cr_content_type r),
      (case rf_created_at_start f of Some t \<Rightarrow> t \<le> cr_created_at r | None \<Rightarrow> True),
      (case rf_created_at_end f of Some t \<Rightarrow> cr_created_at r \<le> t | None \<Rightarrow> True),
      (\<forall>kf \<in> set (rf_metadata f). metadata_filter_holds r kf)]"

lemma filters_match_parts: "filters_match f r \<longleftrightarrow> list_all id (matches_parts f r)"
  by (auto simp: filters_match_def matches_parts_def list_all_iff split: option.splits)

lemma filter_string_Ok: "filter_string n v = Ok s \<longleftrightarrow> v = JNull \<and> s = None \<or> (\<exists>t. v = JString t \<and> s = Some t)"
  by (auto simp: filter_string_def split: json.splits)

lemma datetime_Ok: "parse_filter_datetime rfc n v = Ok t \<longleftrightarrow> (\<exists>s. v = JString s \<and> rfc s = Ok t)"
  by (auto simp: parse_filter_datetime_def res_map_err_def split: json.splits sum.splits)

lemma typed_None: "matches_typed_or_metadata r k typed None"
  "matches_typed_or_metadata r k typed (Some e) \<longleftrightarrow> typed = Some e \<or> typed = None \<and> metadata_get r k = Some (JString e)"
  by (auto simp: matches_typed_or_metadata_def)

lemmas filter_defs = filters_match_parts matches_parts_def filter_condition_def typed_None filter_slot_def start_keys_def
  end_keys_def slot_free_def

lemma bound_keys:
  "k \<in> start_keys \<Longrightarrow> filter_slot k = ''created_at_start'' \<and>
     filter_condition rfc r (k, v) = (\<exists>s t. v = JString s \<and> rfc s = Ok t \<and> t \<le> cr_created_at r)"
  "k \<in> end_keys \<Longrightarrow> filter_slot k = ''created_at_end'' \<and>
     filter_condition rfc r (k, v) = (\<exists>s t. v = JString s \<and> rfc s = Ok t \<and> cr_created_at r \<le> t)"
  by (auto simp: filter_slot_def filter_condition_def start_keys_def end_keys_def)

lemma bound_filters:
  "k \<in> start_keys \<Longrightarrow> add_filter rfc f (k, v) = res_bind (parse_filter_datetime rfc k v) (\<lambda>t. Ok (f\<lparr>rf_created_at_start := Some t\<rparr>))"
  "k \<in> end_keys \<Longrightarrow> add_filter rfc f (k, v) = res_bind (parse_filter_datetime rfc k v) (\<lambda>t. Ok (f\<lparr>rf_created_at_end := Some t\<rparr>))"
  by (auto simp: add_filter_def start_keys_def end_keys_def)

definition typed_key :: "string \<Rightarrow> bool" where
  "typed_key k \<longleftrightarrow> k = ''bot_id'' \<or> k = ''session_id'' \<or> k = ''tenant'' \<or> k = ''source'' \<or> k = ''role'' \<or> k = ''content_type''"

lemma typed_step:
  assumes "add_filter rfc f (k, v) = Ok f'" "slot_free f (filter_slot k)" "typed_key k"
  shows "(filters_match f' r \<longleftrightarrow> filters_match f r \<and> filter_condition rfc r (k, v)) \<and>
    (s \<noteq> filter_slot k \<longrightarrow> slot_free f s \<longrightarrow> slot_free f' s)"
  using assms(3) unfolding typed_key_def
proof (elim disjE, goal_cases)
  case 1
  then obtain t where t: "filter_string k v = Ok t" "f' = f\<lparr>rf_bot_id := t\<rparr>" "rf_bot_id f = None"
    using assms(1,2) by (auto simp: add_filter_def filter_slot_def start_keys_def end_keys_def slot_free_def)
  then show ?thesis
    using 1 unfolding filter_string_Ok
    by (auto simp: filter_defs)
next
  case 2
  then obtain t where t: "filter_string k v = Ok t" "f' = f\<lparr>rf_session_id := t\<rparr>" "rf_session_id f = None"
    using assms(1,2) by (auto simp: add_filter_def filter_slot_def start_keys_def end_keys_def slot_free_def)
  then show ?thesis
    using 2 unfolding filter_string_Ok
    by (auto simp: filter_defs)
next
  case 3
  then obtain t where t: "filter_string k v = Ok t" "f' = f\<lparr>rf_tenant := t\<rparr>" "rf_tenant f = None"
    using assms(1,2) by (auto simp: add_filter_def filter_slot_def start_keys_def end_keys_def slot_free_def)
  then show ?thesis
    using 3 unfolding filter_string_Ok
    by (auto simp: filter_defs)
next
  case 4
  then obtain t where t: "filter_string k v = Ok t" "f' = f\<lparr>rf_source := t\<rparr>" "rf_source f = None"
    using assms(1,2) by (auto simp: add_filter_def filter_slot_def start_keys_def end_keys_def slot_free_def)
  then show ?thesis
    using 4 unfolding filter_string_Ok
    by (auto simp: filter_defs)
next
  case 5
  then obtain t where t: "filter_string k v = Ok t" "f' = f\<lparr>rf_role := t\<rparr>" "rf_role f = None"
    using assms(1,2) by (auto simp: add_filter_def filter_slot_def start_keys_def end_keys_def slot_free_def)
  then show ?thesis
    using 5 unfolding filter_string_Ok
    by (auto simp: filter_defs)
next
  case 6
  then obtain t where t: "filter_string k v = Ok t" "f' = f\<lparr>rf_content_type := t\<rparr>" "rf_content_type f = None"
    using assms(1,2) by (auto simp: add_filter_def filter_slot_def start_keys_def end_keys_def slot_free_def)
  then show ?thesis
    using 6 unfolding filter_string_Ok
    by (auto simp: filter_defs)
qed

lemma bound_step:
  assumes "add_filter rfc f (k, v) = Ok f'" "slot_free f (filter_slot k)" "k \<in> start_keys \<or> k \<in> end_keys"
  shows "(filters_match f' r \<longleftrightarrow> filters_match f r \<and> filter_condition rfc r (k, v)) \<and>
    (s \<noteq> filter_slot k \<longrightarrow> slot_free f s \<longrightarrow> slot_free f' s)"
  using assms(3)
proof
  assume key: "k \<in> start_keys"
  obtain t where t: "parse_filter_datetime rfc k v = Ok t" "f' = f\<lparr>rf_created_at_start := Some t\<rparr>" "rf_created_at_start f = None"
    using assms(1,2) bound_filters(1) [OF key, of rfc f v] bound_keys(1) [OF key, of rfc r v]
    by (auto simp: slot_free_def)
  obtain d where d: "v = JString d" "rfc d = Ok t" using t(1) unfolding datetime_Ok by blast
  have cond: "filter_condition rfc r (k, v) \<longleftrightarrow> t \<le> cr_created_at r" using bound_keys(1) [OF key, of rfc r v] d by simp
  have "filters_match f' r \<longleftrightarrow> filters_match f r \<and> filter_condition rfc r (k, v)"
    unfolding cond t(2) filters_match_parts matches_parts_def using t(3) by (simp add: conj_ac)
  then show ?thesis using bound_keys(1) [OF key, of rfc r v] by (simp add: t(2) slot_free_def)
next
  assume key: "k \<in> end_keys"
  obtain t where t: "parse_filter_datetime rfc k v = Ok t" "f' = f\<lparr>rf_created_at_end := Some t\<rparr>" "rf_created_at_end f = None"
    using assms(1,2) bound_filters(2) [OF key, of rfc f v] bound_keys(2) [OF key, of rfc r v]
    by (auto simp: slot_free_def)
  obtain d where d: "v = JString d" "rfc d = Ok t" using t(1) unfolding datetime_Ok by blast
  have cond: "filter_condition rfc r (k, v) \<longleftrightarrow> cr_created_at r \<le> t" using bound_keys(2) [OF key, of rfc r v] d by simp
  have "filters_match f' r \<longleftrightarrow> filters_match f r \<and> filter_condition rfc r (k, v)"
    unfolding cond t(2) filters_match_parts matches_parts_def using t(3) by (simp add: conj_ac)
  then show ?thesis using bound_keys(2) [OF key, of rfc r v] by (simp add: t(2) slot_free_def)
qed

lemma add_filter_step:
  assumes "add_filter rfc f (k, v) = Ok f'" "k \<noteq> ''created_at''" "slot_free f (filter_slot k)"
  shows "(filters_match f' r \<longleftrightarrow> filters_match f r \<and> filter_condition rfc r (k, v)) \<and>
    (s \<noteq> filter_slot k \<longrightarrow> slot_free f s \<longrightarrow> slot_free f' s)"
proof (cases "typed_key k \<or> k \<in> start_keys \<or> k \<in> end_keys")
  case True
  then show ?thesis using typed_step [OF assms(1,3)] bound_step [OF assms(1,3)] by blast
next
  case False
  have f': "f' = f\<lparr>rf_metadata := bt_insert k (metadata_filter_of v) (rf_metadata f)\<rparr>"
    using assms(1,2) False by (simp add: add_filter_def start_keys_def end_keys_def typed_key_def)
  have slot: "filter_slot k = k" using False by (simp add: filter_slot_def)
  then have "k \<notin> fst ` set (rf_metadata f)" using assms(3) by (simp add: slot_free_def)
  then have "set (rf_metadata f') = insert (k, metadata_filter_of v) (set (rf_metadata f))" using f' by (simp add: insert_fresh)
  moreover have "filter_condition rfc r (k, v) = metadata_filter_holds r (k, metadata_filter_of v)"
    using False assms(2) by (simp add: filter_condition_def typed_key_def)
  ultimately show ?thesis by (auto simp: filters_match_parts matches_parts_def f' slot slot_free_def)
qed

lemma add_filters:
  assumes "fold_res (add_filter rfc) f obj = Ok f'" "''created_at'' \<notin> fst ` set obj" "distinct (map (\<lambda>kv. filter_slot (fst kv)) obj)"
    "\<And>kv. kv \<in> set obj \<Longrightarrow> slot_free f (filter_slot (fst kv))"
  shows "filters_match f' r \<longleftrightarrow> filters_match f r \<and> list_all (filter_condition rfc r) obj"
  using assms
proof (induction obj arbitrary: f)
  case (Cons kv obj)
  obtain f1 where f1: "add_filter rfc f kv = Ok f1" "fold_res (add_filter rfc) f1 obj = Ok f'" using Cons.prems(1) by auto
  obtain k v where kv: "kv = (k, v)" by (cases kv)
  have k: "k \<noteq> ''created_at''" "slot_free f (filter_slot k)" using Cons.prems(2) Cons.prems(4) [of kv] kv by auto
  note step = add_filter_step [OF f1(1) [unfolded kv] k, of r]
  have "slot_free f1 (filter_slot (fst kv'))" if "kv' \<in> set obj" for kv'
  proof (rule step [THEN conjunct2, rule_format])
    show "filter_slot (fst kv') \<noteq> filter_slot k" using Cons.prems(3) that kv by (force simp: image_iff)
    show "slot_free f (filter_slot (fst kv'))" using Cons.prems(4) that by simp
  qed
  then show ?case using Cons.IH [OF f1(2)] Cons.prems(2,3) step kv by auto
qed simp

section \<open>Ranges of the creation time\<close>

text \<open>A range object says what its bounds say as keys of their own; \<open>filter_parts\<close> spells them out.\<close>

definition bound_key :: "string \<Rightarrow> string" where
  "bound_key op = (if op \<in> start_ops then ''created_at_start'' else ''created_at_end'')"

definition filter_parts :: "string \<times> 'n json \<Rightarrow> (string \<times> 'n json) list" where
  "filter_parts = (\<lambda>(key, v).
     if key = ''created_at'' then (case v of JObject bounds \<Rightarrow> map (\<lambda>(op, w). (bound_key op, w)) bounds | _ \<Rightarrow> []) else [(key, v)])"

definition filter_slots :: "(string \<times> 'n json) list \<Rightarrow> string list" where
  "filter_slots obj = map (\<lambda>kv. filter_slot (fst kv)) (concat (map filter_parts obj))"

lemma bound_key_range: "bound_key op \<in> start_keys \<or> bound_key op \<in> end_keys" "bound_key op \<noteq> ''created_at''"
  by (simp_all add: bound_key_def start_keys_def end_keys_def)

lemma bound_part:
  assumes "created_at_bound rfc f (op, v) = Ok f'"
  shows "add_filter rfc f (bound_key op, v) = Ok f'" "filter_condition rfc r (bound_key op, v) = bound_condition rfc r (op, v)"
proof -
  have ops: "start_ops \<inter> end_ops = {}" by (auto simp: start_ops_def end_ops_def)
  consider (start) t where "op \<in> start_ops" "parse_filter_datetime rfc op v = Ok t" "f' = f\<lparr>rf_created_at_start := Some t\<rparr>"
    | (stop) t where "op \<in> end_ops" "op \<notin> start_ops" "parse_filter_datetime rfc op v = Ok t" "f' = f\<lparr>rf_created_at_end := Some t\<rparr>"
    using assms unfolding created_at_bound_def start_ops_def [symmetric] end_ops_def [symmetric] by (auto split: if_splits)
  then have "add_filter rfc f (bound_key op, v) = Ok f' \<and> filter_condition rfc r (bound_key op, v) = bound_condition rfc r (op, v)"
  proof cases
    case start
    have key: "bound_key op \<in> start_keys" using start(1) by (simp add: bound_key_def start_keys_def)
    have "parse_filter_datetime rfc (bound_key op) v = Ok t" using start(2) unfolding datetime_Ok .
    then show ?thesis
      using start bound_filters(1) [OF key, of rfc f v] bound_keys(1) [OF key, of rfc r v] ops by (auto simp: bound_condition_def)
  next
    case stop
    have key: "bound_key op \<in> end_keys" using stop(2) by (simp add: bound_key_def end_keys_def)
    have "parse_filter_datetime rfc (bound_key op) v = Ok t" using stop(3) unfolding datetime_Ok .
    then show ?thesis
      using stop bound_filters(2) [OF key, of rfc f v] bound_keys(2) [OF key, of rfc r v] by (auto simp: bound_condition_def)
  qed
  then show "add_filter rfc f (bound_key op, v) = Ok f'" "filter_condition rfc r (bound_key op, v) = bound_condition rfc r (op, v)" by simp_all
qed

lemma bound_parts:
  assumes "fold_res (created_at_bound rfc) f bounds = Ok f'"
  shows "fold_res (add_filter rfc) f (map (\<lambda>(op, w). (bound_key op, w)) bounds) = Ok f' \<and>
    list_all (filter_condition rfc r) (map (\<lambda>(op, w). (bound_key op, w)) bounds) = list_all (bound_condition rfc r) bounds"
  using assms
proof (induction bounds arbitrary: f)
  case (Cons b bounds)
  obtain op v f1 where b: "b = (op, v)" "created_at_bound rfc f (op, v) = Ok f1" "fold_res (created_at_bound rfc) f1 bounds = Ok f'"
    using Cons.prems by (cases b) auto
  show ?case using Cons.IH [OF b(3)] bound_part(1) [OF b(2)] bound_part(2) [OF b(2), of r] b(1) by simp
qed simp

lemma filter_part:
  assumes "add_filter rfc f kv = Ok f'"
  shows "fold_res (add_filter rfc) f (filter_parts kv) = Ok f' \<and>
    list_all (filter_condition rfc r) (filter_parts kv) = filter_condition rfc r kv"
proof (cases "fst kv = ''created_at''")
  case True
  then obtain v where kv: "kv = (''created_at'', v)" by (cases kv) simp
  obtain bounds where v: "v = JObject bounds" "fold_res (created_at_bound rfc) f bounds = Ok f'"
    using assms unfolding kv by (cases v) (simp_all add: add_filter_def apply_created_at_filter_def)
  have "filter_condition rfc r kv = list_all (bound_condition rfc r) bounds" unfolding kv v(1) by (simp add: filter_condition_def)
  moreover have "filter_parts kv = map (\<lambda>(op, w). (bound_key op, w)) bounds" unfolding kv v(1) by (simp add: filter_parts_def)
  ultimately show ?thesis using bound_parts [OF v(2), of r] by simp
next
  case False
  then have "filter_parts kv = [kv]" by (cases kv) (simp add: filter_parts_def)
  then show ?thesis using assms by simp
qed

lemma filter_parts_all:
  assumes "fold_res (add_filter rfc) f obj = Ok f'"
  shows "fold_res (add_filter rfc) f (concat (map filter_parts obj)) = Ok f' \<and>
    list_all (filter_condition rfc r) (concat (map filter_parts obj)) = list_all (filter_condition rfc r) obj"
  using assms
proof (induction obj arbitrary: f)
  case (Cons kv obj)
  obtain f1 where f1: "add_filter rfc f kv = Ok f1" "fold_res (add_filter rfc) f1 obj = Ok f'" using Cons.prems by auto
  show ?case using Cons.IH [OF f1(2)] filter_part [OF f1(1), of r] by (simp add: fold_res_append)
qed simp

lemma filter_parts_keys: "kv \<in> set (filter_parts x) \<Longrightarrow> fst kv \<noteq> ''created_at''"
  using bound_key_range(2) by (cases x) (auto simp: filter_parts_def split: json.splits if_splits)

lemma add_all_filters:
  assumes "fold_res (add_filter rfc) f obj = Ok f'" "distinct (filter_slots obj)" "\<And>s. s \<in> set (filter_slots obj) \<Longrightarrow> slot_free f s"
  shows "filters_match f' r \<longleftrightarrow> filters_match f r \<and> list_all (filter_condition rfc r) obj"
proof -
  let ?parts = "concat (map filter_parts obj)"
  note parts = filter_parts_all [OF assms(1), of r]
  have "filters_match f' r \<longleftrightarrow> filters_match f r \<and> list_all (filter_condition rfc r) ?parts"
  proof (rule add_filters)
    show "fold_res (add_filter rfc) f ?parts = Ok f'" using parts by blast
    show "''created_at'' \<notin> fst ` set ?parts" using filter_parts_keys by fastforce
    show "distinct (map (\<lambda>kv. filter_slot (fst kv)) ?parts)" using assms(2) by (simp only: filter_slots_def)
    show "slot_free f (filter_slot (fst kv))" if "kv \<in> set ?parts" for kv
      by (rule assms(3)) (use that in \<open>auto simp: filter_slots_def\<close>)
  qed
  then show ?thesis using parts by blast
qed

end
