(* ===== verification/Context_Properties.thy ===== *)
theory Context_Properties
  imports Context_Run Context_Filters
begin

text \<open>
  The claims of the context store, over any Lance that obeys \<open>context_laws\<close>, and their instances on the
  reference table.
\<close>

definition sample_config :: context_config where
  "sample_config = \<lparr>cc_blob_columns = {''text_payload''}, cc_embedding_dim = 2\<rparr>"

definition sample_record :: "string \<Rightarrow> string option \<Rightarrow> nat context_record" where
  "sample_record i prev =
     \<lparr>cr_id = i, cr_external_id = Some ''x'', cr_run_id = ''run'', cr_bot_id = None,
      cr_session_id = None, cr_tenant = None, cr_source = None, cr_created_at = 1700000000000000000,
      cr_role = ''user'', cr_state_metadata = None, cr_metadata = Some (JObject [(''k'', JNumber 1)]), cr_relationships = [],
      cr_expires_at = None, cr_retention_policy = None, cr_lifecycle_status = LIFECYCLE_ACTIVE,
      cr_retired_at = None, cr_retired_reason = None, cr_supersedes_id = prev, cr_superseded_by_id = None,
      cr_content_type = ''text/plain'', cr_text_payload = Some i, cr_binary_payload = None,
      cr_payload_uri = None, cr_payload_size = None, cr_payload_checksum = None, cr_embedding = None\<rparr>"

definition sample_ambient :: ambient where
  "sample_ambient = \<lparr>am_read_time = 1800000000000000000, am_write_time = 1800000000000000000,
     am_new_id = ''n'', am_new_run_id = ''run''\<rparr>"

lemma sample_text: "text_ok ''a''" "text_ok ''b''" "text_ok ''n''"
  by (simp_all add: text_ok_def valid_utf8.simps Let_def)

lemma sample_record_fields [simp]:
  "cr_id (sample_record i prev) = i" "cr_external_id (sample_record i prev) = Some ''x''"
  "cr_supersedes_id (sample_record i prev) = prev" "cr_embedding (sample_record i prev) = None"
  "\<not> is_tombstone (sample_record i prev)" "is_visible (default_options now) (sample_record i prev)"
  by (simp_all add: sample_record_def is_tombstone_def CONTENT_TYPE_TOMBSTONE_def is_visible_def is_expired_at_def
      is_hidden_by_lifecycle_def LIFECYCLE_ACTIVE_def)

lemma record_codec_micros [simp]: "micros_ok record_codec t"
  by (simp add: record_codec_def)

lemma sample_storable: "text_ok i \<Longrightarrow> storable record_codec c (sample_record i prev)"
  by (simp add: storable_def sample_record_def)

lemma sample_stored: "stored_record (sample_record i prev) = sample_record i prev"
  by (simp add: stored_record_def sample_record_def truncate_instant_def timestamp_micros_def)

lemma chained_empty: "chained Map.empty"
  by (auto simp: chained_def chain_def holders_def intro!: exI [of _ "[]"])

lemma empty_store_holds: "holds_map (table_latest c) record_codec c (reference_store c []) Map.empty"
  using reference_holds [of c "[]"] by (simp add: write_map_def)

section \<open>Sequences of operations\<close>

text \<open>
  C4. An external id never names two visible records. Whatever adds, upserts, batch upserts, updates and
  deletions a sole writer performs, in any order, at any times and with whatever results short of a Lance
  fault, a listing at any time shows at most one record per external id, and no call is ever refused
  because an external id is ambiguous.
\<close>

theorem external_ids_stay_unique:
  assumes "context_laws L S c V J" "holds_map V J c b M" "chained M" "list_all (op_ok J c) ops"
    and "perform_all L S J c ops b = (rs, b')" "\<And>x. Err (LanceFault x) \<notin> set rs"
  shows "(\<forall>x. Err (Invalid (AmbiguousExternalId x)) \<notin> set rs) \<and>
    (\<forall>now es x. list_records L S J now b' = Ok es \<longrightarrow> length (filter (\<lambda>e. cr_external_id e = Some x) es) \<le> 1)"
  using context_laws.perform_all_steps [OF assms] context_laws.matches_unique [OF assms(1)] by blast

definition sample_ops :: "nat context_op list" where
  "sample_ops = [OpAdd [sample_record ''a'' None], OpUpsert sample_ambient (sample_record ''b'' None),
     OpDeleteExternal sample_ambient ''x'', OpDelete sample_ambient ''a'', OpUpsertMany sample_ambient [sample_record ''a'' None]]"

lemma sample_ops_ok: "list_all (op_ok record_codec c) sample_ops"
  by (simp add: sample_ops_def sample_storable sample_text ambient_ok_def)

theorem external_ids_stay_unique_witness:
  "Err (Invalid (AmbiguousExternalId ''x'')) \<notin> set (fst (perform_all table_lance tb_record_scan record_codec sample_config sample_ops
     (reference_store sample_config [])))"
proof -
  obtain rs b' where p: "perform_all table_lance tb_record_scan record_codec sample_config sample_ops
      (reference_store sample_config []) = (rs, b')" by fastforce
  show ?thesis
    using external_ids_stay_unique [OF record_table.context_laws_axioms empty_store_holds chained_empty sample_ops_ok p]
      perform_all_faultless [OF empty_store_holds chained_empty sample_ops_ok p] unfolding p by simp
qed

definition everything :: "int \<Rightarrow> lifecycle_query_options" where
  "everything now = \<lparr>lq_include_expired = True, lq_include_retired = True, lq_reference_time = now\<rparr>"

lemma shown_everything: "shown (everything t) N = {r \<in> ran N. \<not> is_tombstone r}"
  by (auto simp: shown_def is_visible_def everything_def)

text \<open>
  C19. Replacing never loses history. As long as nothing is deleted, any sequence of adds, upserts, batch
  upserts and updates leaves every live record stored unchanged under its id: a listing that includes
  retired and expired records still returns each one it returned before.
\<close>

theorem replacing_keeps_history:
  assumes "context_laws L S c V J" "holds_map V J c b M" "chained M" "list_all (op_ok J c) ops" "\<not> list_ex is_delete ops"
    and "perform_all L S J c ops b = (rs, b')" "\<And>x. Err (LanceFault x) \<notin> set rs"
    and "list_filtered_projected L S J None None None (everything now) default_projection b = Ok before"
    and "list_filtered_projected L S J None None None (everything now') default_projection b' = Ok after"
  shows "set before \<subseteq> set after"
proof -
  obtain M' where M': "holds_map V J c b' M'" "keeps_live M M'"
    using context_laws.perform_all_steps [OF assms(1-4,6,7)] assms(5) by blast
  have sets: "set before = {r \<in> ran M. \<not> is_tombstone r}" "set after = {r \<in> ran M'. \<not> is_tombstone r}"
    using context_laws.list_shown [OF assms(1,2,8)] context_laws.list_shown [OF assms(1) M'(1) assms(9)] by (simp_all add: shown_everything)
  show ?thesis
  proof
    fix r assume "r \<in> set before"
    then obtain k where "M k = Some r" "\<not> is_tombstone r" unfolding sets by (auto simp: ran_def)
    then have "M' k = Some r" using M'(2) by (simp add: keeps_live_def)
    then show "r \<in> set after" unfolding sets using \<open>\<not> is_tombstone r\<close> by (auto simp: ran_def)
  qed
qed

lemma list_all_table_Ok:
  assumes "holds_map (table_latest c) record_codec c b M"
  shows "\<exists>rs. list_filtered_projected table_lance tb_record_scan record_codec None None None opts default_projection b = Ok rs"
proof -
  obtain bs where bs: "scan_batches tb_record_scan None None b = Ok bs" using table_scan_Ok(1) by blast
  obtain rss where "collect_res (batch_to_records record_codec) bs = Ok rss"
    using record_table.scan_all_records [OF assms bs] by blast
  then show ?thesis
    using bs by (simp add: list_filtered_projected_def lsm_scanner_projected_def loads_all_def default_projection_def Let_def)
qed

lemma reference_one:
  assumes "text_ok i"
  shows "holds_map (table_latest c) record_codec c (reference_store c [sample_record i None]) [i \<mapsto> sample_record i None]"
  using reference_holds [of c "[sample_record i None]"] assms by (simp add: write_map_def sample_storable sample_stored)

lemma chained_one: "chained [i \<mapsto> sample_record i prev]"
  using chained_extend [OF chained_empty, of "sample_record i prev"] by (simp add: extends_def holders_def)

definition sample_updates :: "nat context_op list" where
  "sample_updates = [OpUpsert sample_ambient (sample_record ''b'' None), OpUpsertMany sample_ambient [sample_record ''n'' None]]"

lemma sample_updates_ok: "list_all (op_ok record_codec c) sample_updates" "\<not> list_ex is_delete sample_updates"
  by (simp_all add: sample_updates_def sample_storable sample_text is_delete_def)

theorem replacing_keeps_history_witness:
  "\<exists>after. list_filtered_projected table_lance tb_record_scan record_codec None None None (everything 0) default_projection
      (snd (perform_all table_lance tb_record_scan record_codec sample_config sample_updates
        (reference_store sample_config [sample_record ''a'' None]))) = Ok after \<and> sample_record ''a'' None \<in> set after"
proof -
  let ?b = "reference_store sample_config [sample_record ''a'' None]"
  note h = reference_one [OF sample_text(1), of sample_config]
  obtain rs b' where p: "perform_all table_lance tb_record_scan record_codec sample_config sample_updates ?b = (rs, b')" by fastforce
  have nf: "Err (LanceFault x) \<notin> set rs" for x by (rule perform_all_faultless [OF h chained_one sample_updates_ok(1) p])
  obtain M' where h': "holds_map (table_latest sample_config) record_codec sample_config b' M'"
    using record_table.perform_all_steps [OF h chained_one sample_updates_ok(1) p nf] by blast
  obtain bef aft where l: "list_filtered_projected table_lance tb_record_scan record_codec None None None (everything 0) default_projection ?b = Ok bef"
    "list_filtered_projected table_lance tb_record_scan record_codec None None None (everything 0) default_projection b' = Ok aft"
    using list_all_table_Ok [OF h] list_all_table_Ok [OF h'] by blast
  have "sample_record ''a'' None \<in> set bef"
    using record_table.list_shown [OF h l(1)] by (simp add: shown_def everything_def is_visible_def)
  moreover have "set bef \<subseteq> set aft"
    by (rule replacing_keeps_history [OF record_table.context_laws_axioms h chained_one sample_updates_ok p nf l])
  ultimately show ?thesis using l(2) unfolding p by auto
qed

section \<open>Single operations\<close>

lemma settles_cases:
  assumes "settles m b ok" "m b = (r, b')"
  shows "(\<exists>x. r = Err (LanceFault x)) \<or> (if ok then \<exists>v. r = Ok v else (\<exists>x. r = Err (Invalid x)) \<and> b' = b)"
  using assms unfolding settles_def by (metis (full_types))

text \<open>
  C21. What an add does, exactly. Unless Lance fails, adding a batch succeeds if and only if it holds no
  tombstone, no id or external id twice and none that a live record has, at most 128 roles, and embeddings
  of the configured width only; the store then holds the old records and the new ones, instants cut to the
  microsecond. A refused batch changes nothing.
\<close>

theorem context_add_exact:
  assumes "context_laws L S c V J" "holds_map V J c b M" "list_all (storable J c) es" "add L S J c es b = (r, b')"
  shows "(\<exists>x. r = Err (LanceFault x)) \<or>
    (if add_allowed c M es then (\<exists>v. r = Ok v) \<and> holds_map V J c b' (write_map M es)
     else (\<exists>x. r = Err (Invalid x)) \<and> b' = b)"
  using settles_cases [OF context_laws.add_settles [OF assms(1,2)] assms(4)]
    context_laws.add_Ok(1) [OF assms(1-3)] assms(4) by (cases r) (auto split: if_splits)

theorem context_add_exact_witness:
  "(\<exists>v. fst (add table_lance tb_record_scan record_codec sample_config [sample_record ''a'' None] (reference_store sample_config [])) = Ok v) \<and>
   (\<exists>x. fst (add table_lance tb_record_scan record_codec sample_config [sample_record ''a'' None, sample_record ''b'' None]
     (reference_store sample_config [])) = Err (Invalid x))"
proof
  let ?add = "\<lambda>es. add table_lance tb_record_scan record_codec sample_config es (reference_store sample_config [])"
  have st: "list_all (storable record_codec sample_config) [sample_record ''a'' None]"
    "list_all (storable record_codec sample_config) [sample_record ''a'' None, sample_record ''b'' None]"
    by (simp_all add: sample_storable sample_text)
  have nf: "fst (?add es) \<noteq> Err (LanceFault x)" for es x
    using add_faultless [OF empty_store_holds, of sample_config es] unfolding faultless_iff by (metis prod.collapse)
  have "add_allowed sample_config Map.empty [sample_record ''a'' None]"
    by (simp add: add_allowed_def batch_keys_ok_def external_ids_of_def taken_ids_def taken_externals_def batch_fits_def embedding_ok_def)
  then show "\<exists>v. fst (?add [sample_record ''a'' None]) = Ok v"
    using context_add_exact [OF record_table.context_laws_axioms empty_store_holds st(1) prod.collapse [symmetric]] nf
    by (auto split: if_splits)
  have "\<not> add_allowed sample_config Map.empty [sample_record ''a'' None, sample_record ''b'' None]"
    by (simp add: add_allowed_def batch_keys_ok_def external_ids_of_def)
  then show "\<exists>x. fst (?add [sample_record ''a'' None, sample_record ''b'' None]) = Err (Invalid x)"
    using context_add_exact [OF record_table.context_laws_axioms empty_store_holds st(2) prod.collapse [symmetric]] nf
    by (auto split: if_splits)
qed

text \<open>
  C5. What an upsert does, exactly. Unless Lance fails, upserting a record succeeds if and only if it is no
  tombstone, has a non-empty external id and an unused id, an embedding of the configured width, and the
  external id either names a visible record, which the new one then supersedes, or no live record at all: a
  hidden one (expired, retired or contradicted) makes the call fail. The store then holds the old records
  and the new one; a refused upsert changes nothing.
\<close>

theorem upsert_exact:
  assumes "context_laws L S c V J" "holds_map V J c b M" "chained M" "storable J c r"
    and "upsert_by_external_id L S J c am r b = (res, b')"
  shows "(\<exists>x. res = Err (LanceFault x)) \<or>
    (if upsert_allowed (am_read_time am) c M r
     then \<exists>u. res = Ok u \<and> holds_map V J c b' (M(cr_id r \<mapsto> stored_record (ur_record u))) \<and>
       ur_record u = r\<lparr>cr_supersedes_id := ur_replaced_id u, cr_superseded_by_id := None\<rparr>
     else (\<exists>x. res = Err (Invalid x)) \<and> b' = b)"
proof (cases res)
  case (Inl e)
  then show ?thesis
    using settles_cases [OF context_laws.upsert_settles [OF assms(1-3)] assms(5)] by (auto split: if_splits)
next
  case (Inr u)
  have "upsert_allowed (am_read_time am) c M r"
    using settles_cases [OF context_laws.upsert_settles [OF assms(1-3)] assms(5)] Inr by (auto split: if_splits)
  then show ?thesis
    using context_laws.upsert_Ok(1,4) [OF assms(1,2,4) assms(5) [unfolded Inr]] Inr by auto
qed

lemma sample_upsert_allowed:
  "upsert_allowed now c [''a'' \<mapsto> sample_record ''a'' None] (sample_record ''b'' None)"
  by (simp add: upsert_allowed_def taken_ids_def embedding_ok_def shown_def superseded_in_def)

theorem upsert_exact_witness:
  "\<exists>u. fst (upsert_by_external_id table_lance tb_record_scan record_codec sample_config sample_ambient (sample_record ''b'' None)
     (reference_store sample_config [sample_record ''a'' None])) = Ok u \<and>
     ur_record u = sample_record ''b'' (ur_replaced_id u)"
proof -
  let ?u = "upsert_by_external_id table_lance tb_record_scan record_codec sample_config sample_ambient (sample_record ''b'' None)
     (reference_store sample_config [sample_record ''a'' None])"
  note h = reference_one [OF sample_text(1), of sample_config]
  obtain res b' where p: "?u = (res, b')" by fastforce
  then have nf: "res \<noteq> Err (LanceFault x)" for x
    using upsert_faultless [OF h, of sample_ambient "sample_record ''b'' None"] unfolding faultless_iff by metis
  have same: "sample_record ''b'' None\<lparr>cr_supersedes_id := k, cr_superseded_by_id := None\<rparr> = sample_record ''b'' k" for k
    by (simp add: sample_record_def)
  show ?thesis
    using upsert_exact [OF record_table.context_laws_axioms h chained_one sample_storable [OF sample_text(2)] p]
      nf unfolding if_P [OF sample_upsert_allowed] p by (auto simp: same)
qed

context context_laws
begin

lemma get_external_shown:
  assumes "holds_map V J c b M" "chained M" "q \<in> shown (default_options now) M" "cr_external_id q = Some x"
  shows "case get_by_external_id L S J now x b of Ok found \<Rightarrow> found = Some q | Err e \<Rightarrow> is_fault e"
proof (cases "list_records L S J now b")
  case (Inl e)
  then show ?thesis using list_ok_or_fault [OF assms(1), of now] by (auto simp: get_by_external_id_def ok_or_fault_def)
next
  case (Inr rs)
  obtain p where p: "find (\<lambda>r. cr_external_id r = Some x) rs = Some p"
    using found_shown(3) [OF assms(1) Inr, of "\<lambda>r. cr_external_id r = Some x"] assms(3,4) by fastforce
  have "p \<in> shown (default_options now) M" "cr_external_id p = Some x" using found_shown(1) [OF assms(1) Inr p] by blast+
  then have "p = q" using shown_unique [OF assms(2) holds_by_id [OF assms(1)] _ assms(3) _ assms(4)] by blast
  then show ?thesis by (simp add: get_by_external_id_def Inr p)
qed

lemma get_id_hidden:
  assumes "holds_map V J c b M" "\<And>q. q \<in> shown (default_options now) M \<Longrightarrow> cr_id q \<noteq> k"
  shows "case get_by_id L S J now k b of Ok found \<Rightarrow> found = None | Err e \<Rightarrow> is_fault e"
proof (cases "list_records L S J now b")
  case (Inl e)
  then show ?thesis using list_ok_or_fault [OF assms(1), of now] by (auto simp: get_by_id_def ok_or_fault_def)
next
  case (Inr rs)
  have "find (\<lambda>r. cr_id r = k) rs = None" unfolding found_shown(3) [OF assms(1) Inr] using assms(2) by blast
  then show ?thesis by (simp add: get_by_id_def Inr)
qed

end

lemma shown_live:
  assumes "by_id M" "q \<in> shown opts M"
  shows "M (cr_id q) = Some q \<and> \<not> is_tombstone q"
proof -
  obtain k where "M k = Some q" "\<not> is_tombstone q" using assms(2) by (auto simp: shown_def ran_def is_visible_def)
  moreover from this have "cr_id q = k" using assms(1) by (simp add: by_id_def)
  ultimately show ?thesis by blast
qed

lemma shown_update:
  assumes "cr_id r \<notin> superseded_in M" "is_visible (default_options now) r"
  shows "r \<in> shown (default_options now) (M(cr_id r \<mapsto> r))"
proof -
  have "cr_id r \<notin> superseded_in (M(cr_id r \<mapsto> r))"
    using assms(1) by (auto simp: superseded_in_def ran_def split: if_splits)
  then show ?thesis using assms(2) by (auto simp: shown_def ran_def)
qed

text \<open>
  C20. An upsert is read back. After an upsert succeeds, reading by its external id, at any time at which
  the record is neither expired nor hidden, returns the record as it was written, instants cut to the
  microsecond; the record it replaced is no longer found by its id. The new id must not be one that an
  older record already claims to supersede.
\<close>

theorem upsert_then_get:
  assumes "context_laws L S c V J" "holds_map V J c b M" "chained M" "storable J c r"
    and "upsert_by_external_id L S J c am r b = (Ok u, b')" "cr_external_id r = Some x" "cr_id r \<notin> superseded_in M"
    and "is_visible (default_options now) (stored_record (ur_record u))"
  shows "(case get_by_external_id L S J now x b' of
      Ok found \<Rightarrow> found = Some (stored_record (ur_record u)) | Err e \<Rightarrow> is_fault e) \<and>
    (\<forall>k. ur_replaced_id u = Some k \<longrightarrow> (case get_by_id L S J now k b' of Ok found \<Rightarrow> found = None | Err e \<Rightarrow> is_fault e))"
proof -
  define q where "q = stored_record (ur_record u)"
  let ?M = "M(cr_id r \<mapsto> q)"
  note ok = context_laws.upsert_Ok [OF assms(1,2,4,5)]
  have h: "holds_map V J c b' ?M" using ok(1) by (simp add: q_def)
  note ids = context_laws.holds_by_id [OF assms(1)]
  have q: "cr_id q = cr_id r" "cr_external_id q = Some x" "cr_supersedes_id q = ur_replaced_id u"
    using ok(3,4) assms(6) by (auto simp: q_def)
  have new: "is_tombstone p" if "M (cr_id r) = Some p" for p
    using ok(2,3) that by (auto simp: extends_def)
  have chained: "chained ?M"
    using chained_extend [OF assms(3), of q] ok(2) q(1) unfolding q_def extends_stored by simp
  have seen: "q \<in> shown (default_options now) ?M"
    using shown_update [of q M now] assms(7,8) q(1) by (simp add: q_def)
  have "case get_by_external_id L S J now x b' of Ok found \<Rightarrow> found = Some q | Err e \<Rightarrow> is_fault e"
    by (rule context_laws.get_external_shown [OF assms(1) h chained seen q(2)])
  moreover have "case get_by_id L S J now k b' of Ok found \<Rightarrow> found = None | Err e \<Rightarrow> is_fault e"
    if k: "ur_replaced_id u = Some k" for k
  proof (rule context_laws.get_id_hidden [OF assms(1) h])
    obtain p where p: "p \<in> shown (default_options (am_read_time am)) M" "cr_id p = k"
      using context_laws.upsert_Ok(5) [OF assms(1,2,4,5) k] by blast
    then have "M k = Some p" "\<not> is_tombstone p" using shown_live [OF ids [OF assms(2)]] by blast+
    then have "k \<noteq> cr_id r" using new by blast
    then have "k \<in> superseded_in ?M" using q(1,3) k by (auto simp: superseded_in_def ran_def)
    then show "cr_id p' \<noteq> k" if "p' \<in> shown (default_options now) ?M" for p'
      using that by (auto simp: shown_def default_options_def)
  qed
  ultimately show ?thesis unfolding q_def by blast
qed

theorem upsert_then_get_witness:
  "\<exists>u b'. upsert_by_external_id table_lance tb_record_scan record_codec sample_config sample_ambient (sample_record ''b'' None)
     (reference_store sample_config [sample_record ''a'' None]) = (Ok u, b') \<and>
     get_by_external_id table_lance tb_record_scan record_codec 0 ''x'' b' = Ok (Some (sample_record ''b'' (ur_replaced_id u)))"
proof -
  note h = reference_one [OF sample_text(1), of sample_config] and st = sample_storable [OF sample_text(2)]
  obtain u b' where u: "upsert_by_external_id table_lance tb_record_scan record_codec sample_config sample_ambient (sample_record ''b'' None)
     (reference_store sample_config [sample_record ''a'' None]) = (Ok u, b')"
    using settles_Ok [OF record_table.upsert_settles [OF h chained_one] upsert_faultless [OF h] sample_upsert_allowed] by blast
  have "ur_record u = sample_record ''b'' (ur_replaced_id u)"
    using record_table.upsert_Ok(4) [OF h st u] by (auto simp: sample_record_def)
  then have q: "stored_record (ur_record u) = sample_record ''b'' (ur_replaced_id u)" by (simp add: sample_stored)
  have "''b'' \<notin> superseded_in [''a'' \<mapsto> sample_record ''a'' None]" by (simp add: superseded_in_def)
  then have get: "case get_by_external_id table_lance tb_record_scan record_codec 0 ''x'' b' of
      Ok found \<Rightarrow> found = Some (stored_record (ur_record u)) | Err e \<Rightarrow> is_fault e"
    using upsert_then_get [OF record_table.context_laws_axioms h chained_one st u, of "''x''" 0] by (simp add: q)
  obtain rs where "list_records table_lance tb_record_scan record_codec 0 b' = Ok rs"
    using list_table_Ok [OF record_table.upsert_Ok(1) [OF h st u]] by blast
  then show ?thesis using u get by (auto simp: get_by_external_id_def q)
qed

text \<open>
  C22. A deleted record is gone: after a deletion by id reports success, no read by that id at any time finds
  a record; and a deletion that reports nothing found has changed nothing.
\<close>

theorem delete_then_gone:
  assumes "context_laws L S c V J" "holds_map V J c b M" "ambient_ok J am" "delete_by_id L S J c am i b = (Ok found, b')"
  shows "if found then case get_by_id L S J now i b' of Ok q \<Rightarrow> q = None | Err e \<Rightarrow> is_fault e else b' = b"
proof (cases found)
  case False
  then show ?thesis using context_laws.delete_Ok [OF assms(1,2), of am i found b'] assms(3,4) by (auto simp: ambient_ok_def)
next
  case True
  obtain r where r: "cr_id r = i" "holds_map V J c b' (M(cr_id r \<mapsto> stored_record (tombstone_for (am_write_time am) r)))"
    using context_laws.delete_Ok [OF assms(1,2) assms(3) [unfolded ambient_ok_def] disjI1 [OF conjI [OF assms(4) refl]]]
    unfolding if_P [OF True] by blast
  define t where "t = stored_record (tombstone_for (am_write_time am) r)"
  have t: "is_tombstone t" by (simp add: t_def is_tombstone_def tombstone_for_def stored_record_def)
  note h = r(2) [folded t_def]
  have "cr_id q \<noteq> i" if q: "q \<in> shown (default_options now) (M(cr_id r \<mapsto> t))" for q
  proof
    assume "cr_id q = i"
    then show False using shown_live [OF context_laws.holds_by_id [OF assms(1) h] q] t unfolding r(1) by simp
  qed
  then show ?thesis using context_laws.get_id_hidden [OF assms(1) h] True by simp
qed

theorem delete_then_gone_witness:
  "\<exists>b'. delete_by_id table_lance tb_record_scan record_codec sample_config sample_ambient ''a''
     (reference_store sample_config [sample_record ''a'' None]) = (Ok True, b') \<and>
     get_by_id table_lance tb_record_scan record_codec 0 ''a'' b' = Ok None"
proof -
  note h = reference_one [OF sample_text(1), of sample_config]
  have am: "ambient_ok record_codec sample_ambient" by (simp add: ambient_ok_def)
  obtain v b' where d: "delete_by_id table_lance tb_record_scan record_codec sample_config sample_ambient ''a''
      (reference_store sample_config [sample_record ''a'' None]) = (Ok v, b')"
    using settles_Ok [OF record_table.delete_settles(1) [OF h] delete_faultless(1) [OF h] TrueI] by blast
  have "sample_record ''a'' None \<in> shown (default_options now) [''a'' \<mapsto> sample_record ''a'' None]" for now
    by (simp add: shown_def superseded_in_def)
  note del = record_table.delete_Ok [OF h am [unfolded ambient_ok_def] disjI1 [OF conjI [OF d refl]]]
  have v: "v"
  proof (rule ccontr)
    assume "\<not> v"
    then show False using del \<open>sample_record ''a'' None \<in> shown (default_options (am_read_time sample_ambient)) _\<close> by auto
  qed
  obtain M' where h': "holds_map (table_latest sample_config) record_codec sample_config b' M'" using del v by auto
  obtain rs where "list_records table_lance tb_record_scan record_codec 0 b' = Ok rs" using list_table_Ok [OF h'] by blast
  then show ?thesis
    using delete_then_gone [OF record_table.context_laws_axioms h am d, of 0] d v by (auto simp: get_by_id_def)
qed

text \<open>
  C30. Deleting by external id does not forget it once it was replaced. The tombstone takes the place of the
  deleted record and with it goes the link by which that record hid its predecessor: the replaced version
  is what the external id names after the deletion.
\<close>

theorem delete_uncovers_predecessor:
  assumes "context_laws L S c V J" "holds_map V J c b M" "chained M" "ambient_ok J am"
    and "M k = Some r" "cr_external_id r = Some x" "cr_supersedes_id r = Some p" "p \<noteq> k"
    and "M p = Some q" "cr_external_id q = Some x" "is_visible (default_options now) q"
    and "\<And>j s. M j = Some s \<Longrightarrow> j \<noteq> k \<Longrightarrow> j \<noteq> p \<Longrightarrow> cr_supersedes_id s \<noteq> Some p"
    and "r \<in> shown (default_options (am_read_time am)) M" "delete_by_external_id L S J c am x b = (Ok found, b')"
  shows "found \<and> (case get_by_external_id L S J now x b' of Ok seen \<Rightarrow> seen = Some q | Err e \<Rightarrow> is_fault e)"
proof -
  note del = context_laws.delete_Ok [OF assms(1,2) assms(4) [unfolded ambient_ok_def] disjI2 [OF conjI [OF assms(14) refl]]]
  have found: found using del assms(6,13) by (auto split: if_splits)
  then obtain s where s: "s \<in> shown (default_options (am_read_time am)) M" "cr_external_id s = Some x"
    "holds_map V J c b' (M(cr_id s \<mapsto> stored_record (tombstone_for (am_write_time am) s)))"
    using del by auto
  note ids = context_laws.holds_by_id [OF assms(1,2)]
  have "s = r" by (rule shown_unique [OF assms(3) ids s(1) assms(13) s(2) assms(6)])
  have k: "cr_id r = k" using ids assms(5) by (simp add: by_id_def)
  define t where "t = stored_record (tombstone_for (am_write_time am) r)"
  have h: "holds_map V J c b' (M(k \<mapsto> t))" using s(3) \<open>s = r\<close> k by (simp add: t_def)
  have chained: "chained (M(k \<mapsto> t))"
    using context_laws.chained_delete [OF assms(1-3,13)] k by (simp add: t_def)
  have t: "cr_supersedes_id t = None" by (simp add: t_def tombstone_for_def)
  have p: "cr_id q = p" using ids assms(9) by (simp add: by_id_def)
  have "cr_id q \<notin> superseded_in (M(k \<mapsto> t))"
  proof
    assume "cr_id q \<in> superseded_in (M(k \<mapsto> t))"
    then obtain j s where s: "(M(k \<mapsto> t)) j = Some s" "cr_supersedes_id s = Some p" "p \<noteq> cr_id s"
      unfolding p superseded_in_def ran_def by blast
    then have "j \<noteq> k" "M j = Some s" using t by (auto split: if_splits)
    moreover from this have "cr_id s = j" using ids by (simp add: by_id_def)
    ultimately show False using assms(12) s(2,3) by blast
  qed
  moreover have "q \<in> ran (M(k \<mapsto> t))" using assms(8,9) by (auto simp: ran_def)
  ultimately have "q \<in> shown (default_options now) (M(k \<mapsto> t))" using assms(11) by (simp add: shown_def)
  then show ?thesis using found context_laws.get_external_shown [OF assms(1) h chained _ assms(10)] by blast
qed

lemma replaced_store:
  defines "M \<equiv> [''a'' \<mapsto> sample_record ''a'' None, ''b'' \<mapsto> sample_record ''b'' (Some ''a'')]"
  shows "holds_map (table_latest c) record_codec c (reference_store c [sample_record ''a'' None, sample_record ''b'' (Some ''a'')]) M"
    "chained M" "sample_record ''b'' (Some ''a'') \<in> shown (default_options now) M"
proof -
  show "holds_map (table_latest c) record_codec c (reference_store c [sample_record ''a'' None, sample_record ''b'' (Some ''a'')]) M"
    using reference_holds [of c "[sample_record ''a'' None, sample_record ''b'' (Some ''a'')]"]
    by (simp add: write_map_def sample_storable sample_stored sample_text M_def)
  have "holders [''a'' \<mapsto> sample_record ''a'' None] ''x'' = {''a''}" by (auto simp: holders_def split: if_splits)
  then have "extends [''a'' \<mapsto> sample_record ''a'' None] (sample_record ''b'' (Some ''a''))"
    by (simp add: extends_def newest_def)
  from chained_extend [OF chained_one this] show "chained M" by (simp add: M_def del: fun_upd_apply)
  show "sample_record ''b'' (Some ''a'') \<in> shown (default_options now) M"
    using shown_update [of "sample_record ''b'' (Some ''a'')" "[''a'' \<mapsto> sample_record ''a'' None]" now]
    by (simp add: M_def superseded_in_def del: fun_upd_apply)
qed

theorem delete_uncovers_predecessor_witness:
  "\<exists>b'. delete_by_external_id table_lance tb_record_scan record_codec sample_config sample_ambient ''x''
     (reference_store sample_config [sample_record ''a'' None, sample_record ''b'' (Some ''a'')]) = (Ok True, b') \<and>
     get_by_external_id table_lance tb_record_scan record_codec 0 ''x'' b' = Ok (Some (sample_record ''a'' None))"
proof -
  let ?M = "[''a'' \<mapsto> sample_record ''a'' None, ''b'' \<mapsto> sample_record ''b'' (Some ''a'')]"
  note h = replaced_store(1) [of sample_config]
  have am: "ambient_ok record_codec sample_ambient" by (simp add: ambient_ok_def)
  obtain v b' where d: "delete_by_external_id table_lance tb_record_scan record_codec sample_config sample_ambient ''x''
      (reference_store sample_config [sample_record ''a'' None, sample_record ''b'' (Some ''a'')]) = (Ok v, b')"
    using settles_Ok [OF record_table.delete_settles(2) [OF h] delete_faultless(2) [OF h] TrueI] by blast
  have only: "cr_supersedes_id s \<noteq> Some ''a''" if "?M j = Some s" "j \<noteq> ''b''" "j \<noteq> ''a''" for j s
    using that by (simp split: if_splits)
  have ok: "v \<and> (case get_by_external_id table_lance tb_record_scan record_codec 0 ''x'' b' of
      Ok seen \<Rightarrow> seen = Some (sample_record ''a'' None) | Err e \<Rightarrow> is_fault e)"
    by (rule delete_uncovers_predecessor [OF record_table.context_laws_axioms h replaced_store(2) am, where k = "''b''" and p = "''a''"
        and r = "sample_record ''b'' (Some ''a'')"])
      (use only replaced_store(3) d in simp_all)
  note del = record_table.delete_Ok [OF h am [unfolded ambient_ok_def] disjI2 [OF conjI [OF d refl]]]
  obtain M' where h': "holds_map (table_latest sample_config) record_codec sample_config b' M'" using del ok by auto
  obtain rs where "list_records table_lance tb_record_scan record_codec 0 b' = Ok rs" using list_table_Ok [OF h'] by blast
  then show ?thesis using ok d by (auto simp: get_by_external_id_def)
qed

section \<open>Rows and filters\<close>

text \<open>
  C23. The row codec of the context store loses nothing but time below the microsecond: a batch of records
  that fits the store's configuration is accepted, and decoding its rows gives the records back in order.
\<close>

theorem context_rows_round_trip:
  assumes "codec_ok J" "list_all (storable J c) es" "batch_fits c es"
  shows "res_bind (records_to_batch J c (context_schema c) es) (batch_to_records J) = Ok (map stored_record es)"
  using assms append_entries_fits [of c es]
  by (simp add: records_to_batch_eq batch_to_records_def check_columns_ok collect_res_map collect_res_map_Ok
      row_to_record_row list_all_iff)

theorem context_rows_round_trip_witness:
  "res_bind (records_to_batch record_codec sample_config (context_schema sample_config) [sample_record ''a'' None])
     (batch_to_records record_codec) = Ok [sample_record ''a'' None]"
  using context_rows_round_trip [OF record_codec_ok, of sample_config "[sample_record ''a'' None]"]
  by (simp add: sample_storable sample_text sample_stored batch_fits_def embedding_ok_def)

text \<open>
  C24. JSON filters mean what their keys say. A filter object that is accepted and names each field at most
  once (two spellings of the same bound of the creation time count as one field, also inside a
  \<open>created_at\<close> range object) matches exactly the records that meet the condition of every key: equality of the
  typed fields with \<open>null\<close> for no condition, the tenant and source falling back to the metadata, inclusive
  bounds of the creation time given as keys or as a range object, and equality or containment for every other key.
\<close>

theorem json_filters_mean_their_keys:
  assumes "from_json_value rfc3339 (JObject obj) = Ok f" "distinct (filter_slots obj)"
  shows "filters_match f r \<longleftrightarrow> list_all (filter_condition rfc3339 r) obj"
proof -
  have "fold_res (add_filter rfc3339) empty_filters obj = Ok f" using assms(1) by (simp add: from_json_value_def)
  from add_all_filters [OF this assms(2), of r] show ?thesis
    by (simp add: empty_filters_def filters_match_def matches_typed_or_metadata_def slot_free_def)
qed

definition sample_filters :: "(string \<times> nat json) list" where
  "sample_filters = [(''created_at'', JObject [(''gte'', JString ''t''), (''lte'', JString ''u'')]), (''k'', JNumber 1),
     (''role'', JString ''user''), (''tenant'', JNull)]"

theorem json_filters_mean_their_keys_witness:
  "\<exists>f. from_json_value (\<lambda>_. Ok 5) (JObject sample_filters) = Ok f \<and>
     (filters_match f (sample_record ''a'' None) \<longleftrightarrow> list_all (filter_condition (\<lambda>_. Ok 5) (sample_record ''a'' None)) sample_filters)"
proof -
  obtain f where f: "from_json_value (\<lambda>_. Ok 5) (JObject sample_filters) = Ok f"
    by (simp add: from_json_value_def sample_filters_def add_filter_def filter_string_def parse_filter_datetime_def res_map_err_def
        apply_created_at_filter_def created_at_bound_def)
  have "filters_match f (sample_record ''a'' None) \<longleftrightarrow> list_all (filter_condition (\<lambda>_. Ok 5) (sample_record ''a'' None)) sample_filters"
    by (rule json_filters_mean_their_keys [OF f])
      (simp add: sample_filters_def filter_slots_def filter_parts_def bound_key_def start_ops_def filter_slot_def start_keys_def end_keys_def)
  with f show ?thesis by blast
qed

end
