(* ===== verification/Context_Rank.thy ===== *)
theory Context_Rank
  imports Context_Search Context_Properties
begin

text \<open>
  What search and retrieval return: the nearest records by distance, and a fusion whose result does not
  depend on the order in which the scan delivered the records.
\<close>

section \<open>Sorting by a comparison\<close>

fun reverse_ordering :: "ordering \<Rightarrow> ordering" where
  "reverse_ordering Less = Greater"
| "reverse_ordering Equal = Equal"
| "reverse_ordering Greater = Less"

definition preorder_cmp :: "('a \<Rightarrow> 'a \<Rightarrow> ordering) \<Rightarrow> bool" where
  "preorder_cmp c \<longleftrightarrow> (\<forall>x y. c y x = reverse_ordering (c x y)) \<and>
     (\<forall>x y z. c x y \<noteq> Greater \<longrightarrow> c y z \<noteq> Greater \<longrightarrow> c x z \<noteq> Greater)"

lemma preorder_key: "preorder_cmp (\<lambda>x y. cmp (f x) (f y))" "preorder_cmp (\<lambda>x y. cmp (f y) (f x))"
  by (auto simp: preorder_cmp_def cmp_def)

lemma preorder_then:
  assumes "preorder_cmp c" "preorder_cmp d"
  shows "preorder_cmp (\<lambda>x y. then_with (c x y) (d x y))"
proof -
  have then_le: "then_with o1 o2 \<noteq> Greater \<longleftrightarrow> o1 = Less \<or> o1 = Equal \<and> o2 \<noteq> Greater" for o1 o2 by (cases o1) auto
  have rev: "then_with (reverse_ordering o1) (reverse_ordering o2) = reverse_ordering (then_with o1 o2)" for o1 o2
    by (cases o1) auto
  have swap: "c y x = reverse_ordering (c x y)" "d y x = reverse_ordering (d x y)" for x y
    using assms unfolding preorder_cmp_def by blast+
  have trans: "c x y \<noteq> Greater \<Longrightarrow> c y z \<noteq> Greater \<Longrightarrow> c x z \<noteq> Greater" "d x y \<noteq> Greater \<Longrightarrow> d y z \<noteq> Greater \<Longrightarrow> d x z \<noteq> Greater" for x y z
    using assms unfolding preorder_cmp_def by blast+
  have less: "c x z = Less" if "c x y \<noteq> Greater" "c y z \<noteq> Greater" "c x y = Less \<or> c y z = Less" for x y z
  proof (rule ccontr)
    assume "c x z \<noteq> Less"
    then have "c z x \<noteq> Greater" using swap(1) [of z x] trans(1) [OF that(1,2)] by (cases "c x z") auto
    then have "c z y \<noteq> Greater" "c y x \<noteq> Greater" using trans(1) that(1,2) by blast+
    then show False using that(3) swap(1) [of z y] swap(1) [of y x] by (metis ordering.distinct(5) reverse_ordering.simps(1) swap(1))
  qed
  have "then_with (c x z) (d x z) \<noteq> Greater"
    if "then_with (c x y) (d x y) \<noteq> Greater" "then_with (c y z) (d y z) \<noteq> Greater" for x y z
  proof (cases "c x y = Less \<or> c y z = Less")
    case True
    then show ?thesis using less [of x y z] that unfolding then_le by auto
  next
    case False
    then have eq: "c x y = Equal" "c y z = Equal" "d x y \<noteq> Greater" "d y z \<noteq> Greater" using that unfolding then_le by auto
    then have "c x z \<noteq> Greater" "d x z \<noteq> Greater" using trans [of x y z] by auto
    then show ?thesis unfolding then_le by (cases "c x z") auto
  qed
  then show ?thesis unfolding preorder_cmp_def by (metis rev swap)
qed

lemma mset_sort_by [simp]: "mset (sort_by c xs) = mset xs"
proof -
  have "mset (insert_by c x ys) = add_mset x (mset ys)" for x ys by (induction ys) auto
  then show ?thesis by (induction xs) (simp_all add: sort_by_def)
qed

lemma set_sort_by [simp]: "set (sort_by c xs) = set xs"
  by (metis mset_sort_by set_mset_mset)

lemma sorted_sort_by:
  assumes "preorder_cmp c"
  shows "sorted_wrt (\<lambda>x y. c x y \<noteq> Greater) (sort_by c xs)"
proof -
  have trans: "c x y \<noteq> Greater \<Longrightarrow> c y z \<noteq> Greater \<Longrightarrow> c x z \<noteq> Greater" for x y z
    using assms unfolding preorder_cmp_def by blast
  have swap: "c x y = Greater \<Longrightarrow> c y x \<noteq> Greater" for x y
    using assms unfolding preorder_cmp_def by (metis reverse_ordering.simps(3) ordering.distinct(3))
  have set: "set (insert_by c x ys) = insert x (set ys)" for x ys by (induction ys) auto
  have "sorted_wrt (\<lambda>x y. c x y \<noteq> Greater) ys \<Longrightarrow> sorted_wrt (\<lambda>x y. c x y \<noteq> Greater) (insert_by c x ys)" for x ys
  proof (induction ys)
    case (Cons y ys)
    then show ?case using swap [of x y] trans [of x y] by (auto simp: set)
  qed simp
  then show ?thesis by (induction xs) (simp_all add: sort_by_def)
qed

lemma sorted_unique:
  assumes "mset xs = mset ys" "sorted_wrt R xs" "sorted_wrt R ys"
    "\<And>x y. x \<in> set xs \<Longrightarrow> y \<in> set xs \<Longrightarrow> R x y \<Longrightarrow> R y x \<Longrightarrow> x = y"
  shows "xs = ys"
  using assms
proof (induction xs arbitrary: ys)
  case (Cons x xs)
  then obtain y zs where ys: "ys = y # zs" by (cases ys) auto
  have sets: "set (x # xs) = set (y # zs)" using Cons.prems(1) ys by (metis set_mset_mset)
  have "x = y"
  proof (rule ccontr)
    assume "x \<noteq> y"
    then have "x \<in> set zs" "y \<in> set xs" using sets by auto
    then have "R x y" "R y x" using Cons.prems(2,3) ys by auto
    then show False using Cons.prems(4) [of x y] \<open>x \<noteq> y\<close> \<open>y \<in> set xs\<close> by simp
  qed
  moreover have "xs = zs"
    by (rule Cons.IH) (use Cons.prems ys \<open>x = y\<close> in auto)
  ultimately show ?case using ys by simp
qed simp

lemma sort_by_permuted:
  assumes "preorder_cmp c" "mset xs = mset ys" "\<And>x y. x \<in> set xs \<Longrightarrow> y \<in> set xs \<Longrightarrow> c x y = Equal \<Longrightarrow> x = y"
  shows "sort_by c xs = sort_by c ys"
proof (rule sorted_unique [where R = "\<lambda>x y. c x y \<noteq> Greater"])
  show "mset (sort_by c xs) = mset (sort_by c ys)" using assms(2) by simp
  show "x = y" if "x \<in> set (sort_by c xs)" "y \<in> set (sort_by c xs)" "c x y \<noteq> Greater" "c y x \<noteq> Greater" for x y
  proof (rule assms(3))
    have "c y x = reverse_ordering (c x y)" using assms(1) unfolding preorder_cmp_def by blast
    then show "c x y = Equal" using that(3,4) by (cases "c x y") auto
  qed (use that in auto)
qed (rule sorted_sort_by [OF assms(1)])+

section \<open>Search\<close>

definition search_hit :: "distance_metric \<Rightarrow> f32 list \<Rightarrow> 'n context_record \<Rightarrow> 'n search_result" where
  "search_hit metric query r = \<lparr>sr_record = r, sr_distance = distance metric query (the (cr_embedding r))\<rparr>"

definition top_count :: "nat option \<Rightarrow> nat" where
  "top_count limit = (case limit of Some n \<Rightarrow> n | None \<Rightarrow> DEFAULT_SEARCH_LIMIT)"

lemma search_hits:
  "concat (map (\<lambda>r. case cr_embedding r of None \<Rightarrow> []
     | Some v \<Rightarrow> [\<lparr>sr_record = (if rp_embedding default_projection then r else r\<lparr>cr_embedding := None\<rparr>),
                    sr_distance = distance metric query v\<rparr>]) rs) =
   map (search_hit metric query) (filter (\<lambda>r. cr_embedding r \<noteq> None) rs)"
  by (induction rs) (auto simp: search_hit_def default_projection_def)

lemma search_Ok:
  assumes "search_filtered_projected L S J c metric query limit filters opts default_projection b = Ok results"
  shows "top_count limit = 0 \<and> results = [] \<or>
    (\<exists>rs. list_filtered_projected L S J None None filters opts default_projection b = Ok rs \<and>
      results = take (top_count limit) (sort_by (\<lambda>l r. total_cmp (sr_distance l) (sr_distance r))
        (map (search_hit metric query) (filter (\<lambda>r. cr_embedding r \<noteq> None) rs))))"
proof -
  have proj: "default_projection\<lparr>rp_embedding := True\<rparr> = default_projection" by (simp add: default_projection_def)
  show ?thesis
    using assms unfolding search_filtered_projected_def proj search_hits top_count_def
    by (auto simp: Let_def split: if_splits)
qed

lemma sort_distance: "preorder_cmp (\<lambda>l r. total_cmp (sr_distance l) (sr_distance r))"
  unfolding total_cmp_def by (rule preorder_key)

text \<open>The \<open>k\<close> best of a list with distinct ids, by a key that the sort respects.\<close>

lemma nearest:
  assumes "distinct (map cr_id rs)"
    and "xs = take k (sort_by (\<lambda>l r. total_cmp (sr_distance l) (sr_distance r)) (map (search_hit metric query) rs))"
  shows "length xs = min k (card (set rs))" "distinct (map (\<lambda>x. cr_id (sr_record x)) xs)"
    "set xs \<subseteq> search_hit metric query ` set rs"
    "sorted_wrt (\<lambda>x y. total_key (sr_distance x) \<le> total_key (sr_distance y)) xs"
    "\<forall>x \<in> set xs. \<forall>r \<in> set rs. r \<notin> sr_record ` set xs \<longrightarrow> total_key (sr_distance x) \<le> total_key (sr_distance (search_hit metric query r))"
proof -
  define ys where "ys = sort_by (\<lambda>l r. total_cmp (sr_distance l) (sr_distance r)) (map (search_hit metric query) rs)"
  have xs: "xs = take k ys" by (simp add: assms(2) ys_def)
  have ms: "mset ys = image_mset (search_hit metric query) (mset rs)" by (simp add: ys_def)
  have "distinct rs" using assms(1) by (simp add: distinct_map)
  then show "length xs = min k (card (set rs))"
    using arg_cong [OF ms, of size] by (simp add: xs distinct_card min.commute)
  have "mset (map (\<lambda>x. cr_id (sr_record x)) ys) = mset (map cr_id rs)"
    unfolding mset_map ms by (simp add: image_mset.compositionality comp_def search_hit_def)
  then have "distinct (map (\<lambda>x. cr_id (sr_record x)) ys)" using assms(1) by (metis mset_eq_imp_distinct_iff)
  then show "distinct (map (\<lambda>x. cr_id (sr_record x)) xs)" unfolding xs take_map [symmetric] by (rule distinct_take)
  have set: "set ys = search_hit metric query ` set rs" by (simp add: ys_def)
  then show "set xs \<subseteq> search_hit metric query ` set rs" unfolding xs using set_take_subset [of k ys] by blast
  have sorted: "sorted_wrt (\<lambda>x y. total_key (sr_distance x) \<le> total_key (sr_distance y)) ys"
    using sorted_sort_by [OF sort_distance] unfolding ys_def
    by (rule sorted_wrt_mono_rel [rotated]) (auto simp: total_cmp_def cmp_def split: if_splits)
  then show "sorted_wrt (\<lambda>x y. total_key (sr_distance x) \<le> total_key (sr_distance y)) xs"
    unfolding xs by (rule sorted_wrt_take)
  have split: "total_key (sr_distance x) \<le> total_key (sr_distance y)" if "x \<in> set (take k ys)" "y \<in> set (drop k ys)" for x y
    using sorted that by (metis append_take_drop_id sorted_wrt_append)
  show "\<forall>x \<in> set xs. \<forall>r \<in> set rs. r \<notin> sr_record ` set xs \<longrightarrow> total_key (sr_distance x) \<le> total_key (sr_distance (search_hit metric query r))"
  proof (intro ballI impI)
    fix x r assume x: "x \<in> set xs" and r: "r \<in> set rs" "r \<notin> sr_record ` set xs"
    have "search_hit metric query r \<in> set ys" using set r(1) by blast
    moreover have "search_hit metric query r \<notin> set (take k ys)"
      using r(2) unfolding xs by (metis image_eqI search_hit_def search_result.select_convs(1))
    ultimately have "search_hit metric query r \<in> set (drop k ys)" by (metis Un_iff append_take_drop_id set_append)
    then show "total_key (sr_distance x) \<le> total_key (sr_distance (search_hit metric query r))" using split x unfolding xs by blast
  qed
qed

section \<open>Retrieval\<close>

definition retrieve_candidates ::
  "unicode \<Rightarrow> distance_metric \<Rightarrow> string list \<Rightarrow> f32 list option \<Rightarrow> 'n context_record list \<Rightarrow> (string, 'n retrieve_result) btree_map" where
  "retrieve_candidates U metric terms vector rs =
     (let m = (case vector of
        Some query \<Rightarrow> add_hits (\<lambda>rank (r, d) m. add_retrieve_channel m r rank ''vector'' (Some d) None) (vector_hits metric query rs) []
      | None \<Rightarrow> [])
      in if terms \<noteq> [] then add_hits (\<lambda>rank (r, x) m. add_retrieve_channel m r rank ''text'' None (Some x)) (text_hits U terms rs) m
         else m)"

lemma mset_concat_map: "mset xs = mset ys \<Longrightarrow> mset (concat (map f xs)) = mset (concat (map f ys))"
proof -
  have "mset (concat (map f zs)) = \<Sum>\<^sub># (image_mset (\<lambda>x. mset (f x)) (mset zs))" for zs by (induction zs) simp_all
  then show "mset xs = mset ys \<Longrightarrow> ?thesis" by simp
qed

lemma hits_permuted:
  assumes "mset rs = mset rs'" "distinct (map cr_id rs)"
  shows "vector_hits metric query rs = vector_hits metric query rs'" "text_hits U terms rs = text_hits U terms rs'"
proof -
  have inj: "r = r'" if "r \<in> set rs" "r' \<in> set rs" "cr_id r = cr_id r'" for r r'
    using assms(2) that by (simp add: distinct_map inj_on_def)
  have eq: "then_with (cmp a b) (cmp i j) = Equal \<longleftrightarrow> a = b \<and> i = j" for a b :: int and i j :: string
    by (auto simp: cmp_def)
  have ord: "preorder_cmp (\<lambda>l r. then_with (total_cmp (snd l) (snd r)) (cmp (cr_id (fst l)) (cr_id (fst r))))"
    "preorder_cmp (\<lambda>l r. then_with (total_cmp (snd r) (snd l)) (cmp (cr_id (fst l)) (cr_id (fst r))))"
    for l r :: "'a context_record \<times> f32" unfolding total_cmp_def by (intro preorder_then preorder_key)+
  show "vector_hits metric query rs = vector_hits metric query rs'"
    unfolding vector_hits_def
    by (rule sort_by_permuted [OF ord(1) mset_concat_map [OF assms(1)]])
      (auto simp: total_cmp_def eq total_key_inj split: option.splits dest: inj)
  show "text_hits U terms rs = text_hits U terms rs'"
    unfolding text_hits_def
    by (rule sort_by_permuted [OF ord(2) mset_concat_map [OF assms(1)]])
      (auto simp: total_cmp_def eq total_key_inj split: option.splits dest: inj)
qed

text \<open>Candidates have distinct ids, so the last tie-break of the returned order separates them.\<close>

definition candidates_ok :: "(string, 'n retrieve_result) btree_map \<Rightarrow> bool" where
  "candidates_ok m \<longleftrightarrow> bt_sorted m \<and> (\<forall>(k, x) \<in> set m. cr_id (rr_record x) = k)"

lemma bt_insert_entries: "set (bt_insert k v m) \<subseteq> insert (k, v) (set m)"
  by (induction k v m rule: bt_insert.induct) auto

lemma insert_candidate_ok:
  assumes "candidates_ok m" "cr_id (rr_record x) = k"
  shows "candidates_ok (bt_insert k x m)"
proof -
  have "bt_sorted (bt_insert k x m)" using assms(1) by (simp add: candidates_ok_def bt_sorted_insert)
  then show ?thesis using assms bt_insert_entries [of k x m] unfolding candidates_ok_def by fast
qed

lemma candidate_record:
  "rr_record (c\<lparr>rr_score := s\<rparr>) = rr_record c"
  "rr_record (case d of Some x \<Rightarrow> c\<lparr>rr_vector_distance := Some x\<rparr> | None \<Rightarrow> c) = rr_record c"
  "rr_record (case d of Some x \<Rightarrow> c\<lparr>rr_text_score := Some x\<rparr> | None \<Rightarrow> c) = rr_record c"
  "rr_record (if q then c else c\<lparr>rr_matched_channels := chs\<rparr>) = rr_record c"
  by (simp_all split: option.split)

lemma add_channel_ok:
  assumes "candidates_ok m"
  shows "candidates_ok (add_retrieve_channel m r rank channel d x)"
proof -
  have old: "cr_id (rr_record cand) = cr_id r" if "bt_get m (cr_id r) = Some cand" for cand
    using assms map_of_SomeD [OF that [unfolded bt_get_def]] by (fastforce simp: candidates_ok_def)
  have entry: "cr_id (rr_record (case bt_get m (cr_id r) of Some cand \<Rightarrow> cand | None \<Rightarrow> cand0)) = cr_id r"
    if "rr_record cand0 = r" for cand0 using old that by (simp split: option.split)
  have kept: "candidates_ok (Let c f)" if "cr_id (rr_record c) = cr_id r" "\<And>c. cr_id (rr_record c) = cr_id r \<Longrightarrow> candidates_ok (f c)" for c f
    using that by simp
  show ?thesis
    unfolding add_retrieve_channel_def
    by (rule kept, rule entry, simp only: retrieve_result.select_convs, (rule kept, simp only: candidate_record)+,
        erule insert_candidate_ok [OF assms])
qed

lemma add_hits_ok:
  assumes "candidates_ok m" "\<And>rank hit m. candidates_ok m \<Longrightarrow> candidates_ok (put_hit rank hit m)"
  shows "candidates_ok (add_hits put_hit hits m)"
proof -
  have "candidates_ok (fold (\<lambda>(rank, hit). put_hit (rank + 1) hit) rhs m)" for rhs
    using assms by (induction rhs arbitrary: m) auto
  then show ?thesis by (simp add: add_hits_def)
qed

lemma retrieve_candidates_ok: "candidates_ok (retrieve_candidates U metric terms vector rs)"
proof -
  have "candidates_ok []" by (simp add: candidates_ok_def bt_sorted_def)
  then show ?thesis
    by (auto simp: retrieve_candidates_def Let_def split: option.split intro!: add_hits_ok add_channel_ok)
qed

lemma candidates_separated:
  assumes "candidates_ok m" "x \<in> set (map snd m)" "y \<in> set (map snd m)" "cr_id (rr_record x) = cr_id (rr_record y)"
  shows "x = y"
proof -
  obtain k l where kl: "(k, x) \<in> set m" "(l, y) \<in> set m" using assms(2,3) by auto
  have "k = l" using assms(1,4) bspec [OF _ kl(1)] bspec [OF _ kl(2)] unfolding candidates_ok_def by blast
  moreover have "distinct (map fst m)" using assms(1) by (simp add: candidates_ok_def bt_sorted_def strict_sorted_iff)
  ultimately show ?thesis using kl by (blast dest: eq_key_imp_eq_value)
qed

lemma retrieve_order: "preorder_cmp compare_retrieve_results"
proof -
  have dist: "preorder_cmp (\<lambda>x y. compare_optional_distance (rr_vector_distance x) (rr_vector_distance y))"
    by (auto simp: preorder_cmp_def compare_optional_distance_def total_cmp_def cmp_def split: option.splits)
  have score: "preorder_cmp (\<lambda>x y. compare_optional_score (rr_text_score x) (rr_text_score y))"
    by (auto simp: preorder_cmp_def compare_optional_score_def total_cmp_def cmp_def split: option.splits)
  show ?thesis
    unfolding compare_retrieve_results_def total_cmp_def by (intro preorder_then preorder_key dist score)
qed

lemma retrieve_tie: "compare_retrieve_results x y = Equal \<Longrightarrow> cr_id (rr_record x) = cr_id (rr_record y)"
proof -
  have "then_with o1 o2 = Equal \<longleftrightarrow> o1 = Equal \<and> o2 = Equal" for o1 o2 by (cases o1) auto
  then show "compare_retrieve_results x y = Equal \<Longrightarrow> ?thesis" by (auto simp: compare_retrieve_results_def cmp_def split: if_splits)
qed

lemma delivered_order:
  assumes "candidates_ok m" "delivers_all H" "delivers_all H'"
  shows "sort_by compare_retrieve_results (H (map snd m)) = sort_by compare_retrieve_results (H' (map snd m))"
proof (rule sort_by_permuted [OF retrieve_order])
  show "mset (H (map snd m)) = mset (H' (map snd m))" using assms(2,3) by (simp add: delivers_all_def)
  have "set (H (map snd m)) = set (map snd m)" using assms(2) unfolding delivers_all_def by (metis set_mset_mset)
  then show "x = y" if "x \<in> set (H (map snd m))" "y \<in> set (H (map snd m))" "compare_retrieve_results x y = Equal" for x y
    using candidates_separated [OF assms(1)] retrieve_tie [OF that(3)] that(1,2) by simp
qed

lemma retrieve_Ok:
  assumes "retrieve_filtered_with_options L S J U H c metric text vector limit filters opts b = Ok results"
  obtains "top_count limit = 0" "results = []"
  | rs where "top_count limit \<noteq> 0" "list_filtered_projected L S J None None filters opts default_projection b = Ok rs"
      "results = take (top_count limit) (sort_by compare_retrieve_results (H (map snd (retrieve_candidates U metric
         (case text of Some t \<Rightarrow> unique_query_terms U t | None \<Rightarrow> []) vector rs))))"
proof -
  have cand: "(if terms \<noteq> [] then add_hits (\<lambda>rank (r, x) m. add_retrieve_channel m r rank ''text'' None (Some x)) (text_hits U terms rs)
        (case vector of Some query \<Rightarrow> add_hits (\<lambda>rank (r, d) m. add_retrieve_channel m r rank ''vector'' (Some d) None)
             (vector_hits metric query rs) [] | None \<Rightarrow> [])
      else case vector of Some query \<Rightarrow> add_hits (\<lambda>rank (r, d) m. add_retrieve_channel m r rank ''vector'' (Some d) None)
             (vector_hits metric query rs) [] | None \<Rightarrow> []) = retrieve_candidates U metric terms vector rs" for terms rs
    by (simp add: retrieve_candidates_def)
  show ?thesis
    using assms that unfolding retrieve_filtered_with_options_def Let_def cand top_count_def
    by (auto split: if_splits)
qed

section \<open>Claims\<close>

text \<open>
  C25. Search returns the nearest records. Of the records that are visible, match the filters and have an
  embedding, a vector search returns as many as the limit allows, each once and with its distance under
  the configured metric, nearest first; and no record it leaves out is nearer, in the total order of
  floats, than one it returns.
\<close>

theorem search_returns_nearest:
  assumes "context_laws L S c V J" "holds_map V J c b M"
    and "search_filtered_projected L S J c metric query limit filters opts default_projection b = Ok results"
    and "candidates = {r \<in> shown opts M. (\<forall>f. filters = Some f \<longrightarrow> filters_is_empty f \<or> filters_match f r) \<and> cr_embedding r \<noteq> None}"
  shows "length results = min (top_count limit) (card candidates) \<and>
    distinct (map (\<lambda>x. cr_id (sr_record x)) results) \<and>
    set results \<subseteq> search_hit metric query ` candidates \<and>
    sorted_wrt (\<lambda>x y. total_key (sr_distance x) \<le> total_key (sr_distance y)) results \<and>
    (\<forall>x \<in> set results. \<forall>r \<in> candidates. r \<notin> sr_record ` set results \<longrightarrow>
      total_key (sr_distance x) \<le> total_key (sr_distance (search_hit metric query r)))"
  using search_Ok [OF assms(3)]
proof (elim disjE exE conjE)
  fix rs assume rs: "list_filtered_projected L S J None None filters opts default_projection b = Ok rs"
    and res: "results = take (top_count limit) (sort_by (\<lambda>l r. total_cmp (sr_distance l) (sr_distance r))
      (map (search_hit metric query) (filter (\<lambda>r. cr_embedding r \<noteq> None) rs)))"
  have list: "distinct (map cr_id rs)" "set rs = {r \<in> shown opts M. \<forall>f. filters = Some f \<longrightarrow> filters_is_empty f \<or> filters_match f r}"
    using context_laws.list_shown [OF assms(1,2) rs] by blast+
  have "distinct (map cr_id (filter (\<lambda>r. cr_embedding r \<noteq> None) rs))" using list(1) by (simp add: distinct_map_filter)
  note near = nearest [OF this res]
  have "set (filter (\<lambda>r. cr_embedding r \<noteq> None) rs) = candidates" unfolding assms(4) using list(2) by auto
  then show ?thesis using near by simp
qed simp

definition vector_record :: "string \<Rightarrow> nat context_record" where
  "vector_record i = (sample_record i None)\<lparr>cr_external_id := None, cr_embedding := Some [0, 0]\<rparr>"

lemma vector_record_fields [simp]:
  "cr_id (vector_record i) = i" "cr_supersedes_id (vector_record i) = None" "cr_embedding (vector_record i) = Some [0, 0]"
  "is_visible (default_options now) (vector_record i)"
  by (simp_all add: vector_record_def sample_record_def is_visible_def is_tombstone_def CONTENT_TYPE_TOMBSTONE_def
      is_expired_at_def is_hidden_by_lifecycle_def LIFECYCLE_ACTIVE_def)

lemma vector_store:
  "holds_map (table_latest c) record_codec c (reference_store c [vector_record ''a'', vector_record ''b''])
     [''a'' \<mapsto> vector_record ''a'', ''b'' \<mapsto> vector_record ''b'']"
  "holds_map (table_latest c) record_codec c (reference_store c [vector_record ''b'', vector_record ''a''])
     [''a'' \<mapsto> vector_record ''a'', ''b'' \<mapsto> vector_record ''b'']"
proof -
  have st: "storable record_codec c (vector_record ''a'')" "storable record_codec c (vector_record ''b'')"
    using sample_storable [OF sample_text(1), of c None] sample_storable [OF sample_text(2), of c None]
    by (simp_all add: storable_def vector_record_def)
  have same: "stored_record (vector_record i) = vector_record i" for i
    using sample_stored [of i None] by (simp add: stored_record_def vector_record_def sample_record_def)
  have twist: "[''b'' \<mapsto> vector_record ''b'', ''a'' \<mapsto> vector_record ''a''] = [''a'' \<mapsto> vector_record ''a'', ''b'' \<mapsto> vector_record ''b'']"
    by (rule fun_upd_twist) simp
  show "holds_map (table_latest c) record_codec c (reference_store c [vector_record ''a'', vector_record ''b''])
      [''a'' \<mapsto> vector_record ''a'', ''b'' \<mapsto> vector_record ''b'']"
    using reference_holds [of c "[vector_record ''a'', vector_record ''b'']"] st
    by (simp add: write_map_def same del: fun_upd_apply)
  show "holds_map (table_latest c) record_codec c (reference_store c [vector_record ''b'', vector_record ''a''])
      [''a'' \<mapsto> vector_record ''a'', ''b'' \<mapsto> vector_record ''b'']"
    using reference_holds [of c "[vector_record ''b'', vector_record ''a'']"] st
    by (simp add: write_map_def same twist del: fun_upd_apply)
qed

lemma list_filtered_table_Ok:
  assumes "holds_map (table_latest c) record_codec c b M"
  shows "\<exists>rs. list_filtered_projected table_lance tb_record_scan record_codec None None filters opts default_projection b = Ok rs"
proof -
  obtain bs where bs: "scan_batches tb_record_scan None None b = Ok bs" using table_scan_Ok(1) by blast
  obtain rss where "collect_res (batch_to_records record_codec) bs = Ok rss"
    using record_table.scan_all_records [OF assms bs] by blast
  then show ?thesis
    using bs by (simp add: list_filtered_projected_def lsm_scanner_projected_def loads_all_def default_projection_def Let_def)
qed

theorem search_returns_nearest_witness:
  "\<exists>results. search_filtered_projected table_lance tb_record_scan record_codec sample_config MetricL2 [0, 0] (Some 5) None
     (default_options 0) default_projection (reference_store sample_config [vector_record ''a'', vector_record ''b'']) = Ok results \<and>
     length results = 2"
proof -
  let ?b = "reference_store sample_config [vector_record ''a'', vector_record ''b'']"
  note h = vector_store(1) [of sample_config]
  have proj: "default_projection\<lparr>rp_embedding := True\<rparr> = default_projection" by (simp add: default_projection_def)
  obtain rs where "list_filtered_projected table_lance tb_record_scan record_codec None None None (default_options 0) default_projection ?b = Ok rs"
    using list_filtered_table_Ok [OF h] by blast
  then obtain results where r: "search_filtered_projected table_lance tb_record_scan record_codec sample_config MetricL2 [0, 0] (Some 5) None
     (default_options 0) default_projection ?b = Ok results"
    by (simp add: search_filtered_projected_def proj validate_query_dimension_def guard_ok_def sample_config_def Let_def)
  let ?M = "[''a'' \<mapsto> vector_record ''a'', ''b'' \<mapsto> vector_record ''b'']"
  have ran: "ran ?M = {vector_record ''a'', vector_record ''b''}" by (simp add: ran_map_upd insert_commute)
  have two: "vector_record ''a'' \<noteq> vector_record ''b''"
  proof
    assume "vector_record ''a'' = vector_record ''b''"
    from arg_cong [OF this, of cr_id] show False by simp
  qed
  have "shown (default_options 0) ?M = {vector_record ''a'', vector_record ''b''}"
    unfolding shown_def superseded_in_def ran by auto
  then have "{r \<in> shown (default_options 0) ?M. (\<forall>f. None = Some f \<longrightarrow> filters_is_empty f \<or> filters_match f r) \<and> cr_embedding r \<noteq> None} =
      {vector_record ''a'', vector_record ''b''}" by auto
  note near = search_returns_nearest [OF record_table.context_laws_axioms h r this [symmetric]]
  show ?thesis using r near two by (simp add: top_count_def)
qed

text \<open>
  C26. Hybrid retrieval depends on the records only. Two stores of the same configuration that hold the same
  records, whatever their tables look like, in whatever order their scans deliver the rows and in whatever
  order their hash maps deliver the candidates, return the same results in the same order, ties included:
  the ranks of both channels, the fused scores, and the order they are returned in.
\<close>

theorem retrieve_depends_on_records:
  assumes "context_laws L S c V J" "context_laws L' S' c V' J" "holds_map V J c b M" "holds_map V' J c b' M"
    and "retrieve_filtered_with_options L S J U H c metric text vector limit filters opts b = Ok xs"
    and "retrieve_filtered_with_options L' S' J U H' c metric text vector limit filters opts b' = Ok ys"
    and "delivers_all H" "delivers_all H'"
  shows "xs = ys"
proof (rule retrieve_Ok [OF assms(5)])
  assume "top_count limit = 0" "xs = []"
  then show ?thesis by (auto intro: retrieve_Ok [OF assms(6)])
next
  let ?terms = "case text of Some t \<Rightarrow> unique_query_terms U t | None \<Rightarrow> []"
  fix rs assume k: "top_count limit \<noteq> 0" and rs: "list_filtered_projected L S J None None filters opts default_projection b = Ok rs"
    and xs: "xs = take (top_count limit) (sort_by compare_retrieve_results (H (map snd (retrieve_candidates U metric ?terms vector rs))))"
  show ?thesis
  proof (rule retrieve_Ok [OF assms(6)])
    fix rs' assume rs': "list_filtered_projected L' S' J None None filters opts default_projection b' = Ok rs'"
      and ys: "ys = take (top_count limit) (sort_by compare_retrieve_results (H' (map snd (retrieve_candidates U metric ?terms vector rs'))))"
    have l: "distinct (map cr_id rs)" "set rs = set rs'" "distinct (map cr_id rs')"
      using context_laws.list_shown [OF assms(1,3) rs] context_laws.list_shown [OF assms(2,4) rs'] by simp_all
    then have "mset rs = mset rs'" by (simp add: distinct_map set_eq_iff_mset_eq_distinct)
    then have "retrieve_candidates U metric ?terms vector rs = retrieve_candidates U metric ?terms vector rs'"
      using hits_permuted [OF _ l(1)] by (simp add: retrieve_candidates_def cong: option.case_cong if_cong)
    then show ?thesis using delivered_order [OF retrieve_candidates_ok assms(7,8)] by (simp add: xs ys)
  qed (use k in simp)
qed

theorem retrieve_depends_on_records_witness:
  "\<exists>xs. retrieve_filtered_with_options table_lance tb_record_scan record_codec (map (\<lambda>ch. (True, [ch]))) id sample_config MetricL2 (Some ''a'')
     (Some [0, 0]) None None (default_options 0) (reference_store sample_config [vector_record ''a'', vector_record ''b'']) = Ok xs \<and>
   retrieve_filtered_with_options table_lance tb_record_scan record_codec (map (\<lambda>ch. (True, [ch]))) rev sample_config MetricL2 (Some ''a'')
     (Some [0, 0]) None None (default_options 0) (reference_store sample_config [vector_record ''b'', vector_record ''a'']) = Ok xs"
proof -
  let ?r = "\<lambda>H. retrieve_filtered_with_options table_lance tb_record_scan record_codec (map (\<lambda>ch. (True, [ch]))) H sample_config MetricL2 (Some ''a'')
     (Some [0, 0]) None None (default_options 0)"
  have ok: "\<exists>xs. ?r H b = Ok xs" if "holds_map (table_latest sample_config) record_codec sample_config b M" for H b M
    using list_filtered_table_Ok [OF that, of None "default_options 0"]
    by (auto simp: retrieve_filtered_with_options_def Let_def validate_query_dimension_def guard_ok_def sample_config_def
        DEFAULT_SEARCH_LIMIT_def)
  obtain xs ys where xy: "?r id (reference_store sample_config [vector_record ''a'', vector_record ''b'']) = Ok xs"
    "?r rev (reference_store sample_config [vector_record ''b'', vector_record ''a'']) = Ok ys"
    using ok [OF vector_store(1)] ok [OF vector_store(2)] by blast
  have orders: "delivers_all id" "delivers_all rev" by (simp_all add: delivers_all_def)
  have "xs = ys"
    by (rule retrieve_depends_on_records [OF record_table.context_laws_axioms record_table.context_laws_axioms vector_store xy orders])
  then show ?thesis using xy by blast
qed

end
