(* ===== verification/Export.thy ===== *)
theory Export
  imports Context_Rank
begin

text \<open>
  Training-set export, \<open>crates/lance-context-core/src/export.rs\<close>: curation, grouping, the example shapes, the
  train/eval split, statistics, and the files an export writes.

  Parameters: \<open>P\<close> reads JSON numbers (\<open>json_ops\<close>), \<open>W\<close> says of each character of a text whether it is white space,
  \<open>Q\<close> is the serialiser of the lines, the manifest and the statistics, and \<open>F\<close> the file system.
\<close>

section \<open>Configuration\<close>

datatype export_task = Sft | Preference | Rollout
datatype preference_form = FormPaired | FormUnpaired | FormRanked
datatype group_by = GroupNone | SessionId | RunId | Tenant | Source | BotId | ExternalIdPrefix string

fun task_as_str :: "export_task \<Rightarrow> string" where
  "task_as_str Sft = ''sft''"
| "task_as_str Preference = ''preference''"
| "task_as_str Rollout = ''rollout''"

fun form_as_str :: "preference_form \<Rightarrow> string" where
  "form_as_str FormPaired = ''paired''"
| "form_as_str FormUnpaired = ''unpaired''"
| "form_as_str FormRanked = ''ranked''"

fun group_label :: "group_by \<Rightarrow> string" where
  "group_label GroupNone = ''none''"
| "group_label SessionId = ''session_id''"
| "group_label RunId = ''run_id''"
| "group_label Tenant = ''tenant''"
| "group_label Source = ''source''"
| "group_label BotId = ''bot_id''"
| "group_label (ExternalIdPrefix delim) = ''external_id_prefix:'' @ delim"

text \<open>What stands before the first occurrence of a pattern, \<open>str::split_once\<close> with a string.\<close>

fun before_pattern :: "string \<Rightarrow> string \<Rightarrow> string option" where
  "before_pattern delim s =
     (if take (length delim) s = delim then Some []
      else (case s of [] \<Rightarrow> None | x # xs \<Rightarrow> map_option (\<lambda>p. x # p) (before_pattern delim xs)))"

declare before_pattern.simps [simp del]

definition external_id_prefix :: "string \<Rightarrow> string \<Rightarrow> string" where
  "external_id_prefix delim external_id = (case before_pattern delim external_id of Some p \<Rightarrow> p | None \<Rightarrow> external_id)"

definition group_key :: "group_by \<Rightarrow> 'n context_record \<Rightarrow> string" where
  "group_key g r =
     (let value = (case g of
            GroupNone \<Rightarrow> None
          | SessionId \<Rightarrow> cr_session_id r
          | RunId \<Rightarrow> Some (cr_run_id r)
          | Tenant \<Rightarrow> cr_tenant r
          | Source \<Rightarrow> cr_source r
          | BotId \<Rightarrow> cr_bot_id r
          | ExternalIdPrefix delim \<Rightarrow> map_option (external_id_prefix delim) (cr_external_id r))
      in case value of Some k \<Rightarrow> k | None \<Rightarrow> ''__rec__'' @ cr_id r)"

record split_config =
  sc_eval_fraction :: f64
  sc_by :: group_by
  sc_seed :: "64 word"

record 'n export_config =
  ec_task :: export_task
  ec_group_by :: group_by
  ec_preference_form :: preference_form
  ec_filters :: "'n record_filters option"
  ec_lifecycle :: lifecycle_query_options
  ec_dedup_threshold :: "f32 option"
  ec_decontaminate_against :: "f32 list list"
  ec_decontaminate_threshold :: "f32 option"
  ec_min_reward :: "f64 option"
  ec_version :: "nat option"
  ec_filters_summary :: "'n json option"
  ec_split :: "split_config option"
  ec_emit_stats :: bool

section \<open>Examples, manifests and statistics\<close>

record message =
  ms_role :: string
  ms_content :: string

record provenance =
  pv_context_uri :: string
  pv_version :: nat
  pv_record_ids :: "string list"
  pv_external_ids :: "string list"
  pv_tenant :: "string option"
  pv_source :: "string option"
  pv_bot_id :: "string option"
  pv_session_id :: "string option"
  pv_run_id :: "string option"
  pv_created_at_start :: int
  pv_created_at_end :: int

record sft_example =
  sf_messages :: "message list"
  sf_reward :: "f64 option"
  sf_provenance :: provenance

record ranked_candidate =
  rk_messages :: "message list"
  rk_rank :: int
  rk_reward :: "f64 option"

datatype preference_example =
    Paired (pe_prompt: "message list") (pe_chosen: "message list") (pe_rejected: "message list") (pe_provenance: provenance)
  | Unpaired (pe_prompt: "message list") (pe_completion: "message list") (pe_label: bool) (pe_provenance: provenance)
  | Ranked (pe_prompt: "message list") (pe_candidates: "ranked_candidate list") (pe_provenance: provenance)

record rollout_response =
  rp_messages :: "message list"
  rp_reward :: "f64 option"
  rp_reward_source :: "string option"

record rollout_example =
  rx_prompt :: "message list"
  rx_responses :: "rollout_response list"
  rx_group_id :: "string option"
  rx_provenance :: provenance

datatype export_line = SftLine sft_example | PreferenceLine preference_example | RolloutLine rollout_example

record export_counts =
  ct_input_records :: nat
  ct_after_lifecycle :: nat
  ct_after_dedup :: nat
  ct_after_decontaminate :: nat
  ct_after_reward_filter :: nat
  ct_examples :: nat

record split_manifest =
  sp_side :: string
  sp_eval_fraction :: f64
  sp_by :: string
  sp_seed :: "64 word"
  sp_complement_path :: string

definition EXPORT_SCHEMA_VERSION :: string where "EXPORT_SCHEMA_VERSION = ''1''"

record 'n export_manifest =
  em_context_uri :: string
  em_version :: nat
  em_task :: string
  em_group_by :: string
  em_schema_version :: string
  em_preference_form :: "string option"
  em_filters :: "'n json option"
  em_dedup_threshold :: "f32 option"
  em_decontaminate_threshold :: "f32 option"
  em_min_reward :: "f64 option"
  em_split :: "split_manifest option"
  em_created_at_start :: "int option"
  em_created_at_end :: "int option"
  em_source_record_ids :: "string list"
  em_counts :: export_counts

record distribution =
  ds_count :: nat
  ds_min :: f64
  ds_median :: f64
  ds_p95 :: f64
  ds_max :: f64
  ds_mean :: f64

definition default_distribution :: distribution where
  "default_distribution = \<lparr>ds_count = 0, ds_min = f64_zero 0, ds_median = f64_zero 0, ds_p95 = f64_zero 0, ds_max = f64_zero 0,
     ds_mean = f64_zero 0\<rparr>"

text \<open>\<open>0.5\<close> and \<open>0.95\<close> as \<open>f64\<close> literals.\<close>

definition f64_half :: f64 where "f64_half = f64_round 0 1 2"
definition f64_p95 :: f64 where "f64_p95 = f64_round 0 95 100"

definition percentile_index :: "f64 \<Rightarrow> nat \<Rightarrow> nat" where
  "percentile_index p n = min (f64_round_usize (f64_mul p (f64_of_nat (n - 1)))) (n - 1)"

definition from_sorted :: "f64 list \<Rightarrow> distribution option" where
  "from_sorted values =
     (if values = [] then None
      else (let values = sort_by (\<lambda>a b. cmp (total_key64 a) (total_key64 b)) values; n = length values in
        Some \<lparr>ds_count = n, ds_min = values ! 0, ds_median = values ! percentile_index f64_half n,
          ds_p95 = values ! percentile_index f64_p95 n, ds_max = values ! (n - 1),
          ds_mean = f64_div (f64_sum values) (f64_of_nat n)\<rparr>))"

record token_stats =
  tk_distribution :: distribution
  tk_source :: string

record excluded_counts =
  ex_lifecycle :: nat
  ex_reward_threshold :: nat
  ex_dedup :: nat
  ex_decontaminate :: nat

record export_stats =
  es_task :: string
  es_examples :: nat
  es_num_groups :: nat
  es_by_role :: "(string, nat) btree_map"
  es_by_source :: "(string, nat) btree_map"
  es_by_tenant :: "(string, nat) btree_map"
  es_records_per_group :: distribution
  es_tokens :: "token_stats option"
  es_excluded :: excluded_counts
  es_preference_form :: "string option"
  es_reward :: "distribution option"
  es_reward_sources :: "(string, nat) btree_map"

section \<open>Metadata\<close>

definition value_as_f64 :: "'n json_ops \<Rightarrow> 'n json \<Rightarrow> f64 option" where
  "value_as_f64 P v = (case v of JNumber n \<Rightarrow> number_as_f64 P n | _ \<Rightarrow> None)"

definition value_as_i64 :: "'n json_ops \<Rightarrow> 'n json \<Rightarrow> int option" where
  "value_as_i64 P v = (case v of JNumber n \<Rightarrow> number_as_i64 P n | _ \<Rightarrow> None)"

definition value_as_str :: "'n json \<Rightarrow> string option" where
  "value_as_str v = (case v of JString s \<Rightarrow> Some s | _ \<Rightarrow> None)"

definition record_reward :: "'n json_ops \<Rightarrow> 'n context_record \<Rightarrow> f64 option" where
  "record_reward P r = Option.bind (metadata_get r ''reward'') (value_as_f64 P)"

definition record_reward_source :: "'n context_record \<Rightarrow> string option" where
  "record_reward_source r = Option.bind (metadata_get r ''reward_source'') value_as_str"

definition record_group_id :: "'n context_record \<Rightarrow> string option" where
  "record_group_id r = Option.bind (metadata_get r ''group_id'') value_as_str"

definition record_label :: "'n context_record \<Rightarrow> string option" where
  "record_label r = Option.bind (metadata_get r ''label'') value_as_str"

definition record_rank :: "'n json_ops \<Rightarrow> 'n context_record \<Rightarrow> int option" where
  "record_rank P r = Option.bind (metadata_get r ''rank'') (value_as_i64 P)"

definition message_of :: "'n context_record \<Rightarrow> message" where
  "message_of r = \<lparr>ms_role = cr_role r, ms_content = (case cr_text_payload r of Some t \<Rightarrow> t | None \<Rightarrow> [])\<rparr>"

definition is_assistant :: "'n context_record \<Rightarrow> bool" where
  "is_assistant r \<longleftrightarrow> to_ascii_lowercase (cr_role r) = ''assistant''"

definition export_cosine_distance :: "f32 list \<Rightarrow> f32 list \<Rightarrow> f32 option" where
  "export_cosine_distance a b =
     (if length a \<noteq> length b \<or> a = [] then None
      else (let (dot, na, nb) = foldl (\<lambda>(dot, na, nb) (x, y).
              (f32_add dot (f32_mul x y), f32_add na (f32_mul x x), f32_add nb (f32_mul y y)))
              (f32_zero 0, f32_zero 0, f32_zero 0) (zip a b)
            in if f32_eq na (f32_zero 0) \<or> f32_eq nb (f32_zero 0) then None
               else Some (f32_sub (f32_of_nat 1) (f32_div dot (f32_mul (f32_sqrt na) (f32_sqrt nb))))))"

section \<open>Grouping\<close>

record 'n record_group =
  gr_key :: string
  gr_records :: "'n context_record list"

definition by_time_and_id :: "'n context_record \<Rightarrow> 'n context_record \<Rightarrow> ordering" where
  "by_time_and_id a b = then_with (cmp (cr_created_at a) (cr_created_at b)) (cmp (cr_id a) (cr_id b))"

text \<open>The order of first occurrence of the keys.\<close>

fun add_key :: "string list \<Rightarrow> string \<Rightarrow> string list" where
  "add_key order k = (if k \<in> set order then order else order @ [k])"

definition first_order :: "'n record_group \<Rightarrow> 'n record_group \<Rightarrow> ordering" where
  "first_order a b =
     (case (gr_records a, gr_records b) of
        (l # _, r # _) \<Rightarrow> by_time_and_id l r
      | _ \<Rightarrow> cmp (gr_key a) (gr_key b))"

definition group_records :: "'n context_record list \<Rightarrow> group_by \<Rightarrow> 'n record_group list" where
  "group_records rs g =
     (let order = foldl (\<lambda>order r. add_key order (group_key g r)) [] rs;
          result = map (\<lambda>k. \<lparr>gr_key = k, gr_records = sort_by by_time_and_id (filter (\<lambda>r. group_key g r = k) rs)\<rparr>) order
      in sort_by first_order result)"

fun minimum_of :: "int list \<Rightarrow> int option" where
  "minimum_of [] = None"
| "minimum_of (x # xs) = Some (case minimum_of xs of None \<Rightarrow> x | Some y \<Rightarrow> min x y)"

fun maximum_of :: "int list \<Rightarrow> int option" where
  "maximum_of [] = None"
| "maximum_of (x # xs) = Some (case maximum_of xs of None \<Rightarrow> x | Some y \<Rightarrow> max x y)"

definition provenance_for :: "int \<Rightarrow> 'n context_record list \<Rightarrow> string \<Rightarrow> nat \<Rightarrow> provenance" where
  "provenance_for now rs context_uri version =
     (let first = (case rs of [] \<Rightarrow> None | r # _ \<Rightarrow> Some r);
          start = (case minimum_of (map cr_created_at rs) of Some t \<Rightarrow> t | None \<Rightarrow> now);
          stop = (case maximum_of (map cr_created_at rs) of Some t \<Rightarrow> t | None \<Rightarrow> start)
      in \<lparr>pv_context_uri = context_uri, pv_version = version, pv_record_ids = map cr_id rs,
          pv_external_ids = List.map_filter cr_external_id rs,
          pv_tenant = Option.bind first cr_tenant, pv_source = Option.bind first cr_source,
          pv_bot_id = Option.bind first cr_bot_id, pv_session_id = Option.bind first cr_session_id,
          pv_run_id = map_option cr_run_id first, pv_created_at_start = start, pv_created_at_end = stop\<rparr>)"

definition split_prompt_candidates :: "'n context_record list \<Rightarrow> message list \<times> 'n context_record list" where
  "split_prompt_candidates rs = fold (\<lambda>r (prompt, candidates).
     if is_assistant r then (prompt, candidates @ [r])
     else if candidates = [] then (prompt @ [message_of r], candidates)
     else (prompt @ [message_of r], candidates)) rs ([], [])"

section \<open>Curation\<close>

definition near :: "f32 \<Rightarrow> f32 list \<Rightarrow> f32 list \<Rightarrow> bool" where
  "near threshold a b = (case export_cosine_distance a b of Some d \<Rightarrow> f32_leq d threshold | None \<Rightarrow> False)"

definition is_dup :: "f32 \<Rightarrow> 'n context_record list \<Rightarrow> 'n context_record \<Rightarrow> bool" where
  "is_dup threshold kept r =
     (case cr_embedding r of
        None \<Rightarrow> False
      | Some e \<Rightarrow> list_ex (\<lambda>other. case cr_embedding other of Some o' \<Rightarrow> near threshold e o' | None \<Rightarrow> False) kept)"

definition dedup :: "'n context_record list \<Rightarrow> f32 \<Rightarrow> 'n context_record list" where
  "dedup rs threshold = foldl (\<lambda>kept r. if is_dup threshold kept r then kept else kept @ [r]) [] rs"

definition decontaminate :: "'n context_record list \<Rightarrow> f32 list list \<Rightarrow> f32 \<Rightarrow> 'n context_record list" where
  "decontaminate rs holdout threshold =
     filter (\<lambda>r. case cr_embedding r of Some e \<Rightarrow> \<not> list_ex (near threshold e) holdout | None \<Rightarrow> True) rs"

definition curate ::
  "'n json_ops \<Rightarrow> 'n context_record list \<Rightarrow> 'n export_config \<Rightarrow> 'n context_record list \<times> export_counts" where
  "curate P rs config =
     (let lifecycle = filter (\<lambda>r. cr_lifecycle_status r \<noteq> LIFECYCLE_CONTRADICTED) rs;
          rewarded = (case ec_min_reward config of
            Some m \<Rightarrow> filter (\<lambda>r. case record_reward P r of None \<Rightarrow> True | Some reward \<Rightarrow> f64_leq m reward) lifecycle
          | None \<Rightarrow> lifecycle);
          deduped = (case ec_dedup_threshold config of Some t \<Rightarrow> dedup rewarded t | None \<Rightarrow> rewarded);
          clean = (case ec_decontaminate_threshold config of
            Some t \<Rightarrow> if ec_decontaminate_against config \<noteq> [] then decontaminate deduped (ec_decontaminate_against config) t
              else deduped
          | None \<Rightarrow> deduped)
      in (clean, \<lparr>ct_input_records = length rs, ct_after_lifecycle = length lifecycle, ct_after_dedup = length deduped,
            ct_after_decontaminate = length clean, ct_after_reward_filter = length rewarded, ct_examples = 0\<rparr>))"

section \<open>Exporters\<close>

datatype export_error =
    ExportStore context_store_error
  | ExportIo string
  | UnspecifiedOrder

text \<open>
  The file system: creating a file, writing to it through its buffer, flushing the buffer, and writing a
  whole file at once; and \<open>serde_json\<close> on the three kinds of values that are written.
\<close>

record 'w file_system =
  fs_create :: "string \<Rightarrow> ('w, string, unit) io"
  fs_append :: "string \<Rightarrow> string \<Rightarrow> ('w, string, unit) io"
  fs_flush :: "string \<Rightarrow> ('w, string, unit) io"
  fs_write :: "string \<Rightarrow> string \<Rightarrow> ('w, string, unit) io"

record 'n export_serde =
  qs_line :: "export_line \<Rightarrow> (string, string) result"
  qs_manifest :: "'n export_manifest \<Rightarrow> (string, string) result"
  qs_stats :: "export_stats \<Rightarrow> (string, string) result"

type_synonym ('w, 'a) export_io = "('w, export_error, 'a) io"

definition file_call :: "('w, string, 'a) io \<Rightarrow> ('w, 'a) export_io" where
  "file_call m = (\<lambda>w. case m w of (r, w') \<Rightarrow> (res_map_err ExportIo r, w'))"

definition write_line :: "'w file_system \<Rightarrow> 'n export_serde \<Rightarrow> string \<Rightarrow> export_line \<Rightarrow> ('w, unit) export_io" where
  "write_line F Q path line =
     io_bind (io_result (res_map_err ExportIo (qs_line Q line))) (\<lambda>text. file_call (fs_append F path (text @ [CHR 0x0A])))"

fun write_groups ::
  "'w file_system \<Rightarrow> 'n export_serde \<Rightarrow> string \<Rightarrow> ('g \<Rightarrow> (export_error, export_line list) result) \<Rightarrow> 'g list \<Rightarrow>
   ('w, nat) export_io" where
  "write_groups F Q path shape [] = io_return 0"
| "write_groups F Q path shape (g # gs) =
     io_bind (io_result (shape g)) (\<lambda>lines.
     io_bind (io_for (write_line F Q path) lines) (\<lambda>_.
     io_bind (write_groups F Q path shape gs) (\<lambda>written. io_return (length lines + written))))"

definition reward_max :: "f64 list \<Rightarrow> f64 option" where
  "reward_max rewards = (case rewards of [] \<Rightarrow> None | x # xs \<Rightarrow> Some (foldl f64_max x xs))"

definition sft_lines ::
  "'n json_ops \<Rightarrow> int \<Rightarrow> string \<Rightarrow> nat \<Rightarrow> 'n record_group \<Rightarrow> (export_error, export_line list) result" where
  "sft_lines P now uri version g =
     (if gr_records g = [] then Ok []
      else Ok [SftLine \<lparr>sf_messages = map message_of (gr_records g),
             sf_reward = reward_max (List.map_filter (record_reward P) (gr_records g)),
             sf_provenance = provenance_for now (gr_records g) uri version\<rparr>])"

definition preference_score :: "'n json_ops \<Rightarrow> 'n context_record \<Rightarrow> f64" where
  "preference_score P r =
     (if record_label r = Some ''chosen'' then f64_inf 0
      else if record_label r = Some ''rejected'' then f64_inf 1
      else (case record_reward P r of Some x \<Rightarrow> x | None \<Rightarrow> f64_zero 0))"

definition unpaired_label :: "'n json_ops \<Rightarrow> 'n context_record \<Rightarrow> f64 option \<Rightarrow> bool option" where
  "unpaired_label P r min_reward =
     (if record_label r = Some ''chosen'' then Some True
      else if record_label r = Some ''rejected'' then Some False
      else (case (record_reward P r, min_reward) of (Some reward, Some m) \<Rightarrow> Some (f64_leq m reward) | _ \<Rightarrow> None))"

definition best_and_worst :: "'n json_ops \<Rightarrow> 'n context_record \<Rightarrow> 'n context_record list \<Rightarrow> 'n context_record \<times> 'n context_record" where
  "best_and_worst P c candidates =
     foldl (\<lambda>(best, worst) candidate.
        (if f64_less (preference_score P best) (preference_score P candidate) then candidate else best,
         if f64_less (preference_score P candidate) (preference_score P worst) then candidate else worst)) (c, c) candidates"

definition ranked_order :: "'n json_ops \<Rightarrow> 'n context_record \<Rightarrow> 'n context_record \<Rightarrow> ordering" where
  "ranked_order P a b =
     (case (record_rank P a, record_rank P b) of
        (Some ra, Some rb) \<Rightarrow> cmp ra rb
      | _ \<Rightarrow> cmp (total_key64 (preference_score P b)) (total_key64 (preference_score P a)))"

text \<open>
  \<open>slice::sort_by\<close> promises an order only for a comparison that is a total preorder; for another it may return
  the elements in any order or panic.
\<close>

definition consistent_order :: "('a \<Rightarrow> 'a \<Rightarrow> ordering) \<Rightarrow> 'a list \<Rightarrow> bool" where
  "consistent_order c xs \<longleftrightarrow>
     list_all (\<lambda>x. list_all (\<lambda>y. c y x = reverse_ordering (c x y) \<and>
       list_all (\<lambda>z. c x y \<noteq> Greater \<longrightarrow> c y z \<noteq> Greater \<longrightarrow> c x z \<noteq> Greater) xs) xs) xs"

definition ranked_candidates ::
  "'n json_ops \<Rightarrow> 'n context_record list \<Rightarrow> (export_error, ranked_candidate list) result" where
  "ranked_candidates P candidates =
     (if consistent_order (ranked_order P) candidates
      then Ok (map (\<lambda>(index, r). \<lparr>rk_messages = [message_of r],
             rk_rank = (case record_rank P r of Some k \<Rightarrow> k | None \<Rightarrow> int index + 1), rk_reward = record_reward P r\<rparr>)
             (enumerate 0 (sort_by (ranked_order P) candidates)))
      else Err UnspecifiedOrder)"

definition preference_lines ::
  "'n json_ops \<Rightarrow> int \<Rightarrow> string \<Rightarrow> nat \<Rightarrow> preference_form \<Rightarrow> f64 option \<Rightarrow> 'n record_group \<Rightarrow>
   (export_error, export_line list) result" where
  "preference_lines P now uri version form min_reward g =
     (case split_prompt_candidates (gr_records g) of (prompt, candidates) \<Rightarrow>
        (case candidates of
           [] \<Rightarrow> Ok []
         | c # _ \<Rightarrow>
             (let prov = provenance_for now (gr_records g) uri version in
              case form of
                FormPaired \<Rightarrow>
                  if length candidates < 2 then Ok []
                  else (case best_and_worst P c candidates of (best, worst) \<Rightarrow>
                    if cr_id best = cr_id worst then Ok []
                    else Ok [PreferenceLine (Paired prompt [message_of best] [message_of worst] prov)])
              | FormUnpaired \<Rightarrow>
                  Ok (concat (map (\<lambda>r. case unpaired_label P r min_reward of
                      None \<Rightarrow> []
                    | Some label \<Rightarrow> [PreferenceLine (Unpaired prompt [message_of r] label prov)]) candidates))
              | FormRanked \<Rightarrow>
                  res_bind (ranked_candidates P candidates) (\<lambda>cs. Ok [PreferenceLine (Ranked prompt cs prov)]))))"

definition rollout_lines ::
  "'n json_ops \<Rightarrow> int \<Rightarrow> string \<Rightarrow> nat \<Rightarrow> 'n record_group \<Rightarrow> (export_error, export_line list) result" where
  "rollout_lines P now uri version g =
     (case split_prompt_candidates (gr_records g) of (prompt, candidates) \<Rightarrow>
        if candidates = [] then Ok []
        else Ok [RolloutLine \<lparr>rx_prompt = prompt,
               rx_responses = map (\<lambda>r. \<lparr>rp_messages = [message_of r], rp_reward = record_reward P r,
                 rp_reward_source = record_reward_source r\<rparr>) candidates,
               rx_group_id = (case List.map_filter record_group_id candidates of [] \<Rightarrow> None | k # _ \<Rightarrow> Some k),
               rx_provenance = provenance_for now (gr_records g) uri version\<rparr>])"

definition task_lines ::
  "'n json_ops \<Rightarrow> int \<Rightarrow> string \<Rightarrow> nat \<Rightarrow> 'n export_config \<Rightarrow> 'n record_group \<Rightarrow> (export_error, export_line list) result" where
  "task_lines P now uri version config =
     (case ec_task config of
        Sft \<Rightarrow> sft_lines P now uri version
      | Preference \<Rightarrow> preference_lines P now uri version (ec_preference_form config) (ec_min_reward config)
      | Rollout \<Rightarrow> rollout_lines P now uri version)"

definition summarize_groups :: "'n record_group list \<Rightarrow> int option \<times> int option \<times> string list" where
  "summarize_groups gs =
     fold (\<lambda>g acc. fold (\<lambda>r (start, stop, ids).
         (Some (case start of None \<Rightarrow> cr_created_at r | Some s \<Rightarrow> min s (cr_created_at r)),
          Some (case stop of None \<Rightarrow> cr_created_at r | Some e \<Rightarrow> max e (cr_created_at r)),
          ids @ [cr_id r])) (gr_records g) acc) gs (None, None, [])"

section \<open>The split\<close>

definition fnv_mix :: "64 word \<Rightarrow> 64 word \<Rightarrow> 64 word" where
  "fnv_mix hash byte = (hash XOR byte) * 0x100000001b3"

definition le_bytes :: "64 word \<Rightarrow> 64 word list" where
  "le_bytes w = map (\<lambda>i. drop_bit (8 * i) w AND 0xFF) [0..<8]"

definition stable_hash :: "64 word \<Rightarrow> string \<Rightarrow> 64 word" where
  "stable_hash seed key =
     foldl fnv_mix (foldl fnv_mix 0xcbf29ce484222325 (le_bytes seed)) (map (\<lambda>ch. of_nat (of_char ch)) key)"

definition fmix64 :: "64 word \<Rightarrow> 64 word" where
  "fmix64 h =
     (let h = h XOR drop_bit 33 h;
          h = h * 0xff51afd7ed558ccd;
          h = h XOR drop_bit 33 h;
          h = h * 0xc4ceb9fe1a85ec53
      in h XOR drop_bit 33 h)"

definition split_fraction :: "64 word \<Rightarrow> string \<Rightarrow> f64" where
  "split_fraction seed key =
     f64_div (f64_of_nat (unat (drop_bit 11 (fmix64 (stable_hash seed key))))) (f64_of_nat (2 ^ 53))"

fun rfind :: "char \<Rightarrow> string \<Rightarrow> nat option" where
  "rfind c [] = None"
| "rfind c (x # xs) = (case rfind c xs of Some i \<Rightarrow> Some (Suc i) | None \<Rightarrow> if x = c then Some 0 else None)"

definition split_paths :: "string \<Rightarrow> string \<times> string" where
  "split_paths path =
     (let slash = (case rfind (CHR ''/'') path of Some i \<Rightarrow> i + 1 | None \<Rightarrow> 0) in
      case rfind (CHR ''.'') (drop slash path) of
        Some rel \<Rightarrow> (let dot = slash + rel; stem = take dot path; ext = drop dot path in
          (stem @ ''.train'' @ ext, stem @ ''.eval'' @ ext))
      | None \<Rightarrow> (path @ ''.train'', path @ ''.eval''))"

definition goes_to_eval :: "split_config \<Rightarrow> 'n context_record \<Rightarrow> bool" where
  "goes_to_eval split r = f64_less (split_fraction (sc_seed split) (group_key (sc_by split) r)) (sc_eval_fraction split)"

text \<open>The records of the train and of the eval side, each in their old order.\<close>

definition split_records :: "split_config \<Rightarrow> 'n context_record list \<Rightarrow> 'n context_record list \<times> 'n context_record list" where
  "split_records split rs = foldl (\<lambda>(train, eval) r.
     if goes_to_eval split r then (train, eval @ [r]) else (train @ [r], eval)) ([], []) rs"

section \<open>Statistics\<close>

fun word_count :: "bool \<Rightarrow> bool list \<Rightarrow> nat" where
  "word_count in_word [] = 0"
| "word_count in_word (white # cs) =
     (if white then word_count False cs else (if in_word then 0 else 1) + word_count True cs)"

definition count_entry :: "string \<Rightarrow> (string, nat) btree_map \<Rightarrow> (string, nat) btree_map" where
  "count_entry k m = bt_insert k ((case bt_get m k of Some n \<Rightarrow> n | None \<Rightarrow> 0) + 1) m"

definition tokens_of :: "'n context_record \<Rightarrow> int option" where
  "tokens_of r = (case Option.bind (cr_state_metadata r) sm_tokens_used of
     Some t \<Rightarrow> if 0 \<le> t then Some t else None | None \<Rightarrow> None)"

definition token_value :: "(string \<Rightarrow> bool list) \<Rightarrow> 'n context_record \<Rightarrow> f64" where
  "token_value W r =
     (case tokens_of r of
        Some t \<Rightarrow> f64_of_nat (nat t)
      | None \<Rightarrow> f64_of_nat (case cr_text_payload r of Some text \<Rightarrow> word_count False (W text) | None \<Rightarrow> 0))"

definition excluded_of :: "export_counts \<Rightarrow> excluded_counts" where
  "excluded_of counts =
     \<lparr>ex_lifecycle = ct_input_records counts - ct_after_lifecycle counts,
      ex_reward_threshold = ct_after_lifecycle counts - ct_after_reward_filter counts,
      ex_dedup = ct_after_reward_filter counts - ct_after_dedup counts,
      ex_decontaminate = ct_after_dedup counts - ct_after_decontaminate counts\<rparr>"

definition form_of :: "'n export_config \<Rightarrow> string option" where
  "form_of config = (if ec_task config = Preference then Some (form_as_str (ec_preference_form config)) else None)"

definition compute_stats ::
  "'n json_ops \<Rightarrow> (string \<Rightarrow> bool list) \<Rightarrow> 'n record_group list \<Rightarrow> export_counts \<Rightarrow> nat \<Rightarrow> 'n export_config \<Rightarrow> export_stats" where
  "compute_stats P W groups counts examples config =
     (let rs = concat (map gr_records groups);
          none = (\<lambda>x. case x of Some s \<Rightarrow> s | None \<Rightarrow> ''__none__'');
          used_tokens_used = list_ex (\<lambda>r. tokens_of r \<noteq> None) rs;
          used_fallback = list_ex (\<lambda>r. tokens_of r = None) rs
      in \<lparr>es_task = task_as_str (ec_task config), es_examples = examples, es_num_groups = length groups,
          es_by_role = fold (\<lambda>r. count_entry (cr_role r)) rs [],
          es_by_source = fold (\<lambda>r. count_entry (none (cr_source r))) rs [],
          es_by_tenant = fold (\<lambda>r. count_entry (none (cr_tenant r))) rs [],
          es_records_per_group = (case from_sorted (map (\<lambda>g. f64_of_nat (length (gr_records g))) groups) of
             Some d \<Rightarrow> d | None \<Rightarrow> default_distribution),
          es_tokens = map_option (\<lambda>d. \<lparr>tk_distribution = d, tk_source =
             (if used_tokens_used \<and> used_fallback then ''mixed'' else if used_tokens_used then ''tokens_used''
              else ''length_proxy'')\<rparr>) (from_sorted (map (token_value W) rs)),
          es_excluded = excluded_of counts,
          es_preference_form = form_of config,
          es_reward = from_sorted (List.map_filter (record_reward P) rs),
          es_reward_sources = fold count_entry (List.map_filter record_reward_source rs) []\<rparr>)"

section \<open>The export\<close>

definition manifest_for ::
  "'n export_config \<Rightarrow> string \<Rightarrow> nat \<Rightarrow> split_manifest option \<Rightarrow> int option \<times> int option \<times> string list \<Rightarrow> export_counts \<Rightarrow>
   'n export_manifest" where
  "manifest_for config uri version split summary counts =
     (case summary of (start, stop, ids) \<Rightarrow>
        \<lparr>em_context_uri = uri, em_version = version, em_task = task_as_str (ec_task config),
         em_group_by = group_label (ec_group_by config), em_schema_version = EXPORT_SCHEMA_VERSION,
         em_preference_form = form_of config, em_filters = ec_filters_summary config,
         em_dedup_threshold = ec_dedup_threshold config,
         em_decontaminate_threshold = ec_decontaminate_threshold config, em_min_reward = ec_min_reward config,
         em_split = split, em_created_at_start = start, em_created_at_end = stop, em_source_record_ids = ids,
         em_counts = counts\<rparr>)"

definition write_stats ::
  "'w file_system \<Rightarrow> 'n export_serde \<Rightarrow> string \<Rightarrow> bool \<Rightarrow> export_stats \<Rightarrow> ('w, unit) export_io" where
  "write_stats F Q path emit stats =
     (if emit
      then io_bind (io_result (res_map_err ExportIo (qs_stats Q stats))) (\<lambda>text.
           file_call (fs_write F (path @ ''.stats.json'') text))
      else io_return ())"

definition emit_export ::
  "'n json_ops \<Rightarrow> (string \<Rightarrow> bool list) \<Rightarrow> 'w file_system \<Rightarrow> 'n export_serde \<Rightarrow> int \<Rightarrow> 'n context_record list \<Rightarrow> 'n export_config \<Rightarrow>
   string \<Rightarrow> nat \<Rightarrow> export_counts \<Rightarrow> string \<Rightarrow> split_manifest option \<Rightarrow> ('w, 'n export_manifest) export_io" where
  "emit_export P W F Q now rs config uri version counts path split =
     (let groups = group_records rs (ec_group_by config);
          summary = summarize_groups groups
      in io_bind (file_call (fs_create F path)) (\<lambda>_.
         io_bind (write_groups F Q path (task_lines P now uri version config) groups) (\<lambda>examples.
         io_bind (file_call (fs_flush F path)) (\<lambda>_.
         (let counts = counts\<lparr>ct_examples := examples\<rparr>;
              manifest = manifest_for config uri version split summary counts
          in io_bind (io_result (res_map_err ExportIo (qs_manifest Q manifest))) (\<lambda>text.
             io_bind (file_call (fs_write F (path @ ''.manifest.json'') text)) (\<lambda>_.
             io_bind (write_stats F Q path (ec_emit_stats config) (compute_stats P W groups counts examples config)) (\<lambda>_.
             io_return manifest))))))))"

definition split_side :: "split_config \<Rightarrow> string \<Rightarrow> string \<Rightarrow> split_manifest" where
  "split_side split side complement =
     \<lparr>sp_side = side, sp_eval_fraction = sc_eval_fraction split, sp_by = group_label (sc_by split), sp_seed = sc_seed split,
      sp_complement_path = complement\<rparr>"

definition export_inner ::
  "'l lance \<Rightarrow> 'l scanner \<Rightarrow> 'n json codec \<Rightarrow> 'n json_ops \<Rightarrow> (string \<Rightarrow> bool list) \<Rightarrow> 'w file_system \<Rightarrow> 'n export_serde \<Rightarrow> int \<Rightarrow>
   string \<Rightarrow> 'n export_config \<Rightarrow> string \<Rightarrow> 'l base \<Rightarrow> ('w, 'n export_manifest) export_io" where
  "export_inner L S J P W F Q now uri config path b =
     (let version = table_version L (sb_lance b) in
      io_bind (io_result (res_map_err ExportStore
        (list_filtered_projected L S J None None (ec_filters config) (ec_lifecycle config) default_projection b))) (\<lambda>rs.
      (case curate P rs config of (curated, counts) \<Rightarrow>
         (case ec_split config of
            None \<Rightarrow> emit_export P W F Q now curated config uri version counts path None
          | Some split \<Rightarrow>
              (case (split_paths path, split_records split curated) of ((train_path, eval_path), (train, eval)) \<Rightarrow>
                 io_bind (emit_export P W F Q now train config uri version counts train_path
                   (Some (split_side split ''train'' eval_path))) (\<lambda>train_manifest.
                 io_bind (emit_export P W F Q now eval config uri version counts eval_path
                   (Some (split_side split ''eval'' train_path))) (\<lambda>_. io_return train_manifest)))))))"

text \<open>\<open>checkout\<close> of the storage base; \<open>C\<close> is \<open>Dataset::checkout_version\<close>.\<close>

definition checkout :: "(nat \<Rightarrow> ('l, lance_error, unit) io) \<Rightarrow> nat \<Rightarrow> ('l, 'e, unit) base_io" where
  "checkout C version = io_bind (call (C version)) (\<lambda>_ b. (Ok (), b\<lparr>sb_pinned := Some version\<rparr>))"

definition on_store :: "('l, context_error, 'a) base_io \<Rightarrow> ('l base \<times> 'w, 'a) export_io" where
  "on_store m = (\<lambda>(b, w). case m b of (r, b') \<Rightarrow> (res_map_err ExportStore r, (b', w)))"

definition on_files :: "('l base \<Rightarrow> ('w, 'a) export_io) \<Rightarrow> ('l base \<times> 'w, 'a) export_io" where
  "on_files m = (\<lambda>(b, w). case m b w of (r, w') \<Rightarrow> (r, (b, w')))"

definition export_training ::
  "'l lance \<Rightarrow> 'l scanner \<Rightarrow> (nat \<Rightarrow> ('l, lance_error, unit) io) \<Rightarrow> 'n json codec \<Rightarrow> 'n json_ops \<Rightarrow> (string \<Rightarrow> bool list) \<Rightarrow>
   'w file_system \<Rightarrow> 'n export_serde \<Rightarrow> int \<Rightarrow> string \<Rightarrow> 'n export_config \<Rightarrow> string \<Rightarrow> ('l base \<times> 'w, 'n export_manifest) export_io" where
  "export_training L S C J P W F Q now uri config path = (\<lambda>(b, w).
     (let export = on_files (export_inner L S J P W F Q now uri config path) in
      case ec_version config of
        None \<Rightarrow> export (b, w)
      | Some target \<Rightarrow>
          (let original = table_version L (sb_lance b) in
           io_bind (on_store (checkout C target)) (\<lambda>_ s.
             case export s of (result, s') \<Rightarrow> io_bind (on_store (checkout C original)) (\<lambda>_. io_result result) s') (b, w))))"

end
