(* ===== verification/Export_Correct.thy ===== *)
theory Export_Correct
  imports Export "HOL-Library.Sublist"
begin

text \<open>
  What an export holds: which records curation keeps and why it drops the others, that grouping is a
  partition that does not depend on the order of the scan, which responses a preference pair names, and
  what stands in the files.
\<close>

section \<open>Grouping\<close>

lemma preorder_by_time_and_id: "preorder_cmp by_time_and_id"
  unfolding by_time_and_id_def [abs_def] by (intro preorder_then preorder_key)

lemma by_time_and_id_eq: "by_time_and_id a b = Equal \<Longrightarrow> cr_id a = cr_id b"
  unfolding by_time_and_id_def by (cases "cmp (cr_created_at a) (cr_created_at b)") (auto simp: cmp_def split: if_splits)

lemma set_keys: "set (foldl (\<lambda>order r. add_key order (f r)) ks rs) = set ks \<union> f ` set rs"
  by (induction rs arbitrary: ks) auto

lemma distinct_keys: "distinct ks \<Longrightarrow> distinct (foldl (\<lambda>order r. add_key order (f r)) ks rs)"
  by (induction rs arbitrary: ks) auto

definition keys_of :: "group_by \<Rightarrow> 'n context_record list \<Rightarrow> string list" where
  "keys_of g rs = foldl (\<lambda>order r. add_key order (group_key g r)) [] rs"

definition group_of :: "group_by \<Rightarrow> 'n context_record list \<Rightarrow> string \<Rightarrow> 'n record_group" where
  "group_of g rs k = \<lparr>gr_key = k, gr_records = sort_by by_time_and_id (filter (\<lambda>r. group_key g r = k) rs)\<rparr>"

lemma group_records_alt: "group_records rs g = sort_by first_order (map (group_of g rs) (keys_of g rs))"
  by (simp add: group_records_def group_of_def [abs_def] keys_of_def Let_def)

lemma keys_of_facts: "set (keys_of g rs) = group_key g ` set rs" "distinct (keys_of g rs)"
  unfolding keys_of_def set_keys by (simp, rule distinct_keys, simp)

lemma mset_by_key:
  assumes "distinct ks" "f ` set rs \<subseteq> set ks"
  shows "(\<Sum>k\<leftarrow>ks. mset (filter (\<lambda>r. f r = k) rs)) = mset rs"
  using assms
proof (induction rs)
  case (Cons r rs)
  have one: "(\<Sum>k\<leftarrow>ks. if f r = k then {#r#} else {#}) = {#r#}"
    using Cons.prems by (simp add: sum_list_distinct_conv_sum_set)
  have "(\<Sum>k\<leftarrow>ks. mset (filter (\<lambda>x. f x = k) (r # rs))) =
      (\<Sum>k\<leftarrow>ks. (if f r = k then {#r#} else {#}) + mset (filter (\<lambda>x. f x = k) rs))"
    by (intro arg_cong [where f = sum_list] map_cong) auto
  also have "\<dots> = {#r#} + mset rs" using Cons one by (simp add: sum_list_addf)
  finally show ?case by simp
qed simp

lemma mset_concat_groups: "mset (concat (map gr_records (group_records rs g))) = mset rs"
proof -
  have "mset (concat (map gr_records (group_records rs g))) = (\<Sum>x\<in>#mset (group_records rs g). mset (gr_records x))"
    by (simp add: mset_concat sum_mset_sum_list [symmetric] comp_def flip: mset_map)
  also have "\<dots> = (\<Sum>k\<leftarrow>keys_of g rs. mset (filter (\<lambda>r. group_key g r = k) rs))"
    unfolding group_records_alt mset_sort_by
    by (simp add: group_of_def comp_def flip: sum_mset_sum_list mset_map)
  also have "\<dots> = mset rs" using keys_of_facts by (intro mset_by_key) auto
  finally show ?thesis .
qed

lemma insert_by_cong: "(\<And>y. y \<in> set ys \<Longrightarrow> c x y = d x y) \<Longrightarrow> insert_by c x ys = insert_by d x ys"
  by (induction ys) auto

lemma sort_by_cong:
  assumes "\<And>x y. x \<in> set xs \<Longrightarrow> y \<in> set xs \<Longrightarrow> c x y = d x y"
  shows "sort_by c xs = sort_by d xs"
  using assms
proof (induction xs)
  case (Cons x xs)
  then have "sort_by c xs = sort_by d xs" by simp
  moreover have "insert_by c x (sort_by d xs) = insert_by d x (sort_by d xs)"
    using Cons.prems by (intro insert_by_cong) simp
  ultimately show ?case by (simp add: sort_by_def)
qed (simp add: sort_by_def)

lemma group_of_records: "set (gr_records (group_of g rs k)) = {r \<in> set rs. group_key g r = k}"
  by (auto simp: group_of_def)

lemma group_of_permuted:
  assumes "mset rs = mset rs'" "distinct (map cr_id rs)"
  shows "group_of g rs k = group_of g rs' k"
proof -
  have "sort_by by_time_and_id (filter (\<lambda>r. group_key g r = k) rs) = sort_by by_time_and_id (filter (\<lambda>r. group_key g r = k) rs')"
  proof (rule sort_by_permuted [OF preorder_by_time_and_id])
    show "mset (filter (\<lambda>r. group_key g r = k) rs) = mset (filter (\<lambda>r. group_key g r = k) rs')"
      unfolding mset_filter assms(1) ..
  next
    fix x y assume "x \<in> set (filter (\<lambda>r. group_key g r = k) rs)" "y \<in> set (filter (\<lambda>r. group_key g r = k) rs)"
      "by_time_and_id x y = Equal"
    then show "x = y" using assms(2) by_time_and_id_eq [of x y] by (auto simp: distinct_map inj_on_def)
  qed
  then show ?thesis by (simp add: group_of_def)
qed

text \<open>Groups are never empty, so they are ordered by their first records.\<close>

definition hd_order :: "'n record_group \<Rightarrow> 'n record_group \<Rightarrow> ordering" where
  "hd_order a b = by_time_and_id (hd (gr_records a)) (hd (gr_records b))"

lemma first_order_hd: "gr_records a \<noteq> [] \<Longrightarrow> gr_records b \<noteq> [] \<Longrightarrow> first_order a b = hd_order a b"
  by (cases "gr_records a"; cases "gr_records b") (auto simp: first_order_def hd_order_def)

lemma preorder_hd_order: "preorder_cmp hd_order"
  using preorder_by_time_and_id unfolding preorder_cmp_def hd_order_def by blast

lemma group_of_nonempty: "k \<in> set (keys_of g rs) \<Longrightarrow> gr_records (group_of g rs k) \<noteq> []"
  using group_of_records [of g rs k] by (auto simp: keys_of_facts)

lemma group_records_hd: "group_records rs g = sort_by hd_order (map (group_of g rs) (keys_of g rs))"
  unfolding group_records_alt by (rule sort_by_cong) (auto simp: first_order_hd group_of_nonempty)

lemma group_records_permuted:
  assumes "mset rs = mset rs'" "distinct (map cr_id rs)"
  shows "group_records rs g = group_records rs' g"
proof -
  have sets: "set rs = set rs'" using assms(1) by (rule mset_eq_setD)
  have keys: "mset (keys_of g rs) = mset (keys_of g rs')"
    by (rule iffD1 [OF set_eq_iff_mset_eq_distinct [OF keys_of_facts(2) keys_of_facts(2)]]) (simp add: keys_of_facts sets)
  have "sort_by hd_order (map (group_of g rs) (keys_of g rs)) = sort_by hd_order (map (group_of g rs') (keys_of g rs'))"
  proof (rule sort_by_permuted [OF preorder_hd_order])
    have "group_of g rs' = group_of g rs" using group_of_permuted [OF assms, of g] by (simp add: fun_eq_iff)
    then show "mset (map (group_of g rs) (keys_of g rs)) = mset (map (group_of g rs') (keys_of g rs'))" by (simp add: keys)
  next
    fix x y assume xy: "x \<in> set (map (group_of g rs) (keys_of g rs))" "y \<in> set (map (group_of g rs) (keys_of g rs))"
      "hd_order x y = Equal"
    then obtain k k' where k: "x = group_of g rs k" "k \<in> set (keys_of g rs)" "y = group_of g rs k'" "k' \<in> set (keys_of g rs)" by auto
    have hds: "hd (gr_records x) \<in> set (gr_records x)" "hd (gr_records y) \<in> set (gr_records y)"
      unfolding k(1,3) by (rule hd_in_set [OF group_of_nonempty [OF k(2)]], rule hd_in_set [OF group_of_nonempty [OF k(4)]])
    then have h: "hd (gr_records x) \<in> set rs" "group_key g (hd (gr_records x)) = k" "hd (gr_records y) \<in> set rs" "group_key g (hd (gr_records y)) = k'"
      unfolding k(1,3) group_of_records by blast+
    have "cr_id (hd (gr_records x)) = cr_id (hd (gr_records y))" using xy(3) unfolding hd_order_def by (rule by_time_and_id_eq)
    then have "hd (gr_records x) = hd (gr_records y)" using assms(2) h(1,3) unfolding distinct_map inj_on_def by blast
    then show "x = y" using h(2,4) k(1,3) by simp
  qed
  then show ?thesis unfolding group_records_hd .
qed

lemma group_records_facts:
  assumes "x \<in> set (group_records rs g)"
  shows "gr_records x \<noteq> []" "set (gr_records x) = {r \<in> set rs. group_key g r = gr_key x}" "sorted_wrt (\<lambda>a b. by_time_and_id a b \<noteq> Greater) (gr_records x)"
proof -
  obtain k where k: "x = group_of g rs k" "k \<in> set (keys_of g rs)" using assms unfolding group_records_alt by auto
  show "gr_records x \<noteq> []" unfolding k(1) using k(2) by (rule group_of_nonempty)
  show "set (gr_records x) = {r \<in> set rs. group_key g r = gr_key x}" unfolding k(1) group_of_records by (simp add: group_of_def)
  show "sorted_wrt (\<lambda>a b. by_time_and_id a b \<noteq> Greater) (gr_records x)"
    unfolding k(1) using sorted_sort_by [OF preorder_by_time_and_id] by (simp add: group_of_def)
qed

section \<open>Curation\<close>

lemma subseq_mem: "subseq xs ys \<Longrightarrow> x \<in> set xs \<Longrightarrow> x \<in> set ys"
  by (auto elim: list_emb_set)

fun kept_from :: "f32 \<Rightarrow> 'n context_record list \<Rightarrow> 'n context_record list \<Rightarrow> 'n context_record list" where
  "kept_from t ks [] = []"
| "kept_from t ks (r # rs) = (if is_dup t ks r then kept_from t ks rs else r # kept_from t (ks @ [r]) rs)"

lemma dedup_kept: "dedup rs t = kept_from t [] rs"
proof -
  have "foldl (\<lambda>kept r. if is_dup t kept r then kept else kept @ [r]) ks rs = ks @ kept_from t ks rs" for ks
    by (induction rs arbitrary: ks) auto
  then show ?thesis by (simp add: dedup_def)
qed

lemma kept_subseq: "subseq (kept_from t ks rs) rs"
  by (induction rs arbitrary: ks) (auto intro: subseq_Cons')

definition near_record :: "f32 \<Rightarrow> 'n context_record \<Rightarrow> 'n context_record \<Rightarrow> bool" where
  "near_record t r other \<longleftrightarrow> (\<exists>e o'. cr_embedding r = Some e \<and> cr_embedding other = Some o' \<and> near t e o')"

lemma is_dup_iff: "is_dup t kept r \<longleftrightarrow> (\<exists>other \<in> set kept. near_record t r other)"
  by (auto simp: is_dup_def near_record_def list_ex_iff split: option.splits)

lemma kept_apart:
  "sorted_wrt (\<lambda>a b. \<not> near_record t b a) ks \<Longrightarrow> sorted_wrt (\<lambda>a b. \<not> near_record t b a) (ks @ kept_from t ks rs)"
proof (induction rs arbitrary: ks)
  case (Cons r rs)
  have "sorted_wrt (\<lambda>a b. \<not> near_record t b a) (ks @ [r])" if "\<not> is_dup t ks r"
    using Cons.prems that by (simp add: is_dup_iff sorted_wrt_append)
  then show ?case using Cons.IH [of ks] Cons.IH [of "ks @ [r]"] Cons.prems by auto
qed simp

text \<open>Which indices a scan that compares with the records kept so far keeps.\<close>

lemma kept_indices:
  "\<exists>K. kept_from t ks rs = nths rs K \<and>
     (\<forall>i < length rs. i \<in> K \<longleftrightarrow> \<not> is_dup t ks (rs ! i) \<and> \<not> (\<exists>j \<in> K. j < i \<and> near_record t (rs ! i) (rs ! j)))"
proof (induction rs arbitrary: ks)
  case (Cons r rs)
  define ks' where "ks' = (if is_dup t ks r then ks else ks @ [r])"
  obtain K where K: "kept_from t ks' rs = nths rs K"
    "\<And>i. i < length rs \<Longrightarrow> i \<in> K \<longleftrightarrow> \<not> is_dup t ks' (rs ! i) \<and> \<not> (\<exists>j \<in> K. j < i \<and> near_record t (rs ! i) (rs ! j))"
    using Cons.IH [of ks'] by blast
  define L where "L = (if is_dup t ks r then {} else {0}) \<union> Suc ` K"
  have "{j. Suc j \<in> L} = K" by (auto simp: L_def)
  then have "kept_from t ks (r # rs) = nths (r # rs) L" using K(1) by (cases "is_dup t ks r") (auto simp: nths_Cons L_def ks'_def)
  moreover have "i \<in> L \<longleftrightarrow> \<not> is_dup t ks ((r # rs) ! i) \<and> \<not> (\<exists>j \<in> L. j < i \<and> near_record t ((r # rs) ! i) ((r # rs) ! j))"
    if "i < length (r # rs)" for i
  proof (cases i)
    case 0
    then show ?thesis by (auto simp: L_def)
  next
    case (Suc k)
    have "is_dup t ks' (rs ! k) \<longleftrightarrow> is_dup t ks (rs ! k) \<or> 0 \<in> L \<and> near_record t (rs ! k) r"
      by (auto simp: ks'_def is_dup_iff L_def)
    then show ?thesis using K(2) [of k] that Suc by (auto simp: L_def)
  qed
  ultimately show ?case by blast
qed simp

lemma dedup_facts:
  "subseq (dedup rs t) rs" "sorted_wrt (\<lambda>a b. \<not> near_record t b a) (dedup rs t)"
  unfolding dedup_kept using kept_apart [of t "[]" rs] by (simp_all add: kept_subseq)

definition meets_reward :: "'n json_ops \<Rightarrow> 'n export_config \<Rightarrow> 'n context_record \<Rightarrow> bool" where
  "meets_reward P config r \<longleftrightarrow>
     (\<forall>m reward. ec_min_reward config = Some m \<longrightarrow> record_reward P r = Some reward \<longrightarrow> f64_leq m reward)"

definition contaminated :: "'n export_config \<Rightarrow> 'n context_record \<Rightarrow> bool" where
  "contaminated config r \<longleftrightarrow>
     (\<exists>t e held. ec_decontaminate_threshold config = Some t \<and> cr_embedding r = Some e \<and>
        held \<in> set (ec_decontaminate_against config) \<and> near t e held)"

text \<open>The stages of curation.\<close>

definition eligible :: "'n json_ops \<Rightarrow> 'n export_config \<Rightarrow> 'n context_record \<Rightarrow> bool" where
  "eligible P config r \<longleftrightarrow> cr_lifecycle_status r \<noteq> LIFECYCLE_CONTRADICTED \<and> meets_reward P config r"

definition deduped :: "'n export_config \<Rightarrow> 'n context_record list \<Rightarrow> 'n context_record list" where
  "deduped config rs = (case ec_dedup_threshold config of Some t \<Rightarrow> dedup rs t | None \<Rightarrow> rs)"

lemma rewarded_filter:
  "(case ec_min_reward config of
      Some m \<Rightarrow> filter (\<lambda>r. case record_reward P r of None \<Rightarrow> True | Some reward \<Rightarrow> f64_leq m reward) rs
    | None \<Rightarrow> rs) = filter (meets_reward P config) rs"
  by (auto simp: meets_reward_def split: option.splits intro!: filter_cong)

lemma decontaminated_filter:
  "(case ec_decontaminate_threshold config of
      Some t \<Rightarrow> if ec_decontaminate_against config \<noteq> [] then decontaminate rs (ec_decontaminate_against config) t else rs
    | None \<Rightarrow> rs) = filter (\<lambda>r. \<not> contaminated config r) rs"
proof (cases "ec_decontaminate_threshold config")
  case (Some t)
  have "(case cr_embedding r of Some e \<Rightarrow> \<not> list_ex (near t e) (ec_decontaminate_against config) | None \<Rightarrow> True) \<longleftrightarrow> \<not> contaminated config r" for r
    by (auto simp: contaminated_def Some list_ex_iff split: option.splits)
  then show ?thesis using Some by (auto simp: decontaminate_def contaminated_def)
qed (simp add: contaminated_def)

lemma curate_stages:
  "curate P rs config =
     (let low = filter (\<lambda>r. cr_lifecycle_status r \<noteq> LIFECYCLE_CONTRADICTED) rs; ok = filter (eligible P config) rs;
          ded = deduped config ok; clean = filter (\<lambda>r. \<not> contaminated config r) ded
      in (clean, \<lparr>ct_input_records = length rs, ct_after_lifecycle = length low, ct_after_dedup = length ded,
            ct_after_decontaminate = length clean, ct_after_reward_filter = length ok, ct_examples = 0\<rparr>))"
proof -
  have eq: "filter (meets_reward P config) (filter (\<lambda>r. cr_lifecycle_status r \<noteq> LIFECYCLE_CONTRADICTED) rs) = filter (eligible P config) rs"
    by (simp add: eligible_def [abs_def] conj_commute)
  show ?thesis unfolding curate_def Let_def rewarded_filter decontaminated_filter deduped_def eq ..
qed

lemma deduped_facts:
  "subseq (deduped config rs) rs"
  "ec_dedup_threshold config = Some t \<Longrightarrow> sorted_wrt (\<lambda>a b. \<not> near_record t b a) (deduped config rs)"
  using dedup_facts(1,2) by (auto simp: deduped_def split: option.splits)

text \<open>The indices deduplication keeps: those not near one kept before.\<close>

definition kept_before :: "'n export_config \<Rightarrow> 'n context_record list \<Rightarrow> nat set \<Rightarrow> bool" where
  "kept_before config rs K \<longleftrightarrow> (\<forall>i < length rs. i \<in> K \<longleftrightarrow>
     \<not> (\<exists>t. ec_dedup_threshold config = Some t \<and> (\<exists>j \<in> K. j < i \<and> near_record t (rs ! i) (rs ! j))))"

lemma deduped_indices: "\<exists>K. deduped config rs = nths rs K \<and> kept_before config rs K"
proof (cases "ec_dedup_threshold config")
  case None
  then have "deduped config rs = nths rs UNIV" "kept_before config rs UNIV" by (simp_all add: deduped_def nths_all kept_before_def)
  then show ?thesis by blast
next
  case (Some t)
  then show ?thesis using kept_indices [of t "[]" rs] by (simp add: deduped_def dedup_kept kept_before_def is_dup_iff)
qed

section \<open>Preference pairs\<close>

lemma split_prompt_candidates_filter:
  "split_prompt_candidates rs = (map message_of (filter (\<lambda>r. \<not> is_assistant r) rs), filter is_assistant rs)"
proof -
  have "fold (\<lambda>r (prompt, candidates).
     if is_assistant r then (prompt, candidates @ [r])
     else if candidates = [] then (prompt @ [message_of r], candidates)
     else (prompt @ [message_of r], candidates)) rs (ps, cs) =
     (ps @ map message_of (filter (\<lambda>r. \<not> is_assistant r) rs), cs @ filter is_assistant rs)" for ps and cs :: "'a context_record list"
    by (induction rs arbitrary: ps cs) auto
  then show ?thesis by (simp add: split_prompt_candidates_def)
qed

definition score_order :: "'n json_ops \<Rightarrow> 'n context_record \<Rightarrow> int" where
  "score_order P r = f64_order (preference_score P r)"

lemma best_and_worst_facts:
  assumes "\<And>r. r \<in> set (b # w # cs) \<Longrightarrow> \<not> f64_is_nan (preference_score P r)"
    and "foldl (\<lambda>(best, worst) candidate.
        (if f64_less (preference_score P best) (preference_score P candidate) then candidate else best,
         if f64_less (preference_score P candidate) (preference_score P worst) then candidate else worst)) (b, w) cs = (b', w')"
  shows "b' \<in> set (b # cs) \<and> w' \<in> set (w # cs) \<and> (\<forall>x \<in> set (b # cs). score_order P x \<le> score_order P b') \<and>
    (\<forall>x \<in> set (w # cs). score_order P w' \<le> score_order P x) \<and>
    (score_order P b' = score_order P b \<longrightarrow> b' = b) \<and> (score_order P w' = score_order P w \<longrightarrow> w' = w)"
  using assms
proof (induction cs arbitrary: b w)
  case (Cons c cs)
  define b1 where "b1 = (if score_order P b < score_order P c then c else b)"
  define w1 where "w1 = (if score_order P c < score_order P w then c else w)"
  have nan: "\<not> f64_is_nan (preference_score P b)" "\<not> f64_is_nan (preference_score P w)" "\<not> f64_is_nan (preference_score P c)"
    using Cons.prems(1) by simp_all
  have "foldl (\<lambda>(best, worst) candidate.
        (if f64_less (preference_score P best) (preference_score P candidate) then candidate else best,
         if f64_less (preference_score P candidate) (preference_score P worst) then candidate else worst)) (b1, w1) cs = (b', w')"
    using Cons.prems(2) by (simp add: b1_def w1_def f64_less_def nan score_order_def)
  moreover have "\<not> f64_is_nan (preference_score P r)" if "r \<in> set (b1 # w1 # cs)" for r
    using that Cons.prems(1) nan by (auto simp: b1_def w1_def split: if_splits)
  ultimately show ?case
    using Cons.IH [of b1 w1] by (auto simp: b1_def w1_def split: if_splits)
qed simp

section \<open>Files\<close>

text \<open>
  What the export relies on of the file system, whenever a call succeeds: creating a file empties it,
  writing appends to it, and no call touches another file. \<open>on_disk w p\<close> is what the file \<open>p\<close> holds, text still
  in the writer's buffer included.
\<close>

locale file_laws =
  fixes F :: "'w file_system" and on_disk :: "'w \<Rightarrow> string \<Rightarrow> string option"
  assumes create_empties: "fs_create F p w = (Ok (), w') \<Longrightarrow> on_disk w' = (on_disk w)(p \<mapsto> [])"
    and append_extends: "fs_append F p s w = (Ok (), w') \<Longrightarrow> on_disk w p = Some old \<Longrightarrow> on_disk w' = (on_disk w)(p \<mapsto> old @ s)"
    and flush_keeps: "fs_flush F p w = (Ok (), w') \<Longrightarrow> on_disk w' = on_disk w"
    and write_sets: "fs_write F p s w = (Ok (), w') \<Longrightarrow> on_disk w' = (on_disk w)(p \<mapsto> s)"
begin

lemma file_call_Ok: "file_call m w = (Ok x, w') \<longleftrightarrow> m w = (Ok x, w')"
  by (auto simp: file_call_def split: prod.splits sum.splits)

lemma write_line_text:
  assumes "write_line F Q p line w = (Ok x, w')" "on_disk w p = Some old"
  shows "\<exists>t. qs_line Q line = Ok t \<and> on_disk w' = (on_disk w)(p \<mapsto> old @ t @ [CHR 0x0A])"
  using assms append_extends
  by (auto simp: write_line_def file_call_Ok io_result_def)

lemma write_lines_text:
  assumes "io_for (write_line F Q p) lines w = (Ok x, w')" "on_disk w p = Some old"
  shows "\<exists>ts. list_all2 (\<lambda>l t. qs_line Q l = Ok t) lines ts \<and> on_disk w' = (on_disk w)(p \<mapsto> old @ concat (map (\<lambda>t. t @ [CHR 0x0A]) ts))"
  using assms
proof (induction lines arbitrary: w old)
  case Nil
  then show ?case by (auto simp: io_return_def fun_upd_idem)
next
  case (Cons l ls)
  then obtain w1 y where w1: "write_line F Q p l w = (Ok y, w1)" "io_for (write_line F Q p) ls w1 = (Ok x, w')" by auto
  obtain t where t: "qs_line Q l = Ok t" "on_disk w1 = (on_disk w)(p \<mapsto> old @ t @ [CHR 0x0A])"
    using write_line_text [OF w1(1) Cons.prems(2)] by blast
  then have "on_disk w1 p = Some (old @ t @ [CHR 0x0A])" by simp
  then obtain ts where "list_all2 (\<lambda>l t. qs_line Q l = Ok t) ls ts"
    "on_disk w' = (on_disk w1)(p \<mapsto> (old @ t @ [CHR 0x0A]) @ concat (map (\<lambda>t. t @ [CHR 0x0A]) ts))"
    using Cons.IH [OF w1(2)] by blast
  then show ?case using t by (intro exI [of _ "t # ts"]) simp
qed

lemma write_groups_text:
  assumes "write_groups F Q p shape gs w = (Ok n, w')" "on_disk w p = Some old"
  shows "\<exists>lss ts. list_all2 (\<lambda>g ls. shape g = Ok ls) gs lss \<and> list_all2 (\<lambda>l t. qs_line Q l = Ok t) (concat lss) ts \<and>
    n = length ts \<and> on_disk w' = (on_disk w)(p \<mapsto> old @ concat (map (\<lambda>t. t @ [CHR 0x0A]) ts))"
  using assms
proof (induction gs arbitrary: w old n)
  case Nil
  then show ?case by (auto simp: io_return_def fun_upd_idem)
next
  case (Cons g gs)
  then obtain ls w1 m y where w1: "shape g = Ok ls" "io_for (write_line F Q p) ls w = (Ok y, w1)"
    "write_groups F Q p shape gs w1 = (Ok m, w')" "n = length ls + m"
    by (auto simp: io_result_def io_return_def)
  obtain ts where ts: "list_all2 (\<lambda>l t. qs_line Q l = Ok t) ls ts" "on_disk w1 = (on_disk w)(p \<mapsto> old @ concat (map (\<lambda>t. t @ [CHR 0x0A]) ts))"
    using write_lines_text [OF w1(2) Cons.prems(2)] by blast
  then have "on_disk w1 p = Some (old @ concat (map (\<lambda>t. t @ [CHR 0x0A]) ts))" by simp
  then obtain lss us where us: "list_all2 (\<lambda>g ls. shape g = Ok ls) gs lss" "list_all2 (\<lambda>l t. qs_line Q l = Ok t) (concat lss) us"
    "m = length us" "on_disk w' = (on_disk w1)(p \<mapsto> (old @ concat (map (\<lambda>t. t @ [CHR 0x0A]) ts)) @ concat (map (\<lambda>t. t @ [CHR 0x0A]) us))"
    using Cons.IH [OF w1(3)] by blast
  show ?case
    using w1(1,4) ts us list_all2_lengthD [OF ts(1)]
    by (intro exI [of _ "ls # lss"] exI [of _ "ts @ us"]) (simp add: list_all2_appendI)
qed

end

text \<open>The files one output consists of, and what stands in them.\<close>

definition output_files :: "string \<Rightarrow> string set" where
  "output_files p = {p, p @ ''.manifest.json'', p @ ''.stats.json''}"

definition holds_examples ::
  "('n record_group \<Rightarrow> (export_error, export_line list) result) \<Rightarrow> 'n export_serde \<Rightarrow> 'n context_record list \<Rightarrow> group_by \<Rightarrow>
   nat \<Rightarrow> string \<Rightarrow> bool" where
  "holds_examples shape Q rs g n s \<longleftrightarrow>
     (\<exists>lss ts. list_all2 (\<lambda>g ls. shape g = Ok ls) (group_records rs g) lss \<and>
        list_all2 (\<lambda>l t. qs_line Q l = Ok t) (concat lss) ts \<and> n = length ts \<and> s = concat (map (\<lambda>t. t @ [CHR 0x0A]) ts))"

lemma summarize_ids: "snd (snd (summarize_groups gs)) = map cr_id (concat (map gr_records gs))"
proof -
  have inner: "snd (snd (fold (\<lambda>r (start, stop, ids).
         (Some (case start of None \<Rightarrow> cr_created_at r | Some s \<Rightarrow> min s (cr_created_at r)),
          Some (case stop of None \<Rightarrow> cr_created_at r | Some e \<Rightarrow> max e (cr_created_at r)),
          ids @ [cr_id r])) rs acc)) = snd (snd acc) @ map cr_id rs" for rs :: "'a context_record list" and acc
    by (induction rs arbitrary: acc) (auto split: prod.splits)
  have "snd (snd (fold (\<lambda>g acc. fold (\<lambda>r (start, stop, ids).
         (Some (case start of None \<Rightarrow> cr_created_at r | Some s \<Rightarrow> min s (cr_created_at r)),
          Some (case stop of None \<Rightarrow> cr_created_at r | Some e \<Rightarrow> max e (cr_created_at r)),
          ids @ [cr_id r])) (gr_records g) acc) gs acc)) = snd (snd acc) @ map cr_id (concat (map gr_records gs))" for acc
    by (induction gs arbitrary: acc) (auto simp: inner)
  then show ?thesis unfolding summarize_groups_def by simp
qed

context file_laws
begin

lemma emit_export_text:
  assumes "emit_export P W F Q now rs config uri version counts p split w = (Ok m, w')"
  shows "(\<exists>s. on_disk w' p = Some s \<and> holds_examples (task_lines P now uri version config) Q rs (ec_group_by config) (ct_examples (em_counts m)) s)"
    and "\<exists>s. on_disk w' (p @ ''.manifest.json'') = Some s \<and> qs_manifest Q m = Ok s"
    and "q \<notin> output_files p \<Longrightarrow> on_disk w' q = on_disk w q"
    and "mset (em_source_record_ids m) = mset (map cr_id rs)" "em_split m = split" "em_counts m = counts\<lparr>ct_examples := ct_examples (em_counts m)\<rparr>"
proof -
  let ?gs = "group_records rs (ec_group_by config)"
  obtain w1 w2 w3 w4 n mt x where run: "fs_create F p w = (Ok (), w1)"
    "write_groups F Q p (task_lines P now uri version config) ?gs w1 = (Ok n, w2)" "fs_flush F p w2 = (Ok (), w3)"
    "qs_manifest Q m = Ok mt" "fs_write F (p @ ''.manifest.json'') mt w3 = (Ok (), w4)"
    and ws: "write_stats F Q p (ec_emit_stats config) x w4 = (Ok (), w')"
    and m: "m = manifest_for config uri version split (summarize_groups ?gs) (counts\<lparr>ct_examples := n\<rparr>)"
    using assms unfolding emit_export_def Let_def
    by (auto simp: file_call_Ok io_result_def io_return_def)
  have stats: "w' = w4 \<or> (\<exists>st. fs_write F (p @ ''.stats.json'') st w4 = (Ok (), w'))"
    using ws by (auto simp: write_stats_def file_call_Ok io_result_def io_return_def split: if_splits)
  have fields: "em_source_record_ids m = snd (snd (summarize_groups ?gs))" "em_split m = split" "em_counts m = counts\<lparr>ct_examples := n\<rparr>"
    unfolding m by (simp_all add: manifest_for_def split: prod.split)
  have t1: "on_disk w1 = (on_disk w)(p \<mapsto> [])" by (rule create_empties [OF run(1)])
  obtain lss ts where ts: "list_all2 (\<lambda>g ls. task_lines P now uri version config g = Ok ls) ?gs lss"
    "list_all2 (\<lambda>l t. qs_line Q l = Ok t) (concat lss) ts" "n = length ts"
    "on_disk w2 = (on_disk w1)(p \<mapsto> concat (map (\<lambda>t. t @ [CHR 0x0A]) ts))"
    using write_groups_text [OF run(2), of "[]"] t1 by auto
  have t4: "on_disk w4 = (on_disk w)(p \<mapsto> concat (map (\<lambda>t. t @ [CHR 0x0A]) ts), p @ ''.manifest.json'' \<mapsto> mt)"
    unfolding write_sets [OF run(5)] flush_keeps [OF run(3)] ts(4) t1 by simp
  have same: "on_disk w' q = on_disk w4 q" if "q \<noteq> p @ ''.stats.json''" for q
    using stats write_sets that by fastforce
  show "\<exists>s. on_disk w' p = Some s \<and> holds_examples (task_lines P now uri version config) Q rs (ec_group_by config) (ct_examples (em_counts m)) s"
    using same [of p] t4 ts fields(3) by (auto simp: holds_examples_def)
  show "\<exists>s. on_disk w' (p @ ''.manifest.json'') = Some s \<and> qs_manifest Q m = Ok s"
    using same [of "p @ ''.manifest.json''"] t4 run(4) by simp
  show "on_disk w' q = on_disk w q" if "q \<notin> output_files p"
    using that same [of q] t4 by (simp add: output_files_def)
  show "mset (em_source_record_ids m) = mset (map cr_id rs)"
    unfolding fields(1) summarize_ids using mset_concat_groups [of rs "ec_group_by config"] by (metis mset_map)
  show "em_split m = split" "em_counts m = counts\<lparr>ct_examples := ct_examples (em_counts m)\<rparr>" using fields(2,3) by simp_all
qed

end

end
