(* ===== verification/Export_Properties.thy ===== *)
theory Export_Properties
  imports Export_Correct
begin

text \<open>
  The claims about training-set export: curation, the train/eval split and its files, preference pairs, what
  an export depends on, and two places where it does other than it says.
\<close>

section \<open>Curation\<close>

text \<open>
  C27. What curation keeps and why it drops the rest. A record is eligible if it is not contradicted and not
  below the reward threshold. Of the eligible records, in their order, deduplication keeps exactly those
  that are not near one kept before, and all of them without a dedup threshold; the curated records are
  those of them that are not near a held-out embedding. No two curated records are near. The statistics
  count, stage by stage, the contradicted records, those below the threshold, the duplicates and the
  contaminated ones, and with the curated records these are all the records.
\<close>

theorem curation_exact:
  assumes "curate P rs config = (curated, counts)" "candidates = filter (eligible P config) rs"
  shows "subseq curated rs \<and>
    (\<exists>K. (\<forall>i < length candidates. i \<in> K \<longleftrightarrow>
           \<not> (\<exists>t. ec_dedup_threshold config = Some t \<and> (\<exists>j \<in> K. j < i \<and> near_record t (candidates ! i) (candidates ! j)))) \<and>
       curated = filter (\<lambda>r. \<not> contaminated config r) (nths candidates K) \<and>
       ex_lifecycle (excluded_of counts) = length (filter (\<lambda>r. cr_lifecycle_status r = LIFECYCLE_CONTRADICTED) rs) \<and>
       ex_reward_threshold (excluded_of counts) =
         length (filter (\<lambda>r. cr_lifecycle_status r \<noteq> LIFECYCLE_CONTRADICTED \<and> \<not> meets_reward P config r) rs) \<and>
       ex_dedup (excluded_of counts) = card ({..<length candidates} - K) \<and>
       ex_decontaminate (excluded_of counts) = length (filter (contaminated config) (nths candidates K))) \<and>
    (\<forall>t. ec_dedup_threshold config = Some t \<longrightarrow> sorted_wrt (\<lambda>a b. \<not> near_record t b a) curated) \<and>
    length rs = length curated + ex_lifecycle (excluded_of counts) + ex_reward_threshold (excluded_of counts) +
      ex_dedup (excluded_of counts) + ex_decontaminate (excluded_of counts)"
proof -
  let ?low = "filter (\<lambda>r. cr_lifecycle_status r \<noteq> LIFECYCLE_CONTRADICTED) rs"
  let ?ded = "deduped config candidates"
  have curated: "curated = filter (\<lambda>r. \<not> contaminated config r) ?ded"
    and counts: "excluded_of counts = \<lparr>ex_lifecycle = length rs - length ?low, ex_reward_threshold = length ?low - length candidates,
      ex_dedup = length candidates - length ?ded, ex_decontaminate = length ?ded - length curated\<rparr>"
    using assms unfolding curate_stages by (auto simp: Let_def excluded_of_def)
  have sub: "subseq curated ?ded" "subseq ?ded candidates" "subseq candidates rs"
    unfolding curated assms(2) using deduped_facts(1) by (simp_all add: subseq_filter_left)
  have low: "length rs = length ?low + length (filter (\<lambda>r. cr_lifecycle_status r = LIFECYCLE_CONTRADICTED) rs)"
    using sum_length_filter_compl [of "\<lambda>r. cr_lifecycle_status r \<noteq> LIFECYCLE_CONTRADICTED" rs] by simp
  have rewarded: "length ?low = length candidates +
      length (filter (\<lambda>r. cr_lifecycle_status r \<noteq> LIFECYCLE_CONTRADICTED \<and> \<not> meets_reward P config r) rs)"
    unfolding assms(2) by (induction rs) (simp_all add: eligible_def)
  have clean: "length ?ded = length curated + length (filter (contaminated config) ?ded)"
    unfolding curated using sum_length_filter_compl [of "contaminated config" ?ded] by simp
  obtain K where K: "?ded = nths candidates K" "kept_before config candidates K" using deduped_indices by blast
  have "{i. i < length candidates \<and> i \<in> K} = {..<length candidates} - ({..<length candidates} - K)" by auto
  then have ded: "length ?ded = length candidates - card ({..<length candidates} - K)"
    unfolding K(1) length_nths by (simp only: card_Diff_subset finite_Diff finite_lessThan Diff_subset card_lessThan)
  have dups: "card ({..<length candidates} - K) \<le> length candidates"
    using card_mono [of "{..<length candidates}" "{..<length candidates} - K"] by simp
  have apart: "sorted_wrt (\<lambda>a b. \<not> near_record t b a) curated" if "ec_dedup_threshold config = Some t" for t
    unfolding curated by (rule sorted_wrt_filter [OF deduped_facts(2) [OF that]])
  have total: "length rs = length curated + ex_lifecycle (excluded_of counts) + ex_reward_threshold (excluded_of counts) +
      ex_dedup (excluded_of counts) + ex_decontaminate (excluded_of counts)"
    unfolding counts using low rewarded clean ded dups by simp
  have exact: "ex_lifecycle (excluded_of counts) = length (filter (\<lambda>r. cr_lifecycle_status r = LIFECYCLE_CONTRADICTED) rs)"
    "ex_reward_threshold (excluded_of counts) =
       length (filter (\<lambda>r. cr_lifecycle_status r \<noteq> LIFECYCLE_CONTRADICTED \<and> \<not> meets_reward P config r) rs)"
    "ex_dedup (excluded_of counts) = card ({..<length candidates} - K)"
    "ex_decontaminate (excluded_of counts) = length (filter (contaminated config) (nths candidates K))"
    unfolding counts using low rewarded clean ded dups by (simp_all add: K(1))
  show ?thesis
    using subseq_order.order_trans [OF sub(1) subseq_order.order_trans [OF sub(2,3)]] K(2) curated exact apart total
    unfolding kept_before_def K(1) by blast
qed

definition nat_ops :: "nat json_ops" where
  "nat_ops = \<lparr>number_as_i64 = \<lambda>n. Some (int n), number_as_f64 = \<lambda>n. Some (f64_of_nat n), number_of_i64 = nat,
     number_from_f64 = \<lambda>x. Some (f64_units x div 2 ^ 1074), base64_encode = \<lambda>b. [], base64_decode = \<lambda>s. None, rfc3339_micros = \<lambda>s. None\<rparr>"

definition sample_export :: "export_task \<Rightarrow> nat export_config" where
  "sample_export task =
     \<lparr>ec_task = task, ec_group_by = GroupNone, ec_preference_form = FormPaired, ec_filters = None,
      ec_lifecycle = default_options 0, ec_dedup_threshold = None, ec_decontaminate_against = [],
      ec_decontaminate_threshold = None, ec_min_reward = None, ec_version = None, ec_filters_summary = None,
      ec_split = None, ec_emit_stats = False\<rparr>"

definition response :: "string \<Rightarrow> (string \<times> nat json) list \<Rightarrow> nat context_record" where
  "response i metadata = (sample_record i None)\<lparr>cr_role := ''assistant'', cr_metadata := Some (JObject metadata)\<rparr>"

theorem curation_exact_witness:
  "fst (curate nat_ops [response ''a'' [], (response ''b'' [])\<lparr>cr_lifecycle_status := LIFECYCLE_CONTRADICTED\<rparr>] (sample_export Sft)) = [response ''a'' []] \<and>
   subseq [response ''a'' []] [response ''a'' [], (response ''b'' [])\<lparr>cr_lifecycle_status := LIFECYCLE_CONTRADICTED\<rparr>]"
proof -
  let ?rs = "[response ''a'' [], (response ''b'' [])\<lparr>cr_lifecycle_status := LIFECYCLE_CONTRADICTED\<rparr>]"
  have "fst (curate nat_ops ?rs (sample_export Sft)) = [response ''a'' []]"
    by (simp add: curate_def Let_def sample_export_def response_def sample_record_def LIFECYCLE_CONTRADICTED_def LIFECYCLE_ACTIVE_def)
  then obtain counts where c: "curate nat_ops ?rs (sample_export Sft) = ([response ''a'' []], counts)" by (metis prod.collapse)
  show ?thesis using curation_exact [OF c refl] c by simp
qed

section \<open>Preference pairs\<close>

text \<open>
  C28. A preference pair names a best and a worst response. For a group of records with distinct ids and
  rewards that are numbers, the paired form writes one example exactly if two of the assistant's responses
  differ in score (a chosen label above every reward, a rejected one below, no reward counting as 0), and
  then the chosen response scores highest, the rejected lowest and strictly less, and the prompt is every
  other message in order. Otherwise it writes nothing.
\<close>

theorem preference_pair_extremes:
  assumes "distinct (map cr_id (gr_records g))"
    and "\<And>r x. r \<in> set (gr_records g) \<Longrightarrow> record_reward P r = Some x \<Longrightarrow> \<not> f64_is_nan x"
    and "preference_lines P now uri version FormPaired min_reward g = Ok lines" "responses = filter is_assistant (gr_records g)"
  shows "if \<exists>a \<in> set responses. \<exists>b \<in> set responses. score_order P a < score_order P b
    then \<exists>best \<in> set responses. \<exists>worst \<in> set responses.
      lines = [PreferenceLine (Paired (map message_of (filter (\<lambda>r. \<not> is_assistant r) (gr_records g))) [message_of best] [message_of worst]
        (provenance_for now (gr_records g) uri version))] \<and>
      score_order P worst < score_order P best \<and>
      (\<forall>r \<in> set responses. score_order P worst \<le> score_order P r \<and> score_order P r \<le> score_order P best)
    else lines = []"
proof (cases responses)
  case Nil
  then show ?thesis using assms(3,4) by (simp add: preference_lines_def split_prompt_candidates_filter)
next
  case (Cons c cs)
  obtain best worst where bw: "best_and_worst P c responses = (best, worst)" by fastforce
  have nan: "\<not> f64_is_nan (preference_score P r)" if "r \<in> set responses" for r
  proof -
    have "\<not> f64_is_nan (f64_inf 0)" "\<not> f64_is_nan (f64_inf 1)" "\<not> f64_is_nan (f64_zero 0)"
      by (simp_all add: f64_is_nan_def f64_inf_def f64_zero_def pack64_fields)
    then show ?thesis using that assms(2) [of r] assms(4) by (auto simp: preference_score_def split: option.splits)
  qed
  have f: "best \<in> set responses" "worst \<in> set responses"
    "\<And>r. r \<in> set responses \<Longrightarrow> score_order P worst \<le> score_order P r \<and> score_order P r \<le> score_order P best"
    "score_order P best = score_order P c \<Longrightarrow> best = c" "score_order P worst = score_order P c \<Longrightarrow> worst = c"
    using best_and_worst_facts [of c c responses P best worst] nan bw Cons unfolding best_and_worst_def by auto
  have same: "cr_id best = cr_id worst \<longleftrightarrow> score_order P best = score_order P worst"
  proof
    assume "cr_id best = cr_id worst"
    then show "score_order P best = score_order P worst"
      using f(1,2) assms(1,4) by (metis distinct_map filter_is_subset inj_onD subsetD)
  next
    assume "score_order P best = score_order P worst"
    then show "cr_id best = cr_id worst" using f(3) [of c] f(4,5) Cons by simp
  qed
  have differ: "(\<exists>a \<in> set responses. \<exists>b \<in> set responses. score_order P a < score_order P b) \<longleftrightarrow> score_order P best \<noteq> score_order P worst"
  proof
    assume "\<exists>a \<in> set responses. \<exists>b \<in> set responses. score_order P a < score_order P b"
    then obtain x y where xy: "x \<in> set responses" "y \<in> set responses" "score_order P x < score_order P y" by blast
    show "score_order P best \<noteq> score_order P worst" using f(3) [OF xy(1)] f(3) [OF xy(2)] xy(3) by linarith
  next
    assume "score_order P best \<noteq> score_order P worst"
    then have "score_order P worst < score_order P best" using f(3) [OF f(1)] by simp
    then show "\<exists>a \<in> set responses. \<exists>b \<in> set responses. score_order P a < score_order P b" using f(1,2) by blast
  qed
  have short: "cr_id best = cr_id worst" if "length responses < 2" using that f(1,2) Cons by auto
  have "preference_lines P now uri version FormPaired min_reward g =
      Ok (if length responses < 2 \<or> cr_id best = cr_id worst then []
          else [PreferenceLine (Paired (map message_of (filter (\<lambda>r. \<not> is_assistant r) (gr_records g))) [message_of best] [message_of worst]
            (provenance_for now (gr_records g) uri version))])"
    unfolding preference_lines_def split_prompt_candidates_filter prod.case assms(4) [symmetric] Cons list.case preference_form.case Let_def
    using bw unfolding Cons by simp
  then have lines: "lines = (if score_order P best = score_order P worst then []
          else [PreferenceLine (Paired (map message_of (filter (\<lambda>r. \<not> is_assistant r) (gr_records g))) [message_of best] [message_of worst]
            (provenance_for now (gr_records g) uri version))])"
    using assms(3) same short by (simp split: if_splits)
  show ?thesis
  proof (cases "score_order P best = score_order P worst")
    case True
    then show ?thesis unfolding differ lines by simp
  next
    case False
    then have "score_order P worst < score_order P best" using f(3) [OF f(1)] by simp
    then show ?thesis using False f(1-3) unfolding differ lines by auto
  qed
qed

lemma response_facts [simp]:
  "cr_id (response i md) = i" "is_assistant (response i md)" "metadata_get (response i md) k = bt_get md k"
  "\<not> is_assistant (sample_record i prev)"
proof -
  have lower: "to_ascii_lowercase ''assistant'' = ''assistant''" "to_ascii_lowercase ''user'' = ''user''" by code_simp+
  show "cr_id (response i md) = i" "is_assistant (response i md)" "metadata_get (response i md) k = bt_get md k"
    "\<not> is_assistant (sample_record i prev)"
    by (simp_all add: response_def sample_record_def is_assistant_def metadata_get_def lower)
qed

lemma labelled_scores:
  "score_order P (response i [(''label'', JString ''rejected'')]) < score_order P (response j [(''label'', JString ''chosen'')])"
  by (simp add: score_order_def preference_score_def record_label_def bt_get_def value_as_str_def f64_order_def f64_inf_def
      pack64_unat)

lemma paired_Ok: "\<exists>lines. preference_lines P now uri version FormPaired min_reward g = Ok lines"
  by (simp add: preference_lines_def Let_def split: prod.split list.split)

theorem preference_pair_extremes_witness:
  "\<exists>prompt prov. preference_lines nat_ops 0 ''u'' 1 FormPaired None \<lparr>gr_key = ''g'', gr_records = [sample_record ''q'' None,
       response ''a'' [(''label'', JString ''rejected'')], response ''b'' [(''label'', JString ''chosen'')]]\<rparr> =
     Ok [PreferenceLine (Paired prompt [message_of (response ''b'' [(''label'', JString ''chosen'')])]
       [message_of (response ''a'' [(''label'', JString ''rejected'')])] prov)]"
proof -
  let ?a = "response ''a'' [(''label'', JString ''rejected'')]" and ?b = "response ''b'' [(''label'', JString ''chosen'')]"
  let ?g = "\<lparr>gr_key = ''g'', gr_records = [sample_record ''q'' None, ?a, ?b]\<rparr>"
  have ids: "distinct (map cr_id (gr_records ?g))" by (simp add: sample_record_def)
  have reward: "record_reward nat_ops r = None" if "r \<in> set (gr_records ?g)" for r
    using that by (auto simp: record_reward_def bt_get_def) (simp add: metadata_get_def sample_record_def bt_get_def)
  obtain lines where l: "preference_lines nat_ops 0 ''u'' 1 FormPaired None ?g = Ok lines"
    using paired_Ok by blast
  have rs: "[?a, ?b] = filter is_assistant (gr_records ?g)" by simp
  note low = labelled_scores [of nat_ops "''a''" "''b''"]
  obtain prompt prov best worst where bw: "lines = [PreferenceLine (Paired prompt [message_of best] [message_of worst] prov)]"
    "best \<in> {?a, ?b}" "worst \<in> {?a, ?b}" "score_order nat_ops worst < score_order nat_ops best"
    using preference_pair_extremes [OF ids _ l rs] reward low by (simp split: if_splits)
  have "best = ?b \<and> worst = ?a" using bw(2-4) low by auto
  then show ?thesis using l bw(1) by blast
qed

text \<open>
  C34. Ranks and scores do not mix. When a group holds two ranked responses and an unranked one whose score
  lies above that of the better ranked and not above that of the worse ranked, the comparison the ranked
  form sorts by is circular, and the export of the group is left to \<open>sort_by\<close>, which may panic.
\<close>

theorem mixed_ranks_unordered:
  assumes "{a, b, c} \<subseteq> set (gr_records g)" "is_assistant a" "is_assistant b" "is_assistant c"
    and "record_rank P a = Some ra" "record_rank P b = Some rb" "ra \<le> rb" "record_rank P c = None"
    and "total_key64 (preference_score P a) < total_key64 (preference_score P c)"
    and "total_key64 (preference_score P c) \<le> total_key64 (preference_score P b)"
  shows "preference_lines P now uri version FormRanked min_reward g = Err UnspecifiedOrder"
proof -
  let ?cs = "filter is_assistant (gr_records g)"
  have mem: "a \<in> set ?cs" "b \<in> set ?cs" "c \<in> set ?cs" using assms(1-4) by auto
  have "ranked_order P a b \<noteq> Greater" "ranked_order P b c \<noteq> Greater" "ranked_order P a c = Greater"
    using assms(5-10) by (auto simp: ranked_order_def cmp_def)
  then have "\<not> consistent_order (ranked_order P) ?cs" using mem unfolding consistent_order_def list_all_iff by blast
  moreover obtain x xs where "?cs = x # xs" using mem(1) by (cases ?cs) auto
  ultimately show ?thesis
    unfolding preference_lines_def split_prompt_candidates_filter prod.case ranked_candidates_def Let_def by simp
qed

theorem mixed_ranks_unordered_witness:
  "preference_lines nat_ops 0 ''u'' 1 FormRanked None \<lparr>gr_key = ''g'', gr_records =
     [response ''a'' [(''rank'', JNumber 1), (''reward'', JNumber 0)], response ''b'' [(''rank'', JNumber 2), (''reward'', JNumber 2)],
      response ''c'' [(''reward'', JNumber 1)]]\<rparr> = Err UnspecifiedOrder"
proof -
  have nums: "f64_of_nat 0 = 0" "f64_of_nat 1 = 0x3FF0000000000000" "f64_of_nat 2 = 0x4000000000000000"
    by (simp_all add: f64_of_nat_def f64_round_def f64_zero_def f64_pack_def floor_log_def msb.simps round_div_def)
  have keys: "total_key64 (f64_of_nat 0) < total_key64 (f64_of_nat 1)" "total_key64 (f64_of_nat 1) \<le> total_key64 (f64_of_nat 2)"
    unfolding nums by (simp_all add: total_key64_def)
  show ?thesis
    by (rule mixed_ranks_unordered [where a = "response ''a'' [(''rank'', JNumber 1), (''reward'', JNumber 0)]"
          and b = "response ''b'' [(''rank'', JNumber 2), (''reward'', JNumber 2)]" and c = "response ''c'' [(''reward'', JNumber 1)]"
          and ra = 1 and rb = 2])
      (use keys in \<open>simp_all add: record_rank_def bt_get_def value_as_i64_def nat_ops_def preference_score_def record_label_def
         record_reward_def value_as_f64_def\<close>)
qed

section \<open>The split and its files\<close>

lemma split_records_filter: "split_records split rs = (filter (\<lambda>r. \<not> goes_to_eval split r) rs, filter (goes_to_eval split) rs)"
proof -
  have "foldl (\<lambda>(train, eval) r. if goes_to_eval split r then (train, eval @ [r]) else (train @ [r], eval)) (ts, es) rs =
      (ts @ filter (\<lambda>r. \<not> goes_to_eval split r) rs, es @ filter (goes_to_eval split) rs)" for ts es
    by (induction rs arbitrary: ts es) auto
  then show ?thesis by (simp add: split_records_def)
qed

lemma split_paths_shape: "\<exists>stem ext. split_paths p = (stem @ ''.train'' @ ext, stem @ ''.eval'' @ ext)"
  by (auto simp: split_paths_def Let_def split: option.split)

lemma split_outputs_disjoint:
  assumes "split_paths p = (train_path, eval_path)"
  shows "output_files train_path \<inter> output_files eval_path = {}"
proof -
  obtain stem ext where "train_path = stem @ ''.train'' @ ext" "eval_path = stem @ ''.eval'' @ ext"
    using split_paths_shape [of p] assms by auto
  then show ?thesis by (auto simp: output_files_def)
qed

text \<open>
  C8. The split keeps its promise on disk. When an export with a split succeeds, every curated record is on
  exactly one side, no key of the split's grouping occurs on both, each side's file holds exactly the
  examples of the groups of its records, one per line, each side's manifest lists exactly its records, and
  no file besides the two outputs with their manifests and statistics is touched; neither side
  overwrites a file of the other.
\<close>

theorem export_split_disjoint:
  assumes "file_laws F on_disk" "ec_split config = Some split" "split_paths path = (train_path, eval_path)"
    and "list_filtered_projected L S J None None (ec_filters config) (ec_lifecycle config) default_projection b = Ok rs"
    and "export_inner L S J P W F Q now uri config path b w = (Ok m, w')"
  shows "\<exists>train eval m' x x' s s'. mset train + mset eval = mset (fst (curate P rs config)) \<and>
    group_key (sc_by split) ` set train \<inter> group_key (sc_by split) ` set eval = {} \<and>
    on_disk w' train_path = Some x \<and> holds_examples (task_lines P now uri (table_version L (sb_lance b)) config) Q train (ec_group_by config)
      (ct_examples (em_counts m)) x \<and>
    on_disk w' eval_path = Some x' \<and> holds_examples (task_lines P now uri (table_version L (sb_lance b)) config) Q eval (ec_group_by config)
      (ct_examples (em_counts m')) x' \<and>
    on_disk w' (train_path @ ''.manifest.json'') = Some s \<and> qs_manifest Q m = Ok s \<and> mset (em_source_record_ids m) = mset (map cr_id train) \<and>
    on_disk w' (eval_path @ ''.manifest.json'') = Some s' \<and> qs_manifest Q m' = Ok s' \<and> mset (em_source_record_ids m') = mset (map cr_id eval) \<and>
    (\<forall>q. q \<notin> output_files train_path \<union> output_files eval_path \<longrightarrow> on_disk w' q = on_disk w q)"
proof -
  obtain curated counts where cur: "curate P rs config = (curated, counts)" by fastforce
  let ?train = "filter (\<lambda>r. \<not> goes_to_eval split r) curated" and ?eval = "filter (goes_to_eval split) curated"
  let ?v = "table_version L (sb_lance b)"
  obtain m' w1 where run:
    "emit_export P W F Q now ?train config uri ?v counts train_path (Some (split_side split ''train'' eval_path)) w = (Ok m, w1)"
    "emit_export P W F Q now ?eval config uri ?v counts eval_path (Some (split_side split ''eval'' train_path)) w1 = (Ok m', w')"
    using assms(5) unfolding export_inner_def Let_def assms(4)
    by (auto simp: io_result_def io_return_def cur assms(2,3) split_records_filter)
  note one = file_laws.emit_export_text [OF assms(1) run(1)] and two = file_laws.emit_export_text [OF assms(1) run(2)]
  have kept: "on_disk w' q = on_disk w1 q" if "q \<in> output_files train_path" for q
    by (rule two(3)) (use that split_outputs_disjoint [OF assms(3)] in blast)
  have parts: "mset ?train + mset ?eval = mset curated" by (induction curated) auto
  have keys: "group_key (sc_by split) ` set ?train \<inter> group_key (sc_by split) ` set ?eval = {}"
    by (auto simp: goes_to_eval_def)
  have files: "on_disk w' train_path = on_disk w1 train_path"
    "on_disk w' (train_path @ ''.manifest.json'') = on_disk w1 (train_path @ ''.manifest.json'')"
    by (rule kept, simp add: output_files_def)+
  have rest: "\<forall>q. q \<notin> output_files train_path \<union> output_files eval_path \<longrightarrow> on_disk w' q = on_disk w q"
    using one(3) two(3) by simp
  obtain x x' s s' where "on_disk w1 train_path = Some x" "holds_examples (task_lines P now uri ?v config) Q ?train (ec_group_by config) (ct_examples (em_counts m)) x"
    "on_disk w' eval_path = Some x'" "holds_examples (task_lines P now uri ?v config) Q ?eval (ec_group_by config) (ct_examples (em_counts m')) x'"
    "on_disk w1 (train_path @ ''.manifest.json'') = Some s" "qs_manifest Q m = Ok s"
    "on_disk w' (eval_path @ ''.manifest.json'') = Some s'" "qs_manifest Q m' = Ok s'"
    using one(1,2) two(1,2) by blast
  then show ?thesis unfolding cur fst_conv files [symmetric] using parts keys one(4) two(4) rest
    by - (intro exI conjI, assumption+)
qed

definition disk :: "(string \<Rightarrow> string option) file_system" where
  "disk = \<lparr>fs_create = \<lambda>p w. (Ok (), w(p \<mapsto> [])),
     fs_append = \<lambda>p s w. (Ok (), w(p \<mapsto> (case w p of Some old \<Rightarrow> old | None \<Rightarrow> []) @ s)),
     fs_flush = \<lambda>p w. (Ok (), w), fs_write = \<lambda>p s w. (Ok (), w(p \<mapsto> s))\<rparr>"

interpretation disk: file_laws disk "\<lambda>w. w"
  by unfold_locales (auto simp: disk_def)

definition sample_serde :: "nat export_serde" where
  "sample_serde = \<lparr>qs_line = \<lambda>l. Ok (case l of SftLine e \<Rightarrow> concat (map ms_content (sf_messages e)) | PreferenceLine _ \<Rightarrow> ''p'' | RolloutLine _ \<Rightarrow> ''r''),
     qs_manifest = \<lambda>m. Ok (concat (em_source_record_ids m)), qs_stats = \<lambda>s. Ok ''s''\<rparr>"

lemma io_bind_known: "io_bind (io_result (res_map_err g (Ok z))) f = f z"
  by (simp add: io_bind_def io_result_def fun_eq_iff)

lemma disk_groups_Ok: "\<exists>n w'. write_groups disk sample_serde p (sft_lines P now uri v) gs w = (Ok n, w')"
proof (induction gs arbitrary: w)
  case (Cons g gs)
  have "\<exists>ls. sft_lines P now uri v g = Ok ls" by (simp add: sft_lines_def)
  then obtain ls where ls: "sft_lines P now uri v g = Ok ls" by blast
  have "\<exists>w1. io_for (write_line disk sample_serde p) ls w = (Ok (), w1)"
    by (induction ls arbitrary: w) (auto simp: io_return_def io_bind_def io_result_def write_line_def file_call_def disk_def sample_serde_def)
  then obtain w1 where "io_for (write_line disk sample_serde p) ls w = (Ok (), w1)" by blast
  then show ?case using Cons.IH [of w1] ls by (auto simp: io_bind_def io_result_def io_return_def)
qed (auto simp: io_return_def)

lemma disk_emit_Ok:
  assumes "ec_task config = Sft" "\<not> ec_emit_stats config"
  shows "\<exists>m w'. emit_export P W disk sample_serde now rs config uri v counts p split w = (Ok m, w')"
proof -
  obtain n w1 where "write_groups disk sample_serde p (sft_lines P now uri v) (group_records rs (ec_group_by config)) (w(p \<mapsto> [])) = (Ok n, w1)"
    using disk_groups_Ok by blast
  moreover have "fs_create disk p w = (Ok (), w(p \<mapsto> []))" "fs_flush disk p w1 = (Ok (), w1)" "fs_write disk q s u = (Ok (), u(q \<mapsto> s))" for q s u
    by (simp_all add: disk_def)
  moreover have "\<exists>s. qs_manifest sample_serde m = Ok s" for m by (simp add: sample_serde_def)
  ultimately show ?thesis
    using assms by (auto simp: emit_export_def task_lines_def Let_def io_bind_def file_call_def io_result_def io_return_def write_stats_def
        sample_serde_def split: sum.splits prod.splits)
qed

definition sample_split :: split_config where
  "sample_split = \<lparr>sc_eval_fraction = f64_half, sc_by = SessionId, sc_seed = 7\<rparr>"

lemma split_export_Ok:
  assumes "holds_map (table_latest sample_config) record_codec sample_config b M" "ec_task config = Sft" "\<not> ec_emit_stats config"
  shows "\<exists>m w'. export_inner table_lance tb_record_scan record_codec P W disk sample_serde now uri config p b w = (Ok m, w')"
proof -
  obtain rs where rs: "list_filtered_projected table_lance tb_record_scan record_codec None None (ec_filters config) (ec_lifecycle config) default_projection b = Ok rs"
    using list_filtered_table_Ok [OF assms(1)] by blast
  note emit = disk_emit_Ok [OF assms(2,3)]
  show ?thesis
  proof (cases "ec_split config")
    case None
    then show ?thesis using emit by (simp add: export_inner_def Let_def rs io_bind_known split: prod.split)
  next
    case (Some split)
    obtain tp ep xs counts where d: "split_paths p = (tp, ep)" "curate P rs config = (xs, counts)" by (metis surj_pair)
    let ?v = "table_version table_lance (sb_lance b)"
    obtain m w1 m' w2 where
      "emit_export P W disk sample_serde now (filter (\<lambda>r. \<not> goes_to_eval split r) xs) config uri ?v counts tp (Some (split_side split ''train'' ep)) w = (Ok m, w1)"
      "emit_export P W disk sample_serde now (filter (goes_to_eval split) xs) config uri ?v counts ep (Some (split_side split ''eval'' tp)) w1 = (Ok m', w2)"
      using emit by metis
    then show ?thesis using Some d by (simp add: export_inner_def Let_def rs io_bind_known split_records_filter io_bind_def io_return_def)
  qed
qed

theorem export_split_disjoint_witness:
  "\<exists>m w' x x'. export_inner table_lance tb_record_scan record_codec nat_ops (\<lambda>t. []) disk sample_serde 0 ''u''
     ((sample_export Sft)\<lparr>ec_split := Some sample_split\<rparr>) ''cut.jsonl''
     (reference_store sample_config [vector_record ''a'', vector_record ''b'']) Map.empty = (Ok m, w') \<and>
   w' ''cut.train.jsonl'' = Some x \<and> w' ''cut.eval.jsonl'' = Some x'"
proof -
  let ?c = "(sample_export Sft)\<lparr>ec_split := Some sample_split\<rparr>" and ?b = "reference_store sample_config [vector_record ''a'', vector_record ''b'']"
  have task: "ec_task ?c = Sft" "\<not> ec_emit_stats ?c" and split: "ec_split ?c = Some sample_split" by (simp_all add: sample_export_def)
  have paths: "split_paths ''cut.jsonl'' = (''cut.train.jsonl'', ''cut.eval.jsonl'')" by (simp add: split_paths_def Let_def)
  note h = vector_store(1) [of sample_config]
  obtain rs where rs: "list_filtered_projected table_lance tb_record_scan record_codec None None (ec_filters ?c) (ec_lifecycle ?c) default_projection ?b = Ok rs"
    using list_filtered_table_Ok [OF h] by blast
  obtain m w' where run: "export_inner table_lance tb_record_scan record_codec nat_ops (\<lambda>t. []) disk sample_serde 0 ''u'' ?c ''cut.jsonl'' ?b Map.empty = (Ok m, w')"
    using split_export_Ok [OF h task] by blast
  show ?thesis using export_split_disjoint [OF disk.file_laws_axioms split paths rs run] run by blast
qed

section \<open>What an export depends on\<close>

lemma curate_permuted:
  assumes "mset rs = mset rs'" "ec_dedup_threshold config = None"
  shows "mset (fst (curate P rs config)) = mset (fst (curate P rs' config))" "snd (curate P rs config) = snd (curate P rs' config)"
proof -
  have "mset (filter p rs) = mset (filter p rs')" for p by (simp only: mset_filter assms(1))
  moreover from this have "length (filter p rs) = length (filter p rs')" for p by (rule mset_eq_length)
  moreover have "length rs = length rs'" using assms(1) by (rule mset_eq_length)
  ultimately show "mset (fst (curate P rs config)) = mset (fst (curate P rs' config))" "snd (curate P rs config) = snd (curate P rs' config)"
    unfolding curate_stages deduped_def assms(2) by (simp_all add: Let_def)
qed

lemma emit_export_permuted:
  assumes "mset rs = mset rs'" "distinct (map cr_id rs)"
  shows "emit_export P W F Q now rs config uri version counts path split = emit_export P W F Q now rs' config uri version counts path split"
  unfolding emit_export_def group_records_permuted [OF assms] ..

text \<open>
  C29. An export depends on the records only, as long as it does not deduplicate. Two stores of the same
  version number that hold the same records, whatever their tables look like and in whatever order their
  scans deliver the rows, write the same files with the same contents and return the same manifest or error.
\<close>

theorem export_depends_on_records:
  assumes "context_laws L S c V J" "context_laws L' S' c V' J" "holds_map V J c b M" "holds_map V' J c b' M"
    and "table_version L (sb_lance b) = table_version L' (sb_lance b')" "ec_dedup_threshold config = None"
    and "list_filtered_projected L S J None None (ec_filters config) (ec_lifecycle config) default_projection b = Ok rs"
    and "list_filtered_projected L' S' J None None (ec_filters config) (ec_lifecycle config) default_projection b' = Ok rs'"
  shows "export_inner L S J P W F Q now uri config path b = export_inner L' S' J P W F Q now uri config path b'"
proof -
  have l: "distinct (map cr_id rs)" "set rs = set rs'" "distinct (map cr_id rs')"
    using context_laws.list_shown [OF assms(1,3,7)] context_laws.list_shown [OF assms(2,4,8)] by simp_all
  then have same: "mset rs = mset rs'" by (simp add: distinct_map set_eq_iff_mset_eq_distinct)
  obtain xs counts where xs: "curate P rs config = (xs, counts)" by fastforce
  obtain ys counts' where ys: "curate P rs' config = (ys, counts')" by fastforce
  have perm: "mset xs = mset ys" "counts = counts'" using curate_permuted [OF same assms(6), of P] xs ys by simp_all
  have "xs = filter (\<lambda>r. \<not> contaminated config r) (filter (eligible P config) rs)"
    using xs unfolding curate_stages deduped_def assms(6) by (auto simp: Let_def)
  then have ids: "distinct (map cr_id xs)" by (simp only: distinct_map_filter l(1))
  have part: "emit_export P W F Q now (filter p xs) config uri v n q sp = emit_export P W F Q now (filter p ys) config uri v n q sp" for p v n q sp
    by (rule emit_export_permuted) (simp_all only: mset_filter perm distinct_map_filter [OF ids])
  obtain train_path eval_path where paths: "split_paths path = (train_path, eval_path)" by fastforce
  show ?thesis
    unfolding export_inner_def Let_def assms(5,7,8) io_bind_known xs ys perm(2) paths split_records_filter prod.case part
      emit_export_permuted [OF perm(1) ids] ..
qed

theorem export_depends_on_records_witness:
  "export_inner table_lance tb_record_scan record_codec nat_ops (\<lambda>t. []) disk sample_serde 0 ''u'' (sample_export Sft) ''cut.jsonl''
     (reference_store sample_config [vector_record ''a'', vector_record ''b'']) =
   export_inner table_lance tb_record_scan record_codec nat_ops (\<lambda>t. []) disk sample_serde 0 ''u'' (sample_export Sft) ''cut.jsonl''
     (reference_store sample_config [vector_record ''b'', vector_record ''a''])"
proof -
  let ?c = "sample_export Sft"
  note h = vector_store [of sample_config]
  obtain rs rs' where rs:
    "list_filtered_projected table_lance tb_record_scan record_codec None None (ec_filters ?c) (ec_lifecycle ?c) default_projection
       (reference_store sample_config [vector_record ''a'', vector_record ''b'']) = Ok rs"
    "list_filtered_projected table_lance tb_record_scan record_codec None None (ec_filters ?c) (ec_lifecycle ?c) default_projection
       (reference_store sample_config [vector_record ''b'', vector_record ''a'']) = Ok rs'"
    using list_filtered_table_Ok [OF h(1)] list_filtered_table_Ok [OF h(2)] by metis
  show ?thesis
    by (rule export_depends_on_records [OF record_table.context_laws_axioms record_table.context_laws_axioms h _ _ rs])
      (simp_all add: reference_store_def table_lance_def sample_export_def)
qed

section \<open>Time travel\<close>

text \<open>
  C35. An export of a past version leaves the handle pinned. After an export with a version has succeeded,
  the handle is pinned to the version it had before, also when it was following the latest version.
\<close>

theorem versioned_export_pins:
  assumes "ec_version config = Some target"
    and "export_training L S C J P W F Q now uri config path (b, w) = (Ok m, (b', w'))"
  shows "sb_pinned b' = Some (table_version L (sb_lance b))"
  using assms(2) unfolding export_training_def Let_def assms(1)
  by (auto simp: on_store_def checkout_def io_result_def split: prod.splits sum.splits)

theorem versioned_export_pins_witness:
  "\<exists>m b' w'. export_training table_lance tb_record_scan (\<lambda>v l. (Ok (), l)) record_codec nat_ops (\<lambda>t. []) disk sample_serde 0 ''u''
     ((sample_export Sft)\<lparr>ec_version := Some 1\<rparr>) ''cut.jsonl''
     (reference_store sample_config [vector_record ''a'', vector_record ''b''], Map.empty) = (Ok m, (b', w')) \<and>
   sb_pinned (reference_store sample_config [vector_record ''a'', vector_record ''b'']) = None \<and> sb_pinned b' = Some 1"
proof -
  let ?c = "(sample_export Sft)\<lparr>ec_version := Some 1\<rparr>" and ?b = "reference_store sample_config [vector_record ''a'', vector_record ''b'']"
  let ?C = "\<lambda>(v :: nat) (l :: table). (Ok () :: (lance_error, unit) result, l)"
  have task: "ec_task ?c = Sft" "\<not> ec_emit_stats ?c" and version: "ec_version ?c = Some 1" by (simp_all add: sample_export_def)
  have "holds_map (table_latest sample_config) record_codec sample_config (?b\<lparr>sb_pinned := Some 1\<rparr>)
      [''a'' \<mapsto> vector_record ''a'', ''b'' \<mapsto> vector_record ''b'']"
    using vector_store(1) [of sample_config] by (simp add: holds_map_def handle_ok_def)
  from split_export_Ok [OF this task] obtain m w' where run:
    "export_inner table_lance tb_record_scan record_codec nat_ops (\<lambda>t. []) disk sample_serde 0 ''u'' ?c ''cut.jsonl'' (?b\<lparr>sb_pinned := Some 1\<rparr>) Map.empty = (Ok m, w')"
    by blast
  have checkout: "checkout ?C v b = (Ok (), b\<lparr>sb_pinned := Some v\<rparr>)" for v and b :: "table base"
    by (cases b) (simp add: checkout_def call_def io_bind_def io_match_def raw_call_def io_return_def)
  have one: "table_version table_lance (sb_lance ?b) = 1" "sb_pinned ?b = None" by (simp_all add: reference_store_def table_lance_def)
  obtain b' where fin: "export_training table_lance tb_record_scan ?C record_codec nat_ops (\<lambda>t. []) disk sample_serde 0 ''u'' ?c ''cut.jsonl'' (?b, Map.empty) = (Ok m, (b', w'))"
    using run by (simp add: export_training_def version Let_def io_bind_def on_store_def on_files_def checkout io_result_def)
  show ?thesis using fin versioned_export_pins [OF version fin] one by auto
qed

end
