(* ===== verification/Spec2Isabelle.thy ===== *)
theory Spec2Isabelle
  imports Datagen_Store_Correct Generic_Properties Task_Properties Export_Properties
begin

text \<open>
  A verification library for lance-context, a multimodal context store on Lance with an event-sourced
  checkpoint log for data generation, user-declared tables, and a master process that schedules
  maintenance.

  \<^bold>\<open>The program.\<close> The crate \<open>lance-context-core\<close> holds the stores. Each is a typed layer over \<open>StorageBase\<close>
  (\<open>store_base.rs\<close>): a write is validated, encoded as an Arrow batch and put into a write-ahead log; the log
  is sealed into generations that scans can read, and the generations are merged into the base table.
  \<open>datagen.rs\<close> and \<open>datagen_store.rs\<close> are the checkpoint log of data-generation items: events, the writer
  that stamps them, the fold that recovers an item, and the store. \<open>generic_codec.rs\<close> and
  \<open>lance-context-api/src/schema_spec.rs\<close> are the tables with a schema the user declares.
  \<open>export.rs\<close> turns the records of a context store into training sets.
  \<open>store.rs\<close> and \<open>record.rs\<close> are the context store: records that replace one another by external id, with
  tombstones, lifecycle and filters. \<open>lance-context-master/src/task_store.rs\<close> is the queue of maintenance
  tasks that several masters share through etcd.

  \<^bold>\<open>The theories.\<close>

  \<^item> \<open>Prelude\<close>: results (\<open>Ok\<close>/\<open>Err\<close> over the sum type, with \<open>?\<close> as \<open>res_bind\<close>), stateful calls (\<open>io\<close>), machine
    integers, decimal printing and parsing, and the \<open>BTreeMap\<close> behind the locale \<open>ordered_map\<close>.
  \<^item> \<open>Floats\<close>: \<open>f32\<close>/\<open>f64\<close> as bit patterns, with widening and rounding; \<open>Arrow\<close>: schemas, cells, batches, typed
    column access and \<open>align_batch_to_schema\<close>.
  \<^item> \<open>Datagen_Id\<close>, \<open>Datagen_Event\<close>, \<open>Datagen_Writer\<close>, \<open>Datagen_Fold\<close>, \<open>Datagen_Tree\<close>: \<open>datagen.rs\<close> in its own order, one
    definition per function; \<open>Datagen_Resume\<close>: the logs a stream leaves behind over any number of crashes
    and resumes, against an abstract account of the writer's calls; \<open>Datagen_Properties\<close>: its claims.
  \<^item> \<open>Datagen_Codec\<close>, \<open>Datagen_Store\<close>, \<open>Datagen_Store_Correct\<close>: \<open>datagen_store.rs\<close>, from batch validation over the row
    codec to appends and reads, and what an append and a read by item id guarantee end to end.
  \<^item> \<open>Storage_Base\<close>, \<open>Storage_Safety\<close>: the write path of \<open>store_base.rs\<close> (\<open>put\<close> with one retry on a fence, sealing,
    the two-phase merge with its surgical drain) and why no row is lost in it.
  \<^item> \<open>Generic_Schema\<close>, \<open>Generic_Codec\<close>, \<open>Generic_Correct\<close>, \<open>Generic_Properties\<close>: declarations, their validation and Arrow
    schema, the JSON row codec, and its round trip, typing and acceptance.
  \<^item> \<open>Context_Record\<close>, \<open>Context_Codec\<close>, \<open>Context_Store\<close>: \<open>record.rs\<close> and \<open>store.rs\<close>: lifecycle and JSON filters, the schema
    and row codec, and the operations; \<open>Context_Filters\<close>, \<open>Context_Codec_Correct\<close>: what filters and rows mean;
    \<open>Context_Table\<close>: the laws of a table with one writer and the store's map of records behind it;
    \<open>Context_Chains\<close>, \<open>Context_Correct\<close>: the records of an external id form a chain, and every operation keeps it;
    \<open>Context_Exact\<close>: when a call succeeds; \<open>Context_Run\<close>: sequences of operations; \<open>Context_Reference\<close>: a table
    and a JSON codec for which the laws hold; \<open>Context_Properties\<close>: the claims.
  \<^item> \<open>Float_Arith\<close>: \<open>f32\<close> arithmetic on bit patterns, rounded to nearest even, and the total order; \<open>Context_Search\<close>: distances,
    vector search, the lexical score and rank fusion of \<open>store.rs\<close>; \<open>Context_Rank\<close>: what search and retrieval return.
  \<^item> \<open>Export\<close>, \<open>Export_Correct\<close>, \<open>Export_Properties\<close>: \<open>export.rs\<close>: curation, grouping, example shapes, the split with its
    hash, statistics, manifests and files; what each stage keeps, and the claims.
  \<^item> \<open>Task_Store\<close>: the queue's operations over etcd; \<open>Task_Safety\<close>: their transactions as a step relation with
    its invariant; \<open>Task_Handlers\<close>: every operation takes only such steps, by rely and guarantee;
    \<open>Task_Lifecycle\<close>: the abstract queue and the simulation; \<open>Task_Progress\<close>: polling ends on a quiet queue;
    \<open>Task_Properties\<close>: the claims.

  \<^bold>\<open>Parameters.\<close> Code outside the repository is an argument: Lance (record \<open>lance\<close>, laws \<open>lance_laws\<close> and
  \<open>lance_reads\<close>), its scanner as the context store uses it while it is the only writer of a table that seals on
  every put (\<open>sole_writer\<close>, \<open>context_laws\<close>), etcd with the UUID generator and the clock (\<open>etcd\<close>, \<open>etcd_laws\<close>, \<open>quiet_queue\<close>), \<open>serde_json\<close>,
  base64 and RFC 3339 parsing (\<open>serde\<close>, \<open>codec\<close>, \<open>json_ops\<close>, \<open>json_laws\<close>), UUIDv5 and the wall clock of the
  writer, the Unicode tables that tokenising reads (\<open>unicode\<close>), the order in which a hash map
  delivers its values (\<open>hash_order\<close>, \<open>delivers_all\<close>),
  and the file system an export writes to (\<open>file_system\<close>, \<open>file_laws\<close>). Each law is discharged for a concrete instance: a table model of Lance, a sorted-list etcd and
  a length-prefixed serialiser, and reference JSON operations.

  \<^bold>\<open>Effects and errors.\<close> A stateful call is a function of type \<open>io\<close> from a state to a result and a state, so
  that what a failing call left behind is visible. Errors are values; every \<open>?\<close>, early return and
  \<open>map_err\<close> of the source is a branch. Concurrency is interleaving: of appends, seals and merges in
  \<open>Storage_Safety\<close>, of masters, crashes and lease expiries between any two etcd calls in \<open>Task_Handlers\<close>.

  \<^bold>\<open>Bounds.\<close> Sequence numbers, branch numbers and timestamps are integers with the \<open>i64\<close> range and its
  saturation or wrap-around written out where the code depends on it; floats and bytes are words.
  Two points Rust leaves open are fixed by a convention: a NaN that arithmetic produces is the positive
  quiet one (\<open>f32_nan\<close>), and \<open>sort_by\<close> with an inconsistent comparison is the value \<open>UnspecifiedOrder\<close>.
  Two loops of the task store may run forever while other masters act, the paging of \<open>claim_next\<close> and the
  wait for a coordination lock: they carry fuel, and running out is the value \<open>PollBound\<close>, an error no Rust
  call returns. \<open>Task_Progress\<close> shows that fuel beyond the number of queued keys is enough while nobody
  enqueues; the safety theorems hold for every fuel.

  \<^bold>\<open>Not modelled.\<close> Of the modelled files: the background task that renews a lease (a lease may expire at
  any step instead), index creation, compaction, opening and the blob side channel of the datagen store.
  Of the context store: payload objects, opening, migration and compaction.
  Of the rest: the rollout store, the generic store's own operations, evaluation, the registry, the master's scanner, scheduler and statistics, and the server, client,
  Python and UI layers, which forward to the stores over HTTP or FFI.
\<close>

end
